(* ===== verification/Prelude.thy ===== *)
theory Prelude
  imports "HOL-Library.Word" "HOL-Library.Monad_Syntax"
begin

text \<open>
  Shared vocabulary of the development: the machine integer types of the C code, buffers with
  bounds-checked access, counted loops, and the generic lemmas the component theories use.

  Conventions. A C operation whose behaviour can be undefined (an access outside a buffer, a
  NULL pointer handed to the C library, a mutex destroyed twice) returns an option:
  \<open>None\<close> is undefined behaviour and \<open>Some r\<close> is a normal return. A pointer argument the code
  compares with NULL is an option as well, \<open>None\<close> being NULL. Plain C \<open>int\<close> values that never
  come near their limits are \<open>int\<close>; everything the code keeps in \<open>uint8_t\<close>, \<open>uint16_t\<close>,
  \<open>uint32_t\<close> or \<open>uint64_t\<close> is a word of that width, so that wrap-around is the machine's.
\<close>

unbundle bit_operations_syntax

type_synonym u8 = "8 word"
type_synonym u16 = "16 word"
type_synonym u32 = "32 word"
type_synonym u64 = "64 word"
type_synonym bytes = "u8 list"
type_synonym 'a run = "'a option"

named_theorems buf_simps \<open>evaluation of bounds-checked buffer accesses\<close>
named_theorems frame_simps \<open>the byte layout of Modbus TCP frames\<close>

section \<open>Bytes and 16-bit registers\<close>

text \<open>\<open>(uint8_t)(w >> 8)\<close>, \<open>(uint8_t)(w & 0xFFu)\<close> and \<open>((uint16_t)h << 8) | (uint16_t)l\<close>.\<close>

definition hi_byte :: "u16 \<Rightarrow> u8" where
  "hi_byte w = ucast (drop_bit 8 w)"

definition lo_byte :: "u16 \<Rightarrow> u8" where
  "lo_byte w = ucast (w AND 0xFF)"

definition be16 :: "u8 \<Rightarrow> u8 \<Rightarrow> u16" where
  "be16 h l = (push_bit 8 (ucast h)) OR (ucast l)"

lemma mask_8_16: "(0xFF :: u16) = mask 8"
  by (simp add: mask_eq_exp_minus_1)

lemma be16_hi_lo [simp]: "be16 (hi_byte w) (lo_byte w) = w"
  unfolding be16_def hi_byte_def lo_byte_def mask_8_16
  by (rule bit_word_eqI) (auto simp: bit_simps)

lemma hi_byte_be16 [simp]: "hi_byte (be16 h l) = h"
  unfolding be16_def hi_byte_def
  by (rule bit_word_eqI) (auto simp: bit_simps dest: bit_imp_le_length)

lemma lo_byte_be16 [simp]: "lo_byte (be16 h l) = l"
  unfolding be16_def lo_byte_def mask_8_16
  by (rule bit_word_eqI) (auto simp: bit_simps dest: bit_imp_le_length)

text \<open>A register list on the wire, high byte first.\<close>

definition regs_bytes :: "u16 list \<Rightarrow> bytes" where
  "regs_bytes vs = concat (map (\<lambda>v. [hi_byte v, lo_byte v]) vs)"

lemma regs_bytes_simps [simp]:
  "regs_bytes [] = []"
  "regs_bytes (v # vs) = hi_byte v # lo_byte v # regs_bytes vs"
  "regs_bytes (vs @ ws) = regs_bytes vs @ regs_bytes ws"
  by (simp_all add: regs_bytes_def)

lemma length_regs_bytes [simp]: "length (regs_bytes vs) = 2 * length vs"
  by (induction vs) auto

lemma nth_regs_bytes:
  assumes "i < length vs"
  shows "regs_bytes vs ! (2 * i) = hi_byte (vs ! i)"
    and "regs_bytes vs ! Suc (2 * i) = lo_byte (vs ! i)"
  using assms
proof (induction vs arbitrary: i)
  case (Cons v vs)
  case 1
  show ?case using Cons 1 by (cases i) auto
next
  case (Cons v vs)
  case 2
  show ?case using Cons 2 by (cases i) auto
qed auto

lemma unat_of_nat_small: "n < 2 ^ LENGTH('a) \<Longrightarrow> unat (of_nat n :: 'a::len word) = n"
  by (simp add: unat_of_nat take_bit_nat_eq_self)

lemma word_eq_of_nat: "unat w = n \<Longrightarrow> w = word_of_nat n"
  by (metis of_nat_unat ucast_id)

lemma u16_less: "unat (x :: u16) < 65536"
  using unsigned_less [of x] by simp

lemma uint_u8_le [simp]: "uint (x :: u8) \<le> 255"
  using unsigned_less [of x, where 'a = int] by simp

lemma neg_le_uint [simp]: "- numeral k \<le> uint (x :: 'a::len word)"
  by (rule order_trans [of _ 0]) simp_all

section \<open>Buffers\<close>

text \<open>
  A C buffer is the list of the bytes (or registers) it really has. An access outside it is
  undefined behaviour, whatever capacity the caller claims.
\<close>

definition buf_load :: "'a list \<Rightarrow> nat \<Rightarrow> 'a run" where
  "buf_load b i = (if i < length b then Some (b ! i) else None)"

definition buf_store :: "nat \<Rightarrow> 'a \<Rightarrow> 'a list \<Rightarrow> 'a list run" where
  "buf_store i x b = (if i < length b then Some (b[i := x]) else None)"

text \<open>\<open>memcpy\<close> of the list \<open>xs\<close> to offset \<open>off\<close>.\<close>

definition buf_blit :: "nat \<Rightarrow> 'a list \<Rightarrow> 'a list \<Rightarrow> 'a list run" where
  "buf_blit off xs b =
     (if off + length xs \<le> length b then Some (take off b @ xs @ drop (off + length xs) b)
      else None)"

text \<open>A run of assignments \<open>b[i] = x\<close>, in order.\<close>

fun buf_stores :: "(nat \<times> 'a) list \<Rightarrow> 'a list \<Rightarrow> 'a list run" where
  "buf_stores [] b = Some b"
| "buf_stores ((i, x) # ws) b = buf_store i x b \<bind> buf_stores ws"

text \<open>\<open>for (i = \<dots>)\<close> over a known index list, with a body that may be undefined.\<close>

fun foldM :: "('a \<Rightarrow> 's \<Rightarrow> 's run) \<Rightarrow> 'a list \<Rightarrow> 's \<Rightarrow> 's run" where
  "foldM f [] s = Some s"
| "foldM f (x # xs) s = f x s \<bind> foldM f xs"

lemma foldM_append: "foldM f (xs @ ys) s = foldM f xs s \<bind> foldM f ys"
  by (induction xs arbitrary: s) (auto split: bind_splits)

lemma foldM_invariant:
  assumes "P s" and "\<And>x s. x \<in> set xs \<Longrightarrow> P s \<Longrightarrow> \<exists>s'. f x s = Some s' \<and> P s'"
  shows "\<exists>s'. foldM f xs s = Some s' \<and> P s'"
  using assms
proof (induction xs arbitrary: s)
  case (Cons x xs)
  obtain s1 where s1: "f x s = Some s1" "P s1" using Cons.prems(2) [OF _ Cons.prems(1), of x] by auto
  have "\<exists>s'. foldM f xs s1 = Some s' \<and> P s'"
    using Cons.prems(2) by (intro Cons.IH [OF s1(2)]) simp
  then show ?case using s1(1) by simp
qed simp

lemma foldM_preserves:
  assumes "foldM f xs s = Some s'" and "P s" and "\<And>x s s'. x \<in> set xs \<Longrightarrow> f x s = Some s' \<Longrightarrow> P s \<Longrightarrow> P s'"
  shows "P s'"
  using assms
proof (induction xs arbitrary: s)
  case (Cons x xs)
  obtain s1 where "f x s = Some s1" "foldM f xs s1 = Some s'" using Cons.prems(1) by (auto split: bind_splits)
  then show ?case using Cons.IH [of s1] Cons.prems(2,3) by (metis list.set_intros)
qed simp

lemma buf_load_simps [buf_simps]:
  "i < length b \<Longrightarrow> buf_load b i = Some (b ! i)"
  "\<not> i < length b \<Longrightarrow> buf_load b i = None"
  by (simp_all add: buf_load_def)

lemma buf_store_simps [buf_simps]:
  "i < length b \<Longrightarrow> buf_store i x b = Some (b[i := x])"
  "\<not> i < length b \<Longrightarrow> buf_store i x b = None"
  by (simp_all add: buf_store_def)

lemma buf_store_length: "buf_store i x b = Some b' \<Longrightarrow> length b' = length b"
  by (auto simp: buf_store_def split: if_splits)

lemma buf_blit_length: "buf_blit off xs b = Some b' \<Longrightarrow> length b' = length b"
  by (auto simp: buf_blit_def split: if_splits)

lemma buf_stores_length: "buf_stores ws b = Some b' \<Longrightarrow> length b' = length b"
  by (induction ws b arbitrary: b' rule: buf_stores.induct)
     (auto dest: buf_store_length split: bind_splits)

lemma buf_stores_append:
  "buf_stores (ws @ ws') b = buf_stores ws b \<bind> buf_stores ws'"
  by (induction ws b rule: buf_stores.induct) (auto split: bind_splits)

lemma upt_block: "[k..<Suc (k + n)] = k # [Suc k..<Suc (k + n)]"
  by (simp add: upt_conv_Cons del: upt_Suc)

text \<open>Consecutive stores are one block copy.\<close>

lemma buf_stores_block:
  assumes "k + length xs \<le> length b"
  shows "buf_stores (zip [k..<k + length xs] xs) b
    = Some (take k b @ xs @ drop (k + length xs) b)"
  using assms
proof (induction xs arbitrary: k b)
  case Nil
  then show ?case by simp
next
  case (Cons x xs)
  have len: "Suc k + length xs \<le> length (b[k := x])" and kb: "k < length b"
    using Cons.prems by simp_all
  have "take (Suc k) (b[k := x]) = take k b @ [x]"
    using kb by (simp add: take_Suc_conv_app_nth)
  then show ?case
    using Cons.IH [OF len] kb by (simp add: upt_block buf_store_simps del: upt_Suc)
qed

lemma buf_stores_overflow:
  assumes "length b < k + length xs" and "xs \<noteq> []"
  shows "buf_stores (zip [k..<k + length xs] xs) b = None"
  using assms
proof (induction xs arbitrary: k b)
  case Nil
  then show ?case by simp
next
  case (Cons x xs)
  show ?case
  proof (cases "k < length b")
    case True
    with Cons.prems have "xs \<noteq> []" by auto
    with Cons.IH [of "b[k := x]" "Suc k"] Cons.prems True show ?thesis
      by (simp add: upt_block buf_store_simps del: upt_Suc)
  next
    case False
    then show ?thesis by (simp add: upt_block buf_store_simps del: upt_Suc)
  qed
qed

section \<open>C strings in fixed arrays\<close>

text \<open>
  A \<open>char\<close> array is the list of its bytes; the string it holds ends before the first NUL.
  \<open>strncpy(dst, src, n)\<close> copies at most \<open>n\<close> characters and pads with NULs up to \<open>n\<close>.
\<close>

definition cstr :: "string \<Rightarrow> string" where
  "cstr b = takeWhile (\<lambda>c. c \<noteq> CHR 0x00) b"

definition strncpy :: "string \<Rightarrow> string \<Rightarrow> nat \<Rightarrow> string run" where
  "strncpy dst src n =
     buf_blit 0 (take n (cstr src) @ replicate (n - length (cstr src)) (CHR 0x00)) dst"

lemma cstr_no_nul: "CHR 0x00 \<notin> set (cstr b)"
  by (auto simp: cstr_def dest: set_takeWhileD)

lemma cstr_id: "CHR 0x00 \<notin> set s \<Longrightarrow> cstr s = s"
  by (auto simp: cstr_def takeWhile_eq_all_conv)

lemma cstr_append_nul: "CHR 0x00 \<notin> set s \<Longrightarrow> cstr (s @ CHR 0x00 # r) = s"
  by (induction s) (auto simp: cstr_def)

lemma cstr_cstr [simp]: "cstr (cstr b) = cstr b"
  by (rule cstr_id) (rule cstr_no_nul)

text \<open>
  The idiom of the code: \<open>strncpy(dst, src, sizeof(dst) - 1)\<close> into an array whose last byte is
  NUL holds a terminated string, the source cut at \<open>sizeof(dst) - 1\<close> characters.
\<close>

lemma strncpy_terminated:
  assumes "length dst = Suc n" and "last dst = CHR 0x00"
  obtains d where "strncpy dst src n = Some d" and "length d = Suc n"
    and "last d = CHR 0x00" and "cstr d = take n (cstr src)"
proof -
  let ?p = "take n (cstr src) @ replicate (n - length (cstr src)) (CHR 0x00)"
  have lp: "length ?p = n" by simp
  have tail: "drop n dst = [CHR 0x00]"
  proof -
    have "dst = butlast dst @ [CHR 0x00]"
      using assms by (metis append_butlast_last_id length_0_conv nat.distinct(1))
    moreover have "length (butlast dst) = n" using assms by simp
    ultimately show ?thesis by (metis append_eq_conv_conj)
  qed
  have eq: "strncpy dst src n = Some (?p @ [CHR 0x00])"
    using assms lp tail by (simp add: strncpy_def buf_blit_def)
  have nn: "CHR 0x00 \<notin> set (take n (cstr src))"
    using cstr_no_nul by (meson in_set_takeD)
  have "cstr (?p @ [CHR 0x00]) = take n (cstr src)"
  proof (cases "n - length (cstr src)")
    case 0
    then show ?thesis using nn by (simp add: cstr_append_nul)
  next
    case (Suc m)
    then show ?thesis using nn by (simp add: cstr_append_nul)
  qed
  moreover have "length (?p @ [CHR 0x00]) = Suc n" using lp by simp
  ultimately show ?thesis using that eq by (metis last_snoc)
qed

end
