(* ===== verification/Modbus_Frame.thy ===== *)
theory Modbus_Frame
  imports Prelude
begin

text \<open>
  Modbus TCP framing: the constants of \<open>lib/modbus/modbus_defines.h\<close>, the context and
  configuration types of \<open>lib/modbus/modbus_tcp.h\<close>, and the frame builders and the request
  parser of \<open>lib/modbus/modbus_tcp.c\<close> (lines 474 to 662).

  A frame buffer is the list of bytes the caller really owns; the \<open>req_cap\<close> argument is what the
  caller claims. A builder that writes past the buffer returns \<open>None\<close>. The user callbacks of a
  configuration are functions on the caller's state \<open>'w\<close> (the \<open>userdata\<close>), \<open>None\<close> when NULL.
\<close>

section \<open>Constants\<close>

definition MODBUS_FUNC_READ_HOLDING_REGISTERS :: u8 where
  "MODBUS_FUNC_READ_HOLDING_REGISTERS = 0x03"
definition MODBUS_FUNC_WRITE_SINGLE_REGISTER :: u8 where
  "MODBUS_FUNC_WRITE_SINGLE_REGISTER = 0x06"
definition MODBUS_FUNC_WRITE_MULTIPLE_REGISTERS :: u8 where
  "MODBUS_FUNC_WRITE_MULTIPLE_REGISTERS = 0x10"

definition MODBUS_TCP_MBAP_HEADER_LEN :: nat where
  "MODBUS_TCP_MBAP_HEADER_LEN = 6"
definition MODBUS_TCP_MBAP_LEN_STANDARD_REQ :: u8 where
  "MODBUS_TCP_MBAP_LEN_STANDARD_REQ = 6"
definition MODBUS_TCP_MIN_READ_REQ_LENGTH :: nat where
  "MODBUS_TCP_MIN_READ_REQ_LENGTH = 12"
definition MODBUS_TCP_MAX_ADU_LENGTH :: nat where
  "MODBUS_TCP_MAX_ADU_LENGTH = 260"

definition MODBUS_MAX_READ_REGISTERS :: u16 where
  "MODBUS_MAX_READ_REGISTERS = 125"
definition MODBUS_MAX_WRITE_REGISTERS :: u16 where
  "MODBUS_MAX_WRITE_REGISTERS = 123"

definition MODBUS_EXCEPTION_FLAG :: u8 where
  "MODBUS_EXCEPTION_FLAG = 0x80"
definition MODBUS_EX_ILLEGAL_FUNCTION :: u8 where
  "MODBUS_EX_ILLEGAL_FUNCTION = 0x01"
definition MODBUS_EX_ILLEGAL_DATA_ADDRESS :: u8 where
  "MODBUS_EX_ILLEGAL_DATA_ADDRESS = 0x02"

definition MB_TCP_MAX_CLIENTS :: nat where
  "MB_TCP_MAX_CLIENTS = 10"

lemmas modbus_consts =
  MODBUS_FUNC_READ_HOLDING_REGISTERS_def MODBUS_FUNC_WRITE_SINGLE_REGISTER_def
  MODBUS_FUNC_WRITE_MULTIPLE_REGISTERS_def MODBUS_TCP_MBAP_HEADER_LEN_def
  MODBUS_TCP_MBAP_LEN_STANDARD_REQ_def MODBUS_TCP_MIN_READ_REQ_LENGTH_def
  MODBUS_TCP_MAX_ADU_LENGTH_def MODBUS_MAX_READ_REGISTERS_def MODBUS_MAX_WRITE_REGISTERS_def
  MODBUS_EXCEPTION_FLAG_def MODBUS_EX_ILLEGAL_FUNCTION_def MODBUS_EX_ILLEGAL_DATA_ADDRESS_def
  MB_TCP_MAX_CLIENTS_def

section \<open>Mutexes\<close>

text \<open>
  The life of a \<open>pthread_mutex_t\<close> as POSIX documents it: freshly zeroed memory is not an
  initialised mutex; locking or destroying one that is not initialised is undefined.
\<close>

datatype mutex = Mutex_Unset | Mutex_Ready | Mutex_Destroyed

definition mutex_lock :: "mutex \<Rightarrow> unit run" where
  "mutex_lock m = (if m = Mutex_Ready then Some () else None)"

definition mutex_destroy :: "mutex \<Rightarrow> mutex run" where
  "mutex_destroy m = (if m = Mutex_Ready then Some Mutex_Destroyed else None)"

section \<open>Configuration and context\<close>

datatype mb_tcp_mode = MB_TCP_MODE_LISTEN_SERVER | MB_TCP_MODE_CONNECT_CLIENT

record 'w mb_tcp_config =
  mc_mode :: mb_tcp_mode
  mc_remote_host :: "string option"
  mc_port :: u16
  mc_bind_iface :: "string option"
  mc_connect_timeout_sec :: u32
  mc_connect_retry_sec :: u32
  mc_recv_timeout_ms :: u32
  mc_max_clients :: u8
  mc_on_link :: "(int \<Rightarrow> int \<Rightarrow> 'w \<Rightarrow> 'w) option"
  mc_on_init :: "('w \<Rightarrow> 'w) option"
  mc_on_process :: "(int \<Rightarrow> 'w \<Rightarrow> int \<times> 'w) option"
  mc_on_error :: "(int \<Rightarrow> 'w \<Rightarrow> 'w) option"

record 'w mb_tcp_ctx =
  keep_running :: bool
  ctx_tid :: u16
  ctx_lock :: mutex
  ctx_cfg :: "'w mb_tcp_config"
  listen_sock :: int
  stream_sock :: int
  client_fds :: "int list"

section \<open>Frame builders\<close>

text \<open>The transaction counter, taken with the context locked: 1, 2, \<dots>, 65535, 1, \<dots>\<close>

definition bump_tid :: "u16 \<Rightarrow> u16" where
  "bump_tid tid = (if tid < 0xFFFF then tid + 1 else 1)"

text \<open>
  The register loop of the FC16 request and of the read response: register \<open>i\<close> goes to bytes
  \<open>off + 2 * i\<close> and \<open>off + 2 * i + 1\<close>, high byte first.
\<close>

definition put_regs :: "nat \<Rightarrow> u16 list \<Rightarrow> nat \<Rightarrow> bytes \<Rightarrow> bytes run" where
  "put_regs off vs n =
     foldM (\<lambda>i b. do {
         v \<leftarrow> buf_load vs i;
         b \<leftarrow> buf_store (off + 2 * i) (hi_byte v) b;
         buf_store (off + 2 * i + 1) (lo_byte v) b
       }) [0..<n]"

definition mb_tcp_build_request_basis ::
  "'w mb_tcp_ctx option \<Rightarrow> u8 \<Rightarrow> int \<Rightarrow> int \<Rightarrow> u16 \<Rightarrow> bytes option \<Rightarrow> nat
   \<Rightarrow> (int \<times> 'w mb_tcp_ctx option \<times> bytes option) run" where
  "mb_tcp_build_request_basis ctx modbus_uid fn addr nb req req_cap =
     (case (ctx, req) of
        (Some c, Some b) \<Rightarrow>
          if req_cap < MODBUS_TCP_MIN_READ_REQ_LENGTH then Some (-1, ctx, req)
          else if fn < 0 \<or> fn > 255 \<or> addr < 0 \<or> addr > 65535 then Some (-1, ctx, req)
          else do {
            mutex_lock (ctx_lock c);
            let tid = bump_tid (ctx_tid c);
            let mbap_len = (1 + 5 :: u16);
            let a = (word_of_int addr :: u16);
            b \<leftarrow> buf_stores
              [(0, hi_byte tid), (1, lo_byte tid), (2, 0), (3, 0),
               (4, hi_byte mbap_len), (5, lo_byte mbap_len), (6, modbus_uid),
               (7, word_of_int fn), (8, hi_byte a), (9, lo_byte a),
               (10, hi_byte nb), (11, lo_byte nb)] b;
            Some (0, Some (c\<lparr>ctx_tid := tid\<rparr>), Some b)
          }
      | _ \<Rightarrow> Some (-1, ctx, req))"

definition mb_tcp_build_fc06_request ::
  "'w mb_tcp_ctx option \<Rightarrow> u8 \<Rightarrow> u16 \<Rightarrow> u16 \<Rightarrow> bytes option \<Rightarrow> nat
   \<Rightarrow> (int \<times> 'w mb_tcp_ctx option \<times> bytes option) run" where
  "mb_tcp_build_fc06_request ctx modbus_uid addr val req req_cap =
     (case (ctx, req) of
        (Some c, Some b) \<Rightarrow>
          if req_cap < MODBUS_TCP_MIN_READ_REQ_LENGTH then Some (-1, ctx, req)
          else do {
            mutex_lock (ctx_lock c);
            let tid = bump_tid (ctx_tid c);
            b \<leftarrow> buf_stores
              [(0, hi_byte tid), (1, lo_byte tid), (2, 0), (3, 0),
               (4, 0), (5, MODBUS_TCP_MBAP_LEN_STANDARD_REQ), (6, modbus_uid),
               (7, MODBUS_FUNC_WRITE_SINGLE_REGISTER), (8, hi_byte addr), (9, lo_byte addr),
               (10, hi_byte val), (11, lo_byte val)] b;
            Some (0, Some (c\<lparr>ctx_tid := tid\<rparr>), Some b)
          }
      | _ \<Rightarrow> Some (-1, ctx, req))"

text \<open>
  The byte count is a \<open>uint8_t\<close>, so it is the low byte of \<open>2 * num_registers\<close>; the MBAP length
  and the capacity check are computed from it.
\<close>

definition mb_tcp_build_fc16_request ::
  "'w mb_tcp_ctx option \<Rightarrow> u8 \<Rightarrow> u16 \<Rightarrow> u16 \<Rightarrow> u16 list option \<Rightarrow> bytes option \<Rightarrow> nat
   \<Rightarrow> (int \<times> 'w mb_tcp_ctx option \<times> bytes option) run" where
  "mb_tcp_build_fc16_request ctx modbus_uid addr num_registers vals req req_cap =
     (case (ctx, req, vals) of
        (Some c, Some b, Some vs) \<Rightarrow>
          if num_registers = 0 then Some (-1, ctx, req)
          else (let
              byte_count = (word_of_nat (2 * unat num_registers) :: u8);
              mbap_len = 7 + (ucast byte_count :: u16);
              total_len = MODBUS_TCP_MBAP_HEADER_LEN + unat mbap_len
            in if req_cap < total_len then Some (-1, ctx, req)
            else do {
              mutex_lock (ctx_lock c);
              let tid = bump_tid (ctx_tid c);
              b \<leftarrow> buf_stores
                [(0, hi_byte tid), (1, lo_byte tid), (2, 0), (3, 0),
                 (4, hi_byte mbap_len), (5, lo_byte mbap_len), (6, modbus_uid),
                 (7, MODBUS_FUNC_WRITE_MULTIPLE_REGISTERS), (8, hi_byte addr), (9, lo_byte addr),
                 (10, hi_byte num_registers), (11, lo_byte num_registers),
                 (12, byte_count)] b;
              b \<leftarrow> put_regs 13 vs (unat num_registers) b;
              Some (int total_len, Some (c\<lparr>ctx_tid := tid\<rparr>), Some b)
            })
      | _ \<Rightarrow> Some (-1, ctx, req))"

section \<open>The request parser\<close>

text \<open>
  The three out parameters are cells: \<open>None\<close> is a NULL pointer, \<open>Some x\<close> a cell holding \<open>x\<close>.
  \<open>len\<close> is the length the caller claims for \<open>request\<close>.
\<close>

definition mb_tcp_parse_request ::
  "bytes option \<Rightarrow> nat \<Rightarrow> u8 option \<Rightarrow> u16 option \<Rightarrow> u16 option
   \<Rightarrow> (int \<times> u8 option \<times> u16 option \<times> u16 option) run" where
  "mb_tcp_parse_request request len function_code address quantity =
     (case (request, function_code, address, quantity) of
        (Some r, Some _, Some _, Some _) \<Rightarrow>
          if len < MODBUS_TCP_MBAP_HEADER_LEN
          then Some (-1, function_code, address, quantity)
          else do {
            h \<leftarrow> buf_load r 4;
            l \<leftarrow> buf_load r 5;
            let mbap_len = be16 h l;
            if mbap_len < 6 \<or>
               unat mbap_len > MODBUS_TCP_MAX_ADU_LENGTH - MODBUS_TCP_MBAP_HEADER_LEN \<or>
               len < MODBUS_TCP_MBAP_HEADER_LEN + unat mbap_len
            then Some (-1, function_code, address, quantity)
            else do {
              fc \<leftarrow> buf_load r 7;
              ah \<leftarrow> buf_load r 8;
              al \<leftarrow> buf_load r 9;
              if fc = MODBUS_FUNC_WRITE_SINGLE_REGISTER
              then Some (0, Some fc, Some (be16 ah al), Some 1)
              else do {
                qh \<leftarrow> buf_load r 10;
                ql \<leftarrow> buf_load r 11;
                Some (0, Some fc, Some (be16 ah al), Some (be16 qh ql))
              }
            }
          }
      | _ \<Rightarrow> Some (-1, function_code, address, quantity))"

section \<open>The read response builder\<close>

definition mb_tcp_build_read_registers_response ::
  "u16 \<Rightarrow> u8 \<Rightarrow> u8 \<Rightarrow> u16 list option \<Rightarrow> u16 \<Rightarrow> bytes option \<Rightarrow> nat
   \<Rightarrow> (int \<times> bytes option) run" where
  "mb_tcp_build_read_registers_response tid function_code unit_id data quantity response
       response_cap =
     (case (response, data) of
        (Some b, Some vs) \<Rightarrow>
          if quantity > 125 then Some (-1, response)
          else (let
              pdu_len = 1 + 1 + unat quantity * 2;
              mbap_len = 1 + pdu_len;
              total = MODBUS_TCP_MBAP_HEADER_LEN + mbap_len
            in if response_cap < total then Some (-1, response)
            else do {
              b \<leftarrow> buf_stores
                [(0, hi_byte tid), (1, lo_byte tid), (2, 0), (3, 0),
                 (4, hi_byte (word_of_nat mbap_len)), (5, lo_byte (word_of_nat mbap_len)),
                 (6, unit_id), (7, function_code), (8, ucast (quantity * 2))] b;
              b \<leftarrow> put_regs 9 vs (unat quantity) b;
              Some (int total, Some b)
            })
      | _ \<Rightarrow> Some (-1, response))"

section \<open>The layout of the frames\<close>

text \<open>
  The wire format the builders implement: an MBAP header (transaction id, protocol id 0, length
  of what follows), the unit id, then the PDU.
\<close>

definition adu :: "u16 \<Rightarrow> u8 \<Rightarrow> bytes \<Rightarrow> bytes" where
  "adu tid uid pdu =
     [hi_byte tid, lo_byte tid, 0, 0,
      hi_byte (word_of_nat (Suc (length pdu))), lo_byte (word_of_nat (Suc (length pdu))), uid]
     @ pdu"

definition request_pdu :: "u8 \<Rightarrow> u16 \<Rightarrow> u16 \<Rightarrow> bytes" where
  "request_pdu fc a q = [fc, hi_byte a, lo_byte a, hi_byte q, lo_byte q]"

definition fc16_pdu :: "u16 \<Rightarrow> u16 list \<Rightarrow> bytes" where
  "fc16_pdu a vs =
     request_pdu MODBUS_FUNC_WRITE_MULTIPLE_REGISTERS a (word_of_nat (length vs))
     @ word_of_nat (2 * length vs) # regs_bytes vs"

definition read_response_pdu :: "u8 \<Rightarrow> u16 list \<Rightarrow> bytes" where
  "read_response_pdu fc vs = fc # word_of_nat (2 * length vs) # regs_bytes vs"

lemma length_adu [simp]: "length (adu tid uid pdu) = 7 + length pdu"
  by (simp add: adu_def)

lemma length_request_pdu [simp]: "length (request_pdu fc a q) = 5"
  by (simp add: request_pdu_def)

lemma length_fc16_pdu [simp]: "length (fc16_pdu a vs) = 6 + 2 * length vs"
  by (simp add: fc16_pdu_def)

lemma hi_byte_nat: "hi_byte w = word_of_nat (unat w div 256)"
proof -
  have "hi_byte w = of_nat (unat (drop_bit 8 w))"
    by (simp add: hi_byte_def)
  then show ?thesis
    by (simp add: unat_drop_bit_eq drop_bit_eq_div unat_div del: of_nat_unat)
qed

lemma lo_byte_nat: "lo_byte w = word_of_nat (unat w)"
proof -
  have "lo_byte w = ucast w"
    unfolding lo_byte_def mask_8_16 by (rule bit_word_eqI) (auto simp: bit_simps)
  then show ?thesis by simp
qed

lemma hi_byte_small: "n < 256 \<Longrightarrow> hi_byte (word_of_nat n) = 0"
  by (simp add: hi_byte_nat unat_of_nat_small)

lemma lo_byte_small: "n < 256 \<Longrightarrow> lo_byte (word_of_nat n) = word_of_nat n"
  by (simp add: lo_byte_nat unat_of_nat_small)

lemma buf_stores_frame:
  "length fr \<le> length b \<Longrightarrow>
     buf_stores (enumerate 0 fr) b = Some (fr @ drop (length fr) b)"
  using buf_stores_block [of 0 fr b] by (simp add: enumerate_eq_zip)

lemma put_regs_Suc:
  "put_regs off vs (Suc n) b = put_regs off vs n b \<bind> (\<lambda>b. do {
         v \<leftarrow> buf_load vs n;
         b \<leftarrow> buf_store (off + 2 * n) (hi_byte v) b;
         buf_store (off + 2 * n + 1) (lo_byte v) b
       })"
  by (simp add: put_regs_def foldM_append split: bind_splits)

lemma put_regs_0 [simp]: "put_regs off vs 0 b = Some b"
  by (simp add: put_regs_def)

lemma put_regs_length: "put_regs off vs n b = Some b' \<Longrightarrow> length b' = length b"
  by (induction n arbitrary: b')
     (auto simp: put_regs_Suc dest!: buf_store_length split: bind_splits)

lemma put_regs_ok:
  assumes "n \<le> length vs" and "off + 2 * n \<le> length b"
  shows "put_regs off vs n b
    = Some (take off b @ regs_bytes (take n vs) @ drop (off + 2 * n) b)"
  using assms
proof (induction n)
  case 0
  then show ?case by (simp add: put_regs_def)
next
  case (Suc n)
  define r where "r = take off b @ regs_bytes (take n vs)"
  define d where "d = drop (off + 2 * n) b"
  have lr: "length r = off + 2 * n" and ld: "2 \<le> length d"
    using Suc.prems by (simp_all add: r_def d_def)
  obtain x y d' where d: "d = x # y # d'"
    using ld by (metis Suc_le_length_iff numeral_2_eq_2)
  have d': "d' = drop (off + 2 * Suc n) b"
  proof -
    have "drop (off + 2 * Suc n) b = drop 2 d"
      by (simp add: d_def add.commute)
    then show ?thesis by (simp add: d numeral_2_eq_2)
  qed
  have IH: "put_regs off vs n b = Some (r @ d)"
    using Suc by (simp add: r_def d_def)
  show ?case
    using Suc.prems lr
    by (simp add: put_regs_Suc IH d d' buf_simps list_update_append
        take_Suc_conv_app_nth r_def)
qed

lemma put_regs_overflow:
  assumes "length b < off + 2 * n" and "0 < n"
  shows "put_regs off vs n b = None"
  using assms
proof (induction n)
  case (Suc n)
  show ?case
  proof (cases "put_regs off vs n b")
    case (Some b')
    then have "length b' = length b" by (rule put_regs_length)
    then show ?thesis
      using Suc.prems by (auto simp: put_regs_Suc Some buf_store_def buf_load_def split: bind_splits)
  qed (simp add: put_regs_Suc)
qed simp


section \<open>What the builders write\<close>

lemma hi_lo_six [simp]: "hi_byte 6 = 0" "lo_byte 6 = 6"
  using hi_byte_small [of 6] lo_byte_small [of 6] by simp_all

lemma adu_request_bytes [frame_simps]:
  "adu tid uid (request_pdu fc a q) =
     [hi_byte tid, lo_byte tid, 0, 0, 0, 6, uid, fc, hi_byte a, lo_byte a, hi_byte q, lo_byte q]"
  using hi_byte_small [of 6] lo_byte_small [of 6]
  by (simp add: adu_def request_pdu_def)

lemma request_stores:
  assumes "12 \<le> length b"
  shows "buf_stores
     [(0, hi_byte tid), (1, lo_byte tid), (2, 0), (3, 0), (4, 0), (5, 6), (6, uid),
      (7, fc), (8, hi_byte a), (9, lo_byte a), (10, hi_byte q), (11, lo_byte q)] b
   = Some (adu tid uid (request_pdu fc a q) @ drop 12 b)"
proof -
  let ?f = "adu tid uid (request_pdu fc a q)"
  have "buf_stores (enumerate 0 ?f) b = Some (?f @ drop 12 b)"
    using assms by (simp add: buf_stores_frame)
  then show ?thesis by (simp add: frame_simps eval_nat_numeral del: buf_stores.simps)
qed

lemma build_request_basis_frame:
  assumes "ctx_lock c = Mutex_Ready" and "12 \<le> cap" and "cap \<le> length b"
    and "0 \<le> fn" "fn \<le> 255" "0 \<le> addr" "addr \<le> 65535"
  shows "mb_tcp_build_request_basis (Some c) uid fn addr nb (Some b) cap
    = Some (0, Some (c\<lparr>ctx_tid := bump_tid (ctx_tid c)\<rparr>),
        Some (adu (bump_tid (ctx_tid c)) uid
               (request_pdu (word_of_int fn) (word_of_int addr) nb) @ drop 12 b))"
proof -
  have "12 \<le> length b" using assms by simp
  then show ?thesis
    using assms request_stores [of b "bump_tid (ctx_tid c)" uid "word_of_int fn" "word_of_int addr" nb]
    by (simp add: mb_tcp_build_request_basis_def modbus_consts mutex_lock_def Let_def
        del: buf_stores.simps)
qed

lemma build_fc06_frame:
  assumes "ctx_lock c = Mutex_Ready" and "12 \<le> cap" and "cap \<le> length b"
  shows "mb_tcp_build_fc06_request (Some c) uid addr v (Some b) cap
    = Some (0, Some (c\<lparr>ctx_tid := bump_tid (ctx_tid c)\<rparr>),
        Some (adu (bump_tid (ctx_tid c)) uid
               (request_pdu MODBUS_FUNC_WRITE_SINGLE_REGISTER addr v) @ drop 12 b))"
proof -
  have "12 \<le> length b" using assms by simp
  then show ?thesis
    using assms request_stores [of b "bump_tid (ctx_tid c)" uid 6 addr v]
    by (simp add: mb_tcp_build_fc06_request_def modbus_consts mutex_lock_def Let_def
        del: buf_stores.simps)
qed

lemma fc16_lengths:
  fixes num :: u16
  assumes "unat num \<le> 127"
  defines "bc \<equiv> (word_of_nat (2 * unat num) :: u8)"
  shows "unat (7 + (ucast bc :: u16)) = 7 + 2 * unat num"
    and "7 + (ucast bc :: u16) = word_of_nat (7 + 2 * unat num)"
proof -
  have "unat bc = 2 * unat num"
    unfolding bc_def using assms(1) by (subst unat_of_nat_small) auto
  then have u: "unat (ucast bc :: u16) = 2 * unat num"
    using assms(1) by (simp add: unsigned_ucast_eq take_bit_nat_eq_self)
  show *: "unat (7 + (ucast bc :: u16)) = 7 + 2 * unat num"
    using assms(1) by (simp add: unat_word_ariths u)
  from word_eq_of_nat [OF *]
  show "7 + (ucast bc :: u16) = word_of_nat (7 + 2 * unat num)" .
qed

lemma fc16_header_stores:
  assumes "13 \<le> length b" and "n = length vs" and "n \<le> 127"
  shows "buf_stores
     [(0, hi_byte tid), (1, lo_byte tid), (2, 0), (3, 0),
      (4, hi_byte (word_of_nat (7 + 2 * n))), (5, lo_byte (word_of_nat (7 + 2 * n))), (6, uid),
      (7, MODBUS_FUNC_WRITE_MULTIPLE_REGISTERS), (8, hi_byte a), (9, lo_byte a),
      (10, hi_byte (word_of_nat n)), (11, lo_byte (word_of_nat n)), (12, word_of_nat (2 * n))] b
   = Some (take 13 (adu tid uid (fc16_pdu a vs)) @ drop 13 b)"
proof -
  let ?f = "adu tid uid (fc16_pdu a vs)"
  have "take 13 ?f =
     [hi_byte tid, lo_byte tid, 0, 0, hi_byte (word_of_nat (7 + 2 * n)),
      lo_byte (word_of_nat (7 + 2 * n)), uid,
      MODBUS_FUNC_WRITE_MULTIPLE_REGISTERS, hi_byte a, lo_byte a,
      hi_byte (word_of_nat n), lo_byte (word_of_nat n), word_of_nat (2 * n)]"
    using assms by (simp add: adu_def fc16_pdu_def request_pdu_def)
  moreover have "buf_stores (enumerate 0 (take 13 ?f)) b = Some (take 13 ?f @ drop 13 b)"
    using assms by (simp add: buf_stores_frame)
  ultimately show ?thesis by (simp add: eval_nat_numeral del: buf_stores.simps)
qed

lemma build_fc16_frame:
  assumes "ctx_lock c = Mutex_Ready" and "0 < length vs" and "length vs \<le> 127"
    and "13 + 2 * length vs \<le> cap" and "cap \<le> length b"
  shows "mb_tcp_build_fc16_request (Some c) uid addr (word_of_nat (length vs)) (Some (vs @ ws))
           (Some b) cap
    = Some (int (13 + 2 * length vs), Some (c\<lparr>ctx_tid := bump_tid (ctx_tid c)\<rparr>),
        Some (adu (bump_tid (ctx_tid c)) uid (fc16_pdu addr vs) @ drop (13 + 2 * length vs) b))"
proof -
  let ?n = "length vs"
  let ?f = "adu (bump_tid (ctx_tid c)) uid (fc16_pdu addr vs)"
  have un: "unat (word_of_nat ?n :: u16) = ?n"
    using assms by (simp add: unat_of_nat_small)
  have nz: "(word_of_nat ?n :: u16) \<noteq> 0"
    using assms(2) un by (metis less_numeral_extra(3) unat_0)
  note l = fc16_lengths [of "word_of_nat ?n", unfolded un, OF assms(3)]
  have u2: "unat (word_of_nat (7 + 2 * ?n) :: u16) = 7 + 2 * ?n"
    using assms(3) by (subst unat_of_nat_small) simp_all
  have b13: "13 \<le> length b" using assms by simp
  define h where "h = take 13 ?f"
  have lh: "length h = 13" and f: "?f = h @ regs_bytes vs"
    by (simp_all add: h_def adu_def fc16_pdu_def request_pdu_def)
  have "put_regs 13 (vs @ ws) ?n (h @ drop 13 b)
      = Some (h @ regs_bytes vs @ drop (13 + 2 * ?n) b)"
    using assms lh by (simp add: put_regs_ok add.commute)
  then have body: "put_regs 13 (vs @ ws) ?n (take 13 ?f @ drop 13 b)
      = Some (?f @ drop (13 + 2 * ?n) b)"
    by (simp add: f lh)
  show ?thesis
    using assms nz b13 fc16_header_stores [OF b13 refl assms(3), of "bump_tid (ctx_tid c)" uid addr]
    by (simp add: mb_tcp_build_fc16_request_def un l u2 mutex_lock_def Let_def body
        MODBUS_TCP_MBAP_HEADER_LEN_def del: buf_stores.simps of_nat_add of_nat_mult)
qed


lemma put_regs_short_source:
  assumes "length vs < n"
  shows "put_regs off vs n b = None"
  using assms
proof (induction n)
  case (Suc n)
  then show ?case
    by (cases "length vs < n") (auto simp: put_regs_Suc buf_simps split: bind_splits)
qed simp

lemma parse_adu:
  assumes "7 + length pdu \<le> len" and "5 \<le> length pdu" and "length pdu \<le> 253"
  shows "mb_tcp_parse_request (Some (adu tid uid pdu @ rest)) len (Some fc0) (Some a0) (Some q0)
    = Some (0, Some (pdu ! 0), Some (be16 (pdu ! 1) (pdu ! 2)),
        Some (if pdu ! 0 = MODBUS_FUNC_WRITE_SINGLE_REGISTER then 1
              else be16 (pdu ! 3) (pdu ! 4)))"
proof -
  let ?n = "Suc (length pdu)"
  obtain x0 x1 x2 x3 x4 r where pdu: "pdu = x0 # x1 # x2 # x3 # x4 # r"
    using assms(2) by (auto simp: numeral_eq_Suc Suc_le_length_iff)
  have l: "be16 (hi_byte (word_of_nat ?n)) (lo_byte (word_of_nat ?n)) = word_of_nat ?n"
    by simp
  have u: "unat (word_of_nat ?n :: u16) = ?n"
    using assms(3) by (subst unat_of_nat_small) simp_all
  have ge: "\<not> (word_of_nat ?n :: u16) < 6"
    using assms(2) u by (simp add: word_less_nat_alt del: of_nat_Suc)
  have "6 + unat (word_of_nat ?n :: u16) \<le> len" "unat (word_of_nat ?n :: u16) \<le> 254"
    unfolding u using assms(1,3) by simp_all
  then show ?thesis
    using assms ge
    by (simp add: mb_tcp_parse_request_def adu_def modbus_consts buf_load_def l Let_def u pdu
        del: of_nat_Suc)
qed

lemma parse_no_ub:
  assumes "len \<le> length r"
  shows "mb_tcp_parse_request (Some r) len fc a q \<noteq> None"
proof -
  have "12 \<le> length r" if "6 \<le> w" "6 + unat w \<le> len" for w :: u16
    using that assms by (simp add: word_le_nat_alt)
  then show ?thesis
    using assms
    by (auto simp: mb_tcp_parse_request_def modbus_consts buf_load_def Let_def not_less
        split: option.splits) (fastforce simp: not_less)+
qed


lemma build_read_response_frame:
  assumes "length vs \<le> 125" and "9 + 2 * length vs \<le> cap" and "cap \<le> length b"
  shows "mb_tcp_build_read_registers_response tid fc uid (Some (vs @ ws))
           (word_of_nat (length vs)) (Some b) cap
    = Some (int (9 + 2 * length vs),
        Some (adu tid uid (read_response_pdu fc vs) @ drop (9 + 2 * length vs) b))"
proof -
  let ?n = "length vs"
  let ?f = "adu tid uid (read_response_pdu fc vs)"
  have un: "unat (word_of_nat ?n :: u16) = ?n"
    using assms by (simp add: unat_of_nat_small)
  have le: "\<not> (125 :: u16) < word_of_nat ?n"
    using assms un by (simp add: word_less_nat_alt)
  have bc: "(ucast ((word_of_nat ?n :: u16) * 2) :: u8) = word_of_nat (2 * ?n)"
    using assms(1)
    by (intro word_eq_of_nat) (simp add: unsigned_ucast_eq unat_word_ariths un take_bit_nat_eq_self)
  define h where "h = take 9 ?f"
  have lh: "length h = 9" and f: "?f = h @ regs_bytes vs"
    by (simp_all add: h_def adu_def read_response_pdu_def)
  have hdr: "h = [hi_byte tid, lo_byte tid, 0, 0, hi_byte (word_of_nat (3 + 2 * ?n)),
      lo_byte (word_of_nat (3 + 2 * ?n)), uid, fc, word_of_nat (2 * ?n)]"
    by (simp add: h_def adu_def read_response_pdu_def eval_nat_numeral)
  have "9 \<le> length b" using assms by simp
  then have st: "buf_stores (enumerate 0 h) b = Some (h @ drop 9 b)"
    by (simp add: buf_stores_frame lh)
  have body: "put_regs 9 (vs @ ws) ?n (h @ drop 9 b) = Some (?f @ drop (9 + 2 * ?n) b)"
    using assms by (simp add: put_regs_ok lh f add.commute)
  have st': "buf_stores
      [(0, hi_byte tid), (1, lo_byte tid), (2, 0), (3, 0),
       (4, hi_byte (word_of_nat (1 + (1 + 1 + ?n * 2)))),
       (5, lo_byte (word_of_nat (1 + (1 + 1 + ?n * 2)))),
       (6, uid), (7, fc), (8, word_of_nat (2 * ?n))] b = Some (h @ drop 9 b)"
    using st by (simp add: hdr eval_nat_numeral mult.commute del: buf_stores.simps of_nat_mult of_nat_add)
  show ?thesis
    using assms le st' body
    by (simp add: mb_tcp_build_read_registers_response_def un bc Let_def
        MODBUS_TCP_MBAP_HEADER_LEN_def del: buf_stores.simps of_nat_mult of_nat_add)
qed



section \<open>Properties of the framing layer\<close>

text \<open>
  C37: A request built by \<open>mb_tcp_build_request_basis\<close> is read back by \<open>mb_tcp_parse_request\<close>:
  whatever the buffer held, for every function code, address and quantity the builder accepts,
  the parser returns success with the same function code and address, and the same quantity
  except for FC06, whose quantity is forced to 1.
\<close>

theorem request_parse_roundtrip:
  assumes "ctx_lock c = Mutex_Ready" and "12 \<le> cap" and "cap \<le> length b"
    and "0 \<le> fn" "fn \<le> 255" "0 \<le> addr" "addr \<le> 65535"
  shows "\<exists>c' b'. mb_tcp_build_request_basis (Some c) uid fn addr nb (Some b) cap
             = Some (0, Some c', Some b')
      \<and> mb_tcp_parse_request (Some b') 12 (Some f0) (Some a0) (Some q0)
             = Some (0, Some (word_of_int fn), Some (word_of_int addr),
                 Some (if fn = 6 then 1 else nb))"
proof -
  have fc: "(word_of_int fn = MODBUS_FUNC_WRITE_SINGLE_REGISTER) = (fn = 6)"
  proof
    assume "word_of_int fn = MODBUS_FUNC_WRITE_SINGLE_REGISTER"
    then have "uint (word_of_int fn :: u8) = 6"
      by (simp add: modbus_consts)
    with assms(4,5) show "fn = 6" by (simp add: uint_word_of_int)
  qed (simp add: modbus_consts)
  show ?thesis
    using build_request_basis_frame [OF assms, of uid nb]
    by (simp add: parse_adu) (simp add: request_pdu_def fc, simp add: modbus_consts)
qed

theorem request_parse_roundtrip_witness:
  "\<exists>c' b'. mb_tcp_build_request_basis
       (Some \<lparr>keep_running = True, ctx_tid = 0xFFFF, ctx_lock = Mutex_Ready,
          ctx_cfg = undefined, listen_sock = -1, stream_sock = -1, client_fds = []\<rparr>)
       1 3 0x12 4 (Some (replicate 12 0)) 12 = Some (0, Some c', Some b')
    \<and> mb_tcp_parse_request (Some b') 12 (Some 0) (Some 0) (Some 0)
        = Some (0, Some (word_of_int 3), Some (word_of_int 0x12), Some (if (3::int) = 6 then 1 else 4))"
  by (rule request_parse_roundtrip) simp_all

text \<open>
  For up to 127 registers \<open>mb_tcp_build_fc16_request\<close> writes exactly the FC16 frame (MBAP
  header, address, register count, byte count, registers high byte first) to the start of the
  buffer, leaves the rest of the buffer alone, returns its length \<open>13 + 2 n\<close> and advances the
  transaction counter.
\<close>

theorem fc16_request_layout:
  assumes "ctx_lock c = Mutex_Ready" and "0 < length vs" and "length vs \<le> 127"
    and "13 + 2 * length vs \<le> cap" and "cap \<le> length b"
  shows "mb_tcp_build_fc16_request (Some c) uid addr (word_of_nat (length vs)) (Some vs)
           (Some b) cap
    = Some (int (13 + 2 * length vs), Some (c\<lparr>ctx_tid := bump_tid (ctx_tid c)\<rparr>),
        Some (adu (bump_tid (ctx_tid c)) uid (fc16_pdu addr vs) @ drop (13 + 2 * length vs) b))"
  using build_fc16_frame [OF assms, of uid addr "[]"] by simp

theorem fc16_request_layout_witness:
  "mb_tcp_build_fc16_request
     (Some \<lparr>keep_running = True, ctx_tid = 7, ctx_lock = Mutex_Ready,
        ctx_cfg = undefined, listen_sock = -1, stream_sock = -1, client_fds = []\<rparr>)
     1 0x12 (word_of_nat (length [0x0102, 0x0304 :: u16])) (Some [0x0102, 0x0304])
     (Some (replicate 18 0xAA)) 17
   = Some (17, Some \<lparr>keep_running = True, ctx_tid = 8, ctx_lock = Mutex_Ready,
        ctx_cfg = undefined, listen_sock = -1, stream_sock = -1, client_fds = []\<rparr>,
       Some [0, 8, 0, 0, 0, 11, 1, 0x10, 0, 0x12, 0, 2, 4, 1, 2, 3, 4, 0xAA])"
  by (subst fc16_request_layout)
     (simp_all add: adu_def fc16_pdu_def request_pdu_def hi_byte_def lo_byte_def bump_tid_def
        modbus_consts)

text \<open>
  From 128 registers on the \<open>uint8_t\<close> byte count wraps, so the capacity check of
  \<open>mb_tcp_build_fc16_request\<close> accepts a buffer of \<open>13 + (2 n mod 256)\<close> bytes and the register
  loop then writes past its end: a buffer of exactly the size the check demands overflows.
\<close>

theorem fc16_request_overflow:
  assumes "ctx_lock c = Mutex_Ready" and "128 \<le> unat num" and "length vs = unat num"
    and "length b = 13 + (2 * unat num) mod 256"
  shows "mb_tcp_build_fc16_request (Some c) uid addr num (Some vs) (Some b) (length b) = None"
proof -
  let ?bc = "word_of_nat (2 * unat num) :: u8"
  have ubc: "unat ?bc = (2 * unat num) mod 256"
    by (simp add: unat_of_nat take_bit_eq_mod del: of_nat_mult)
  have "unat ?bc < 256" unfolding ubc by simp
  then have uu: "unat (7 + (ucast ?bc :: u16)) = 7 + unat ?bc"
    by (simp add: unat_word_ariths unsigned_ucast_eq take_bit_nat_eq_self del: of_nat_mult)
  have nz: "num \<noteq> 0" using assms(2) by auto
  have ov: "put_regs 13 vs (unat num) b' = None" if "length b' = length b" for b'
    using assms(2) that by (intro put_regs_overflow) (simp_all add: assms(4))
  have len: "buf_stores ws b = Some b' \<Longrightarrow> length b' = length b" for ws and b' :: bytes
    by (rule buf_stores_length)
  show ?thesis
    using assms(1,4) nz
    by (auto simp: mb_tcp_build_fc16_request_def Let_def uu ubc modbus_consts mutex_lock_def
        dest!: len split: bind_splits simp del: buf_stores.simps of_nat_mult)
       (simp add: ov)?
qed

theorem fc16_request_overflow_witness:
  "mb_tcp_build_fc16_request
     (Some \<lparr>keep_running = True, ctx_tid = 7, ctx_lock = Mutex_Ready,
        ctx_cfg = undefined, listen_sock = -1, stream_sock = -1, client_fds = []\<rparr>)
     1 0 128 (Some (replicate 128 0)) (Some (replicate 13 0)) (length (replicate 13 (0::u8))) = None"
  by (rule fc16_request_overflow) simp_all

text \<open>
  \<open>mb_tcp_parse_request\<close> is safe on any input: when the claimed length does not exceed the
  buffer it never reads outside it, it returns 0 or -1, and on -1 the three results keep their
  old values; success implies a complete frame whose MBAP length lies between 6 and 254.
\<close>

theorem parse_request_safe:
  assumes "len \<le> length r"
  shows "\<exists>rc f a q. mb_tcp_parse_request (Some r) len (Some f0) (Some a0) (Some q0)
             = Some (rc, Some f, Some a, Some q)
      \<and> (rc = -1 \<and> f = f0 \<and> a = a0 \<and> q = q0
         \<or> rc = 0 \<and> f = r ! 7 \<and> 12 \<le> len
            \<and> 6 \<le> unat (be16 (r ! 4) (r ! 5)) \<and> unat (be16 (r ! 4) (r ! 5)) \<le> 254
            \<and> 6 + unat (be16 (r ! 4) (r ! 5)) \<le> len)"
proof -
  have 12: "12 \<le> len \<and> 12 \<le> length r" if "6 + unat w \<le> len" "\<not> w < 6" for w :: u16
    using that assms by (simp add: not_less word_le_nat_alt)
  show ?thesis
  proof (cases "len < 6")
    case True
    then show ?thesis by (simp add: mb_tcp_parse_request_def modbus_consts)
  next
    case False
    then have r6: "6 \<le> length r" using assms by simp
    let ?w = "be16 (r ! 4) (r ! 5)"
    show ?thesis
    proof (cases "?w < 6 \<or> 254 < unat ?w \<or> len < 6 + unat ?w")
      case True
      then show ?thesis
        using False r6
        by (auto simp: mb_tcp_parse_request_def modbus_consts buf_load_def Let_def)
    next
      case ok: False
      then have "12 \<le> len \<and> 12 \<le> length r" by (intro 12) auto
      then show ?thesis
        using ok False r6
        by (auto simp: mb_tcp_parse_request_def modbus_consts buf_load_def Let_def
            word_less_nat_alt)
    qed
  qed
qed

theorem parse_request_safe_witness:
  "\<exists>rc f a q. mb_tcp_parse_request (Some [0, 1, 0, 0, 0, 6, 1, 3, 0, 0]) 10
       (Some 0) (Some 0) (Some 0) = Some (rc, Some f, Some a, Some q)
      \<and> (rc = -1 \<and> f = 0 \<and> a = 0 \<and> q = 0
         \<or> rc = 0 \<and> f = [0, 1, 0, 0, 0, 6, 1, 3, 0, 0 :: u8] ! 7 \<and> 12 \<le> (10::nat)
            \<and> 6 \<le> unat (be16 ([0, 1, 0, 0, 0, 6, 1, 3, 0, 0] ! 4) ([0, 1, 0, 0, 0, 6, 1, 3, 0, 0] ! 5))
            \<and> unat (be16 ([0, 1, 0, 0, 0, 6, 1, 3, 0, 0] ! 4) ([0, 1, 0, 0, 0, 6, 1, 3, 0, 0] ! 5)) \<le> 254
            \<and> 6 + unat (be16 ([0, 1, 0, 0, 0, 6, 1, 3, 0, 0] ! 4) ([0, 1, 0, 0, 0, 6, 1, 3, 0, 0] ! 5)) \<le> 10)"
  by (rule parse_request_safe) simp

end
