(* ===== verification/Modbus_Socket.thy ===== *)
theory Modbus_Socket
  imports Modbus_Frame
begin

text \<open>
  The socket layer the Modbus client stands on: the outcome of each system call is an input (the
  operating system is not under \<open>src/\<close>), what the code does with it is the model. \<open>fd_ev\<close> records
  the effects on file descriptors in order. \<open>net\<close> is one connected socket: the chunks and
  failures \<open>recv\<close> will deliver, the scripted results of \<open>send\<close>, the calls of \<open>send\<close> (\<open>net_tx\<close>,
  the frame of each, whatever its result), the bytes \<open>send\<close> has accepted (\<open>net_wire\<close>), and the
  thread's \<open>errno\<close>.

  Sources: \<open>mb_tcp_connect\<close> and \<open>mb_tcp_close\<close> of \<open>lib/modbus/modbus_tcp.c\<close>; \<open>recv_exact\<close>,
  \<open>recv_err_to_client_err\<close> and \<open>recv_response\<close> of \<open>lib/modbus/modbus_tcp_client.c\<close>.
\<close>

section \<open>Connecting and closing\<close>

definition EAGAIN :: int where "EAGAIN = 11"
definition EWOULDBLOCK :: int where "EWOULDBLOCK = 11"
definition EINVAL :: int where "EINVAL = 22"
definition ETIMEDOUT :: int where "ETIMEDOUT = 110"
definition EINPROGRESS :: int where "EINPROGRESS = 115"

lemmas errno_consts = EAGAIN_def EWOULDBLOCK_def EINVAL_def ETIMEDOUT_def EINPROGRESS_def

datatype fd_ev =
    Fd_open int
  | Fd_timeout int u32
  | Fd_rcvtimeo_ms int u32
  | Fd_shutdown int
  | Fd_close int

text \<open>What the operating system answers to the calls of one \<open>mb_tcp_connect\<close>.\<close>

record connect_env =
  rc_socket :: int
  rc_sndtimeo :: int
  rc_rcvtimeo :: int
  rc_bindtodevice :: int
  rc_reuseaddr :: int
  rc_inet_pton :: int
  rc_connect :: int
  connect_errno :: int
  rc_select :: int
  so_error :: int

text \<open>The bit sets of \<open>select\<close> have room for descriptors below 1024; others are undefined.\<close>

definition FD_SETSIZE :: int where "FD_SETSIZE = 1024"

definition fd_add :: "int \<Rightarrow> int set \<Rightarrow> int set run" where
  "fd_add fd s = (if 0 \<le> fd \<and> fd < FD_SETSIZE then Some (insert fd s) else None)"

definition fd_isset :: "int \<Rightarrow> int set \<Rightarrow> bool run" where
  "fd_isset fd s = (if 0 \<le> fd \<and> fd < FD_SETSIZE then Some (fd \<in> s) else None)"

definition connect_fail :: "int \<Rightarrow> fd_ev list \<Rightarrow> int \<times> int option \<times> fd_ev list" where
  "connect_fail fd tr = (-1, Some (-1), tr @ [Fd_close fd])"

definition mb_tcp_connect ::
  "connect_env \<Rightarrow> int option \<Rightarrow> string option \<Rightarrow> string option \<Rightarrow> u16 \<Rightarrow> u32 \<Rightarrow> fd_ev list
   \<Rightarrow> (int \<times> int option \<times> fd_ev list) run" where
  "mb_tcp_connect env sock_out bind_iface remote_host port timeout_sec tr =
     (case (sock_out, remote_host) of
        (Some _, Some host) \<Rightarrow>
          if cstr host = [] \<or> port = 0 then Some (- EINVAL, sock_out, tr)
          else (let
              timeout_sec = (if timeout_sec = 0 then 5 else timeout_sec);
              fd = rc_socket env
            in
              if fd < 0 then Some (-1, Some fd, tr)
              else (let tr = tr @ [Fd_open fd, Fd_timeout fd timeout_sec] in
                if rc_sndtimeo env < 0 then Some (connect_fail fd tr)
                else if rc_rcvtimeo env < 0 then Some (connect_fail fd tr)
                else if (case bind_iface of None \<Rightarrow> False | Some i \<Rightarrow> cstr i \<noteq> [])
                     \<and> rc_bindtodevice env < 0 then Some (connect_fail fd tr)
                else if rc_reuseaddr env < 0 then Some (connect_fail fd tr)
                else if rc_inet_pton env \<le> 0 then Some (connect_fail fd tr)
                else if rc_connect env < 0 then
                  if connect_errno env = EINPROGRESS then do {
                    writefds \<leftarrow> fd_add fd {};
                    if rc_select env > 0 \<and> so_error env = 0 then Some (0, Some fd, tr)
                    else Some (connect_fail fd tr)
                  }
                  else Some (connect_fail fd tr)
                else Some (0, Some fd, tr)))
      | _ \<Rightarrow> Some (- EINVAL, sock_out, tr))"

definition mb_tcp_close :: "int option \<Rightarrow> fd_ev list \<Rightarrow> int option \<times> fd_ev list" where
  "mb_tcp_close fd tr =
     (case fd of
        Some s \<Rightarrow> if s \<ge> 0 then (Some (-1), tr @ [Fd_shutdown s, Fd_close s]) else (fd, tr)
      | None \<Rightarrow> (fd, tr))"

section \<open>One connected socket\<close>

text \<open>
  \<open>Data bs\<close> is a chunk that has arrived; \<open>Data []\<close> is the peer's orderly shutdown (\<open>recv\<close> returns
  0, now and later, and leaves \<open>errno\<close> alone); \<open>Fail e\<close> is a failing \<open>recv\<close> with \<open>errno = e\<close>.
  With nothing left to deliver \<open>recv\<close> runs into the receive timeout of the socket.
\<close>

datatype rx_ev = Data bytes | Fail int

record net =
  net_rx :: "rx_ev list"
  net_send_rc :: "int list"
  net_tx :: "bytes list"
  net_wire :: bytes
  net_errno :: int

definition sys_recv :: "nat \<Rightarrow> net \<Rightarrow> int \<times> bytes \<times> net" where
  "sys_recv want n =
     (case net_rx n of
        [] \<Rightarrow> (-1, [], n\<lparr>net_errno := EAGAIN\<rparr>)
      | Fail e # r \<Rightarrow> (-1, [], n\<lparr>net_rx := r, net_errno := e\<rparr>)
      | Data bs # r \<Rightarrow>
          if bs = [] then (0, [], n)
          else (int (length (take want bs)), take want bs,
                n\<lparr>net_rx := (if length bs \<le> want then r else Data (drop want bs) # r)\<rparr>))"

text \<open>
  The result of \<open>send\<close> is scripted, the full length by default: it has accepted that many bytes of
  the frame, none if the result is negative. The call is recorded whatever its result.
\<close>

definition sys_send :: "bytes \<Rightarrow> net \<Rightarrow> int \<times> net" where
  "sys_send fr n =
     (case net_send_rc n of
        [] \<Rightarrow> (int (length fr), n\<lparr>net_tx := net_tx n @ [fr], net_wire := net_wire n @ fr\<rparr>)
      | rc # r \<Rightarrow> (rc, n\<lparr>net_send_rc := r, net_tx := net_tx n @ [fr], net_wire := net_wire n @ take (nat rc) fr\<rparr>))"

section \<open>Receiving\<close>

text \<open>
  \<open>recv_exact(fd, buf + base, len)\<close> with \<open>received\<close> bytes already there. Every round that goes on
  has received at least one byte, so the loop ends.
\<close>

function recv_exact :: "nat \<Rightarrow> nat \<Rightarrow> nat \<Rightarrow> bytes \<Rightarrow> net \<Rightarrow> (int \<times> bytes \<times> net) run" where
  "recv_exact base len received buf n =
     (if received < len then
        (case sys_recv (len - received) n of (k, data, n') \<Rightarrow>
           if k \<le> 0 then
             Some (if net_errno n' = EAGAIN \<or> net_errno n' = EWOULDBLOCK \<or> net_errno n' = ETIMEDOUT
                   then -2 else -1, buf, n')
           else
             (case buf_blit (base + received) data buf of
                None \<Rightarrow> None
              | Some buf' \<Rightarrow> recv_exact base len (received + nat k) buf' n'))
      else Some (0, buf, n))"
  by pat_completeness auto
termination
  by (relation "measure (\<lambda>(base, len, received, buf, n). len - received)") auto

declare recv_exact.simps [simp del]

definition MB_TCP_CLIENT_OK :: int where "MB_TCP_CLIENT_OK = 0"
definition MB_TCP_CLIENT_ERR_ARG :: int where "MB_TCP_CLIENT_ERR_ARG = -1"
definition MB_TCP_CLIENT_ERR_NOT_CONNECTED :: int where "MB_TCP_CLIENT_ERR_NOT_CONNECTED = -2"
definition MB_TCP_CLIENT_ERR_TRANSPORT :: int where "MB_TCP_CLIENT_ERR_TRANSPORT = -3"
definition MB_TCP_CLIENT_ERR_TIMEOUT :: int where "MB_TCP_CLIENT_ERR_TIMEOUT = -4"
definition MB_TCP_CLIENT_ERR_FRAME :: int where "MB_TCP_CLIENT_ERR_FRAME = -5"
definition MB_TCP_CLIENT_ERR_TID :: int where "MB_TCP_CLIENT_ERR_TID = -6"

lemmas client_codes =
  MB_TCP_CLIENT_OK_def MB_TCP_CLIENT_ERR_ARG_def MB_TCP_CLIENT_ERR_NOT_CONNECTED_def
  MB_TCP_CLIENT_ERR_TRANSPORT_def MB_TCP_CLIENT_ERR_TIMEOUT_def MB_TCP_CLIENT_ERR_FRAME_def
  MB_TCP_CLIENT_ERR_TID_def

definition recv_err_to_client_err :: "int \<Rightarrow> int" where
  "recv_err_to_client_err recv_rc =
     (if recv_rc = -2 then MB_TCP_CLIENT_ERR_TIMEOUT else MB_TCP_CLIENT_ERR_TRANSPORT)"

definition recv_response ::
  "bytes \<Rightarrow> nat \<Rightarrow> nat \<Rightarrow> net \<Rightarrow> (int \<times> bytes \<times> nat \<times> net) run" where
  "recv_response buf buf_cap total_len n = do {
     (rc, buf, n) \<leftarrow> recv_exact 0 MODBUS_TCP_MBAP_HEADER_LEN 0 buf n;
     if rc \<noteq> 0 then Some (rc, buf, total_len, n)
     else do {
       h \<leftarrow> buf_load buf 4;
       l \<leftarrow> buf_load buf 5;
       let mbap_remaining = be16 h l;
       if mbap_remaining = 0 \<or>
          unat mbap_remaining > buf_cap - MODBUS_TCP_MBAP_HEADER_LEN
       then Some (-1, buf, total_len, n)
       else do {
         (rc, buf, n) \<leftarrow> recv_exact MODBUS_TCP_MBAP_HEADER_LEN (unat mbap_remaining) 0 buf n;
         if rc \<noteq> 0 then Some (rc, buf, total_len, n)
         else Some (0, buf, MODBUS_TCP_MBAP_HEADER_LEN + unat mbap_remaining, n)
       }
     }
   }"

section \<open>Reassembly\<close>

text \<open>The bytes a socket will deliver before its first failure or shutdown.\<close>

fun avail :: "rx_ev list \<Rightarrow> bytes" where
  "avail [] = []"
| "avail (Fail e # r) = []"
| "avail (Data bs # r) = (if bs = [] then [] else bs @ avail r)"

text \<open>A state of the connection that differs in the receive side only.\<close>

definition same_sends :: "net \<Rightarrow> net \<Rightarrow> bool" where
  "same_sends n n' \<longleftrightarrow> net_tx n' = net_tx n \<and> net_send_rc n' = net_send_rc n \<and> net_wire n' = net_wire n"

lemma same_sends_refl [simp]: "same_sends n n"
  by (simp add: same_sends_def)

lemma same_sends_trans: "same_sends a b \<Longrightarrow> same_sends b c \<Longrightarrow> same_sends a c"
  by (simp add: same_sends_def)

lemma same_sendsD: "same_sends n n' \<Longrightarrow> net_tx n' = net_tx n"
  "same_sends n n' \<Longrightarrow> net_send_rc n' = net_send_rc n"
  by (simp_all add: same_sends_def)

lemma sys_recv_same_sends: "sys_recv w n = (k, d, n') \<Longrightarrow> same_sends n n'"
  by (auto simp: sys_recv_def same_sends_def split: list.splits rx_ev.splits if_splits)

lemma sys_recv_data:
  assumes "sys_recv w n = (k, d, n')" and "0 < k"
  shows "nat k = length d" and "d \<noteq> []" and "length d \<le> w"
    and "avail (net_rx n) = d @ avail (net_rx n')"
  using assms
  by (auto simp: sys_recv_def min_def split: list.splits rx_ev.splits if_splits)

lemma sys_recv_more:
  assumes "sys_recv w n = (k, d, n')" and "avail (net_rx n) \<noteq> []" and "0 < w"
  shows "0 < k"
  using assms
  by (cases n) (auto simp: sys_recv_def split: list.splits rx_ev.splits if_splits)

lemma sys_recv_none:
  assumes "sys_recv w n = (k, d, n')" and "avail (net_rx n) = []"
  shows "k \<le> 0"
  using assms
  by (auto simp: sys_recv_def split: list.splits rx_ev.splits if_splits)

lemma recv_exact_same_sends: "recv_exact base len received buf n = Some (rc, buf', n') \<Longrightarrow> same_sends n n'"
proof (induction base len received buf n rule: recv_exact.induct)
  case (1 base len received buf n)
  obtain k d m where s: "sys_recv (len - received) n = (k, d, m)" by (cases "sys_recv (len - received) n")
  note ss = sys_recv_same_sends [OF s]
  show ?case
  proof (cases "received < len \<and> 0 < k")
    case True
    then obtain b where b: "buf_blit (base + received) d buf = Some b" "recv_exact base len (received + nat k) b m = Some (rc, buf', n')"
      using 1(2) s by (subst (asm) recv_exact.simps) (auto split: option.splits)
    have "same_sends m n'" using "1.IH" [OF conjunct1 [OF True] s [symmetric] refl _ b(1)] True b(2) by simp
    then show ?thesis using ss same_sends_trans by blast
  next
    case False
    then show ?thesis using 1(2) s ss by (subst (asm) recv_exact.simps) (auto split: if_splits)
  qed
qed

lemma recv_response_same_sends: "recv_response buf cap tot n = Some (rc, buf', tot', n') \<Longrightarrow> same_sends n n'"
  by (auto simp: recv_response_def Let_def split: bind_splits if_splits
      dest!: recv_exact_same_sends) (auto simp: same_sends_def)

text \<open>
  Every \<open>send\<close> so far has completed, since the state \<open>n0\<close>: the bytes accepted are those of the frames.
\<close>

definition all_sent :: "net \<Rightarrow> net \<Rightarrow> bool" where
  "all_sent n0 n \<longleftrightarrow> net_send_rc n = [] \<and> (\<exists>frs. net_tx n = net_tx n0 @ frs \<and> net_wire n = net_wire n0 @ concat frs)"

lemma all_sent_refl: "net_send_rc n = [] \<Longrightarrow> all_sent n n"
  by (simp add: all_sent_def)

lemma all_sent_same: "all_sent n0 n \<Longrightarrow> same_sends n n' \<Longrightarrow> all_sent n0 n'"
  by (simp add: all_sent_def same_sends_def)

lemma all_sent_send: "sys_send fr n = (k, n') \<Longrightarrow> all_sent n0 n \<Longrightarrow> all_sent n0 n'"
  by (fastforce simp: all_sent_def sys_send_def)

lemma all_sent_recv: "recv_response buf cap tot n = Some (rc, buf', tot', n') \<Longrightarrow> all_sent n0 n \<Longrightarrow> all_sent n0 n'"
  using recv_response_same_sends all_sent_same by blast

lemma all_sent_wire: "all_sent n0 n \<Longrightarrow> net_tx n = net_tx n0 @ frs \<Longrightarrow> net_wire n = net_wire n0 @ concat frs"
  by (auto simp: all_sent_def)

lemma recv_exact_safe:
  assumes "base + len \<le> length buf"
  shows "\<exists>rc buf' n'. recv_exact base len received buf n = Some (rc, buf', n')
    \<and> length buf' = length buf \<and> rc \<in> {0, -1, -2} \<and> same_sends n n'"
  using assms
proof (induction base len received buf n rule: recv_exact.induct)
  case (1 base len received buf n)
  obtain k d m where s: "sys_recv (len - received) n = (k, d, m)" by (cases "sys_recv (len - received) n")
  note ss = sys_recv_same_sends [OF s]
  show ?case
  proof (cases "received < len \<and> 0 < k")
    case True
    note d = sys_recv_data [OF s conjunct2 [OF True]]
    have "base + received + length d \<le> length buf" using True d(3) 1(2) by linarith
    then obtain b' where b': "buf_blit (base + received) d buf = Some b'" "length b' = length buf"
      using buf_blit_length by (auto simp: buf_blit_def)
    have "base + len \<le> length b'" using b'(2) 1(2) by simp
    with "1.IH" [OF conjunct1 [OF True] s [symmetric] refl _ b'(1)] True
    obtain rc c m' where "recv_exact base len (received + nat k) b' m = Some (rc, c, m')"
      "length c = length b'" "rc \<in> {0, -1, -2}" "same_sends m m'"
      by fastforce
    with True s ss b' show ?thesis
      by (subst recv_exact.simps) (auto intro: same_sends_trans)
  next
    case False
    then show ?thesis using s ss by (subst recv_exact.simps) auto
  qed
qed

text \<open>
  However the stream is cut into chunks, \<open>recv_exact\<close> puts exactly the next \<open>len\<close> bytes in place
  and leaves the rest of the stream for the next call.
\<close>

lemma recv_exact_ok:
  assumes "base + len \<le> length buf" and "received \<le> len"
    and "len - received \<le> length (avail (net_rx n))"
  shows "\<exists>n'. recv_exact base len received buf n = Some (0,
      take (base + received) buf @ take (len - received) (avail (net_rx n))
        @ drop (base + len) buf, n')
    \<and> avail (net_rx n') = drop (len - received) (avail (net_rx n)) \<and> same_sends n n'"
  using assms
proof (induction base len received buf n rule: recv_exact.induct)
  case (1 base len received buf n)
  show ?case
  proof (cases "received < len")
    case False
    then show ?thesis using 1(2-4) by (subst recv_exact.simps) auto
  next
    case True
    obtain k d m where s: "sys_recv (len - received) n = (k, d, m)"
      by (cases "sys_recv (len - received) n")
    have "0 < k" using sys_recv_more [OF s] True 1(4) by fastforce
    note d = sys_recv_data [OF s this]
    let ?b = "take (base + received) buf @ d @ drop (base + received + length d) buf"
    have b: "buf_blit (base + received) d buf = Some ?b"
      using d(3) True 1(2) by (simp add: buf_blit_def)
    have lb: "length ?b = length buf" using d(3) True 1(2) by simp
    have r: "received + length d \<le> len" using d(3) True by simp
    from "1.IH" [OF True s [symmetric] refl _ b] \<open>0 < k\<close> 1(2,4) r lb d
    obtain n' where n': "recv_exact base len (received + length d) ?b m = Some (0,
        take (base + (received + length d)) ?b @ take (len - (received + length d)) (avail (net_rx m))
        @ drop (base + len) ?b, n')"
      "avail (net_rx n') = drop (len - (received + length d)) (avail (net_rx m))" "same_sends m n'"
      by fastforce
    have t: "take (base + (received + length d)) ?b = take (base + received) buf @ d"
      using 1(2) r by simp
    have dr: "drop (base + len) ?b = drop (base + len) buf"
      using 1(2) r True d(3) by (simp add: min_def add.commute)
    have a: "take (len - received) (avail (net_rx n))
          = d @ take (len - (received + length d)) (avail (net_rx m))"
      "drop (len - received) (avail (net_rx n))
          = drop (len - (received + length d)) (avail (net_rx m))"
      using d(3) by (simp_all add: d(4))
    show ?thesis
      unfolding a
      using True s \<open>0 < k\<close> b n' t dr d(1) sys_recv_same_sends [OF s]
      by (subst recv_exact.simps) (auto intro: same_sends_trans)
  qed
qed


lemma recv_response_safe:
  assumes "6 \<le> cap" and "cap \<le> length buf"
  shows "\<exists>rc buf' tot n'. recv_response buf cap tot0 n = Some (rc, buf', tot, n')
    \<and> length buf' = length buf \<and> rc \<in> {0, -1, -2} \<and> same_sends n n'
    \<and> (rc = 0 \<longrightarrow> 7 \<le> tot \<and> tot \<le> cap)"
proof -
  obtain rc b1 n1 where r1: "recv_exact 0 6 0 buf n = Some (rc, b1, n1)"
    "length b1 = length buf" "rc \<in> {0, -1, -2}" "same_sends n n1"
    using recv_exact_safe [of 0 6 buf 0 n] assms by fastforce
  show ?thesis
  proof (cases "rc \<noteq> 0 \<or> be16 (b1 ! 4) (b1 ! 5) = 0 \<or> cap - 6 < unat (be16 (b1 ! 4) (b1 ! 5))")
    case True
    then show ?thesis
      using r1 assms
      by (auto simp: recv_response_def MODBUS_TCP_MBAP_HEADER_LEN_def buf_load_def)
  next
    case False
    let ?m = "unat (be16 (b1 ! 4) (b1 ! 5))"
    have m: "?m \<le> cap - 6" "0 < ?m" using False by (auto simp: unat_gt_0)
    then have "6 + ?m \<le> length b1" using r1(2) assms by simp
    then obtain rc2 b2 n2 where r2: "recv_exact 6 ?m 0 b1 n1 = Some (rc2, b2, n2)"
      "length b2 = length b1" "rc2 \<in> {0, -1, -2}" "same_sends n1 n2"
      using recv_exact_safe [of 6 ?m b1 0 n1] by blast
    show ?thesis
      using False r1 r2 m assms
      by (auto simp: recv_response_def MODBUS_TCP_MBAP_HEADER_LEN_def buf_load_def
          intro: same_sends_trans)
  qed
qed

text \<open>A complete frame at the head of the stream is received whole, and nothing more.\<close>

lemma recv_response_frame:
  assumes "avail (net_rx n) = fr @ rest" and "7 \<le> length fr" and "length fr \<le> cap"
    and "cap \<le> length buf" and "unat (be16 (fr ! 4) (fr ! 5)) = length fr - 6"
  shows "\<exists>n'. recv_response buf cap tot0 n
      = Some (0, fr @ drop (length fr) buf, length fr, n')
    \<and> avail (net_rx n') = rest \<and> same_sends n n'"
proof -
  let ?m = "length fr - 6"
  obtain n1 where r1: "recv_exact 0 6 0 buf n = Some (0, take 6 fr @ drop 6 buf, n1)"
    "avail (net_rx n1) = drop 6 fr @ rest" "same_sends n n1"
    using recv_exact_ok [of 0 6 buf 0 n] assms by auto
  let ?b = "take 6 fr @ drop 6 buf"
  have le: "?m - 0 \<le> length (avail (net_rx n1))"
    unfolding r1(2) length_append length_drop by simp
  have lb: "length ?b = length buf" using assms by simp
  obtain n2 where r2: "recv_exact 6 ?m 0 ?b n1
      = Some (0, take 6 ?b @ drop 6 fr @ drop (6 + ?m) ?b, n2)"
    "avail (net_rx n2) = rest" "same_sends n1 n2"
    using recv_exact_ok [OF _ _ le, of 6 ?b] assms r1(2) lb by auto
  have e: "take 6 ?b @ drop 6 fr @ drop (6 + ?m) ?b = fr @ drop (length fr) buf"
    using assms by simp
  have h: "?b ! 4 = fr ! 4" "?b ! 5 = fr ! 5" "5 < length ?b"
    using assms by (simp_all add: nth_append)
  have nz: "be16 (fr ! 4) (fr ! 5) \<noteq> 0"
    using assms(2,5) by auto
  have "recv_response buf cap tot0 n = Some (0, fr @ drop (length fr) buf, length fr, n2)"
    using r1(1) r2(1) e h nz assms(2-5)
    by (simp add: recv_response_def MODBUS_TCP_MBAP_HEADER_LEN_def buf_load_def Let_def)
  then show ?thesis using r1(3) r2(2,3) by (blast intro: same_sends_trans)
qed

lemma adu_length_field:
  assumes "length pdu \<le> 300"
  shows "unat (be16 (adu tid uid pdu ! 4) (adu tid uid pdu ! 5)) = length (adu tid uid pdu) - 6"
proof -
  have "unat (word_of_nat (Suc (length pdu)) :: u16) = Suc (length pdu)"
    using assms by (subst unat_of_nat_small) simp_all
  then show ?thesis by (simp add: adu_def del: of_nat_Suc)
qed

text \<open>A stream of arbitrary nonempty chunks.\<close>

lemma avail_chunks: "[] \<notin> set cs \<Longrightarrow> avail (map Data cs @ r) = concat cs @ avail r"
  by (induction cs) auto

end
