(* ===== verification/Modbus_Client.thy ===== *)
theory Modbus_Client
  imports Modbus_Socket
begin

text \<open>
  The Modbus TCP client of \<open>lib/modbus/modbus_tcp_client.c\<close>: connect and disconnect, and the
  FC03, FC06 and FC16 transactions on a connected socket.

  The response buffer is an uninitialised local array of the C code; its former contents are the
  argument \<open>junk\<close> (260 bytes), so a result that depends on \<open>junk\<close> is a read of uninitialised
  memory. Logging is left out: it changes nothing but the log.
\<close>

record mb_tcp_client_config =
  cc_remote_host :: "string option"
  cc_port :: u16
  cc_bind_iface :: "string option"
  cc_unit_id :: u8
  cc_connect_timeout_sec :: u32
  cc_response_timeout_ms :: u32

record mb_tcp_client_ctx =
  cl_sock :: int
  cl_tid :: u16
  cl_lock :: mutex
  cl_cfg :: mb_tcp_client_config

text \<open>The context after \<open>memset(ctx, 0, sizeof *ctx)\<close>: its socket field is 0.\<close>

definition zero_client_config :: mb_tcp_client_config where
  "zero_client_config = \<lparr>cc_remote_host = None, cc_port = 0, cc_bind_iface = None,
     cc_unit_id = 0, cc_connect_timeout_sec = 0, cc_response_timeout_ms = 0\<rparr>"

definition zero_client_ctx :: mb_tcp_client_ctx where
  "zero_client_ctx = \<lparr>cl_sock = 0, cl_tid = 0, cl_lock = Mutex_Unset,
     cl_cfg = zero_client_config\<rparr>"

section \<open>Lifecycle\<close>

definition mb_tcp_client_connect ::
  "connect_env \<Rightarrow> int \<Rightarrow> mb_tcp_client_ctx option \<Rightarrow> mb_tcp_client_config option \<Rightarrow> fd_ev list
   \<Rightarrow> (int \<times> mb_tcp_client_ctx option \<times> fd_ev list) run" where
  "mb_tcp_client_connect env rc_mutex_init ctx cfg tr =
     (case (ctx, cfg) of
        (Some _, Some cf) \<Rightarrow>
          if (case cc_remote_host cf of None \<Rightarrow> True | Some h \<Rightarrow> cstr h = []) \<or> cc_port cf = 0
          then Some (-1, ctx, tr)
          else (let c = zero_client_ctx\<lparr>cl_cfg := cf, cl_sock := -1, cl_tid := 0\<rparr> in
            if rc_mutex_init \<noteq> 0 then Some (-1, Some c, tr)
            else (let
                c = c\<lparr>cl_lock := Mutex_Ready\<rparr>;
                connect_sec = (if cc_connect_timeout_sec cf \<noteq> 0
                               then cc_connect_timeout_sec cf else 5)
              in
                do {
                  (rc, so, tr) \<leftarrow> mb_tcp_connect env (Some (cl_sock c)) (cc_bind_iface cf)
                        (cc_remote_host cf) (cc_port cf) connect_sec tr;
                  if rc \<noteq> 0 then do {
                    m \<leftarrow> mutex_destroy (cl_lock c);
                    Some (-1, Some (c\<lparr>cl_lock := m, cl_sock := -1\<rparr>), tr)
                  }
                  else do {
                    s \<leftarrow> so;
                    let resp_ms = (if cc_response_timeout_ms cf \<noteq> 0
                                   then cc_response_timeout_ms cf else 1000);
                    Some (0, Some (c\<lparr>cl_sock := s\<rparr>), tr @ [Fd_rcvtimeo_ms s resp_ms])
                  }
                }))
      | _ \<Rightarrow> Some (-1, ctx, tr))"

definition mb_tcp_client_disconnect ::
  "mb_tcp_client_ctx option \<Rightarrow> fd_ev list \<Rightarrow> (mb_tcp_client_ctx option \<times> fd_ev list) run" where
  "mb_tcp_client_disconnect ctx tr =
     (case ctx of
        None \<Rightarrow> Some (ctx, tr)
      | Some c \<Rightarrow>
          (case mb_tcp_close (Some (cl_sock c)) tr of
             (so, tr) \<Rightarrow> do {
               s \<leftarrow> so;
               m \<leftarrow> mutex_destroy (cl_lock c);
               Some (Some (c\<lparr>cl_sock := s, cl_lock := m\<rparr>), tr)
             }))"

section \<open>Requests\<close>

definition next_tid :: "mb_tcp_client_ctx \<Rightarrow> u16 \<times> mb_tcp_client_ctx" where
  "next_tid c =
     (let t = (if cl_tid c < 0xFFFF then cl_tid c + 1 else 1) in (t, c\<lparr>cl_tid := t\<rparr>))"

definition build_fc03_request :: "u16 \<Rightarrow> u8 \<Rightarrow> u16 \<Rightarrow> u16 \<Rightarrow> bytes \<Rightarrow> bytes run" where
  "build_fc03_request tid unit_id addr qty =
     buf_stores
       [(0, hi_byte tid), (1, lo_byte tid), (2, 0), (3, 0),
        (4, 0), (5, MODBUS_TCP_MBAP_LEN_STANDARD_REQ), (6, unit_id),
        (7, MODBUS_FUNC_READ_HOLDING_REGISTERS), (8, hi_byte addr), (9, lo_byte addr),
        (10, hi_byte qty), (11, lo_byte qty)]"

definition build_fc06_request :: "u16 \<Rightarrow> u8 \<Rightarrow> u16 \<Rightarrow> u16 \<Rightarrow> bytes \<Rightarrow> bytes run" where
  "build_fc06_request tid unit_id addr val =
     buf_stores
       [(0, hi_byte tid), (1, lo_byte tid), (2, 0), (3, 0),
        (4, 0), (5, MODBUS_TCP_MBAP_LEN_STANDARD_REQ), (6, unit_id),
        (7, MODBUS_FUNC_WRITE_SINGLE_REGISTER), (8, hi_byte addr), (9, lo_byte addr),
        (10, hi_byte val), (11, lo_byte val)]"

definition build_fc16_request ::
  "u16 \<Rightarrow> u8 \<Rightarrow> u16 \<Rightarrow> u16 \<Rightarrow> u16 list \<Rightarrow> bytes \<Rightarrow> (nat \<times> bytes) run" where
  "build_fc16_request tid unit_id addr qty data buf =
     (let
        byte_count = (word_of_nat (2 * unat qty) :: u8);
        mbap_len = 7 + (ucast byte_count :: u16)
      in do {
        buf \<leftarrow> buf_stores
          [(0, hi_byte tid), (1, lo_byte tid), (2, 0), (3, 0),
           (4, hi_byte mbap_len), (5, lo_byte mbap_len), (6, unit_id),
           (7, MODBUS_FUNC_WRITE_MULTIPLE_REGISTERS), (8, hi_byte addr), (9, lo_byte addr),
           (10, hi_byte qty), (11, lo_byte qty), (12, byte_count)] buf;
        buf \<leftarrow> put_regs 13 data (unat qty) buf;
        Some (MODBUS_TCP_MBAP_HEADER_LEN + unat mbap_len, buf)
      })"

section \<open>Responses\<close>

definition FC16_RESPONSE_LEN :: nat where "FC16_RESPONSE_LEN = 12"
definition MIN_RESPONSE_LEN :: nat where "MIN_RESPONSE_LEN = 9"
definition FC03_RESPONSE_HEADER_LEN :: nat where "FC03_RESPONSE_HEADER_LEN = 9"

lemmas response_consts = FC16_RESPONSE_LEN_def MIN_RESPONSE_LEN_def FC03_RESPONSE_HEADER_LEN_def

definition validate_write_response :: "bytes \<Rightarrow> bytes \<Rightarrow> nat \<Rightarrow> u16 \<Rightarrow> int run" where
  "validate_write_response req resp total_len expected_tid =
     (if total_len < MIN_RESPONSE_LEN then Some MB_TCP_CLIENT_ERR_FRAME
      else do {
        th \<leftarrow> buf_load resp 0;
        tl \<leftarrow> buf_load resp 1;
        if be16 th tl \<noteq> expected_tid then Some MB_TCP_CLIENT_ERR_TID
        else do {
          resp_fc \<leftarrow> buf_load resp 7;
          if resp_fc AND MODBUS_EXCEPTION_FLAG \<noteq> 0 then do {
            exception_code \<leftarrow> buf_load resp 8;
            Some (int (unat exception_code))
          }
          else if total_len < FC16_RESPONSE_LEN then Some MB_TCP_CLIENT_ERR_FRAME
          else do {
            req_fc \<leftarrow> buf_load req 7;
            if resp_fc \<noteq> req_fc then Some MB_TCP_CLIENT_ERR_FRAME
            else Some MB_TCP_CLIENT_OK
          }
        }
      })"

text \<open>\<open>out[i]\<close> from bytes \<open>9 + 2 i\<close> and \<open>10 + 2 i\<close> of the response, for \<open>i < qty\<close>.\<close>

definition extract_registers :: "bytes \<Rightarrow> nat \<Rightarrow> u16 list \<Rightarrow> u16 list run" where
  "extract_registers resp qty =
     foldM (\<lambda>i out. do {
         h \<leftarrow> buf_load resp (FC03_RESPONSE_HEADER_LEN + 2 * i);
         l \<leftarrow> buf_load resp (FC03_RESPONSE_HEADER_LEN + 2 * i + 1);
         buf_store i (be16 h l) out
       }) [0..<qty]"

section \<open>Transactions\<close>

definition mb_tcp_client_read_holding_registers ::
  "bytes \<Rightarrow> mb_tcp_client_ctx option \<Rightarrow> u16 \<Rightarrow> u16 \<Rightarrow> u16 list option \<Rightarrow> net
   \<Rightarrow> (int \<times> mb_tcp_client_ctx option \<times> u16 list option \<times> net) run" where
  "mb_tcp_client_read_holding_registers junk ctx addr qty out n =
     (case (ctx, out) of
        (Some c, Some cells) \<Rightarrow>
          if qty = 0 \<or> qty > MODBUS_MAX_READ_REGISTERS
          then Some (MB_TCP_CLIENT_ERR_ARG, ctx, out, n)
          else if cl_sock c < 0 then Some (MB_TCP_CLIENT_ERR_NOT_CONNECTED, ctx, out, n)
          else do {
            mutex_lock (cl_lock c);
            let (tid, c) = next_tid c;
            req \<leftarrow> build_fc03_request tid (cc_unit_id (cl_cfg c)) addr qty
                     (replicate MODBUS_TCP_MIN_READ_REQ_LENGTH 0);
            let (sent, n) = sys_send req n;
            if sent \<noteq> int (length req) then Some (MB_TCP_CLIENT_ERR_TRANSPORT, Some c, out, n)
            else do {
              (rc, resp, total_len, n) \<leftarrow>
                recv_response junk MODBUS_TCP_MAX_ADU_LENGTH 0 n;
              if rc \<noteq> 0 then Some (recv_err_to_client_err rc, Some c, out, n)
              else do {
                th \<leftarrow> buf_load resp 0;
                tl \<leftarrow> buf_load resp 1;
                if be16 th tl \<noteq> tid then Some (MB_TCP_CLIENT_ERR_TID, Some c, out, n)
                else do {
                  resp_fc \<leftarrow> buf_load resp 7;
                  if resp_fc AND MODBUS_EXCEPTION_FLAG \<noteq> 0 then do {
                    exception_code \<leftarrow> buf_load resp 8;
                    Some (int (unat exception_code), Some c, out, n)
                  }
                  else if resp_fc \<noteq> MODBUS_FUNC_READ_HOLDING_REGISTERS
                  then Some (MB_TCP_CLIENT_ERR_FRAME, Some c, out, n)
                  else if total_len < FC03_RESPONSE_HEADER_LEN
                  then Some (MB_TCP_CLIENT_ERR_FRAME, Some c, out, n)
                  else do {
                    byte_count \<leftarrow> buf_load resp 8;
                    if byte_count \<noteq> word_of_nat (2 * unat qty)
                    then Some (MB_TCP_CLIENT_ERR_FRAME, Some c, out, n)
                    else do {
                      out' \<leftarrow> extract_registers resp (unat qty) cells;
                      Some (MB_TCP_CLIENT_OK, Some c, Some out', n)
                    }
                  }
                }
              }
            }
          }
      | _ \<Rightarrow> Some (MB_TCP_CLIENT_ERR_ARG, ctx, out, n))"

text \<open>What the two write transactions share: send the request, receive, validate.\<close>

definition write_transaction ::
  "bytes \<Rightarrow> mb_tcp_client_ctx \<Rightarrow> u16 \<Rightarrow> bytes \<Rightarrow> net
   \<Rightarrow> (int \<times> mb_tcp_client_ctx option \<times> net) run" where
  "write_transaction junk c tid req n =
     (let (sent, n) = sys_send req n in
      if sent \<noteq> int (length req) then Some (MB_TCP_CLIENT_ERR_TRANSPORT, Some c, n)
      else do {
        (rc, resp, total_len, n) \<leftarrow> recv_response junk MODBUS_TCP_MAX_ADU_LENGTH 0 n;
        if rc \<noteq> 0 then Some (recv_err_to_client_err rc, Some c, n)
        else do {
          r \<leftarrow> validate_write_response req resp total_len tid;
          Some (r, Some c, n)
        }
      })"

definition mb_tcp_client_write_single_register ::
  "bytes \<Rightarrow> mb_tcp_client_ctx option \<Rightarrow> u16 \<Rightarrow> u16 \<Rightarrow> net
   \<Rightarrow> (int \<times> mb_tcp_client_ctx option \<times> net) run" where
  "mb_tcp_client_write_single_register junk ctx addr val n =
     (case ctx of
        None \<Rightarrow> Some (MB_TCP_CLIENT_ERR_ARG, ctx, n)
      | Some c \<Rightarrow>
          if cl_sock c < 0 then Some (MB_TCP_CLIENT_ERR_NOT_CONNECTED, ctx, n)
          else do {
            mutex_lock (cl_lock c);
            let (tid, c) = next_tid c;
            req \<leftarrow> build_fc06_request tid (cc_unit_id (cl_cfg c)) addr val
                     (replicate MODBUS_TCP_MIN_READ_REQ_LENGTH 0);
            write_transaction junk c tid req n
          })"

definition mb_tcp_client_write_multiple_registers ::
  "bytes \<Rightarrow> mb_tcp_client_ctx option \<Rightarrow> u16 \<Rightarrow> u16 \<Rightarrow> u16 list option \<Rightarrow> net
   \<Rightarrow> (int \<times> mb_tcp_client_ctx option \<times> net) run" where
  "mb_tcp_client_write_multiple_registers junk ctx addr qty data n =
     (case (ctx, data) of
        (Some c, Some vs) \<Rightarrow>
          if qty = 0 \<or> qty > MODBUS_MAX_WRITE_REGISTERS then Some (MB_TCP_CLIENT_ERR_ARG, ctx, n)
          else if cl_sock c < 0 then Some (MB_TCP_CLIENT_ERR_NOT_CONNECTED, ctx, n)
          else do {
            mutex_lock (cl_lock c);
            let (tid, c) = next_tid c;
            (req_len, req) \<leftarrow> build_fc16_request tid (cc_unit_id (cl_cfg c)) addr qty vs
                     (replicate MODBUS_TCP_MAX_ADU_LENGTH 0);
            write_transaction junk c tid (take req_len req) n
          }
      | _ \<Rightarrow> Some (MB_TCP_CLIENT_ERR_ARG, ctx, n))"


section \<open>Requests on the wire\<close>

lemma next_tid_bump: "next_tid c = (bump_tid (cl_tid c), c\<lparr>cl_tid := bump_tid (cl_tid c)\<rparr>)"
  by (simp add: next_tid_def bump_tid_def Let_def)

lemma build_fc03_ok:
  "build_fc03_request tid uid addr qty (replicate 12 0)
    = Some (adu tid uid (request_pdu MODBUS_FUNC_READ_HOLDING_REGISTERS addr qty))"
  using request_stores [of "replicate 12 0" tid uid MODBUS_FUNC_READ_HOLDING_REGISTERS addr qty]
  by (simp add: build_fc03_request_def MODBUS_TCP_MBAP_LEN_STANDARD_REQ_def
      del: buf_stores.simps)

lemma build_fc06_ok:
  "build_fc06_request tid uid addr v (replicate 12 0)
    = Some (adu tid uid (request_pdu MODBUS_FUNC_WRITE_SINGLE_REGISTER addr v))"
  using request_stores [of "replicate 12 0" tid uid MODBUS_FUNC_WRITE_SINGLE_REGISTER addr v]
  by (simp add: build_fc06_request_def MODBUS_TCP_MBAP_LEN_STANDARD_REQ_def
      del: buf_stores.simps)

text \<open>
  The client's FC16 builder computes the same bytes as the transport's, without the capacity
  check; up to 123 registers (the limit of the public function) the 260-byte array is enough.
\<close>

lemma build_fc16_ok:
  assumes "0 < length vs" and "length vs \<le> 123"
  shows "\<exists>b. build_fc16_request tid uid addr (word_of_nat (length vs)) (vs @ ws) (replicate 260 0)
      = Some (13 + 2 * length vs, b)
    \<and> take (13 + 2 * length vs) b = adu tid uid (fc16_pdu addr vs)"
proof -
  let ?n = "length vs" and ?b = "replicate 260 (0::u8)"
  let ?f = "adu tid uid (fc16_pdu addr vs)"
  have le: "?n \<le> 127" using assms by simp
  have un: "unat (word_of_nat ?n :: u16) = ?n"
    using assms by (simp add: unat_of_nat_small)
  note l = fc16_lengths [of "word_of_nat ?n", unfolded un, OF le]
  have u2: "unat (word_of_nat (7 + 2 * ?n) :: u16) = 7 + 2 * ?n"
    using assms by (subst unat_of_nat_small) simp_all
  have st: "buf_stores
     [(0, hi_byte tid), (1, lo_byte tid), (2, 0), (3, 0),
      (4, hi_byte (word_of_nat (7 + 2 * ?n))), (5, lo_byte (word_of_nat (7 + 2 * ?n))), (6, uid),
      (7, MODBUS_FUNC_WRITE_MULTIPLE_REGISTERS), (8, hi_byte addr), (9, lo_byte addr),
      (10, hi_byte (word_of_nat ?n)), (11, lo_byte (word_of_nat ?n)), (12, word_of_nat (2 * ?n))] ?b
   = Some (take 13 ?f @ drop 13 ?b)"
    using le by (intro fc16_header_stores) simp_all
  define h where "h = take 13 ?f"
  have lh: "length h = 13" and f: "?f = h @ regs_bytes vs"
    by (simp_all add: h_def adu_def fc16_pdu_def request_pdu_def)
  have body: "put_regs 13 (vs @ ws) ?n (h @ drop 13 ?b)
      = Some (?f @ drop (13 + 2 * ?n) ?b)"
    using assms lh by (simp add: put_regs_ok f add.commute)
  show ?thesis
    using st body
    by (simp add: build_fc16_request_def un l u2 Let_def MODBUS_TCP_MBAP_HEADER_LEN_def
        flip: h_def del: buf_stores.simps of_nat_add of_nat_mult)
qed

section \<open>Reading registers out of a response\<close>

lemma extract_registers_Suc:
  "extract_registers resp (Suc n) out = extract_registers resp n out \<bind> (\<lambda>out. do {
         h \<leftarrow> buf_load resp (9 + 2 * n);
         l \<leftarrow> buf_load resp (9 + 2 * n + 1);
         buf_store n (be16 h l) out
       })"
  by (simp add: extract_registers_def foldM_append response_consts split: bind_splits)

lemma extract_registers_ok:
  assumes "9 + 2 * n \<le> length resp" and "n \<le> length out"
  shows "extract_registers resp n out
    = Some (map (\<lambda>i. be16 (resp ! (9 + 2 * i)) (resp ! (10 + 2 * i))) [0..<n] @ drop n out)"
  using assms
proof (induction n)
  case 0
  then show ?case by (simp add: extract_registers_def)
next
  case (Suc n)
  let ?m = "map (\<lambda>i. be16 (resp ! (9 + 2 * i)) (resp ! (10 + 2 * i))) [0..<n]"
  have "n < length out" using Suc.prems by simp
  then have d: "drop n out = out ! n # drop (Suc n) out" by (rule Cons_nth_drop_Suc [symmetric])
  have IH: "extract_registers resp n out = Some (?m @ out ! n # drop (Suc n) out)"
    using Suc by (simp add: d)
  show ?case
    using Suc.prems
    by (simp add: extract_registers_Suc IH buf_simps list_update_append)
qed

lemma extract_registers_frame:
  assumes "length h = 9" and "length vs \<le> length out"
  shows "extract_registers (h @ regs_bytes vs @ t) (length vs) out
    = Some (vs @ drop (length vs) out)"
proof -
  have "map (\<lambda>i. be16 ((h @ regs_bytes vs @ t) ! (9 + 2 * i)) ((h @ regs_bytes vs @ t) ! (10 + 2 * i)))
      [0..<length vs] = vs"
  proof (rule nth_equalityI)
    fix i assume "i < length (map (\<lambda>i. be16 ((h @ regs_bytes vs @ t) ! (9 + 2 * i))
      ((h @ regs_bytes vs @ t) ! (10 + 2 * i))) [0..<length vs])"
    then have i: "i < length vs" by simp
    have "(h @ regs_bytes vs @ t) ! (9 + 2 * i) = hi_byte (vs ! i)"
      "(h @ regs_bytes vs @ t) ! (10 + 2 * i) = lo_byte (vs ! i)"
      using i assms(1) by (simp_all add: nth_append nth_regs_bytes)
    then show "map (\<lambda>i. be16 ((h @ regs_bytes vs @ t) ! (9 + 2 * i))
      ((h @ regs_bytes vs @ t) ! (10 + 2 * i))) [0..<length vs] ! i = vs ! i"
      using i by simp
  qed simp
  then show ?thesis using assms by (subst extract_registers_ok) simp_all
qed


section \<open>The transactions\<close>

definition client_ready :: "mb_tcp_client_ctx \<Rightarrow> bool" where
  "client_ready c \<longleftrightarrow> cl_sock c \<ge> 0 \<and> cl_lock c = Mutex_Ready"

lemma sys_send_ok: "net_send_rc n = [] \<Longrightarrow> sys_send fr n = (int (length fr), n\<lparr>net_tx := net_tx n @ [fr], net_wire := net_wire n @ fr\<rparr>)"
  by (simp add: sys_send_def)

lemma sys_send_rx: "sys_send fr n = (k, n') \<Longrightarrow> net_rx n' = net_rx n \<and> net_tx n' = net_tx n @ [fr]"
  by (auto simp: sys_send_def split: list.splits)

lemma adu_tid:
  "be16 (adu tid uid pdu ! 0) (adu tid uid pdu ! Suc 0) = tid"
  "pdu \<noteq> [] \<Longrightarrow> adu tid uid pdu ! 7 = hd pdu"
  "1 < length pdu \<Longrightarrow> adu tid uid pdu ! 8 = pdu ! 1"
  by (cases pdu; simp add: adu_def nth_append)+

text \<open>A response ADU at the head of the stream arrives whole in the 260-byte array.\<close>

lemma recv_adu:
  assumes "avail (net_rx n) = adu tid uid pdu @ rest" and "length pdu \<le> 253" and "length junk = 260"
  shows "\<exists>n'. recv_response junk 260 0 n
      = Some (0, adu tid uid pdu @ drop (7 + length pdu) junk, 7 + length pdu, n')
    \<and> avail (net_rx n') = rest \<and> same_sends n n'"
  using recv_response_frame [OF assms(1), of 260 junk 0] assms(2,3)
  by (simp add: adu_length_field)

text \<open>Sends that complete put their frames on the wire, whatever comes back.\<close>

lemma read_all_sent:
  "mb_tcp_client_read_holding_registers junk ctx addr qty out n = Some (rc, ctx', out', n') \<Longrightarrow> all_sent n0 n \<Longrightarrow> all_sent n0 n'"
  by (auto simp: mb_tcp_client_read_holding_registers_def Let_def case_prod_unfold split: option.splits bind_splits if_splits
      dest: all_sent_send [OF surjective_pairing] all_sent_recv)

lemma write_all_sent:
  "write_transaction junk c tid req n = Some (rc, ctx', n') \<Longrightarrow> all_sent n0 n \<Longrightarrow> all_sent n0 n'"
  "mb_tcp_client_write_single_register junk ctx addr val n = Some (rc, ctx', n') \<Longrightarrow> all_sent n0 n \<Longrightarrow> all_sent n0 n'"
  "mb_tcp_client_write_multiple_registers junk ctx addr qty vals n = Some (rc, ctx', n') \<Longrightarrow> all_sent n0 n \<Longrightarrow> all_sent n0 n'"
proof -
  show tr: "all_sent n0 n'" if "write_transaction junk c tid req n = Some (rc, ctx', n')" "all_sent n0 n" for c tid req ctx'
    using that by (auto simp: write_transaction_def Let_def case_prod_unfold split: bind_splits if_splits
      dest: all_sent_send [OF surjective_pairing] all_sent_recv)
  show "mb_tcp_client_write_single_register junk ctx addr val n = Some (rc, ctx', n') \<Longrightarrow> all_sent n0 n \<Longrightarrow> all_sent n0 n'"
    by (auto simp: mb_tcp_client_write_single_register_def Let_def split: option.splits bind_splits if_splits prod.splits dest: tr)
  show "mb_tcp_client_write_multiple_registers junk ctx addr qty vals n = Some (rc, ctx', n') \<Longrightarrow> all_sent n0 n \<Longrightarrow> all_sent n0 n'"
    by (auto simp: mb_tcp_client_write_multiple_registers_def Let_def split: option.splits bind_splits if_splits prod.splits dest: tr)
qed

text \<open>What FC03 makes of any response it receives.\<close>

definition read_args_ok :: "mb_tcp_client_ctx \<Rightarrow> u16 \<Rightarrow> bool" where
  "read_args_ok c qty \<longleftrightarrow> client_ready c \<and> qty \<noteq> 0 \<and> qty \<le> 125"

lemma read_response:
  assumes "read_args_ok c qty" and "net_send_rc n = []" and "length junk = 260"
    and "avail (net_rx n) = adu tid uid pdu @ rest" and "0 < length pdu" and "length pdu \<le> 253"
    and "resp = adu tid uid pdu @ drop (7 + length pdu) junk"
  shows "\<exists>n'. mb_tcp_client_read_holding_registers junk (Some c) addr qty (Some out) n
    = (let c = c\<lparr>cl_tid := bump_tid (cl_tid c)\<rparr> in
       if tid \<noteq> cl_tid c then Some (MB_TCP_CLIENT_ERR_TID, Some c, Some out, n')
       else if hd pdu AND 0x80 \<noteq> 0 then Some (int (unat (resp ! 8)), Some c, Some out, n')
       else if hd pdu \<noteq> 3 \<or> length pdu < 2 \<or> resp ! 8 \<noteq> word_of_nat (2 * unat qty)
       then Some (MB_TCP_CLIENT_ERR_FRAME, Some c, Some out, n')
       else map_option (\<lambda>out'. (MB_TCP_CLIENT_OK, Some c, Some out', n'))
              (extract_registers resp (unat qty) out))
    \<and> avail (net_rx n') = rest
    \<and> net_tx n' = net_tx n @ [adu (bump_tid (cl_tid c)) (cc_unit_id (cl_cfg c))
                                (request_pdu MODBUS_FUNC_READ_HOLDING_REGISTERS addr qty)]"
proof -
  let ?req = "adu (bump_tid (cl_tid c)) (cc_unit_id (cl_cfg c))
                                (request_pdu MODBUS_FUNC_READ_HOLDING_REGISTERS addr qty)"
  let ?n = "n\<lparr>net_tx := net_tx n @ [?req], net_wire := net_wire n @ ?req\<rparr>"
  obtain n' where n': "recv_response junk 260 0 ?n = Some (0, resp, 7 + length pdu, n')"
    "avail (net_rx n') = rest" "same_sends ?n n'"
    using recv_adu [of ?n tid uid pdu rest junk] assms by auto
  have lr: "length resp = 260" using assms by simp
  have r: "be16 (resp ! 0) (resp ! Suc 0) = tid" "resp ! 7 = hd pdu"
    using assms(5) adu_tid(1) [of tid uid pdu] adu_tid(2) [of pdu tid uid]
    by (auto simp: assms(7) nth_append)
  have q: "\<not> 125 < qty" "qty \<noteq> 0" using assms(1) by (auto simp: read_args_ok_def)
  have "mb_tcp_client_read_holding_registers junk (Some c) addr qty (Some out) n
    = (let c = c\<lparr>cl_tid := bump_tid (cl_tid c)\<rparr> in
       if tid \<noteq> cl_tid c then Some (MB_TCP_CLIENT_ERR_TID, Some c, Some out, n')
       else if hd pdu AND 0x80 \<noteq> 0 then Some (int (unat (resp ! 8)), Some c, Some out, n')
       else if hd pdu \<noteq> 3 \<or> length pdu < 2 \<or> resp ! 8 \<noteq> word_of_nat (2 * unat qty)
       then Some (MB_TCP_CLIENT_ERR_FRAME, Some c, Some out, n')
       else map_option (\<lambda>out'. (MB_TCP_CLIENT_OK, Some c, Some out', n'))
              (extract_registers resp (unat qty) out))"
    using assms(1,2) q n'(1) lr r
    by (auto simp: mb_tcp_client_read_holding_registers_def read_args_ok_def client_ready_def
        mutex_lock_def next_tid_bump build_fc03_ok sys_send_ok modbus_consts response_consts
        buf_load_def Let_def map_option_case split: option.splits bind_splits)
  then show ?thesis using n'(2,3) by (auto simp: same_sends_def)
qed


lemma read_safe_aux:
  assumes "read_args_ok c qty" and "length junk = 260" and "unat qty \<le> length out"
  shows "\<exists>rc c' out' n'. mb_tcp_client_read_holding_registers junk (Some c) addr qty (Some out) n
      = Some (rc, Some c', Some out', n')
    \<and> -6 \<le> rc \<and> rc \<le> 255 \<and> length out' = length out \<and> client_ready c'
    \<and> (rc \<noteq> 0 \<longrightarrow> out' = out) \<and> c' = c\<lparr>cl_tid := bump_tid (cl_tid c)\<rparr>
    \<and> net_tx n' = net_tx n @ [adu (bump_tid (cl_tid c)) (cc_unit_id (cl_cfg c))
        (request_pdu MODBUS_FUNC_READ_HOLDING_REGISTERS addr qty)]"
proof -
  have q: "\<not> 125 < qty" "qty \<noteq> 0" and rdy: "client_ready c"
    using assms(1) by (auto simp: read_args_ok_def)
  have q3: "unat qty \<le> 125"
    using assms(1) by (simp add: read_args_ok_def word_le_nat_alt)
  let ?req = "adu (bump_tid (cl_tid c)) (cc_unit_id (cl_cfg c))
                (request_pdu MODBUS_FUNC_READ_HOLDING_REGISTERS addr qty)"
  obtain k n1 where s: "sys_send ?req n = (k, n1)" by (cases "sys_send ?req n")
  obtain rc b tot n2 where r: "recv_response junk 260 0 n1 = Some (rc, b, tot, n2)"
    "length b = 260" "rc \<in> {0, -1, -2}" "net_tx n2 = net_tx n1"
    using recv_response_safe [of 260 junk 0 n1] assms(2) by (fastforce simp: same_sends_def)
  have x: "extract_registers b (unat qty) out
      = Some (map (\<lambda>i. be16 (b ! (9 + 2 * i)) (b ! (10 + 2 * i))) [0..<unat qty]
          @ drop (unat qty) out)"
    using extract_registers_ok q3 r(2) assms(3) by simp
  show ?thesis
    using rdy q s sys_send_rx [OF s] r x assms(3)
    by (auto simp: mb_tcp_client_read_holding_registers_def client_ready_def
        mutex_lock_def next_tid_bump build_fc03_ok modbus_consts response_consts client_codes
        buf_load_def Let_def recv_err_to_client_err_def split: if_splits)
qed

lemma read_registers_conforming:
  assumes "client_ready c" and "0 < length vs" and "length vs \<le> 125"
    and "net_send_rc n = []" and "length junk = 260" and "length vs \<le> length out"
    and "net_rx n = map Data chunks @ tail_rx" and "[] \<notin> set chunks"
    and "concat chunks = adu (bump_tid (cl_tid c)) uid
           (read_response_pdu MODBUS_FUNC_READ_HOLDING_REGISTERS vs) @ later"
  shows "\<exists>n'. mb_tcp_client_read_holding_registers junk (Some c) addr (word_of_nat (length vs))
              (Some out) n
      = Some (MB_TCP_CLIENT_OK, Some (c\<lparr>cl_tid := bump_tid (cl_tid c)\<rparr>),
              Some (vs @ drop (length vs) out), n')
    \<and> avail (net_rx n') = later @ avail tail_rx
    \<and> net_tx n' = net_tx n @ [adu (bump_tid (cl_tid c)) (cc_unit_id (cl_cfg c))
          (request_pdu MODBUS_FUNC_READ_HOLDING_REGISTERS addr (word_of_nat (length vs)))]"
proof -
  let ?pdu = "read_response_pdu MODBUS_FUNC_READ_HOLDING_REGISTERS vs"
  let ?q = "word_of_nat (length vs) :: u16"
  let ?tid = "bump_tid (cl_tid c)"
  let ?resp = "adu ?tid uid ?pdu @ drop (7 + length ?pdu) junk"
  have uq: "unat ?q = length vs" using assms(3) by (simp add: unat_of_nat_small)
  have args: "read_args_ok c ?q"
    using assms(1-3) uq by (auto simp: read_args_ok_def word_le_nat_alt simp flip: unat_gt_0)
  have av: "avail (net_rx n) = adu ?tid uid ?pdu @ (later @ avail tail_rx)"
    using avail_chunks [OF assms(8), of tail_rx] assms(7,9) by simp
  have p: "0 < length ?pdu" "length ?pdu \<le> 253" "hd ?pdu = 3" "\<not> length ?pdu < 2"
    using assms(3) by (simp_all add: read_response_pdu_def modbus_consts)
  have b8: "?resp ! 8 = word_of_nat (2 * length vs)"
    by (simp add: read_response_pdu_def adu_def)
  have ex: "extract_registers ?resp (length vs) out = Some (vs @ drop (length vs) out)"
  proof -
    have f: "adu ?tid uid ?pdu = take 9 (adu ?tid uid ?pdu) @ regs_bytes vs"
      by (simp add: read_response_pdu_def adu_def)
    have "length (take 9 (adu ?tid uid ?pdu)) = 9" by (simp add: read_response_pdu_def)
    from extract_registers_frame [OF this assms(6), of "drop (7 + length ?pdu) junk"]
    show ?thesis by (subst f) simp
  qed
  from read_response [OF args assms(4,5) av p(1,2) refl, of addr out] obtain n' where
    "mb_tcp_client_read_holding_registers junk (Some c) addr ?q (Some out) n
      = (let c = c\<lparr>cl_tid := ?tid\<rparr> in
       if ?tid \<noteq> cl_tid c then Some (MB_TCP_CLIENT_ERR_TID, Some c, Some out, n')
       else if hd ?pdu AND 0x80 \<noteq> 0 then Some (int (unat (?resp ! 8)), Some c, Some out, n')
       else if hd ?pdu \<noteq> 3 \<or> length ?pdu < 2 \<or> ?resp ! 8 \<noteq> word_of_nat (2 * unat ?q)
       then Some (MB_TCP_CLIENT_ERR_FRAME, Some c, Some out, n')
       else map_option (\<lambda>out'. (MB_TCP_CLIENT_OK, Some c, Some out', n'))
              (extract_registers ?resp (unat ?q) out))"
    "avail (net_rx n') = later @ avail tail_rx"
    "net_tx n' = net_tx n @ [adu ?tid (cc_unit_id (cl_cfg c))
          (request_pdu MODBUS_FUNC_READ_HOLDING_REGISTERS addr ?q)]"
    by blast
  then show ?thesis
    using p b8 ex uq by (simp add: Let_def del: length_adu of_nat_mult)
qed

section \<open>Properties of the client\<close>

text \<open>
  C8: Reading \<open>qty\<close> holding registers from a conforming server succeeds: when the stream starts
  with an FC03 response for the request's transaction, cut into chunks in any way, the call
  returns \<open>MB_TCP_CLIENT_OK\<close>, puts exactly the server's register values into \<open>out\<close>, leaves the
  rest of \<open>out\<close> and of the stream alone, and has sent exactly one FC03 request frame.
\<close>

theorem read_registers_ok:
  assumes "client_ready c" and "0 < length vs" and "length vs \<le> 125"
    and "net_send_rc n = []" and "length junk = 260" and "length vs \<le> length out"
    and "net_rx n = map Data chunks @ tail_rx" and "[] \<notin> set chunks"
    and "concat chunks = adu (bump_tid (cl_tid c)) uid
           (read_response_pdu MODBUS_FUNC_READ_HOLDING_REGISTERS vs) @ later"
  shows "\<exists>n'. mb_tcp_client_read_holding_registers junk (Some c) addr (word_of_nat (length vs))
              (Some out) n
      = Some (MB_TCP_CLIENT_OK, Some (c\<lparr>cl_tid := bump_tid (cl_tid c)\<rparr>),
              Some (vs @ drop (length vs) out), n')
    \<and> avail (net_rx n') = later @ avail tail_rx
    \<and> net_tx n' = net_tx n @ [adu (bump_tid (cl_tid c)) (cc_unit_id (cl_cfg c))
          (request_pdu MODBUS_FUNC_READ_HOLDING_REGISTERS addr (word_of_nat (length vs)))]"
  by (rule read_registers_conforming [OF assms])

text \<open>A connected client and a fresh connection, for the witnesses.\<close>

definition demo_client :: mb_tcp_client_ctx where
  "demo_client = \<lparr>cl_sock = 5, cl_tid = 6, cl_lock = Mutex_Ready,
     cl_cfg = zero_client_config\<lparr>cc_unit_id := 1\<rparr>\<rparr>"

definition demo_net :: "rx_ev list \<Rightarrow> net" where
  "demo_net r = \<lparr>net_rx = r, net_send_rc = [], net_tx = [], net_wire = [], net_errno = 0\<rparr>"

lemma demo_simps [simp]:
  "client_ready demo_client" "cl_tid demo_client = 6" "cc_unit_id (cl_cfg demo_client) = 1"
  "net_rx (demo_net r) = r" "net_send_rc (demo_net r) = []" "net_tx (demo_net r) = []" "net_wire (demo_net r) = []"
  "bump_tid 6 = 7"
  by (simp_all add: demo_client_def demo_net_def client_ready_def bump_tid_def)

theorem read_registers_ok_witness:
  "\<exists>n'. mb_tcp_client_read_holding_registers (replicate 260 0xEE) (Some demo_client) 0x10
        (word_of_nat (length [0x0102, 0x0304 :: u16])) (Some [9, 9, 9])
        (demo_net (map Data [[0, 7, 0], [0, 0, 7, 1, 3, 4], [1, 2, 3, 4, 0xFF]] @ []))
      = Some (MB_TCP_CLIENT_OK, Some (demo_client\<lparr>cl_tid := bump_tid (cl_tid demo_client)\<rparr>),
              Some ([0x0102, 0x0304] @ drop (length [0x0102, 0x0304 :: u16]) [9, 9, 9]), n')
    \<and> avail (net_rx n') = [0xFF] @ avail []
    \<and> net_tx n' = net_tx (demo_net (map Data [[0, 7, 0], [0, 0, 7, 1, 3, 4], [1, 2, 3, 4, 0xFF]] @ []))
        @ [adu (bump_tid (cl_tid demo_client)) (cc_unit_id (cl_cfg demo_client))
          (request_pdu MODBUS_FUNC_READ_HOLDING_REGISTERS 0x10
             (word_of_nat (length [0x0102, 0x0304 :: u16])))]"
  by (rule read_registers_ok [where uid = 1 and later = "[0xFF]" and tail_rx = "[]"
        and chunks = "[[0, 7, 0], [0, 0, 7, 1, 3, 4], [1, 2, 3, 4, 0xFF]]"])
     (simp_all add: adu_def read_response_pdu_def hi_byte_def lo_byte_def modbus_consts)

text \<open>
  C33: Every call of \<open>mb_tcp_client_read_holding_registers\<close> on a connected client returns, whatever
  the peer sends or fails to send: no access leaves a buffer, the result is 0, an exception code
  up to 255 or one of the six error codes, the client stays usable, \<open>out\<close> keeps its length and
  is left untouched unless the result is 0.
\<close>

theorem read_registers_safe:
  assumes "client_ready c" and "qty \<noteq> 0" and "qty \<le> 125" and "length junk = 260"
    and "unat qty \<le> length out"
  shows "\<exists>rc c' out' n'. mb_tcp_client_read_holding_registers junk (Some c) addr qty (Some out) n
      = Some (rc, Some c', Some out', n')
    \<and> -6 \<le> rc \<and> rc \<le> 255 \<and> length out' = length out \<and> client_ready c'
    \<and> (rc \<noteq> 0 \<longrightarrow> out' = out)"
proof -
  have "read_args_ok c qty" using assms(1-3) by (simp add: read_args_ok_def)
  from read_safe_aux [OF this assms(4,5), of addr n] show ?thesis by blast
qed

theorem read_registers_safe_witness:
  "\<exists>rc c' out' n'. mb_tcp_client_read_holding_registers (replicate 260 0) (Some demo_client) 0x10 2
        (Some [1, 2]) (demo_net [Data [0, 7, 0], Fail 110])
      = Some (rc, Some c', Some out', n')
    \<and> -6 \<le> rc \<and> rc \<le> 255 \<and> length out' = length [1, 2 :: u16] \<and> client_ready c'
    \<and> (rc \<noteq> 0 \<longrightarrow> out' = [1, 2])"
  by (rule read_registers_safe) simp_all

text \<open>
  An exception response makes FC03 return the exception code as a positive result, except
  that exception code 0 is returned as 0, which is \<open>MB_TCP_CLIENT_OK\<close>: the caller is told that
  the read succeeded although no register was read and \<open>out\<close> is untouched.
\<close>

theorem read_exception_code:
  assumes "client_ready c" and "qty \<noteq> 0" and "qty \<le> 125" and "length junk = 260"
    and "net_send_rc n = []"
    and "avail (net_rx n) = adu (bump_tid (cl_tid c)) uid (fc # code # t) @ later"
    and "fc AND 0x80 \<noteq> 0" and "length t \<le> 251"
  shows "\<exists>n'. mb_tcp_client_read_holding_registers junk (Some c) addr qty (Some out) n
      = Some (if code = 0 then MB_TCP_CLIENT_OK else int (unat code),
              Some (c\<lparr>cl_tid := bump_tid (cl_tid c)\<rparr>), Some out, n')"
proof -
  have args: "read_args_ok c qty" using assms(1-3) by (simp add: read_args_ok_def)
  let ?r = "adu (bump_tid (cl_tid c)) uid (fc # code # t)
              @ drop (7 + length (fc # code # t)) junk"
  have b8: "?r ! 8 = code" by (simp add: adu_def)
  show ?thesis
    using read_response [OF args assms(5,4,6) _ _ refl, of addr out] assms(7,8) b8
    by (auto simp: Let_def client_codes)
qed

theorem read_exception_code_witness:
  "\<exists>n'. mb_tcp_client_read_holding_registers (replicate 260 0) (Some demo_client) 0x10 2
        (Some [1, 2]) (demo_net [Data [0, 7, 0, 0, 0, 3, 1, 0x83, 0]])
      = Some (if (0::u8) = 0 then MB_TCP_CLIENT_OK else int (unat (0::u8)),
              Some (demo_client\<lparr>cl_tid := bump_tid (cl_tid demo_client)\<rparr>), Some [1, 2], n')"
  by (rule read_exception_code [where uid = 1 and fc = "0x83" and t = "[]" and later = "[]"])
     (simp_all add: adu_def hi_byte_def lo_byte_def)

text \<open>
  FC03 checks the byte count of the response but not that the response is that long: a frame
  that ends right after the byte count is accepted, and the registers handed to the caller are
  read from the uninitialised part of the response array.
\<close>

theorem read_short_frame_garbage:
  assumes "client_ready c" and "qty \<noteq> 0" and "qty \<le> 125" and "length junk = 260"
    and "net_send_rc n = []" and "unat qty \<le> length out"
    and "avail (net_rx n) = adu (bump_tid (cl_tid c)) uid [3, word_of_nat (2 * unat qty)] @ later"
  shows "\<exists>n'. mb_tcp_client_read_holding_registers junk (Some c) addr qty (Some out) n
      = Some (MB_TCP_CLIENT_OK, Some (c\<lparr>cl_tid := bump_tid (cl_tid c)\<rparr>),
          Some (map (\<lambda>i. be16 (junk ! (9 + 2 * i)) (junk ! (10 + 2 * i))) [0..<unat qty]
                 @ drop (unat qty) out), n')"
proof -
  let ?pdu = "[3, word_of_nat (2 * unat qty) :: u8]"
  let ?r = "adu (bump_tid (cl_tid c)) uid ?pdu @ drop (7 + length ?pdu) junk"
  have args: "read_args_ok c qty" using assms(1-3) by (simp add: read_args_ok_def)
  have q: "unat qty \<le> 125" using assms(3) by (simp add: word_le_nat_alt)
  have b8: "?r ! 8 = word_of_nat (2 * unat qty)" by (simp add: adu_def)
  have j: "?r ! (9 + k) = junk ! (9 + k)" if "k < 251" for k
    using that assms(4) by (simp add: nth_append)
  have "extract_registers ?r (unat qty) out
      = Some (map (\<lambda>i. be16 (?r ! (9 + 2 * i)) (?r ! (10 + 2 * i))) [0..<unat qty]
          @ drop (unat qty) out)"
    using q assms(4,6) by (intro extract_registers_ok) simp_all
  also have "map (\<lambda>i. be16 (?r ! (9 + 2 * i)) (?r ! (10 + 2 * i))) [0..<unat qty]
      = map (\<lambda>i. be16 (junk ! (9 + 2 * i)) (junk ! (10 + 2 * i))) [0..<unat qty]"
  proof (rule map_cong [OF refl])
    fix i assume "i \<in> set [0..<unat qty]"
    then have "2 * i < 251" "2 * i + 1 < 251" using q by auto
    from j [OF this(1)] j [OF this(2)]
    show "be16 (?r ! (9 + 2 * i)) (?r ! (10 + 2 * i))
        = be16 (junk ! (9 + 2 * i)) (junk ! (10 + 2 * i))"
      by (simp add: add.commute)
  qed
  finally have ex: "extract_registers ?r (unat qty) out
      = Some (map (\<lambda>i. be16 (junk ! (9 + 2 * i)) (junk ! (10 + 2 * i))) [0..<unat qty]
          @ drop (unat qty) out)" .
  show ?thesis
    using read_response [OF args assms(5,4,7) _ _ refl, of addr out] b8 ex
    by (auto simp: Let_def simp del: of_nat_mult)
qed

theorem read_short_frame_garbage_witness:
  "\<exists>n'. mb_tcp_client_read_holding_registers (replicate 260 0xAB) (Some demo_client) 0x10 1
        (Some [5]) (demo_net [Data [0, 7, 0, 0, 0, 3, 1, 3, 2]])
      = Some (MB_TCP_CLIENT_OK, Some (demo_client\<lparr>cl_tid := bump_tid (cl_tid demo_client)\<rparr>),
          Some (map (\<lambda>i. be16 (replicate 260 0xAB ! (9 + 2 * i)) (replicate 260 0xAB ! (10 + 2 * i)))
                 [0..<unat (1::u16)] @ drop (unat (1::u16)) [5]), n')"
  by (rule read_short_frame_garbage [where uid = 1 and later = "[]"])
     (simp_all add: adu_def hi_byte_def lo_byte_def)


section \<open>The write transactions\<close>

lemma validate_adu:
  assumes "length resp = 260" and "be16 (resp ! 0) (resp ! Suc 0) = tid'" and "7 < length req"
  shows "validate_write_response req resp tot tid =
    Some (if tot < 9 then MB_TCP_CLIENT_ERR_FRAME
          else if tid' \<noteq> tid then MB_TCP_CLIENT_ERR_TID
          else if resp ! 7 AND 0x80 \<noteq> 0 then int (unat (resp ! 8))
          else if tot < 12 \<or> resp ! 7 \<noteq> req ! 7 then MB_TCP_CLIENT_ERR_FRAME
          else MB_TCP_CLIENT_OK)"
  using assms
  by (simp add: validate_write_response_def response_consts buf_load_def modbus_consts)

lemma write_transaction_response:
  assumes "net_send_rc n = []" and "length junk = 260" and "7 < length req"
    and "avail (net_rx n) = adu tid' uid pdu @ rest" and "0 < length pdu" and "length pdu \<le> 253"
    and "resp = adu tid' uid pdu @ drop (7 + length pdu) junk"
  shows "\<exists>n'. write_transaction junk c tid req n
    = Some (if length pdu < 2 then MB_TCP_CLIENT_ERR_FRAME
          else if tid' \<noteq> tid then MB_TCP_CLIENT_ERR_TID
          else if hd pdu AND 0x80 \<noteq> 0 then int (unat (pdu ! 1))
          else if length pdu < 5 \<or> hd pdu \<noteq> req ! 7 then MB_TCP_CLIENT_ERR_FRAME
          else MB_TCP_CLIENT_OK, Some c, n')
    \<and> avail (net_rx n') = rest \<and> net_tx n' = net_tx n @ [req]"
proof -
  let ?n = "n\<lparr>net_tx := net_tx n @ [req], net_wire := net_wire n @ req\<rparr>"
  obtain n' where n': "recv_response junk 260 0 ?n = Some (0, resp, 7 + length pdu, n')"
    "avail (net_rx n') = rest" "same_sends ?n n'"
    using recv_adu [of ?n tid' uid pdu rest junk] assms by auto
  have r: "length resp = 260" "be16 (resp ! 0) (resp ! Suc 0) = tid'" "resp ! 7 = hd pdu"
    "1 < length pdu \<Longrightarrow> resp ! 8 = pdu ! 1"
    using assms(2,5,6) adu_tid(1) [of tid' uid pdu] adu_tid(2) [of pdu tid' uid]
      adu_tid(3) [of pdu tid' uid]
    by (auto simp: assms(7) nth_append)
  have "write_transaction junk c tid req n
    = Some (if length pdu < 2 then MB_TCP_CLIENT_ERR_FRAME
          else if tid' \<noteq> tid then MB_TCP_CLIENT_ERR_TID
          else if hd pdu AND 0x80 \<noteq> 0 then int (unat (pdu ! 1))
          else if length pdu < 5 \<or> hd pdu \<noteq> req ! 7 then MB_TCP_CLIENT_ERR_FRAME
          else MB_TCP_CLIENT_OK, Some c, n')"
    using assms(1) n'(1) r(4)
    by (simp add: write_transaction_def sys_send_ok MODBUS_TCP_MAX_ADU_LENGTH_def
        validate_adu [OF r(1,2) assms(3)] r(3))
  with n'(2,3) show ?thesis by (auto simp: same_sends_def)
qed

lemma write_transaction_safe:
  assumes "length junk = 260" and "7 < length req"
  shows "\<exists>rc n'. write_transaction junk c tid req n = Some (rc, Some c, n') \<and> -6 \<le> rc \<and> rc \<le> 255
    \<and> net_tx n' = net_tx n @ [req]"
proof -
  obtain k n1 where s: "sys_send req n = (k, n1)" by (cases "sys_send req n")
  obtain rc b tot n2 where r: "recv_response junk 260 0 n1 = Some (rc, b, tot, n2)"
    "length b = 260" "rc \<in> {0, -1, -2}" "net_tx n2 = net_tx n1"
    using recv_response_safe [of 260 junk 0 n1] assms(1) by (fastforce simp: same_sends_def)
  show ?thesis
    using s sys_send_rx [OF s] r validate_adu [OF r(2) refl assms(2), of tot tid]
    by (auto simp: write_transaction_def MODBUS_TCP_MAX_ADU_LENGTH_def client_codes
        recv_err_to_client_err_def)
qed

text \<open>
  C9: \<open>mb_tcp_client_write_multiple_registers\<close> sends exactly the FC16 frame for its arguments
  (function code, address, count, byte count, values high byte first) and returns
  \<open>MB_TCP_CLIENT_OK\<close> when the peer confirms the transaction with an FC16 response.
\<close>

theorem write_multiple_ok:
  assumes "client_ready c" and "0 < length vs" and "length vs \<le> 123"
    and "net_send_rc n = []" and "length junk = 260"
    and "avail (net_rx n) = adu (bump_tid (cl_tid c)) uid
           (request_pdu MODBUS_FUNC_WRITE_MULTIPLE_REGISTERS a q) @ later"
  shows "\<exists>n'. mb_tcp_client_write_multiple_registers junk (Some c) addr
              (word_of_nat (length vs)) (Some vs) n
      = Some (MB_TCP_CLIENT_OK, Some (c\<lparr>cl_tid := bump_tid (cl_tid c)\<rparr>), n')
    \<and> avail (net_rx n') = later
    \<and> net_tx n' = net_tx n @ [adu (bump_tid (cl_tid c)) (cc_unit_id (cl_cfg c)) (fc16_pdu addr vs)]"
proof -
  let ?tid = "bump_tid (cl_tid c)" and ?q = "word_of_nat (length vs) :: u16"
  let ?req = "adu ?tid (cc_unit_id (cl_cfg c)) (fc16_pdu addr vs)"
  have uq: "unat ?q = length vs" using assms(3) by (simp add: unat_of_nat_small)
  have q: "?q \<noteq> 0" "\<not> 123 < ?q"
    using assms(2,3) uq by (auto simp: word_less_nat_alt simp flip: unat_gt_0)
  obtain b where b: "build_fc16_request ?tid (cc_unit_id (cl_cfg c)) addr ?q vs (replicate 260 0)
      = Some (13 + 2 * length vs, b)" "take (13 + 2 * length vs) b = ?req"
    using build_fc16_ok [OF assms(2,3), of _ _ _ "[]"] by fastforce
  have r: "7 < length ?req" "?req ! 7 = 0x10"
    by (simp, simp add: adu_def fc16_pdu_def request_pdu_def modbus_consts)
  obtain n' where n': "write_transaction junk (c\<lparr>cl_tid := ?tid\<rparr>) ?tid ?req n
      = Some (MB_TCP_CLIENT_OK, Some (c\<lparr>cl_tid := ?tid\<rparr>), n')"
    "avail (net_rx n') = later" "net_tx n' = net_tx n @ [?req]"
    using write_transaction_response [OF assms(4,5) r(1) assms(6) _ _ refl,
        of "c\<lparr>cl_tid := ?tid\<rparr>" ?tid] r(2)
    by (auto simp: request_pdu_def modbus_consts)
  show ?thesis
    using assms(1) q b n'
    by (simp add: mb_tcp_client_write_multiple_registers_def client_ready_def mutex_lock_def
        next_tid_bump modbus_consts)
qed

theorem write_multiple_ok_witness:
  "\<exists>n'. mb_tcp_client_write_multiple_registers (replicate 260 0) (Some demo_client) 0x12
        (word_of_nat (length [0x0102, 0x0304 :: u16])) (Some [0x0102, 0x0304])
        (demo_net [Data [0, 7, 0, 0, 0, 6], Data [1, 0x10, 0, 0x12, 0, 2]])
      = Some (MB_TCP_CLIENT_OK, Some (demo_client\<lparr>cl_tid := bump_tid (cl_tid demo_client)\<rparr>), n')
    \<and> avail (net_rx n') = []
    \<and> net_tx n' = net_tx (demo_net [Data [0, 7, 0, 0, 0, 6], Data [1, 0x10, 0, 0x12, 0, 2]])
        @ [adu (bump_tid (cl_tid demo_client)) (cc_unit_id (cl_cfg demo_client))
             (fc16_pdu 0x12 [0x0102, 0x0304])]"
  by (rule write_multiple_ok [where uid = 1 and a = "0x12" and q = 2])
     (simp_all add: adu_def request_pdu_def hi_byte_def lo_byte_def modbus_consts)

lemma write_single_response:
  assumes "client_ready c" and "net_send_rc n = []" and "length junk = 260"
    and "avail (net_rx n) = adu tid' uid pdu @ rest" and "0 < length pdu" and "length pdu \<le> 253"
  shows "\<exists>n'. mb_tcp_client_write_single_register junk (Some c) addr v n
    = Some (if length pdu < 2 then MB_TCP_CLIENT_ERR_FRAME
          else if tid' \<noteq> bump_tid (cl_tid c) then MB_TCP_CLIENT_ERR_TID
          else if hd pdu AND 0x80 \<noteq> 0 then int (unat (pdu ! 1))
          else if length pdu < 5 \<or> hd pdu \<noteq> 6 then MB_TCP_CLIENT_ERR_FRAME
          else MB_TCP_CLIENT_OK, Some (c\<lparr>cl_tid := bump_tid (cl_tid c)\<rparr>), n')
    \<and> avail (net_rx n') = rest
    \<and> net_tx n' = net_tx n @ [adu (bump_tid (cl_tid c)) (cc_unit_id (cl_cfg c))
                                (request_pdu MODBUS_FUNC_WRITE_SINGLE_REGISTER addr v)]"
proof -
  let ?tid = "bump_tid (cl_tid c)"
  let ?req = "adu ?tid (cc_unit_id (cl_cfg c)) (request_pdu MODBUS_FUNC_WRITE_SINGLE_REGISTER addr v)"
  have r: "7 < length ?req" "?req ! 7 = 6"
    by (simp, simp add: adu_def request_pdu_def modbus_consts)
  have "mb_tcp_client_write_single_register junk (Some c) addr v n
      = write_transaction junk (c\<lparr>cl_tid := ?tid\<rparr>) ?tid ?req n"
    using assms(1)
    by (simp add: mb_tcp_client_write_single_register_def client_ready_def mutex_lock_def
        next_tid_bump MODBUS_TCP_MIN_READ_REQ_LENGTH_def build_fc06_ok)
  with write_transaction_response [OF assms(2,3) r(1) assms(4,5,6) refl, of "c\<lparr>cl_tid := ?tid\<rparr>" ?tid]
  show ?thesis unfolding r(2) by presburger
qed

lemma write_single_safe:
  assumes "client_ready c" and "length junk = 260"
  shows "\<exists>rc n'. mb_tcp_client_write_single_register junk (Some c) addr v n
    = Some (rc, Some (c\<lparr>cl_tid := bump_tid (cl_tid c)\<rparr>), n') \<and> -6 \<le> rc \<and> rc \<le> 255
    \<and> net_tx n' = net_tx n @ [adu (bump_tid (cl_tid c)) (cc_unit_id (cl_cfg c))
        (request_pdu MODBUS_FUNC_WRITE_SINGLE_REGISTER addr v)]"
  using write_transaction_safe [OF assms(2)] assms(1)
  by (simp add: mb_tcp_client_write_single_register_def client_ready_def mutex_lock_def
      next_tid_bump MODBUS_TCP_MIN_READ_REQ_LENGTH_def build_fc06_ok)

lemma write_multiple_safe:
  assumes "client_ready c" and "length junk = 260" and "0 < qty" and "qty \<le> 123"
    and "unat qty \<le> length vs"
  shows "\<exists>rc n'. mb_tcp_client_write_multiple_registers junk (Some c) addr qty (Some vs) n
    = Some (rc, Some (c\<lparr>cl_tid := bump_tid (cl_tid c)\<rparr>), n') \<and> -6 \<le> rc \<and> rc \<le> 255
    \<and> net_tx n' = net_tx n @ [adu (bump_tid (cl_tid c)) (cc_unit_id (cl_cfg c))
        (fc16_pdu addr (take (unat qty) vs))]"
proof -
  let ?us = "take (unat qty) vs" and ?tid = "bump_tid (cl_tid c)"
  have u: "unat qty \<le> 123" "0 < unat qty" using assms(3,4) by (simp_all add: word_le_nat_alt word_less_nat_alt)
  have l: "length ?us = unat qty" using assms(5) by simp
  have q: "qty = word_of_nat (length ?us)" unfolding l by simp
  have "vs \<noteq> []" using u(2) assms(5) by auto
  then obtain b where b: "build_fc16_request ?tid (cc_unit_id (cl_cfg c)) addr qty vs (replicate 260 0)
      = Some (13 + 2 * unat qty, b)"
    "take (13 + 2 * unat qty) b = adu ?tid (cc_unit_id (cl_cfg c)) (fc16_pdu addr ?us)"
    using build_fc16_ok [of ?us ?tid "cc_unit_id (cl_cfg c)" addr "drop (unat qty) vs"] u l
    by (auto simp flip: q)
  have nz: "qty \<noteq> 0" "\<not> 123 < qty" using assms(3,4) by auto
  show ?thesis
    using write_transaction_safe [OF assms(2), of "adu ?tid (cc_unit_id (cl_cfg c)) (fc16_pdu addr ?us)"
        "c\<lparr>cl_tid := ?tid\<rparr>" ?tid n] assms(1) b nz
    by (simp add: mb_tcp_client_write_multiple_registers_def client_ready_def mutex_lock_def
        next_tid_bump modbus_consts)
qed


section \<open>Connecting and disconnecting\<close>

text \<open>The descriptors left open by a sequence of effects.\<close>

fun fd_step :: "int set \<Rightarrow> fd_ev \<Rightarrow> int set" where
  "fd_step s (Fd_open fd) = insert fd s"
| "fd_step s (Fd_close fd) = s - {fd}"
| "fd_step s e = s"

definition fds_open :: "fd_ev list \<Rightarrow> int set" where
  "fds_open tr = foldl fd_step {} tr"

lemma fds_open_snoc [simp]:
  "fds_open [] = {}"
  "fds_open (tr @ [e]) = fd_step (fds_open tr) e"
  "fds_open (tr @ e # es) = foldl fd_step (fd_step (fds_open tr) e) es"
  by (simp_all add: fds_open_def)

text \<open>
  Adding a descriptor to the set of \<open>select\<close> is the only thing a connection attempt can do wrong: with
  every descriptor below the size of the set it always returns.
\<close>

lemma mb_tcp_connect_total:
  "rc_socket env < FD_SETSIZE \<Longrightarrow> \<exists>rc so tr'. mb_tcp_connect env so0 bi h p t tr = Some (rc, so, tr')"
  by (auto simp: mb_tcp_connect_def fd_add_def Let_def split: option.splits) (auto simp: connect_fail_def)

lemma mb_tcp_connect_overrun:
  assumes "cstr h \<noteq> []" and "p \<noteq> 0" and "rc_sndtimeo env = 0" and "rc_rcvtimeo env = 0" and "rc_bindtodevice env = 0"
    and "rc_reuseaddr env = 0" and "rc_inet_pton env = 1" and "rc_connect env = -1" and "connect_errno env = EINPROGRESS"
    and "FD_SETSIZE \<le> rc_socket env"
  shows "mb_tcp_connect env (Some s) bi (Some h) p t tr = None"
  using assms by (simp add: mb_tcp_connect_def fd_add_def Let_def) (simp add: FD_SETSIZE_def)

lemma mb_tcp_connect_cases:
  assumes "mb_tcp_connect env (Some s0) bi (Some h) p t tr = Some (rc, so, tr')"
    and "rc_socket env \<notin> fds_open tr"
  shows "rc = 0 \<and> so = Some (rc_socket env) \<and> 0 \<le> rc_socket env
           \<and> fds_open tr' = insert (rc_socket env) (fds_open tr)
       \<or> rc < 0 \<and> fds_open tr' = fds_open tr"
  using assms
  by (auto simp: mb_tcp_connect_def connect_fail_def Let_def EINVAL_def split: if_splits bind_splits)

text \<open>
  \<open>mb_tcp_client_connect\<close> leaks no descriptor and never misuses the mutex: whatever the
  system calls answer, with descriptors that fit the set of \<open>select\<close>, it returns 0 or -1; after 0 the client is
  ready, its counter is 0 and exactly its socket has been opened; after -1 the set of open descriptors is what it was.
\<close>

theorem client_connect_no_leak:
  assumes "rc_socket env \<notin> fds_open tr" and "rc_socket env < FD_SETSIZE"
  shows "\<exists>rc c tr'. mb_tcp_client_connect env m (Some c0) (Some cf) tr = Some (rc, Some c, tr')
    \<and> (rc = 0 \<and> client_ready c \<and> cl_tid c = 0 \<and> cl_cfg c = cf
         \<and> fds_open tr' = insert (cl_sock c) (fds_open tr)
       \<or> rc = -1 \<and> fds_open tr' = fds_open tr)"
proof (cases "(case cc_remote_host cf of None \<Rightarrow> True | Some h \<Rightarrow> cstr h = []) \<or> cc_port cf = 0
    \<or> m \<noteq> 0")
  case True
  then show ?thesis
    by (auto simp: mb_tcp_client_connect_def Let_def split: option.splits)
next
  case False
  then obtain h where h: "cc_remote_host cf = Some h" "cstr h \<noteq> []" by (auto split: option.splits)
  let ?t = "if cc_connect_timeout_sec cf \<noteq> 0 then cc_connect_timeout_sec cf else 5"
  obtain rc so tr' where r: "mb_tcp_connect env (Some (-1)) (cc_bind_iface cf) (Some h) (cc_port cf) ?t tr
      = Some (rc, so, tr')"
    using mb_tcp_connect_total [OF assms(2)] by blast
  show ?thesis
    using mb_tcp_connect_cases [OF r assms(1)] False h r
    by (auto simp: mb_tcp_client_connect_def mutex_destroy_def client_ready_def Let_def)
qed

theorem client_connect_no_leak_witness:
  "\<exists>rc c tr'. mb_tcp_client_connect
      \<lparr>rc_socket = 7, rc_sndtimeo = 0, rc_rcvtimeo = 0, rc_bindtodevice = 0, rc_reuseaddr = 0,
       rc_inet_pton = 1, rc_connect = -1, connect_errno = EINPROGRESS, rc_select = 1,
       so_error = 0\<rparr> 0 (Some zero_client_ctx)
      (Some (zero_client_config\<lparr>cc_remote_host := Some ''127.0.0.1'', cc_port := 502\<rparr>)) []
      = Some (rc, Some c, tr')
    \<and> (rc = 0 \<and> client_ready c \<and> cl_tid c = 0
         \<and> cl_cfg c = zero_client_config\<lparr>cc_remote_host := Some ''127.0.0.1'', cc_port := 502\<rparr>
         \<and> fds_open tr' = insert (cl_sock c) (fds_open [])
       \<or> rc = -1 \<and> fds_open tr' = fds_open [])"
  by (rule client_connect_no_leak) (simp_all add: FD_SETSIZE_def)

lemma disconnect_ready:
  assumes "client_ready c"
  shows "mb_tcp_client_disconnect (Some c) tr
    = Some (Some (c\<lparr>cl_sock := -1, cl_lock := Mutex_Destroyed\<rparr>),
        tr @ [Fd_shutdown (cl_sock c), Fd_close (cl_sock c)])"
  using assms
  by (simp add: mb_tcp_client_disconnect_def mb_tcp_close_def client_ready_def mutex_destroy_def)

lemma disconnect_not_ready: "cl_lock c \<noteq> Mutex_Ready \<Longrightarrow> mb_tcp_client_disconnect (Some c) tr = None"
  by (simp add: mb_tcp_client_disconnect_def mutex_destroy_def split: prod.splits bind_splits)

text \<open>
  The header calls \<open>mb_tcp_client_disconnect\<close> safe "even if connect failed". It is not: a
  connect that fails at the TCP level has already destroyed the context's mutex, and the
  disconnect destroys it again, which POSIX leaves undefined.
\<close>

theorem disconnect_after_failed_connect:
  assumes "cc_remote_host cf = Some h" and "cstr h \<noteq> []" and "cc_port cf \<noteq> 0"
    and "rc_inet_pton env \<le> 0 \<or> rc_socket env < 0"
  shows "\<exists>c tr'. mb_tcp_client_connect env 0 (Some c0) (Some cf) tr = Some (-1, Some c, tr')
    \<and> mb_tcp_client_disconnect (Some c) tr' = None"
proof -
  have "\<exists>rc so tr'. mb_tcp_connect env (Some (-1)) (cc_bind_iface cf) (Some h) (cc_port cf) t tr
      = Some (rc, so, tr') \<and> rc \<noteq> 0" for t
    using assms by (auto simp: mb_tcp_connect_def connect_fail_def Let_def EINVAL_def)
  then obtain rc so tr' where "mb_tcp_connect env (Some (-1)) (cc_bind_iface cf) (Some h) (cc_port cf)
      (if cc_connect_timeout_sec cf \<noteq> 0 then cc_connect_timeout_sec cf else 5) tr
      = Some (rc, so, tr')" "rc \<noteq> 0" by blast
  then show ?thesis
    using assms by (auto simp: mb_tcp_client_connect_def mutex_destroy_def Let_def
        intro!: disconnect_not_ready)
qed

theorem disconnect_after_failed_connect_witness:
  "\<exists>c tr'. mb_tcp_client_connect
      \<lparr>rc_socket = 7, rc_sndtimeo = 0, rc_rcvtimeo = 0, rc_bindtodevice = 0, rc_reuseaddr = 0,
       rc_inet_pton = 0, rc_connect = 0, connect_errno = 0, rc_select = 0, so_error = 0\<rparr> 0
      (Some zero_client_ctx)
      (Some (zero_client_config\<lparr>cc_remote_host := Some ''ups'', cc_port := 502\<rparr>)) []
      = Some (-1, Some c, tr')
    \<and> mb_tcp_client_disconnect (Some c) tr' = None"
  by (rule disconnect_after_failed_connect [where h = "''ups''"]) (simp_all add: cstr_def)

text \<open>
  A context that was only zeroed has socket 0, so closing it shuts down and closes descriptor 0.
  \<open>start_ups_modules\<close> zeroes the context, and a connect that rejects its arguments leaves it so.
\<close>

lemma close_zeroed_context:
  "mb_tcp_close (Some (cl_sock zero_client_ctx)) tr = (Some (-1), tr @ [Fd_shutdown 0, Fd_close 0])"
  by (simp add: mb_tcp_close_def zero_client_ctx_def)

lemma connect_bad_args_keeps_context:
  "cc_remote_host cf = Some h \<Longrightarrow> cstr h = [] \<Longrightarrow>
   mb_tcp_client_connect env m (Some c) (Some cf) tr = Some (-1, Some c, tr)"
  by (simp add: mb_tcp_client_connect_def)

text \<open>
  The peer's orderly shutdown makes \<open>recv\<close> return 0 and leaves \<open>errno\<close> as it was: after an earlier
  timeout of the same thread the shutdown is reported as another timeout.
\<close>

lemma peer_close_stale_errno:
  assumes "0 < len" and "net_rx n = [Data []]"
  shows "recv_exact base len 0 buf n
    = Some (if net_errno n \<in> {EAGAIN, ETIMEDOUT} then -2 else -1, buf, n)"
  using assms by (subst recv_exact.simps) (simp add: sys_recv_def errno_consts)

end
