(* ===== verification/Cmos_Text.thy ===== *)
theory Cmos_Text
  imports Modbus_Socket "HOL-Library.Multiset"
begin

text \<open>
  What the CMOS publisher and subscriber share: the C library's \<open>strtok\<close> and bounded
  \<open>snprintf\<close>, and the sockets of one thread.

  \<open>cm_io\<close> is what the operating system will answer (connection attempts, \<open>send\<close> results, what
  the master's connection delivers) and what the thread has done (lines on the wire, descriptor
  events, callbacks made). \<open>connect_tcp\<close> and \<open>send_line\<close> are the same text in \<open>cmos_pub.c\<close> and
  \<open>cmos_sub.c\<close> and are one definition here. Console messages are left out.
\<close>

section \<open>Strings\<close>

text \<open>
  One call of \<open>strtok\<close> on the string it has kept: the token and what is kept for the next call.
\<close>

definition strtok :: "(char \<Rightarrow> bool) \<Rightarrow> string \<Rightarrow> string option \<times> string" where
  "strtok delim s = (let t = dropWhile delim s in
     if t = [] then (None, [])
     else (Some (takeWhile (\<lambda>c. \<not> delim c) t), drop 1 (dropWhile (\<lambda>c. \<not> delim c) t)))"

text \<open>A char array read as a string: undefined if nothing terminates it.\<close>

definition c_string :: "string \<Rightarrow> string run" where
  "c_string b = (if CHR 0x00 \<in> set b then Some (cstr b) else None)"

text \<open>
  \<open>pos += snprintf(buf + pos, sizeof(buf) - pos, \<dots>)\<close> for a text: the size is a \<open>size_t\<close>, so it
  wraps when \<open>pos\<close> is past the end; the result counts the whole text.
\<close>

definition snprintf_at :: "nat \<Rightarrow> string \<Rightarrow> string \<Rightarrow> (nat \<times> string) run" where
  "snprintf_at pos txt buf = (let room = nat ((int (length buf) - int pos) mod 2 ^ 64) in
     if room = 0 then Some (pos + length txt, buf)
     else do {
       b \<leftarrow> buf_blit pos (take (room - 1) txt @ [CHR 0x00]) buf;
       Some (pos + length txt, b)
     })"

lemma strtok_word:
  assumes "\<forall>c\<in>set w. \<not> delim c" and "w \<noteq> []" and "delim d"
  shows "strtok delim (w @ d # r) = (Some w, r)"
  using assms by (cases w) (auto simp: strtok_def Let_def dropWhile_append takeWhile_append)

lemma strtok_last:
  assumes "\<forall>c\<in>set w. \<not> delim c" and "w \<noteq> []"
  shows "strtok delim w = (Some w, [])"
proof -
  have t: "takeWhile (\<lambda>c. \<not> delim c) w = w" "dropWhile (\<lambda>c. \<not> delim c) w = []"
    using assms(1) by simp_all
  have d: "dropWhile delim w = w" using assms by (cases w) auto
  show ?thesis using assms(2) by (simp add: strtok_def d t)
qed

lemma strtok_shorter:
  "strtok delim s = (Some t, r) \<Longrightarrow> length r < length s"
proof -
  assume "strtok delim s = (Some t, r)"
  then have ne: "dropWhile delim s \<noteq> []" and r: "r = drop 1 (dropWhile (\<lambda>c. \<not> delim c) (dropWhile delim s))"
    by (auto simp: strtok_def Let_def split: if_splits)
  have "length (dropWhile delim s) \<le> length s" by (rule length_dropWhile_le)
  moreover have "length (dropWhile (\<lambda>c. \<not> delim c) (dropWhile delim s)) \<le> length (dropWhile delim s)"
    by (rule length_dropWhile_le)
  ultimately show ?thesis using ne r by (cases "dropWhile delim s") auto
qed

lemma snprintf_fits:
  assumes "pos + length txt < length buf" and "length buf < 2 ^ 63"
  shows "snprintf_at pos txt buf
    = Some (pos + length txt, take pos buf @ txt @ CHR 0x00 # drop (pos + length txt + 1) buf)"
proof -
  have "(int (length buf) - int pos) mod 2 ^ 64 = int (length buf) - int pos"
    using assms by (intro mod_pos_pos_trivial) auto
  moreover have "take (length buf - pos - 1) txt = txt" using assms by simp
  moreover have "nat (int (length buf) - int pos) = length buf - pos" using assms by simp
  ultimately show ?thesis using assms by (simp add: snprintf_at_def buf_blit_def Let_def)
qed

lemma snprintf_past_end:
  assumes "length buf < pos" and "pos < 2 ^ 63"
  shows "snprintf_at pos txt buf = None"
proof -
  have "(int (length buf) - int pos) mod 2 ^ 64 = int (length buf) - int pos + 2 ^ 64"
    using assms by (subst mod_add_self2 [symmetric], intro mod_pos_pos_trivial) auto
  then have "nat ((int (length buf) - int pos) mod 2 ^ 64) \<noteq> 0" using assms by simp
  then show ?thesis using assms by (simp add: snprintf_at_def Let_def buf_blit_def)
qed

section \<open>Sockets\<close>

record tcp_env =
  t_socket :: int
  t_address_ok :: bool
  t_connect_ok :: bool

record cm_io =
  io_connects :: "tcp_env list"
  io_dials :: "(string \<times> u16) list"
  io_send_rc :: "int list"
  io_master_rx :: "string option list"
  io_wire :: "(int \<times> string) list"
  io_fds :: "fd_ev list"
  io_calls :: "(nat \<times> string \<times> string) list"

definition close_fd :: "int \<Rightarrow> cm_io \<Rightarrow> cm_io" where
  "close_fd fd io = io\<lparr>io_fds := io_fds io @ [Fd_close fd]\<rparr>"

definition open_fd :: "int \<Rightarrow> cm_io \<Rightarrow> cm_io" where
  "open_fd fd io = io\<lparr>io_fds := io_fds io @ [Fd_open fd]\<rparr>"

text \<open>The addresses dialled are recorded; the port is cut to 16 bits by \<open>htons\<close>.\<close>

definition connect_tcp :: "string \<Rightarrow> int \<Rightarrow> cm_io \<Rightarrow> int \<times> cm_io" where
  "connect_tcp ip port io =
     (case io_connects io of
        [] \<Rightarrow> (-1, io)
      | e # r \<Rightarrow> (let io = io\<lparr>io_connects := r\<rparr>; sock = t_socket e in
          if sock < 0 then (-1, io)
          else (let io = open_fd sock io in
            if \<not> t_address_ok e then (-1, close_fd sock io)
            else (let io = io\<lparr>io_dials := io_dials io @ [(cstr ip, word_of_int port)]\<rparr> in
              if \<not> t_connect_ok e then (-1, close_fd sock io)
              else (sock, io)))))"

text \<open>\<open>send\<close>: its scripted result, everything by default; what it takes goes on the wire.\<close>

definition send_text :: "int \<Rightarrow> string \<Rightarrow> cm_io \<Rightarrow> int \<times> cm_io" where
  "send_text fd txt io =
     (let n = (if fd < 0 then - 1 else case io_send_rc io of [] \<Rightarrow> int (length txt) | r # _ \<Rightarrow> r) in
      (n, io\<lparr>io_send_rc := tl (io_send_rc io),
             io_wire := io_wire io @ (if n > 0 then [(fd, take (nat n) txt)] else [])\<rparr>))"

definition send_line :: "int \<Rightarrow> string \<Rightarrow> cm_io \<Rightarrow> int \<times> cm_io" where
  "send_line sock line io = send_text sock (cstr line) io"

text \<open>Nothing but sends and receives: the lines, descriptors and calls only grow.\<close>

lemma send_text_simps [simp]:
  "io_fds (snd (send_text fd txt io)) = io_fds io"
  "io_calls (snd (send_text fd txt io)) = io_calls io"
  "io_connects (snd (send_text fd txt io)) = io_connects io"
  "io_dials (snd (send_text fd txt io)) = io_dials io"
  "io_master_rx (snd (send_text fd txt io)) = io_master_rx io"
  by (simp_all add: send_text_def Let_def)

lemma connect_tcp_cases:
  obtains (failed) io' where "connect_tcp ip port io = (-1, io')" "io_wire io' = io_wire io" "io_calls io' = io_calls io"
      "io_fds io' = io_fds io \<or> (\<exists>fd. io_fds io' = io_fds io @ [Fd_open fd, Fd_close fd])"
  | (connected) fd io' where "connect_tcp ip port io = (fd, io')" "0 \<le> fd" "io_fds io' = io_fds io @ [Fd_open fd]"
      "io_wire io' = io_wire io" "io_calls io' = io_calls io"
proof (cases "io_connects io")
  case Nil
  then show ?thesis using failed by (simp add: connect_tcp_def)
next
  case (Cons e r)
  then show ?thesis
    using failed connected
    by (cases "t_socket e < 0"; cases "t_address_ok e"; cases "t_connect_ok e")
      (auto simp: connect_tcp_def Let_def open_fd_def close_fd_def)
qed

section \<open>Descriptors\<close>

text \<open>
  What a trace has opened and closed, and the descriptors among some variables (negative values
  stand for none; closing one has no effect).
\<close>

definition held :: "int list \<Rightarrow> int multiset" where
  "held fds = mset (filter (\<lambda>fd. 0 \<le> fd) fds)"

definition opened :: "fd_ev list \<Rightarrow> int multiset" where
  "opened tr = held (concat (map (\<lambda>e. case e of Fd_open fd \<Rightarrow> [fd] | _ \<Rightarrow> []) tr))"

definition closed :: "fd_ev list \<Rightarrow> int multiset" where
  "closed tr = held (concat (map (\<lambda>e. case e of Fd_close fd \<Rightarrow> [fd] | _ \<Rightarrow> []) tr))"

lemma held_simps [simp]:
  "held [] = {#}" "held (fd # fds) = (if 0 \<le> fd then add_mset fd (held fds) else held fds)"
  "held (fds @ fds') = held fds + held fds'"
  by (simp_all add: held_def)

lemma opened_simps [simp]:
  "opened [] = {#}" "opened (tr @ tr') = opened tr + opened tr'"
  "opened (Fd_open fd # tr) = held [fd] + opened tr" "opened (Fd_close fd # tr) = opened tr"
  by (simp_all add: opened_def)

lemma closed_simps [simp]:
  "closed [] = {#}" "closed (tr @ tr') = closed tr + closed tr'"
  "closed (Fd_open fd # tr) = closed tr" "closed (Fd_close fd # tr) = held [fd] + closed tr"
  by (simp_all add: closed_def)

lemma held_update:
  assumes "i < length fds"
  shows "held (fds[i := x]) + held [fds ! i] = held fds + held [x]"
  using assms
proof (induction fds arbitrary: i)
  case Nil
  then show ?case by simp
next
  case (Cons fd fds)
  show ?case
  proof (cases i)
    case (Suc j)
    then show ?thesis using Cons(1) [of j] Cons(2) by (auto split: if_splits)
  qed simp
qed

section \<open>Owning descriptors\<close>

text \<open>
  The contract of a component that owns descriptors: an invariant, the trace of what it opened and
  closed, the descriptors it owns now, its operations, and an operation that ends its life. What
  it owns is always what it opened and has not closed; ending its life closes the rest.
\<close>

locale descriptor_owner =
  fixes inv :: "'s \<Rightarrow> bool" and trace :: "'s \<Rightarrow> fd_ev list" and owned :: "'s \<Rightarrow> int multiset"
    and step :: "'op \<Rightarrow> 's \<Rightarrow> 's run" and fits :: "'op \<Rightarrow> bool"
    and finish :: "'s \<Rightarrow> 't run" and final_trace :: "'t \<Rightarrow> fd_ev list"
  assumes step_keeps: "inv s \<Longrightarrow> opened (trace s) = closed (trace s) + owned s \<Longrightarrow> fits op
      \<Longrightarrow> \<exists>s'. step op s = Some s' \<and> inv s' \<and> opened (trace s') = closed (trace s') + owned s'"
    and finish_closes: "inv s \<Longrightarrow> opened (trace s) = closed (trace s) + owned s
      \<Longrightarrow> \<exists>t. finish s = Some t \<and> opened (final_trace t) = closed (final_trace t)"
begin

lemma run_keeps:
  assumes "inv s" and "opened (trace s) = closed (trace s) + owned s" and "\<forall>op\<in>set ops. fits op"
  shows "\<exists>s'. foldM step ops s = Some s' \<and> inv s' \<and> opened (trace s') = closed (trace s') + owned s'"
  using foldM_invariant [where P = "\<lambda>s. inv s \<and> opened (trace s) = closed (trace s) + owned s" and f = step]
    assms step_keeps by blast

lemma life:
  assumes "inv s" and "opened (trace s) = closed (trace s) + owned s" and "\<forall>op\<in>set ops. fits op"
  shows "\<exists>s' t. foldM step ops s = Some s' \<and> inv s' \<and> finish s' = Some t \<and> opened (final_trace t) = closed (final_trace t)"
  using run_keeps [OF assms] finish_closes by blast

end

end
