(* ===== verification/Modbus_Server.thy ===== *)
theory Modbus_Server
  imports Cmos_Text
begin

text \<open>
  The I/O threads of the standalone Modbus TCP module (\<open>lib/modbus/modbus_tcp.c\<close>): the listening
  server, which serves up to ten clients with \<open>select\<close>, and the outbound client, which reconnects.
  The world \<open>'w\<close> is what the callbacks of the configuration change; the results of the system
  calls are inputs. Logging and socket options without effect on the state are left out.

  The state of a thread is the context, the world and the trace of descriptor events.
\<close>

section \<open>Callbacks and limits\<close>

type_synonym 'w mb_state = "'w mb_tcp_ctx \<times> 'w \<times> fd_ev list"

definition mb_tcp_link_call :: "'w mb_tcp_ctx \<Rightarrow> int \<Rightarrow> int \<Rightarrow> 'w \<Rightarrow> 'w" where
  "mb_tcp_link_call ctx fd connected w =
     (case mc_on_link (ctx_cfg ctx) of None \<Rightarrow> w | Some f \<Rightarrow> f fd connected w)"

definition error_call :: "'w mb_tcp_ctx \<Rightarrow> int \<Rightarrow> 'w \<Rightarrow> 'w" where
  "error_call ctx connected w = (case mc_on_error (ctx_cfg ctx) of None \<Rightarrow> w | Some f \<Rightarrow> f connected w)"

definition effective_max_clients :: "'w mb_tcp_ctx \<Rightarrow> nat" where
  "effective_max_clients ctx = (let m = mc_max_clients (ctx_cfg ctx) in
     if m = 0 \<or> m > word_of_nat MB_TCP_MAX_CLIENTS then MB_TCP_MAX_CLIENTS else unat m)"

section \<open>Listening\<close>

record listen_env =
  le_socket :: int
  le_reuseaddr :: int
  le_bind :: int
  le_listen :: int

definition mb_tcp_listen_init :: "listen_env \<Rightarrow> 'w mb_state \<Rightarrow> int \<times> 'w mb_state" where
  "mb_tcp_listen_init env s = (case s of (ctx, w, tr) \<Rightarrow>
     let fd = le_socket env; ctx = ctx\<lparr>listen_sock := fd\<rparr>;
         failed = (- 1, ctx\<lparr>listen_sock := - 1\<rparr>, w, tr @ [Fd_open fd, Fd_close fd]) in
     if fd < 0 then (- 1, ctx, w, tr)
     else if le_reuseaddr env < 0 then failed
     else if le_bind env < 0 then failed
     else if le_listen env < 0 then failed
     else (0, ctx, w, tr @ [Fd_open fd]))"

section \<open>Start\<close>

text \<open>\<open>mutex_ok\<close> and \<open>created\<close>: whether the mutex and the thread can be made.\<close>

definition mb_tcp_start ::
  "listen_env \<Rightarrow> bool \<Rightarrow> bool \<Rightarrow> 'w mb_tcp_config option \<Rightarrow> 'w mb_tcp_ctx option \<times> 'w \<times> fd_ev list
     \<Rightarrow> (int \<times> 'w mb_tcp_ctx option \<times> 'w \<times> fd_ev list) run" where
  "mb_tcp_start env mutex_ok created cfg s = (case s of (ctx, w, tr) \<Rightarrow>
     (case (ctx, cfg) of
        (Some _, Some cfg) \<Rightarrow>
          if mc_mode cfg = MB_TCP_MODE_CONNECT_CLIENT
              \<and> (case mc_remote_host cfg of None \<Rightarrow> True | Some h \<Rightarrow> cstr h = []) then Some (- 1, s)
          else do {
            let cfg = cfg\<lparr>mc_connect_timeout_sec := (if mc_connect_timeout_sec cfg = 0 then 5 else mc_connect_timeout_sec cfg),
                          mc_connect_retry_sec := (if mc_connect_retry_sec cfg = 0 then 3 else mc_connect_retry_sec cfg)\<rparr>;
            let ctx = \<lparr>keep_running = True, ctx_tid = 0, ctx_lock = Mutex_Unset, ctx_cfg = cfg, listen_sock = - 1,
                       stream_sock = - 1, client_fds = replicate MB_TCP_MAX_CLIENTS 0\<rparr>;
            if \<not> mutex_ok then Some (- 1, Some ctx, w, tr)
            else do {
              let ctx = ctx\<lparr>ctx_lock := Mutex_Ready\<rparr>;
              let w = (case mc_on_init cfg of None \<Rightarrow> w | Some f \<Rightarrow> f w);
              if mc_mode cfg = MB_TCP_MODE_LISTEN_SERVER then
                (case mb_tcp_listen_init env (ctx, w, tr) of (rc, ctx, w, tr) \<Rightarrow>
                   if rc < 0 then do {
                     l \<leftarrow> mutex_destroy (ctx_lock ctx);
                     Some (- 1, Some (ctx\<lparr>ctx_lock := l\<rparr>), w, tr)
                   }
                   else if \<not> created then do {
                     l \<leftarrow> mutex_destroy (ctx_lock ctx);
                     Some (- 1, Some (ctx\<lparr>listen_sock := - 1, ctx_lock := l\<rparr>), w, tr @ [Fd_close (listen_sock ctx)])
                   }
                   else Some (0, Some ctx, w, tr))
              else if \<not> created then do {
                l \<leftarrow> mutex_destroy (ctx_lock ctx);
                Some (- 1, Some (ctx\<lparr>ctx_lock := l\<rparr>), w, tr)
              }
              else Some (0, Some ctx, w, tr)
            }
          }
      | _ \<Rightarrow> Some (- 1, s)))"

section \<open>The server thread\<close>

text \<open>
  What the system answers in one round: \<open>select\<close> and its error, the descriptors it leaves in the
  set, what \<open>recv(\<dots>, MSG_PEEK)\<close> finds on a descriptor, and \<open>accept\<close>. A failing \<open>select\<close> leaves
  the set as it was.
\<close>

record round_env =
  re_activity :: int
  re_errno :: int
  re_ready :: "int list"
  re_peek :: "int \<Rightarrow> int"
  re_accept :: int

definition EINTR :: int where "EINTR = 4"

text \<open>Closing client slot \<open>i\<close>, with its callbacks.\<close>

definition drop_client :: "nat \<Rightarrow> int \<Rightarrow> 'w mb_state \<Rightarrow> 'w mb_state run" where
  "drop_client i sd s = (case s of (ctx, w, tr) \<Rightarrow> do {
     fds \<leftarrow> buf_store i 0 (client_fds ctx);
     let ctx = ctx\<lparr>client_fds := fds\<rparr>;
     Some (ctx, error_call ctx 0 (mb_tcp_link_call ctx sd 0 w), tr @ [Fd_close sd])
   })"

text \<open>The loop over idle clients after a timeout.\<close>

definition probe_client :: "round_env \<Rightarrow> nat \<Rightarrow> 'w mb_state \<Rightarrow> 'w mb_state run" where
  "probe_client env i s = (case s of (ctx, w, tr) \<Rightarrow> do {
     sd \<leftarrow> buf_load (client_fds ctx) i;
     if sd > 0 \<and> re_peek env sd = 0 then drop_client i sd s else Some s
   })"

text \<open>The first free slot takes the new socket.\<close>

fun place_client :: "int \<Rightarrow> int list \<Rightarrow> nat list \<Rightarrow> (bool \<times> int list) run" where
  "place_client fd fds [] = Some (False, fds)"
| "place_client fd fds (i # is) = do {
     x \<leftarrow> buf_load fds i;
     if x = 0 then map_option (Pair True) (buf_store i fd fds) else place_client fd fds is
   }"

text \<open>The loop over ready clients.\<close>

definition serve_client :: "int set \<Rightarrow> nat \<Rightarrow> 'w mb_state \<Rightarrow> 'w mb_state run" where
  "serve_client ready i s = (case s of (ctx, w, tr) \<Rightarrow> do {
     sd \<leftarrow> buf_load (client_fds ctx) i;
     set \<leftarrow> (if sd > 0 then fd_isset sd ready else Some False);
     (case mc_on_process (ctx_cfg ctx) of
        Some f \<Rightarrow> if set then (case f sd w of (rc, w) \<Rightarrow>
                     if rc < 0 then drop_client i sd (ctx, w, tr) else Some (ctx, w, tr))
                  else Some s
      | None \<Rightarrow> Some s)
   })"

definition watched_fds :: "'w mb_tcp_ctx \<Rightarrow> int set run" where
  "watched_fds ctx = do {
     s \<leftarrow> fd_add (listen_sock ctx) {};
     foldM (\<lambda>i s. do {
         sd \<leftarrow> buf_load (client_fds ctx) i;
         if sd > 0 then fd_add sd s else Some s
       }) [0..<effective_max_clients ctx] s
   }"

text \<open>One pass of the loop.\<close>

definition server_round :: "round_env \<Rightarrow> 'w mb_state \<Rightarrow> 'w mb_state run" where
  "server_round env s = (case s of (ctx, w, tr) \<Rightarrow> do {
     let slots = [0..<effective_max_clients ctx];
     watched \<leftarrow> watched_fds ctx;
     if re_activity env < 0 \<and> re_errno env \<noteq> EINTR then Some s
     else if re_activity env = 0 then foldM (probe_client env) slots s
     else do {
       let ready = (if re_activity env < 0 then watched else watched \<inter> set (re_ready env));
       incoming \<leftarrow> (if listen_sock ctx \<ge> 0 then fd_isset (listen_sock ctx) ready else Some False);
       if incoming then
         (let fd = re_accept env in
          if fd < 0 then Some s
          else do {
            (placed, fds) \<leftarrow> place_client fd (client_fds ctx) slots;
            if \<not> placed then Some (ctx, w, tr @ [Fd_open fd, Fd_close fd])
            else do {
              let ctx = ctx\<lparr>client_fds := fds\<rparr>;
              let tr = tr @ Fd_open fd # (if mc_recv_timeout_ms (ctx_cfg ctx) > 0
                                          then [Fd_rcvtimeo_ms fd (mc_recv_timeout_ms (ctx_cfg ctx))] else []);
              foldM (serve_client ready) slots (ctx, error_call ctx 1 (mb_tcp_link_call ctx fd 1 w), tr)
            }
          })
       else foldM (serve_client ready) slots s
     }
   })"

text \<open>The thread: its rounds until it sees \<open>keep_running\<close> cleared.\<close>

definition mb_tcp_server_thread :: "round_env list \<Rightarrow> 'w mb_state \<Rightarrow> 'w mb_state run" where
  "mb_tcp_server_thread envs s = foldM server_round envs s"

section \<open>The client thread\<close>

text \<open>One pass: the thread's own socket and flag are \<open>sock\<close> and \<open>connected\<close>.\<close>

definition client_round :: "connect_env \<Rightarrow> (int \<times> bool) \<times> 'w mb_state \<Rightarrow> ((int \<times> bool) \<times> 'w mb_state) run" where
  "client_round env t = (case t of ((sock, connected), ctx, w, tr) \<Rightarrow>
     let process = (\<lambda>sock ctx w tr.
           case mc_on_process (ctx_cfg ctx) of
             None \<Rightarrow> ((sock, True), ctx, w, tr)
           | Some f \<Rightarrow> (case f sock w of (rc, w) \<Rightarrow>
               if rc < 0 then
                 (let w = mb_tcp_link_call ctx sock 0 w; ctx = ctx\<lparr>stream_sock := - 1\<rparr> in
                  ((- 1, False), ctx, error_call ctx 0 w, tr @ [Fd_close sock]))
               else ((sock, True), ctx, w, tr)))
     in if connected then Some (process sock ctx w tr)
        else do {
          (rc, sock', tr) \<leftarrow> mb_tcp_connect env (Some sock) (mc_bind_iface (ctx_cfg ctx)) (mc_remote_host (ctx_cfg ctx))
                (mc_port (ctx_cfg ctx)) (mc_connect_timeout_sec (ctx_cfg ctx)) tr;
          let sock = (case sock' of None \<Rightarrow> sock | Some x \<Rightarrow> x);
          if rc = 0 then
            (let ctx = ctx\<lparr>stream_sock := sock\<rparr> in
             Some (process sock ctx (error_call ctx 1 (mb_tcp_link_call ctx sock 1 w)) tr))
          else Some ((sock, False), ctx, error_call ctx 0 w, tr)
        })"

text \<open>
  The rounds until \<open>keep_running\<close> is cleared, then the way out. The thread begins with \<open>sock\<close> -1,
  not connected.
\<close>

definition mb_tcp_client_thread :: "connect_env list \<Rightarrow> (int \<times> bool) \<times> 'w mb_state \<Rightarrow> 'w mb_state run" where
  "mb_tcp_client_thread envs t = do {
     ((sock, connected), ctx, w, tr) \<leftarrow> foldM client_round envs t;
     Some (ctx, if sock \<ge> 0 then mb_tcp_link_call ctx sock 0 w else w, tr)
   }"

section \<open>Stop\<close>

text \<open>\<open>rest\<close> is what the thread still does until it is joined.\<close>

definition mb_tcp_stop :: "('w mb_state \<Rightarrow> 'w mb_state run) \<Rightarrow> 'w mb_tcp_ctx option \<times> 'w \<times> fd_ev list
     \<Rightarrow> ('w mb_tcp_ctx option \<times> 'w \<times> fd_ev list) run" where
  "mb_tcp_stop rest s = (case s of (ctx, w, tr) \<Rightarrow>
     (case ctx of
        None \<Rightarrow> Some s
      | Some ctx \<Rightarrow> do {
          let ctx = ctx\<lparr>keep_running := False\<rparr>;
          let tr = (if listen_sock ctx \<ge> 0 then tr @ [Fd_shutdown (listen_sock ctx)] else tr);
          tr \<leftarrow> foldM (\<lambda>i tr. do {
              fd \<leftarrow> buf_load (client_fds ctx) i;
              Some (if fd > 0 then tr @ [Fd_shutdown fd] else tr)
            }) [0..<MB_TCP_MAX_CLIENTS] tr;
          let tr = (if stream_sock ctx \<ge> 0 then tr @ [Fd_shutdown (stream_sock ctx)] else tr);
          (ctx, w, tr) \<leftarrow> rest (ctx, w, tr);
          let (ctx, tr) = (if listen_sock ctx \<ge> 0
              then (ctx\<lparr>listen_sock := - 1\<rparr>, tr @ [Fd_close (listen_sock ctx)]) else (ctx, tr));
          (fds, tr) \<leftarrow> foldM (\<lambda>i (fds, tr). do {
              fd \<leftarrow> buf_load fds i;
              if fd > 0 then do {
                fds \<leftarrow> buf_store i 0 fds;
                Some (fds, tr @ [Fd_close fd])
              } else Some (fds, tr)
            }) [0..<MB_TCP_MAX_CLIENTS] (client_fds ctx, tr);
          let ctx = ctx\<lparr>client_fds := fds\<rparr>;
          let (ctx, tr) = (if stream_sock ctx \<ge> 0
              then (ctx\<lparr>stream_sock := - 1\<rparr>, tr @ [Fd_close (stream_sock ctx)]) else (ctx, tr));
          l \<leftarrow> mutex_destroy (ctx_lock ctx);
          Some (Some (ctx\<lparr>ctx_lock := l\<rparr>), w, tr)
        }))"

section \<open>Descriptors of the server\<close>

lemma trace_other [simp]:
  "opened (Fd_shutdown fd # tr) = opened tr" "closed (Fd_shutdown fd # tr) = closed tr"
  "opened (Fd_rcvtimeo_ms fd t # tr) = opened tr" "closed (Fd_rcvtimeo_ms fd t # tr) = closed tr"
  "opened (Fd_timeout fd t' # tr) = opened tr" "closed (Fd_timeout fd t' # tr) = closed tr"
  by (simp_all add: opened_def closed_def)

text \<open>The connected clients: 0 is a free slot.\<close>

definition clients :: "int list \<Rightarrow> int list" where
  "clients fds = filter (\<lambda>fd. 0 < fd) fds"

lemma clients_update:
  assumes "i < length fds"
  shows "mset (clients (fds[i := x])) + mset (clients [fds ! i]) = mset (clients fds) + mset (clients [x])"
  using assms
proof (induction fds arbitrary: i)
  case (Cons fd fds)
  show ?case
  proof (cases i)
    case 0
    then show ?thesis by (simp add: clients_def)
  next
    case (Suc j)
    then show ?thesis using Cons(1) [of j] Cons(2) by (auto simp: clients_def)
  qed
qed simp

definition server_owns :: "'w mb_state \<Rightarrow> int multiset" where
  "server_owns s = (case s of (ctx, w, tr) \<Rightarrow> held [listen_sock ctx] + mset (clients (client_fds ctx)))"

definition server_inv :: "'w mb_tcp_config \<Rightarrow> 'w mb_state \<Rightarrow> bool" where
  "server_inv cfg s \<longleftrightarrow> (case s of (ctx, w, tr) \<Rightarrow> ctx_cfg ctx = cfg \<and> 0 \<le> listen_sock ctx \<and> listen_sock ctx < 1024
     \<and> stream_sock ctx = - 1 \<and> ctx_lock ctx = Mutex_Ready \<and> length (client_fds ctx) = 10
     \<and> (\<forall>fd\<in>set (client_fds ctx). 0 \<le> fd \<and> fd < 1024)
     \<and> (\<forall>i<10. effective_max_clients ctx \<le> i \<longrightarrow> client_fds ctx ! i = 0))"

definition server_good :: "'w mb_tcp_config \<Rightarrow> 'w mb_state \<Rightarrow> bool" where
  "server_good cfg s \<longleftrightarrow> server_inv cfg s \<and> opened (snd (snd s)) = closed (snd (snd s)) + server_owns s"

lemma effective_max: "effective_max_clients ctx \<le> 10" "effective_max_clients (ctx\<lparr>client_fds := f\<rparr>) = effective_max_clients ctx"
  "0 < effective_max_clients ctx"
  by (auto simp: effective_max_clients_def MB_TCP_MAX_CLIENTS_def Let_def word_less_nat_alt unat_gt_0)

lemma server_goodD:
  assumes "server_good cfg (ctx, w, tr)" and "i < 10"
  shows "buf_load (client_fds ctx) i = Some (client_fds ctx ! i)" "0 \<le> client_fds ctx ! i" "client_fds ctx ! i < 1024"
  using assms by (auto simp: server_good_def server_inv_def buf_load_def)

lemma server_good_world: "server_good cfg (ctx, w, tr) \<Longrightarrow> server_good cfg (ctx, w', tr)"
  by (simp add: server_good_def server_inv_def server_owns_def)

lemma server_store:
  assumes "server_good cfg (ctx, w, tr)" and "i < effective_max_clients ctx" and "0 \<le> x" and "x < 1024"
    and "opened ev + mset (clients [client_fds ctx ! i]) = closed ev + mset (clients [x])"
  shows "server_good cfg (ctx\<lparr>client_fds := (client_fds ctx)[i := x]\<rparr>, w', tr @ ev)"
proof -
  let ?fds = "client_fds ctx" and ?ctx = "ctx\<lparr>client_fds := (client_fds ctx)[i := x]\<rparr>"
  have i: "i < length ?fds" using assms(1,2) effective_max(1) [of ctx] by (simp add: server_good_def server_inv_def)
  have "server_inv cfg (?ctx, w', tr @ ev)"
    using assms i by (auto simp: server_good_def server_inv_def effective_max(2) nth_list_update dest: subsetD [OF set_update_subset_insert])
  moreover have "opened (tr @ ev) = closed (tr @ ev) + server_owns (?ctx, w', tr @ ev)"
  proof -
    have "opened (tr @ ev) + mset (clients [?fds ! i])
        = closed tr + (held [listen_sock ctx] + (mset (clients ?fds) + (opened ev + mset (clients [?fds ! i]))))"
      using assms(1) by (simp add: server_good_def server_owns_def)
    also have "\<dots> = closed (tr @ ev) + (held [listen_sock ctx] + (mset (clients ?fds) + mset (clients [x])))"
      unfolding assms(5) by simp
    also have "\<dots> = closed (tr @ ev) + server_owns (?ctx, w', tr @ ev) + mset (clients [?fds ! i])"
      using clients_update [OF i, of x] by (simp add: server_owns_def)
    finally show ?thesis by (rule add_right_imp_eq)
  qed
  ultimately show ?thesis by (simp add: server_good_def)
qed

lemma drop_client_ok:
  assumes "server_good cfg (ctx, w, tr)" and "i < effective_max_clients ctx" and "client_fds ctx ! i = sd" and "0 < sd"
  shows "\<exists>w'. drop_client i sd (ctx, w, tr) = Some (ctx\<lparr>client_fds := (client_fds ctx)[i := 0]\<rparr>, w', tr @ [Fd_close sd])
    \<and> server_good cfg (ctx\<lparr>client_fds := (client_fds ctx)[i := 0]\<rparr>, w', tr @ [Fd_close sd])"
proof -
  have "i < length (client_fds ctx)" using assms(1,2) effective_max(1) [of ctx] by (simp add: server_good_def server_inv_def)
  then show ?thesis
    using server_store [OF assms(1,2), of 0 "[Fd_close sd]"] assms(3,4)
    by (auto simp: drop_client_def buf_store_def clients_def Let_def)
qed

lemma place_client_ok:
  assumes "\<forall>i\<in>set is. i < length fds"
  shows "place_client fd fds is = Some (False, fds) \<and> (\<forall>i\<in>set is. fds ! i \<noteq> 0)
    \<or> (\<exists>i\<in>set is. fds ! i = 0 \<and> place_client fd fds is = Some (True, fds[i := fd]))"
  using assms by (induction "is") (auto simp: buf_load_def buf_store_def)

lemma probe_client_ok:
  assumes "server_good cfg s" and "i < effective_max_clients (fst s)"
  shows "\<exists>s'. probe_client env i s = Some s' \<and> server_good cfg s' \<and> ctx_cfg (fst s') = ctx_cfg (fst s)"
proof -
  obtain ctx w tr where s: "s = (ctx, w, tr)" by (cases s)
  have i: "i < 10" using assms(2) effective_max(1) [of ctx] s by simp
  show ?thesis
    using drop_client_ok [OF assms(1) [unfolded s], of i "client_fds ctx ! i"] server_goodD [OF assms(1) [unfolded s] i] assms s
    by (cases "0 < client_fds ctx ! i \<and> re_peek env (client_fds ctx ! i) = 0") (auto simp: probe_client_def)
qed

lemma serve_client_ok:
  assumes "server_good cfg s" and "i < effective_max_clients (fst s)"
  shows "\<exists>s'. serve_client ready i s = Some s' \<and> server_good cfg s' \<and> ctx_cfg (fst s') = ctx_cfg (fst s)"
proof -
  obtain ctx w tr where s: "s = (ctx, w, tr)" by (cases s)
  note g = assms(1) [unfolded s]
  have i: "i < 10" using assms(2) effective_max(1) [of ctx] s by simp
  let ?sd = "client_fds ctx ! i"
  note ld = server_goodD [OF g i]
  show ?thesis
  proof (cases "mc_on_process (ctx_cfg ctx)")
    case None
    then show ?thesis using ld assms s by (auto simp: serve_client_def fd_isset_def FD_SETSIZE_def)
  next
    case (Some f)
    obtain rc w' where f: "f ?sd w = (rc, w')" by (metis surj_pair)
    show ?thesis
    proof (cases "0 < ?sd \<and> ?sd \<in> ready")
      case False
      then show ?thesis using ld assms s Some by (auto simp: serve_client_def fd_isset_def FD_SETSIZE_def)
    next
      case True
      then have "serve_client ready i s = (if rc < 0 then drop_client i ?sd (ctx, w', tr) else Some (ctx, w', tr))"
        using ld s Some f by (simp add: serve_client_def fd_isset_def FD_SETSIZE_def)
      then show ?thesis
        using drop_client_ok [OF server_good_world [OF g, of w'], of i ?sd] server_good_world [OF g, of w'] assms(2) s True
        by (cases "rc < 0") auto
    qed
  qed
qed

lemma effective_max_cfg: "ctx_cfg c = ctx_cfg c' \<Longrightarrow> effective_max_clients c = effective_max_clients c'"
  by (simp add: effective_max_clients_def)

lemma slots_loop_ok:
  assumes "\<And>i s. P s \<Longrightarrow> i < effective_max_clients (fst s)
      \<Longrightarrow> \<exists>s'. f i s = Some s' \<and> P s' \<and> ctx_cfg (fst s') = ctx_cfg (fst s)"
    and "P s" and "n = effective_max_clients (fst s)"
  shows "\<exists>s'. foldM f [0..<n] s = Some s' \<and> P s'"
proof -
  have "\<exists>s'. foldM f [0..<n] s = Some s' \<and> (P s' \<and> effective_max_clients (fst s') = n)"
  proof (rule foldM_invariant)
    fix i t assume "i \<in> set [0..<n]" "P t \<and> effective_max_clients (fst t) = n"
    then show "\<exists>s'. f i t = Some s' \<and> (P s' \<and> effective_max_clients (fst s') = n)"
      using assms(1) [of t i] effective_max_cfg by fastforce
  qed (use assms in simp)
  then show ?thesis by blast
qed

lemma watched_ok:
  assumes "server_good cfg (ctx, w, tr)"
  shows "watched_fds ctx = Some (insert (listen_sock ctx) (set (clients (client_fds ctx))))"
proof -
  let ?fds = "client_fds ctx" and ?n = "effective_max_clients ctx"
  have "foldM (\<lambda>i s. buf_load ?fds i \<bind> (\<lambda>sd. if sd > 0 then fd_add sd s else Some s)) [0..<k] S
      = Some (S \<union> set (clients (take k ?fds)))" if "k \<le> 10" for k S
    using that
  proof (induction k)
    case (Suc k)
    then have "k < length ?fds" using assms by (simp add: server_good_def server_inv_def)
    then show ?case
      using Suc server_goodD [OF assms, of k]
      by (auto simp: foldM_append take_Suc_conv_app_nth clients_def fd_add_def FD_SETSIZE_def)
  qed (simp add: clients_def)
  note loop = this [OF effective_max(1), of ctx]
  have "drop ?n ?fds = replicate (10 - ?n) 0"
    using assms effective_max(1) [of ctx] by (intro nth_equalityI) (auto simp: server_good_def server_inv_def)
  then have "clients (drop ?n ?fds) = []" by (simp add: clients_def)
  then have "clients ?fds = clients (take ?n ?fds)"
    by (metis append_take_drop_id clients_def filter_append append_Nil2)
  then show ?thesis
    using assms loop by (simp add: watched_fds_def server_good_def server_inv_def fd_add_def FD_SETSIZE_def)
qed

text \<open>What a round comes to.\<close>

lemma server_round_cases:
  assumes "server_good cfg (ctx, w, tr)" and "re_accept env \<noteq> 0"
  obtains (idle) "server_round env (ctx, w, tr) = Some (ctx, w, tr)"
  | (probe) "server_round env (ctx, w, tr) = foldM (probe_client env) [0..<effective_max_clients ctx] (ctx, w, tr)"
  | (serve) ready where
      "server_round env (ctx, w, tr) = foldM (serve_client ready) [0..<effective_max_clients ctx] (ctx, w, tr)"
  | (full) "server_round env (ctx, w, tr) = Some (ctx, w, tr @ [Fd_open (re_accept env), Fd_close (re_accept env)])"
      "0 < re_accept env" "\<forall>i<effective_max_clients ctx. client_fds ctx ! i \<noteq> 0"
  | (placed) i ready ev where "i < effective_max_clients ctx" "client_fds ctx ! i = 0" "0 < re_accept env"
      "opened ev = {#re_accept env#}" "closed ev = {#}"
      "server_round env (ctx, w, tr) = (let c = ctx\<lparr>client_fds := (client_fds ctx)[i := re_accept env]\<rparr> in
         foldM (serve_client ready) [0..<effective_max_clients ctx]
           (c, error_call c 1 (mb_tcp_link_call c (re_accept env) 1 w), tr @ ev))"
proof -
  let ?s = "(ctx, w, tr)" and ?n = "effective_max_clients ctx" and ?fd = "re_accept env"
  have ls: "0 \<le> listen_sock ctx" "listen_sock ctx < 1024" "length (client_fds ctx) = 10"
    using assms(1) by (simp_all add: server_good_def server_inv_def)
  note wa = watched_ok [OF assms(1)]
  define ready where "ready = (if re_activity env < 0 then insert (listen_sock ctx) (set (clients (client_fds ctx)))
      else insert (listen_sock ctx) (set (clients (client_fds ctx))) \<inter> set (re_ready env))"
  let ?ev = "Fd_open ?fd # (if mc_recv_timeout_ms (ctx_cfg ctx) > 0 then [Fd_rcvtimeo_ms ?fd (mc_recv_timeout_ms (ctx_cfg ctx))] else [])"
  define err where "err \<longleftrightarrow> re_activity env < 0 \<and> re_errno env \<noteq> EINTR"
  have run: "server_round env ?s = (if err then Some ?s
      else if re_activity env = 0 then foldM (probe_client env) [0..<?n] ?s
      else if listen_sock ctx \<in> ready then
        (if ?fd < 0 then Some ?s
         else place_client ?fd (client_fds ctx) [0..<?n] \<bind> (\<lambda>(placed, fds).
           if \<not> placed then Some (ctx, w, tr @ [Fd_open ?fd, Fd_close ?fd])
           else (let c = ctx\<lparr>client_fds := fds\<rparr> in
             foldM (serve_client ready) [0..<?n] (c, error_call c 1 (mb_tcp_link_call c ?fd 1 w), tr @ ?ev))))
      else foldM (serve_client ready) [0..<?n] ?s)"
    using ls wa by (simp add: server_round_def fd_isset_def FD_SETSIZE_def Let_def err_def ready_def cong: if_cong)
  have "\<forall>i\<in>set [0..<?n]. i < length (client_fds ctx)" using ls effective_max(1) [of ctx] by auto
  note pl = place_client_ok [OF this, of ?fd]
  consider "err" | "\<not> err" "re_activity env = 0" | "\<not> err" "re_activity env \<noteq> 0" "listen_sock ctx \<notin> ready"
    | "\<not> err" "re_activity env \<noteq> 0" "listen_sock ctx \<in> ready" "?fd < 0"
    | "\<not> err" "re_activity env \<noteq> 0" "listen_sock ctx \<in> ready" "0 < ?fd"
    using assms(2) by linarith
  then show ?thesis
  proof cases
    case 1 then show ?thesis using run idle by simp
  next
    case 2 then show ?thesis using run probe by simp
  next
    case 3 then show ?thesis using run serve by simp
  next
    case 4 then show ?thesis using run idle by simp
  next
    case 5
    from pl show ?thesis
    proof (elim disjE conjE bexE)
      assume "place_client ?fd (client_fds ctx) [0..<?n] = Some (False, client_fds ctx)"
        "\<forall>i\<in>set [0..<?n]. client_fds ctx ! i \<noteq> 0"
      then show ?thesis using run 5 full by simp
    next
      fix i assume i: "i \<in> set [0..<?n]" "client_fds ctx ! i = 0"
        "place_client ?fd (client_fds ctx) [0..<?n] = Some (True, (client_fds ctx)[i := ?fd])"
      have "opened ?ev = {#?fd#}" "closed ?ev = {#}" using 5 by simp_all
      then show ?thesis using run 5 i placed [of i ?ev ready] by simp
    qed
  qed
qed

lemma server_round_ok:
  assumes "server_good cfg s" and "re_accept env \<noteq> 0" and "re_accept env < 1024"
  shows "\<exists>s'. server_round env s = Some s' \<and> server_good cfg s'"
proof -
  obtain ctx w tr where s: "s = (ctx, w, tr)" by (cases s)
  note g = assms(1) [unfolded s]
  have loop: "\<exists>s'. foldM (serve_client r) [0..<effective_max_clients ctx] t = Some s' \<and> server_good cfg s'"
    if "server_good cfg t" "ctx_cfg (fst t) = ctx_cfg ctx" for r t
    using that effective_max_cfg [OF that(2)] by (intro slots_loop_ok [where P = "server_good cfg", OF serve_client_ok]) simp_all
  from g assms(2) show ?thesis
  proof (cases rule: server_round_cases)
    case idle
    then show ?thesis using assms(1) s by simp
  next
    case probe
    then show ?thesis
      using assms(1) s by (simp only: probe) (intro slots_loop_ok [where P = "server_good cfg", OF probe_client_ok], simp_all)
  next
    case serve
    then show ?thesis using loop [OF assms(1)] s by simp
  next
    case full
    then show ?thesis using g s by (simp add: server_good_def server_inv_def server_owns_def)
  next
    case (placed i ready ev)
    have "server_good cfg (ctx\<lparr>client_fds := (client_fds ctx)[i := re_accept env]\<rparr>, w', tr @ ev)" for w'
      using placed assms(3) by (intro server_store [OF g]) (simp_all add: clients_def)
    then show ?thesis using loop placed(6) s by (simp add: Let_def)
  qed
qed

section \<open>Stopping\<close>

lemma shutdown_loop:
  assumes "n \<le> length fds"
  shows "\<exists>ev. foldM (\<lambda>i tr. buf_load fds i \<bind> (\<lambda>fd. Some (if fd > 0 then tr @ [Fd_shutdown fd] else tr))) [0..<n] tr
      = Some (tr @ ev) \<and> opened ev = {#} \<and> closed ev = {#}"
  using assms
proof (induction n)
  case (Suc n)
  then obtain ev where "foldM (\<lambda>i tr. buf_load fds i \<bind> (\<lambda>fd. Some (if fd > 0 then tr @ [Fd_shutdown fd] else tr))) [0..<n] tr
      = Some (tr @ ev)" "opened ev = {#}" "closed ev = {#}"
    by auto
  then show ?case using Suc(2)
    by (intro exI [of _ "ev @ (if fds ! n > 0 then [Fd_shutdown (fds ! n)] else [])"]) (simp add: foldM_append buf_load_def)
qed (intro exI [of _ "[]"], simp)

lemma close_clients_loop:
  assumes "n \<le> length fds" and "\<forall>fd\<in>set fds. 0 \<le> fd"
  shows "foldM (\<lambda>i (fds, tr). buf_load fds i \<bind> (\<lambda>fd. if fd > 0
        then buf_store i 0 fds \<bind> (\<lambda>fds. Some (fds, tr @ [Fd_close fd])) else Some (fds, tr))) [0..<n] (fds, tr)
      = Some (replicate n 0 @ drop n fds, tr @ map Fd_close (clients (take n fds)))"
  using assms(1)
proof (induction n)
  case (Suc n)
  have d: "drop n fds = fds ! n # drop (Suc n) fds" using Suc(2) by (simp add: Cons_nth_drop_Suc)
  have "fds ! n = 0 \<or> 0 < fds ! n" using assms(2) Suc(2) by (metis Suc_le_lessD nth_mem order_le_less)
  then show ?case
    using Suc d by (auto simp: foldM_append take_Suc_conv_app_nth clients_def buf_load_def buf_store_def nth_append
        list_update_append replicate_append_same)
qed (simp add: clients_def)

lemma closes_map: "closed (map Fd_close fds) = held fds" "opened (map Fd_close fds) = {#}"
  by (induction fds) simp_all

lemma held_clients: "held (clients fds) = mset (clients fds)"
  by (simp add: held_def clients_def) (metis (mono_tags, lifting) filter_cong less_imp_le)

lemma server_stop_ok:
  assumes "server_good cfg (ctx, w, tr)"
    and "\<And>s. server_good cfg s \<Longrightarrow> \<exists>s'. rest s = Some s' \<and> server_good cfg s'"
  shows "\<exists>ctx' w' tr'. mb_tcp_stop rest (Some ctx, w, tr) = Some (Some ctx', w', tr')
    \<and> opened tr' = closed tr' \<and> listen_sock ctx' = - 1 \<and> client_fds ctx' = replicate 10 0 \<and> ctx_lock ctx' = Mutex_Destroyed"
proof -
  let ?c = "ctx\<lparr>keep_running := False\<rparr>"
  have len: "length (client_fds ctx) = 10" "stream_sock ctx = - 1" "0 \<le> listen_sock ctx"
    using assms(1) by (auto simp: server_good_def server_inv_def)
  obtain ev where ev: "foldM (\<lambda>i tr. buf_load (client_fds ctx) i \<bind> (\<lambda>fd. Some (if fd > 0 then tr @ [Fd_shutdown fd] else tr)))
      [0..<10] (tr @ [Fd_shutdown (listen_sock ctx)]) = Some ((tr @ [Fd_shutdown (listen_sock ctx)]) @ ev)"
      "opened ev = {#}" "closed ev = {#}"
    using shutdown_loop [of 10 "client_fds ctx" "tr @ [Fd_shutdown (listen_sock ctx)]"] len(1) by fastforce
  let ?tr = "(tr @ [Fd_shutdown (listen_sock ctx)]) @ ev"
  have "server_good cfg (?c, w, ?tr)"
    using assms(1) ev(2,3) by (simp add: server_good_def server_inv_def server_owns_def effective_max_clients_def)
  from assms(2) [OF this] obtain c1 w1 t1 where r: "rest (?c, w, ?tr) = Some (c1, w1, t1)" "server_good cfg (c1, w1, t1)"
    by auto
  have c1: "0 \<le> listen_sock c1" "stream_sock c1 = - 1" "length (client_fds c1) = 10" "ctx_lock c1 = Mutex_Ready"
      "\<forall>fd\<in>set (client_fds c1). 0 \<le> fd"
    using r(2) by (auto simp: server_good_def server_inv_def)
  have loop: "foldM (\<lambda>i (fds, tr). buf_load fds i \<bind> (\<lambda>fd. if fd > 0
        then buf_store i 0 fds \<bind> (\<lambda>fds. Some (fds, tr @ [Fd_close fd])) else Some (fds, tr))) [0..<10]
      (client_fds c1, t1 @ [Fd_close (listen_sock c1)])
    = Some (replicate 10 0, (t1 @ [Fd_close (listen_sock c1)]) @ map Fd_close (clients (client_fds c1)))"
    using close_clients_loop [of 10 "client_fds c1"] c1(3,5) by simp
  let ?c2 = "c1\<lparr>listen_sock := - 1, client_fds := replicate 10 0, ctx_lock := Mutex_Destroyed\<rparr>"
  have "mb_tcp_stop rest (Some ctx, w, tr)
      = Some (Some ?c2, w1, (t1 @ [Fd_close (listen_sock c1)]) @ map Fd_close (clients (client_fds c1)))"
    using ev(1) r(1) len c1 loop
    by (simp add: mb_tcp_stop_def Let_def MB_TCP_MAX_CLIENTS_def mutex_destroy_def del: append_assoc replicate.simps)
  moreover have "opened ((t1 @ [Fd_close (listen_sock c1)]) @ map Fd_close (clients (client_fds c1)))
      = closed ((t1 @ [Fd_close (listen_sock c1)]) @ map Fd_close (clients (client_fds c1)))"
    using r(2) c1 by (simp add: server_good_def server_owns_def closes_map held_clients)
  ultimately show ?thesis by (intro exI [of _ ?c2] exI conjI) (assumption, simp_all)
qed

interpretation mb_server: descriptor_owner "server_inv cfg" "\<lambda>s. snd (snd s)" server_owns server_round
  "\<lambda>env. re_accept env \<noteq> 0 \<and> re_accept env < 1024"
  "\<lambda>s. mb_tcp_stop Some (Some (fst s), snd s)" "\<lambda>s. snd (snd s)" for cfg :: "'w mb_tcp_config"
proof unfold_locales
  fix s :: "'w mb_state" and op :: round_env
  assume "server_inv cfg s" "opened (snd (snd s)) = closed (snd (snd s)) + server_owns s" "re_accept op \<noteq> 0 \<and> re_accept op < 1024"
  then show "\<exists>s'. server_round op s = Some s' \<and> server_inv cfg s' \<and> opened (snd (snd s')) = closed (snd (snd s')) + server_owns s'"
    using server_round_ok [of cfg s op] by (simp add: server_good_def)
next
  fix s :: "'w mb_state"
  assume "server_inv cfg s" "opened (snd (snd s)) = closed (snd (snd s)) + server_owns s"
  then have "server_good cfg (fst s, fst (snd s), snd (snd s))" by (simp add: server_good_def)
  from server_stop_ok [OF this, of Some]
  show "\<exists>t. mb_tcp_stop Some (Some (fst s), snd s) = Some t \<and> opened (snd (snd t)) = closed (snd (snd t))"
    by fastforce
qed

lemma server_start_ok:
  assumes "mb_tcp_start env mok created (Some cfg) (Some ctx, w, tr) = Some (0, Some ctx1, w1, tr1)"
    and "mc_mode cfg = MB_TCP_MODE_LISTEN_SERVER" and "le_socket env < 1024" and "opened tr = closed tr"
  shows "\<exists>cfg'. server_good cfg' (ctx1, w1, tr1) \<and> mc_max_clients cfg' = mc_max_clients cfg"
proof -
  have "ctx_cfg ctx1 = cfg\<lparr>mc_connect_timeout_sec := (if mc_connect_timeout_sec cfg = 0 then 5 else mc_connect_timeout_sec cfg),
      mc_connect_retry_sec := (if mc_connect_retry_sec cfg = 0 then 3 else mc_connect_retry_sec cfg)\<rparr>
    \<and> listen_sock ctx1 = le_socket env \<and> 0 \<le> le_socket env \<and> stream_sock ctx1 = - 1 \<and> ctx_lock ctx1 = Mutex_Ready
    \<and> client_fds ctx1 = replicate 10 0 \<and> tr1 = tr @ [Fd_open (le_socket env)]"
    using assms(1,2) by (auto simp: mb_tcp_start_def mb_tcp_listen_init_def mutex_destroy_def MB_TCP_MAX_CLIENTS_def Let_def
        split: if_splits bind_splits)
  then show ?thesis
    using assms(3,4) by (intro exI [of _ "ctx_cfg ctx1"]) (simp add: server_good_def server_inv_def server_owns_def clients_def)
qed

section \<open>The server leaks nothing\<close>

lemma few_clients:
  assumes "server_good cfg (ctx, w, tr)"
  shows "length (clients (client_fds ctx)) \<le> effective_max_clients ctx"
proof -
  let ?n = "effective_max_clients ctx" and ?fds = "client_fds ctx"
  have "drop ?n ?fds = replicate (10 - ?n) 0"
    using assms effective_max(1) [of ctx] by (intro nth_equalityI) (auto simp: server_good_def server_inv_def)
  then have "clients ?fds = clients (take ?n ?fds)"
    unfolding clients_def by (subst append_take_drop_id [of ?n, symmetric], subst filter_append) simp
  then show ?thesis using length_filter_le [of "\<lambda>fd. 0 < fd" "take ?n ?fds"] by (simp add: clients_def)
qed

text \<open>
  C23: the listening server leaks no descriptor and never serves too many. After a successful start,
  whatever \<open>select\<close>, \<open>accept\<close> and the callbacks do in any number of rounds (descriptors between 1
  and 1023), no array is left and at most the configured number of clients, or ten, is connected; stopping,
  while the thread makes its last rounds, has closed every descriptor that was opened, each as
  often as it was opened, and destroyed the mutex.
\<close>

theorem server_no_leak:
  assumes "mb_tcp_start env mok created (Some cfg) (Some ctx, w, tr) = Some (0, Some ctx1, w1, tr1)"
    and "mc_mode cfg = MB_TCP_MODE_LISTEN_SERVER" and "le_socket env < 1024" and "opened tr = closed tr"
    and "\<forall>e\<in>set (envs @ last_envs). re_accept e \<noteq> 0 \<and> re_accept e < 1024"
  shows "\<exists>ctx2 w2 tr2 ctx3 w3 tr3. mb_tcp_server_thread envs (ctx1, w1, tr1) = Some (ctx2, w2, tr2)
    \<and> length (clients (client_fds ctx2)) \<le> effective_max_clients ctx2
    \<and> mb_tcp_stop (mb_tcp_server_thread last_envs) (Some ctx2, w2, tr2) = Some (Some ctx3, w3, tr3)
    \<and> opened tr3 = closed tr3 \<and> listen_sock ctx3 = - 1 \<and> clients (client_fds ctx3) = [] \<and> ctx_lock ctx3 = Mutex_Destroyed"
proof -
  obtain cfg' where g: "server_good cfg' (ctx1, w1, tr1)" using server_start_ok [OF assms(1-4)] by blast
  have keep: "\<exists>s'. mb_tcp_server_thread es s = Some s' \<and> server_good cfg' s'"
    if "server_good cfg' s" "\<forall>e\<in>set es. re_accept e \<noteq> 0 \<and> re_accept e < 1024" for s es
    using mb_server.run_keeps [of cfg' s es] that by (auto simp: server_good_def mb_tcp_server_thread_def)
  from keep [OF g, of envs] assms(5) obtain ctx2 w2 tr2 where
      2: "mb_tcp_server_thread envs (ctx1, w1, tr1) = Some (ctx2, w2, tr2)" "server_good cfg' (ctx2, w2, tr2)"
    by auto
  have "\<forall>e\<in>set last_envs. re_accept e \<noteq> 0 \<and> re_accept e < 1024" using assms(5) by simp
  from server_stop_ok [OF 2(2), of "mb_tcp_server_thread last_envs"] keep [OF _ this]
  obtain ctx3 w3 tr3 where "mb_tcp_stop (mb_tcp_server_thread last_envs) (Some ctx2, w2, tr2) = Some (Some ctx3, w3, tr3)"
      "opened tr3 = closed tr3" "listen_sock ctx3 = - 1" "client_fds ctx3 = replicate 10 0" "ctx_lock ctx3 = Mutex_Destroyed"
    by blast
  then show ?thesis using 2 few_clients [OF 2(2)] by (auto simp: clients_def)
qed

definition demo_server_cfg :: "int list mb_tcp_config" where
  "demo_server_cfg = \<lparr>mc_mode = MB_TCP_MODE_LISTEN_SERVER, mc_remote_host = None, mc_port = 502, mc_bind_iface = None,
     mc_connect_timeout_sec = 0, mc_connect_retry_sec = 0, mc_recv_timeout_ms = 0, mc_max_clients = 2,
     mc_on_link = Some (\<lambda>fd c w. w @ [fd, c]), mc_on_init = None, mc_on_process = Some (\<lambda>fd w. (- 1, w)), mc_on_error = None\<rparr>"

definition demo_server_ctx :: "int list mb_tcp_ctx" where
  "demo_server_ctx = \<lparr>keep_running = False, ctx_tid = 0, ctx_lock = Mutex_Unset, ctx_cfg = demo_server_cfg, listen_sock = 0,
     stream_sock = 0, client_fds = replicate 10 0\<rparr>"

definition demo_round :: "int \<Rightarrow> int list \<Rightarrow> int \<Rightarrow> round_env" where
  "demo_round n ready fd = \<lparr>re_activity = n, re_errno = 0, re_ready = ready, re_peek = \<lambda>_. - 1, re_accept = fd\<rparr>"

theorem server_no_leak_witness:
  "\<exists>ctx1 tr1 ctx2 w2 tr2 ctx3 w3 tr3.
      mb_tcp_start \<lparr>le_socket = 3, le_reuseaddr = 0, le_bind = 0, le_listen = 0\<rparr> True True (Some demo_server_cfg)
        (Some demo_server_ctx, [], []) = Some (0, Some ctx1, [], tr1)
    \<and> mb_tcp_server_thread [demo_round 1 [3] 4, demo_round 2 [3, 4] 5] (ctx1, [], tr1) = Some (ctx2, w2, tr2)
    \<and> length (clients (client_fds ctx2)) \<le> effective_max_clients ctx2
    \<and> mb_tcp_stop (mb_tcp_server_thread [demo_round 1 [3] 6]) (Some ctx2, w2, tr2) = Some (Some ctx3, w3, tr3)
    \<and> opened tr3 = closed tr3 \<and> listen_sock ctx3 = - 1 \<and> clients (client_fds ctx3) = [] \<and> ctx_lock ctx3 = Mutex_Destroyed"
proof -
  let ?env = "\<lparr>le_socket = 3, le_reuseaddr = 0, le_bind = 0, le_listen = 0\<rparr>"
  obtain ctx1 tr1 where st: "mb_tcp_start ?env True True (Some demo_server_cfg) (Some demo_server_ctx, [], []) = Some (0, Some ctx1, [], tr1)"
    by (simp add: mb_tcp_start_def demo_server_cfg_def mb_tcp_listen_init_def Let_def)
  have "\<exists>ctx2 w2 tr2 ctx3 w3 tr3. mb_tcp_server_thread [demo_round 1 [3] 4, demo_round 2 [3, 4] 5] (ctx1, [], tr1) = Some (ctx2, w2, tr2)
    \<and> length (clients (client_fds ctx2)) \<le> effective_max_clients ctx2
    \<and> mb_tcp_stop (mb_tcp_server_thread [demo_round 1 [3] 6]) (Some ctx2, w2, tr2) = Some (Some ctx3, w3, tr3)
    \<and> opened tr3 = closed tr3 \<and> listen_sock ctx3 = - 1 \<and> clients (client_fds ctx3) = [] \<and> ctx_lock ctx3 = Mutex_Destroyed"
    by (rule server_no_leak [OF st]) (simp_all add: demo_server_cfg_def demo_round_def)
  with st show ?thesis by blast
qed

section \<open>The upper layer's view of the links\<close>

text \<open>
  Callbacks that keep a set of the connected descriptors in step with \<open>on_link\<close>, besides whatever
  else they do.
\<close>

definition tracks_links :: "(int set \<times> 'v) mb_tcp_config \<Rightarrow> bool" where
  "tracks_links cfg \<longleftrightarrow> (case mc_on_link cfg of None \<Rightarrow> False
       | Some f \<Rightarrow> \<forall>fd w. fst (f fd 1 w) = insert fd (fst w) \<and> fst (f fd 0 w) = fst w - {fd})
     \<and> (case mc_on_process cfg of None \<Rightarrow> True | Some f \<Rightarrow> \<forall>fd w. fst (snd (f fd w)) = fst w)
     \<and> (case mc_on_error cfg of None \<Rightarrow> True | Some f \<Rightarrow> \<forall>c w. fst (f c w) = fst w)"

definition links_viewed :: "(int set \<times> 'v) mb_tcp_config \<Rightarrow> (int set \<times> 'v) mb_state \<Rightarrow> bool" where
  "links_viewed cfg s \<longleftrightarrow> server_good cfg s \<and> (case s of (ctx, w, tr) \<Rightarrow>
     distinct (clients (client_fds ctx)) \<and> fst w = set (clients (client_fds ctx)))"

lemma tracks_calls:
  assumes "tracks_links (ctx_cfg ctx)"
  shows "fst (mb_tcp_link_call ctx fd 1 w) = insert fd (fst w)" "fst (mb_tcp_link_call ctx fd 0 w) = fst w - {fd}"
    "fst (error_call ctx c w) = fst w"
  using assms by (cases w; auto simp: tracks_links_def mb_tcp_link_call_def error_call_def split: option.splits)+

lemma clients_drop:
  assumes "distinct (clients fds)" and "i < length fds" and "0 < fds ! i"
  shows "distinct (clients (fds[i := 0]))" "set (clients (fds[i := 0])) = set (clients fds) - {fds ! i}"
proof -
  have m: "mset (clients (fds[i := 0])) = mset (remove1 (fds ! i) (clients fds))"
    using clients_update [OF assms(2), of 0] assms(3) by (simp add: clients_def) (metis add_mset_remove_trivial)
  then show "distinct (clients (fds[i := 0]))" using assms(1) by (metis distinct_remove1 mset_eq_imp_distinct_iff)
  show "set (clients (fds[i := 0])) = set (clients fds) - {fds ! i}"
    using m assms(1) by (metis mset_eq_setD set_remove1_eq)
qed

lemma clients_add:
  assumes "i < length fds" and "fds ! i = 0" and "0 < fd"
  shows "mset (clients (fds[i := fd])) = mset (fd # clients fds)"
  using clients_update [OF assms(1), of fd] assms(2,3) by (simp add: clients_def)

lemma drop_client_viewed:
  assumes "links_viewed cfg (ctx, w, tr)" and "tracks_links cfg" and "i < effective_max_clients ctx"
    and "client_fds ctx ! i = sd" and "0 < sd"
  shows "\<exists>s'. drop_client i sd (ctx, w, tr) = Some s' \<and> links_viewed cfg s' \<and> ctx_cfg (fst s') = ctx_cfg ctx"
proof -
  have g: "server_good cfg (ctx, w, tr)" using assms(1) by (simp add: links_viewed_def)
  then have c: "ctx_cfg ctx = cfg" "length (client_fds ctx) = 10" by (simp_all add: server_good_def server_inv_def)
  then have i: "i < length (client_fds ctx)" using assms(3) effective_max(1) [of ctx] by simp
  let ?c = "ctx\<lparr>client_fds := (client_fds ctx)[i := 0]\<rparr>"
  have run: "drop_client i sd (ctx, w, tr) = Some (?c, error_call ?c 0 (mb_tcp_link_call ?c sd 0 w), tr @ [Fd_close sd])"
    using i by (simp add: drop_client_def buf_store_def Let_def)
  have "tracks_links (ctx_cfg ?c)" using assms(2) c(1) by simp
  note tr = tracks_calls [OF this]
  have "links_viewed cfg (?c, error_call ?c 0 (mb_tcp_link_call ?c sd 0 w), tr @ [Fd_close sd])"
    using assms(1) clients_drop [of "client_fds ctx" i] i assms(4,5) drop_client_ok [OF g assms(3-5)] run
    by (simp add: links_viewed_def tr)
  then show ?thesis using run by simp
qed

lemma probe_client_viewed:
  assumes "links_viewed cfg s" and "tracks_links cfg" and "i < effective_max_clients (fst s)"
  shows "\<exists>s'. probe_client env i s = Some s' \<and> links_viewed cfg s' \<and> ctx_cfg (fst s') = ctx_cfg (fst s)"
proof -
  obtain ctx S v tr where s: "s = (ctx, (S, v), tr)" by (metis surj_pair)
  have i: "i < 10" using assms(3) effective_max(1) [of ctx] s by simp
  have "server_good cfg (ctx, (S, v), tr)" using assms(1) s by (auto simp: links_viewed_def)
  note ld = server_goodD [OF this i]
  show ?thesis
    using drop_client_viewed [OF assms(1) [unfolded s] assms(2), of i "client_fds ctx ! i"] ld assms s
    by (cases "0 < client_fds ctx ! i \<and> re_peek env (client_fds ctx ! i) = 0") (auto simp: probe_client_def)
qed

lemma serve_client_viewed:
  assumes "links_viewed cfg s" and "tracks_links cfg" and "i < effective_max_clients (fst s)"
  shows "\<exists>s'. serve_client ready i s = Some s' \<and> links_viewed cfg s' \<and> ctx_cfg (fst s') = ctx_cfg (fst s)"
proof -
  obtain ctx S v tr where s: "s = (ctx, (S, v), tr)" by (metis surj_pair)
  have i: "i < 10" using assms(3) effective_max(1) [of ctx] s by simp
  have g: "server_good cfg (ctx, (S, v), tr)" using assms(1) s by (auto simp: links_viewed_def)
  note ld = server_goodD [OF g i]
  have cfg: "ctx_cfg ctx = cfg" using g by (simp add: server_good_def server_inv_def)
  let ?sd = "client_fds ctx ! i"
  show ?thesis
  proof (cases "0 < ?sd \<and> ?sd \<in> ready \<and> mc_on_process (ctx_cfg ctx) \<noteq> None")
    case False
    then show ?thesis using ld assms s by (auto simp: serve_client_def fd_isset_def FD_SETSIZE_def split: option.splits)
  next
    case True
    then obtain f where f: "mc_on_process (ctx_cfg ctx) = Some f" by auto
    obtain rc w' where r: "f ?sd (S, v) = (rc, w')" by (metis surj_pair)
    have "\<forall>fd w. fst (snd (f fd w)) = fst w" using assms(2) f cfg by (simp add: tracks_links_def)
    then have "fst w' = S" using r by (metis fst_conv snd_conv)
    then have v: "links_viewed cfg (ctx, w', tr)"
      using assms(1) s server_good_world [OF g] by (simp add: links_viewed_def)
    have "serve_client ready i s = (if rc < 0 then drop_client i ?sd (ctx, w', tr) else Some (ctx, w', tr))"
      using True ld s f r by (simp add: serve_client_def fd_isset_def FD_SETSIZE_def)
    then show ?thesis using drop_client_viewed [OF v assms(2), of i ?sd] v assms(3) s True by (cases "rc < 0") auto
  qed
qed

text \<open>
  C22: the link callbacks tell the truth. If the upper layer keeps a set of descriptors by adding on
  link-up and removing on link-down, then after every round of the server it is exactly the set of
  connected clients, each connected once, however the round went: timeouts, peers that vanished,
  failing \<open>on_process\<close>, a new client with or without room. (\<open>accept\<close> returns a descriptor that is
  not in use.)
\<close>

theorem server_link_view:
  assumes "links_viewed cfg s" and "tracks_links cfg"
    and "0 < re_accept env \<longrightarrow> re_accept env \<notin> set (client_fds (fst s))" and "re_accept env \<noteq> 0" and "re_accept env < 1024"
  shows "\<exists>s'. server_round env s = Some s' \<and> links_viewed cfg s'"
proof -
  obtain ctx w tr where s: "s = (ctx, w, tr)" by (cases s)
  have g: "server_good cfg (ctx, w, tr)" using assms(1) s by (simp add: links_viewed_def)
  then have cfg: "ctx_cfg ctx = cfg" "length (client_fds ctx) = 10" by (simp_all add: server_good_def server_inv_def)
  have loop: "\<exists>s'. foldM (serve_client r) [0..<effective_max_clients ctx] t = Some s' \<and> links_viewed cfg s'"
    if "links_viewed cfg t" "ctx_cfg (fst t) = ctx_cfg ctx" for r t
    using that effective_max_cfg [OF that(2)] assms(2)
    by (intro slots_loop_ok [where P = "links_viewed cfg"] serve_client_viewed) simp_all
  from g assms(4) show ?thesis
  proof (cases rule: server_round_cases)
    case idle
    then show ?thesis using assms(1) s by simp
  next
    case probe
    have "\<exists>s'. foldM (probe_client env) [0..<effective_max_clients ctx] (ctx, w, tr) = Some s' \<and> links_viewed cfg s'"
      using assms(1,2) s by (intro slots_loop_ok [where P = "links_viewed cfg"] probe_client_viewed) simp_all
    then show ?thesis using s by (simp only: probe)
  next
    case serve
    then show ?thesis using loop [OF assms(1)] s by simp
  next
    case full
    then show ?thesis using assms(1) g s by (simp add: links_viewed_def server_good_def server_inv_def server_owns_def)
  next
    case (placed i ready ev)
    let ?fd = "re_accept env" and ?c = "ctx\<lparr>client_fds := (client_fds ctx)[i := re_accept env]\<rparr>"
    have i: "i < length (client_fds ctx)" using placed(1) cfg(2) effective_max(1) [of ctx] by simp
    have ms: "mset (clients (client_fds ?c)) = mset (?fd # clients (client_fds ctx))"
      using clients_add [OF i placed(2,3)] by simp
    have "?fd \<notin> set (clients (client_fds ctx))" using assms(3) placed(3) s by (auto simp: clients_def)
    then have d: "distinct (clients (client_fds ?c))" "set (clients (client_fds ?c)) = insert ?fd (set (clients (client_fds ctx)))"
      using ms assms(1) s mset_eq_imp_distinct_iff [OF ms] mset_eq_setD [OF ms] by (auto simp: links_viewed_def)
    have "tracks_links (ctx_cfg ?c)" using assms(2) cfg by simp
    note tc = tracks_calls [OF this]
    have "server_good cfg (?c, w', tr @ ev)" for w'
      using placed assms(5) by (intro server_store [OF g]) (simp_all add: clients_def)
    then have "links_viewed cfg (?c, error_call ?c 1 (mb_tcp_link_call ?c ?fd 1 w), tr @ ev)"
      using d assms(1) s tc by (simp add: links_viewed_def)
    from loop [OF this] show ?thesis using placed(6) s by (simp add: Let_def)
  qed
qed

definition demo_view_cfg :: "(int set \<times> nat) mb_tcp_config" where
  "demo_view_cfg = \<lparr>mc_mode = MB_TCP_MODE_LISTEN_SERVER, mc_remote_host = None, mc_port = 502, mc_bind_iface = None,
     mc_connect_timeout_sec = 5, mc_connect_retry_sec = 3, mc_recv_timeout_ms = 0, mc_max_clients = 2,
     mc_on_link = Some (\<lambda>fd c w. if c = 1 then (insert fd (fst w), snd w) else (fst w - {fd}, snd w)), mc_on_init = None,
     mc_on_process = Some (\<lambda>fd w. (if fd = 4 then - 1 else 0, fst w, snd w + 1)), mc_on_error = None\<rparr>"

definition demo_view :: "(int set \<times> nat) mb_state" where
  "demo_view = (\<lparr>keep_running = True, ctx_tid = 0, ctx_lock = Mutex_Ready, ctx_cfg = demo_view_cfg, listen_sock = 3,
     stream_sock = - 1, client_fds = [4, 0, 0, 0, 0, 0, 0, 0, 0, 0]\<rparr>, ({4}, 0), [Fd_open 3, Fd_open 4])"

theorem server_link_view_witness:
  "\<exists>s'. server_round (demo_round 2 [3, 4] 5) demo_view = Some s' \<and> links_viewed demo_view_cfg s'"
proof (rule server_link_view)
  have "effective_max_clients (fst demo_view) = 2"
    by (simp add: demo_view_def demo_view_cfg_def effective_max_clients_def MB_TCP_MAX_CLIENTS_def)
  moreover have "[4, 0, 0, 0, 0, 0, 0, 0, 0, 0] ! i = (0 :: int)" if "2 \<le> i" "i < 10" for i
  proof -
    have "i \<in> {2, 3, 4, 5, 6, 7, 8, 9}" using that by auto
    then show ?thesis by auto
  qed
  ultimately show "links_viewed demo_view_cfg demo_view"
    by (simp add: links_viewed_def server_good_def server_inv_def server_owns_def demo_view_def clients_def) auto
  show "tracks_links demo_view_cfg" by (simp add: tracks_links_def demo_view_cfg_def)
qed (simp_all add: demo_round_def demo_view_def)

section \<open>The client thread\<close>

lemma connect_result:
  assumes "rc_socket env < FD_SETSIZE"
  shows "\<exists>rc sock' ev. mb_tcp_connect env (Some sock) iface host port tmo tr = Some (rc, Some sock', tr @ ev)
     \<and> (rc = 0 \<and> 0 \<le> sock' \<and> opened ev = {#sock'#} \<and> closed ev = {#}
        \<or> rc \<noteq> 0 \<and> (sock' < 0 \<or> sock' = sock) \<and> opened ev = {#} + closed ev)"
  using assms by (auto simp: mb_tcp_connect_def connect_fail_def EINVAL_def fd_add_def Let_def split: option.splits)

definition client_inv :: "(int \<times> bool) \<times> 'w mb_state \<Rightarrow> bool" where
  "client_inv t \<longleftrightarrow> (case t of ((sock, connected), ctx, w, tr) \<Rightarrow>
     (if connected then 0 \<le> sock \<and> stream_sock ctx = sock else sock < 0 \<and> stream_sock ctx = - 1)
     \<and> listen_sock ctx = - 1 \<and> client_fds ctx = replicate 10 0 \<and> ctx_lock ctx = Mutex_Ready)"

definition client_owns :: "(int \<times> bool) \<times> 'w mb_state \<Rightarrow> int multiset" where
  "client_owns t = held [fst (fst t)]"

definition client_trace :: "(int \<times> bool) \<times> 'w mb_state \<Rightarrow> fd_ev list" where
  "client_trace t = snd (snd (snd t))"

definition client_thread_good :: "(int \<times> bool) \<times> 'w mb_state \<Rightarrow> bool" where
  "client_thread_good t \<longleftrightarrow> client_inv t \<and> opened (client_trace t) = closed (client_trace t) + client_owns t"

lemmas client_good_defs = client_thread_good_def client_inv_def client_owns_def client_trace_def

lemma client_round_good:
  assumes "client_thread_good t" and "rc_socket env < FD_SETSIZE"
  shows "\<exists>t'. client_round env t = Some t' \<and> client_thread_good t'"
proof -
  obtain sock conn ctx w tr where t: "t = ((sock, conn), ctx, w, tr)" by (metis surj_pair)
  obtain rc sock' ev where c: "mb_tcp_connect env (Some sock) (mc_bind_iface (ctx_cfg ctx)) (mc_remote_host (ctx_cfg ctx))
      (mc_port (ctx_cfg ctx)) (mc_connect_timeout_sec (ctx_cfg ctx)) tr = Some (rc, Some sock', tr @ ev)"
      "rc = 0 \<and> 0 \<le> sock' \<and> opened ev = {#sock'#} \<and> closed ev = {#}
        \<or> rc \<noteq> 0 \<and> (sock' < 0 \<or> sock' = sock) \<and> opened ev = {#} + closed ev"
    using connect_result [OF assms(2)] by blast
  show ?thesis
    using assms(1) c t
    by (cases conn; cases "rc = 0")
      (auto simp: client_good_defs client_round_def Let_def split: option.splits prod.splits)
qed

lemma client_fold_good:
  assumes "client_thread_good t" and "\<forall>e\<in>set envs. rc_socket e < FD_SETSIZE"
  shows "\<exists>t'. foldM client_round envs t = Some t' \<and> client_thread_good t'"
  by (rule foldM_invariant) (use assms client_round_good in blast)+

lemma client_stop_ok:
  assumes "client_thread_good ((sock, conn), ctx, w, tr)" and "\<forall>e\<in>set envs. rc_socket e < FD_SETSIZE"
  shows "\<exists>ctx' w' tr'. mb_tcp_stop (\<lambda>s. mb_tcp_client_thread envs ((sock, conn), s)) (Some ctx, w, tr) = Some (Some ctx', w', tr')
    \<and> opened tr' = closed tr' \<and> stream_sock ctx' = - 1 \<and> ctx_lock ctx' = Mutex_Destroyed"
proof -
  let ?c = "ctx\<lparr>keep_running := False\<rparr>"
  have c: "listen_sock ctx = - 1" "client_fds ctx = replicate 10 0" using assms(1) by (auto simp: client_good_defs)
  have "10 \<le> length (client_fds ctx)" using c(2) by simp
  from shutdown_loop [OF this, of tr]
  obtain ev where ev: "foldM (\<lambda>i tr. buf_load (client_fds ctx) i \<bind> (\<lambda>fd. Some (if fd > 0 then tr @ [Fd_shutdown fd] else tr)))
      [0..<10] tr = Some (tr @ ev)" "opened ev = {#}" "closed ev = {#}"
    by blast
  let ?tr = "(tr @ ev) @ (if stream_sock ctx \<ge> 0 then [Fd_shutdown (stream_sock ctx)] else [])"
  have "client_thread_good ((sock, conn), ?c, w, ?tr)"
    using assms(1) ev(2,3) by (auto simp: client_good_defs)
  from client_fold_good [OF this assms(2)] obtain sock1 conn1 c1 w1 t1 where
      f: "foldM client_round envs ((sock, conn), ?c, w, ?tr) = Some ((sock1, conn1), c1, w1, t1)"
      "client_thread_good ((sock1, conn1), c1, w1, t1)"
    by (metis surj_pair)
  have c1: "listen_sock c1 = - 1" "client_fds c1 = replicate 10 0" "ctx_lock c1 = Mutex_Ready"
    using f(2) by (auto simp: client_good_defs)
  have r: "mb_tcp_client_thread envs ((sock, conn), ?c, w, ?tr)
      = Some (c1, if sock1 \<ge> 0 then mb_tcp_link_call c1 sock1 0 w1 else w1, t1)"
    using f(1) by (simp add: mb_tcp_client_thread_def)
  have loop: "foldM (\<lambda>i (fds, tr). buf_load fds i \<bind> (\<lambda>fd. if fd > 0
        then buf_store i 0 fds \<bind> (\<lambda>fds. Some (fds, tr @ [Fd_close fd])) else Some (fds, tr))) [0..<10]
      (client_fds c1, t1) = Some (replicate 10 0, t1)"
    using close_clients_loop [of 10 "client_fds c1" t1] c1(2) by (simp add: clients_def)
  let ?tr2 = "t1 @ (if stream_sock c1 \<ge> 0 then [Fd_close (stream_sock c1)] else [])"
  have "opened ?tr2 = closed ?tr2" using f(2) by (auto simp: client_good_defs split: if_splits)
  moreover have "stream_sock c1 \<ge> 0 \<or> stream_sock c1 = - 1" using f(2) by (auto simp: client_good_defs split: if_splits)
  moreover have "mb_tcp_stop (\<lambda>s. mb_tcp_client_thread envs ((sock, conn), s)) (Some ctx, w, tr)
      = Some (Some (c1\<lparr>client_fds := replicate 10 0, stream_sock := (if stream_sock c1 \<ge> 0 then - 1 else stream_sock c1),
          ctx_lock := Mutex_Destroyed\<rparr>), if sock1 \<ge> 0 then mb_tcp_link_call c1 sock1 0 w1 else w1, ?tr2)"
    using ev(1) r c c1 loop
    by (cases "stream_sock ctx \<ge> 0"; cases "stream_sock c1 \<ge> 0")
      (simp_all add: mb_tcp_stop_def Let_def MB_TCP_MAX_CLIENTS_def mutex_destroy_def del: append_assoc replicate.simps)
  ultimately show ?thesis by (intro exI conjI) (assumption, auto)
qed

interpretation mb_client: descriptor_owner client_inv client_trace client_owns client_round
  "\<lambda>env :: connect_env. rc_socket env < FD_SETSIZE" "\<lambda>t. mb_tcp_stop (\<lambda>s. mb_tcp_client_thread [] (fst t, s)) (Some (fst (snd t)), snd (snd t))"
  "\<lambda>s. snd (snd s)"
proof unfold_locales
  fix t :: "(int \<times> bool) \<times> 'w mb_state" and op :: connect_env
  assume "client_inv t" "opened (client_trace t) = closed (client_trace t) + client_owns t" "rc_socket op < FD_SETSIZE"
  then show "\<exists>t'. client_round op t = Some t' \<and> client_inv t' \<and> opened (client_trace t') = closed (client_trace t') + client_owns t'"
    using client_round_good [of t op] by (simp add: client_thread_good_def)
next
  fix t :: "(int \<times> bool) \<times> 'w mb_state"
  obtain sock conn ctx w tr where t: "t = ((sock, conn), ctx, w, tr)" by (metis surj_pair)
  assume "client_inv t" "opened (client_trace t) = closed (client_trace t) + client_owns t"
  then have "client_thread_good ((sock, conn), ctx, w, tr)" using t by (simp add: client_thread_good_def)
  from client_stop_ok [OF this, of "[]"]
  show "\<exists>s. mb_tcp_stop (\<lambda>s. mb_tcp_client_thread [] (fst t, s)) (Some (fst (snd t)), snd (snd t)) = Some s
      \<and> opened (snd (snd s)) = closed (snd (snd s))"
    using t by fastforce
qed

text \<open>
  C34: the outbound client leaks no descriptor. After a successful start, whatever the connection
  attempts and the callbacks do in any number of rounds, as long as the sockets the system returns fit the set
  of \<open>select\<close>, every round is defined, the thread has a socket exactly if it is
  connected and \<open>mb_tcp_stop\<close> knows that socket; stopping, while the thread makes its last rounds, has closed every
  descriptor that was opened, each as often as it was opened.
\<close>

theorem client_thread_no_leak:
  assumes "mb_tcp_start env mok created (Some cfg) (Some ctx, w, tr) = Some (0, Some ctx1, w1, tr1)"
    and "mc_mode cfg = MB_TCP_MODE_CONNECT_CLIENT" and "opened tr = closed tr"
    and "\<forall>e\<in>set (envs @ last_envs). rc_socket e < 1024"
  shows "\<exists>sock conn ctx2 w2 tr2 ctx3 w3 tr3. foldM client_round envs ((- 1, False), ctx1, w1, tr1) = Some ((sock, conn), ctx2, w2, tr2)
    \<and> (if conn then 0 \<le> sock \<and> stream_sock ctx2 = sock else sock < 0 \<and> stream_sock ctx2 = - 1)
    \<and> mb_tcp_stop (\<lambda>s. mb_tcp_client_thread last_envs ((sock, conn), s)) (Some ctx2, w2, tr2) = Some (Some ctx3, w3, tr3)
    \<and> opened tr3 = closed tr3 \<and> stream_sock ctx3 = - 1 \<and> ctx_lock ctx3 = Mutex_Destroyed"
proof -
  have fits: "\<forall>e\<in>set envs. rc_socket e < FD_SETSIZE" "\<forall>e\<in>set last_envs. rc_socket e < FD_SETSIZE"
    using assms(4) by (simp_all add: FD_SETSIZE_def)
  have "client_thread_good ((- 1, False), ctx1, w1, tr1)"
    using assms(1-3) by (auto simp: mb_tcp_start_def client_good_defs Let_def mutex_destroy_def MB_TCP_MAX_CLIENTS_def
        split: if_splits bind_splits option.splits)
  from client_fold_good [OF this fits(1)] obtain sock conn ctx2 w2 tr2 where
      f: "foldM client_round envs ((- 1, False), ctx1, w1, tr1) = Some ((sock, conn), ctx2, w2, tr2)"
      "client_thread_good ((sock, conn), ctx2, w2, tr2)"
    by (metis surj_pair)
  have "if conn then 0 \<le> sock \<and> stream_sock ctx2 = sock else sock < 0 \<and> stream_sock ctx2 = - 1"
    using f(2) by (simp add: client_good_defs)
  with f(1) client_stop_ok [OF f(2) fits(2)] show ?thesis by blast
qed

theorem client_thread_no_leak_witness:
  "\<exists>ctx1 tr1 sock conn ctx2 w2 tr2 ctx3 w3 tr3.
      mb_tcp_start \<lparr>le_socket = 3, le_reuseaddr = 0, le_bind = 0, le_listen = 0\<rparr> True True
        (Some (demo_server_cfg\<lparr>mc_mode := MB_TCP_MODE_CONNECT_CLIENT, mc_remote_host := Some ''10.0.0.1''\<rparr>))
        (Some demo_server_ctx, [], []) = Some (0, Some ctx1, [], tr1)
    \<and> foldM client_round [\<lparr>rc_socket = 5, rc_sndtimeo = 0, rc_rcvtimeo = 0, rc_bindtodevice = 0, rc_reuseaddr = 0,
        rc_inet_pton = 1, rc_connect = -1, connect_errno = EINPROGRESS, rc_select = 1, so_error = 0\<rparr>] ((- 1, False), ctx1, [], tr1)
      = Some ((sock, conn), ctx2, w2, tr2)
    \<and> mb_tcp_stop (\<lambda>s. mb_tcp_client_thread [] ((sock, conn), s)) (Some ctx2, w2, tr2) = Some (Some ctx3, w3, tr3)
    \<and> opened tr3 = closed tr3 \<and> stream_sock ctx3 = - 1"
proof -
  let ?env = "\<lparr>le_socket = 3, le_reuseaddr = 0, le_bind = 0, le_listen = 0\<rparr>"
  let ?cfg = "demo_server_cfg\<lparr>mc_mode := MB_TCP_MODE_CONNECT_CLIENT, mc_remote_host := Some ''10.0.0.1''\<rparr>"
  let ?e = "\<lparr>rc_socket = 5, rc_sndtimeo = 0, rc_rcvtimeo = 0, rc_bindtodevice = 0, rc_reuseaddr = 0,
        rc_inet_pton = 1, rc_connect = -1, connect_errno = EINPROGRESS, rc_select = 1, so_error = 0\<rparr>"
  obtain ctx1 tr1 where st: "mb_tcp_start ?env True True (Some ?cfg) (Some demo_server_ctx, [], []) = Some (0, Some ctx1, [], tr1)"
    by (simp add: mb_tcp_start_def demo_server_cfg_def Let_def cstr_def)
  have "\<forall>e\<in>set ([?e] @ []). rc_socket e < 1024" by simp
  from client_thread_no_leak [OF st _ _ this] show ?thesis using st by fastforce
qed

end
