(* ===== verification/Register_Map.thy ===== *)
theory Register_Map
  imports Modbus_Frame
begin

text \<open>
  The register mapping engine of \<open>lib/device_map/device_register_map.c\<close>: profiles and their
  tables, the shared register pool, lookup by binary search, ingest of a read buffer, and the
  access check for pool ranges.

  The pool is a function on indices with the array's bound kept: \<open>pool_load\<close> and \<open>pool_store\<close>
  outside \<open>INTERNAL_POOL_SIZE\<close> are undefined. A profile keeps the table pointer and the table
  count apart, as the struct does, so reading row \<open>i\<close> of a table shorter than the count is
  undefined too. Every pool access of the code is one critical section of the rwlock, hence
  atomic here.
\<close>

section \<open>Types\<close>

datatype register_access = ACCESS_RO | ACCESS_RW | ACCESS_WO

record device_register_mapping =
  device_address :: u16
  pool_address :: u16
  "access" :: register_access
  description :: string

record device_map_profile =
  prof_name :: string
  prof_table :: "device_register_mapping list option"
  table_count :: nat
  read_chunk :: u16

definition INTERNAL_POOL_SIZE :: nat where
  "INTERNAL_POOL_SIZE = 65535"

type_synonym pool = "nat \<Rightarrow> u16"

definition pool_load :: "pool \<Rightarrow> nat \<Rightarrow> u16 run" where
  "pool_load p i = (if i < INTERNAL_POOL_SIZE then Some (p i) else None)"

definition pool_store :: "nat \<Rightarrow> u16 \<Rightarrow> pool \<Rightarrow> pool run" where
  "pool_store i v p = (if i < INTERNAL_POOL_SIZE then Some (p(i := v)) else None)"

definition device_register_map_init :: pool where
  "device_register_map_init = (\<lambda>_. 0)"

section \<open>Lookup\<close>

function find_slot_loop ::
  "device_register_mapping list \<Rightarrow> u16 \<Rightarrow> nat \<Rightarrow> nat \<Rightarrow> device_register_mapping option run" where
  "find_slot_loop tab a low high =
     (if low < high then
        (let mid = low + (high - low) div 2 in
         case buf_load tab mid of
           None \<Rightarrow> None
         | Some e \<Rightarrow>
             if device_address e = a then Some (Some e)
             else if device_address e < a then find_slot_loop tab a (mid + 1) high
             else find_slot_loop tab a low mid)
      else Some None)"
  by pat_completeness auto
termination
  by (relation "measure (\<lambda>(tab, a, low, high). high - low)") auto

declare find_slot_loop.simps [simp del]

definition device_find_slot ::
  "device_map_profile option \<Rightarrow> u16 \<Rightarrow> device_register_mapping option run" where
  "device_find_slot profile a =
     (case profile of
        None \<Rightarrow> Some None
      | Some p \<Rightarrow>
          (case prof_table p of
             None \<Rightarrow> Some None
           | Some tab \<Rightarrow>
               if table_count p = 0 then Some None
               else find_slot_loop tab a 0 (table_count p)))"

section \<open>Pool access\<close>

text \<open>The out parameter is a cell, \<open>None\<close> for NULL; the result is the returned flag and the cell.\<close>

definition pool_read_register :: "pool \<Rightarrow> u16 \<Rightarrow> u16 option \<Rightarrow> (bool \<times> u16 option) run" where
  "pool_read_register p a out =
     (if out = None \<or> unat a \<ge> INTERNAL_POOL_SIZE then Some (False, out)
      else do { v \<leftarrow> pool_load p (unat a); Some (True, Some v) })"

definition pool_write_register :: "u16 \<Rightarrow> u16 \<Rightarrow> pool \<Rightarrow> (bool \<times> pool) run" where
  "pool_write_register a v p =
     (if unat a \<ge> INTERNAL_POOL_SIZE then Some (False, p)
      else do { p \<leftarrow> pool_store (unat a) v p; Some (True, p) })"

definition pool_read_by_device_addr ::
  "pool \<Rightarrow> device_map_profile option \<Rightarrow> u16 \<Rightarrow> u16 option \<Rightarrow> (bool \<times> u16 option) run" where
  "pool_read_by_device_addr p profile a out =
     (if profile = None \<or> out = None then Some (False, out)
      else do {
        m \<leftarrow> device_find_slot profile a;
        (case m of
           None \<Rightarrow> Some (False, out)
         | Some e \<Rightarrow> pool_read_register p (pool_address e) out)
      })"

definition pool_read_masked_by_device_addr ::
  "pool \<Rightarrow> device_map_profile option \<Rightarrow> u16 \<Rightarrow> u16 \<Rightarrow> u16 option \<Rightarrow> (bool \<times> u16 option) run" where
  "pool_read_masked_by_device_addr p profile a msk out =
     (if profile = None \<or> out = None then Some (False, out)
      else do {
        (ok, raw) \<leftarrow> pool_read_by_device_addr p profile a (Some 0);
        if \<not> ok then Some (False, out)
        else do { r \<leftarrow> raw; Some (True, Some (r AND msk)) }
      })"

definition pool_write_by_device_addr ::
  "device_map_profile option \<Rightarrow> u16 \<Rightarrow> u16 \<Rightarrow> pool \<Rightarrow> (bool \<times> pool) run" where
  "pool_write_by_device_addr profile a v p =
     (if profile = None then Some (False, p)
      else do {
        m \<leftarrow> device_find_slot profile a;
        (case m of
           None \<Rightarrow> Some (False, p)
         | Some e \<Rightarrow> pool_write_register (pool_address e) v p)
      })"

section \<open>Ingest\<close>

definition device_map_read_to_pool ::
  "device_map_profile option \<Rightarrow> u16 list option \<Rightarrow> u16 \<Rightarrow> int \<Rightarrow> pool \<Rightarrow> pool run" where
  "device_map_read_to_pool profile read_buffer start read_count p =
     (case (profile, read_buffer) of
        (Some pr, Some buf) \<Rightarrow>
          if read_count \<le> 0 \<or> prof_table pr = None \<or> table_count pr = 0 then Some p
          else foldM (\<lambda>i p. do {
              let dev_addr = start + word_of_nat i;
              m \<leftarrow> device_find_slot profile dev_addr;
              (case m of
                 None \<Rightarrow> Some p
               | Some e \<Rightarrow>
                   if unat (pool_address e) \<ge> INTERNAL_POOL_SIZE then Some p
                   else do {
                     raw \<leftarrow> buf_load buf i;
                     pool_store (unat (pool_address e)) raw p
                   })
            }) [0..<nat read_count] p
      | _ \<Rightarrow> Some p)"

section \<open>Access check\<close>

datatype scan_result = Rejected | Found | Not_found

fun access_scan ::
  "device_register_mapping list \<Rightarrow> u16 \<Rightarrow> register_access \<Rightarrow> nat list \<Rightarrow> scan_result run" where
  "access_scan tab pa req [] = Some Not_found"
| "access_scan tab pa req (i # is) = do {
     e \<leftarrow> buf_load tab i;
     if pool_address e \<noteq> pa then access_scan tab pa req is
     else if req = ACCESS_RO \<and> access e = ACCESS_WO then Some Rejected
     else if req = ACCESS_WO \<and> access e = ACCESS_RO then Some Rejected
     else Some Found
   }"

text \<open>
  The loop \<open>for (uint16_t pa = pool_start; pa <= pool_end; pa++)\<close>: its counter wraps, so it need
  not end; \<open>None\<close> also stands for a loop that does not.
\<close>

partial_function (option) access_loop ::
  "device_register_mapping list \<Rightarrow> nat \<Rightarrow> register_access \<Rightarrow> u16 \<Rightarrow> u16 \<Rightarrow> u8 run" where
  "access_loop tab n req pa pool_end =
     (if pa \<le> pool_end then
        (case access_scan tab pa req [0..<n] of
           None \<Rightarrow> None
         | Some Rejected \<Rightarrow> Some MODBUS_EX_ILLEGAL_FUNCTION
         | Some Not_found \<Rightarrow> Some MODBUS_EX_ILLEGAL_DATA_ADDRESS
         | Some Found \<Rightarrow> access_loop tab n req (pa + 1) pool_end)
      else Some 0)"

definition check_register_access_range ::
  "device_map_profile option \<Rightarrow> u16 \<Rightarrow> u16 \<Rightarrow> register_access \<Rightarrow> u8 run" where
  "check_register_access_range profile pool_start count required_access =
     (case profile of
        None \<Rightarrow> Some MODBUS_EX_ILLEGAL_DATA_ADDRESS
      | Some p \<Rightarrow>
          (case prof_table p of
             None \<Rightarrow> Some MODBUS_EX_ILLEGAL_DATA_ADDRESS
           | Some tab \<Rightarrow>
               if count = 0 then Some MODBUS_EX_ILLEGAL_DATA_ADDRESS
               else access_loop tab (table_count p) required_access pool_start
                      (pool_start + count - 1)))"

section \<open>Well-formed profiles\<close>

text \<open>
  The rules the headers state for a profile: the count is the length of the table, the rows are
  sorted by device address, pool addresses are unique and inside the pool.
\<close>

definition wf_table :: "device_register_mapping list \<Rightarrow> bool" where
  "wf_table tab \<longleftrightarrow> sorted_wrt (<) (map device_address tab)
     \<and> distinct (map pool_address tab)
     \<and> list_all (\<lambda>e. unat (pool_address e) < INTERNAL_POOL_SIZE) tab"

definition wf_profile :: "device_map_profile \<Rightarrow> device_register_mapping list \<Rightarrow> bool" where
  "wf_profile p tab \<longleftrightarrow> prof_table p = Some tab \<and> table_count p = length tab \<and> wf_table tab"

definition slot_of :: "device_register_mapping list \<Rightarrow> u16 \<Rightarrow> device_register_mapping option" where
  "slot_of tab a = find (\<lambda>e. device_address e = a) tab"

lemma sorted_nth_less:
  assumes "sorted_wrt (<) (map f tab)" and "i < j" and "j < length tab"
  shows "f (tab ! i) < (f (tab ! j) :: 'a::linorder)"
  using assms by (simp add: sorted_wrt_iff_nth_less)

lemma slot_of_None: "slot_of tab a = None \<longleftrightarrow> (\<forall>e\<in>set tab. device_address e \<noteq> a)"
  by (auto simp: slot_of_def find_None_iff)

lemma slot_of_Some:
  assumes "sorted_wrt (<) (map device_address tab)"
  shows "slot_of tab a = Some e \<longleftrightarrow> e \<in> set tab \<and> device_address e = a"
proof
  assume "slot_of tab a = Some e"
  then show "e \<in> set tab \<and> device_address e = a"
    by (auto simp: slot_of_def find_Some_iff)
next
  assume e: "e \<in> set tab \<and> device_address e = a"
  have inj: "x = y" if "x \<in> set tab" "y \<in> set tab" "device_address x = device_address y" for x y
    using that sorted_nth_less [OF assms] by (metis in_set_conv_nth less_irrefl linorder_neqE_nat)
  obtain e' where "slot_of tab a = Some e'" using e by (cases "slot_of tab a") (auto simp: slot_of_None)
  then show "slot_of tab a = Some e"
    using e inj by (auto simp: slot_of_def find_Some_iff)
qed

section \<open>Binary search\<close>

text \<open>
  The loop invariant: rows before \<open>low\<close> are below the address searched for, rows from \<open>high\<close>
  on are above it.
\<close>

lemma find_slot_loop_correct:
  assumes "sorted_wrt (<) (map device_address tab)" and "high \<le> length tab"
    and "\<forall>i<low. device_address (tab ! i) < a"
    and "\<forall>i<length tab. high \<le> i \<longrightarrow> a < device_address (tab ! i)"
  shows "find_slot_loop tab a low high = Some (slot_of tab a)"
  using assms
proof (induction tab a low high rule: find_slot_loop.induct)
  case (1 tab a low high)
  note sorted = 1(3) and high = 1(4) and below = 1(5) and above = 1(6)
  show ?case
  proof (cases "low < high")
    case False
    have "device_address (tab ! i) \<noteq> a" if "i < length tab" for i
      using that below above False by (cases "i < low") force+
    then have "slot_of tab a = None"
      unfolding slot_of_None by (metis in_set_conv_nth)
    then show ?thesis using False by (subst find_slot_loop.simps) simp
  next
    case True
    define mid where "mid = low + (high - low) div 2"
    have mid: "low \<le> mid" "mid < high" "mid < length tab"
      using True high by (auto simp: mid_def)
    have load: "buf_load tab mid = Some (tab ! mid)" using mid by (simp add: buf_load_def)
    note step = find_slot_loop.simps [of tab a low high, folded mid_def]
    consider "device_address (tab ! mid) = a" | "device_address (tab ! mid) < a"
      | "a < device_address (tab ! mid)" by fastforce
    then show ?thesis
    proof cases
      case 1
      then have "slot_of tab a = Some (tab ! mid)"
        using slot_of_Some [OF sorted] mid by auto
      then show ?thesis using 1 True load by (simp add: step Let_def)
    next
      case 2
      have "device_address (tab ! i) < a" if "i < mid + 1" for i
        using that 2 sorted_nth_less [OF sorted, of i mid] mid by (cases "i = mid") auto
      with "1.IH" (1) [OF True mid_def load] 2 sorted high above
      have "find_slot_loop tab a (mid + 1) high = Some (slot_of tab a)" by auto
      then show ?thesis using 2 True load by (auto simp: step Let_def)
    next
      case 3
      have "a < device_address (tab ! i)" if "i < length tab" "mid \<le> i" for i
        using that 3 sorted_nth_less [OF sorted, of mid i] by (cases "i = mid") auto
      moreover have "device_address (tab ! mid) \<noteq> a" "\<not> device_address (tab ! mid) < a"
        using 3 by auto
      ultimately have "find_slot_loop tab a low mid = Some (slot_of tab a)"
        using "1.IH" (2) [OF True mid_def load] sorted mid below by simp
      then show ?thesis using 3 True load by (auto simp: step Let_def)
    qed
  qed
qed

lemma device_find_slot_wf:
  assumes "wf_profile p tab"
  shows "device_find_slot (Some p) a = Some (slot_of tab a)"
proof (cases "tab = []")
  case True
  then show ?thesis using assms by (simp add: wf_profile_def device_find_slot_def slot_of_def)
next
  case False
  then show ?thesis
    using assms find_slot_loop_correct [of tab "length tab" 0 a]
    by (auto simp: wf_profile_def wf_table_def device_find_slot_def)
qed

lemma slot_of_props:
  assumes "wf_table tab" and "slot_of tab a = Some e"
  shows "e \<in> set tab" and "device_address e = a" and "unat (pool_address e) < 65535"
  using assms slot_of_Some
  by (auto simp: wf_table_def list_all_iff INTERNAL_POOL_SIZE_def)

lemma pool_address_inj:
  assumes "wf_table tab" and "slot_of tab a = Some e" and "slot_of tab b = Some f" and "a \<noteq> b"
  shows "pool_address e \<noteq> pool_address f"
proof
  assume eq: "pool_address e = pool_address f"
  have "e = f"
    using assms(1) slot_of_props(1) [OF assms(1,2)] slot_of_props(1) [OF assms(1,3)] eq
    by (auto simp: wf_table_def distinct_map inj_on_def)
  then show False
    using slot_of_props(2) [OF assms(1,2)] slot_of_props(2) [OF assms(1,3)] assms(4) by simp
qed

section \<open>The pool as a register store\<close>

text \<open>
  What the other components see of a profile and the pool: a store of register values by device
  address. \<open>reg_get\<close> and \<open>reg_set\<close> are the C functions in the form a caller uses them: the read
  value if the flag is true, the new pool.
\<close>

definition reg_get :: "device_map_profile \<Rightarrow> u16 \<Rightarrow> pool \<Rightarrow> u16 option" where
  "reg_get pr a p =
     (case pool_read_by_device_addr p (Some pr) a (Some 0) of
        Some (True, v) \<Rightarrow> v
      | _ \<Rightarrow> None)"

definition reg_set :: "device_map_profile \<Rightarrow> u16 \<Rightarrow> u16 \<Rightarrow> pool \<Rightarrow> pool option" where
  "reg_set pr a v p =
     (case pool_write_by_device_addr (Some pr) a v p of
        Some (True, p') \<Rightarrow> Some p'
      | _ \<Rightarrow> None)"

lemma pool_read_wf:
  assumes "wf_profile pr tab"
  shows "pool_read_by_device_addr p (Some pr) a (Some x)
    = Some (case slot_of tab a of None \<Rightarrow> (False, Some x)
            | Some e \<Rightarrow> (True, Some (p (unat (pool_address e)))))"
  using assms slot_of_props(3) [of tab a]
  by (auto simp: pool_read_by_device_addr_def device_find_slot_wf pool_read_register_def
      pool_load_def INTERNAL_POOL_SIZE_def wf_profile_def split: option.splits)

lemma pool_write_wf:
  assumes "wf_profile pr tab"
  shows "pool_write_by_device_addr (Some pr) a v p
    = Some (case slot_of tab a of None \<Rightarrow> (False, p)
            | Some e \<Rightarrow> (True, p(unat (pool_address e) := v)))"
  using assms slot_of_props(3) [of tab a]
  by (auto simp: pool_write_by_device_addr_def device_find_slot_wf pool_write_register_def
      pool_store_def INTERNAL_POOL_SIZE_def wf_profile_def split: option.splits)

lemma reg_get_wf:
  "wf_profile pr tab \<Longrightarrow> reg_get pr a p
    = map_option (\<lambda>e. p (unat (pool_address e))) (slot_of tab a)"
  by (simp add: reg_get_def pool_read_wf split: option.splits)

lemma reg_set_wf:
  "wf_profile pr tab \<Longrightarrow> reg_set pr a v p
    = map_option (\<lambda>e. p(unat (pool_address e) := v)) (slot_of tab a)"
  by (simp add: reg_set_def pool_write_wf split: option.splits)

section \<open>Interface: a register store\<close>

text \<open>
  The contract of the pool towards its users: reads succeed exactly on the mapped addresses,
  writes too, and a read after a write sees the written value at that address and nothing else.
\<close>

locale reg_store =
  fixes rd :: "'a \<Rightarrow> 's \<Rightarrow> 'v option"
    and wr :: "'a \<Rightarrow> 'v \<Rightarrow> 's \<Rightarrow> 's option"
    and mapped :: "'a \<Rightarrow> bool"
  assumes rd_dom: "rd a s = None \<longleftrightarrow> \<not> mapped a"
    and wr_dom: "wr a v s = None \<longleftrightarrow> \<not> mapped a"
    and rd_wr: "wr a v s = Some s' \<Longrightarrow> rd b s' = (if b = a then Some v else rd b s)"

definition put_all :: "('a \<Rightarrow> 'v \<Rightarrow> 's \<Rightarrow> 's option) \<Rightarrow> ('a \<times> 'v) list \<Rightarrow> 's \<Rightarrow> 's" where
  "put_all wr kvs s = fold (\<lambda>(a, v) s. case wr a v s of None \<Rightarrow> s | Some s' \<Rightarrow> s') kvs s"

lemma put_all_Nil [simp]: "put_all wr [] s = s"
  by (simp add: put_all_def)

lemma put_all_snoc [simp]:
  "put_all wr (kvs @ [(a, v)]) s
    = (case wr a v (put_all wr kvs s) of None \<Rightarrow> put_all wr kvs s | Some s' \<Rightarrow> s')"
  by (simp add: put_all_def split: option.split)

context reg_store
begin

lemma rd_put_all:
  assumes "mapped b"
  shows "rd b (put_all wr kvs s)
    = (case map_of (rev kvs) b of None \<Rightarrow> rd b s | Some v \<Rightarrow> Some v)"
proof (induction kvs rule: rev_induct)
  case (snoc kv kvs)
  obtain a v where kv: "kv = (a, v)" by force
  show ?case
  proof (cases "wr a v (put_all wr kvs s)")
    case None
    then have "a \<noteq> b" using assms by (auto simp: wr_dom)
    then show ?thesis using None snoc kv by simp
  next
    case (Some s')
    then show ?thesis using snoc kv by (simp add: rd_wr split: option.splits)
  qed
qed (use assms in auto)

lemma rd_put_all_distinct:
  assumes "mapped b" and "(b, v) \<in> set kvs" and "distinct (map fst kvs)"
  shows "rd b (put_all wr kvs s) = Some v"
proof -
  have "map_of (rev kvs) b = Some v"
    using assms(2,3) by (metis distinct_rev map_of_is_SomeI rev_map set_rev)
  then show ?thesis by (simp add: rd_put_all [OF assms(1)])
qed

lemma rd_put_all_other:
  assumes "mapped b" and "b \<notin> fst ` set kvs"
  shows "rd b (put_all wr kvs s) = rd b s"
proof -
  have "map_of (rev kvs) b = None" using assms(2) by (simp add: map_of_eq_None_iff image_iff)
  then show ?thesis by (simp add: rd_put_all [OF assms(1)])
qed

end

lemma pool_is_store:
  assumes "wf_profile pr tab"
  shows "reg_store (reg_get pr) (reg_set pr) (\<lambda>a. slot_of tab a \<noteq> None)"
proof (unfold_locales)
  note [simp] = reg_get_wf [OF assms] reg_set_wf [OF assms]
  show "reg_get pr a s = None \<longleftrightarrow> \<not> slot_of tab a \<noteq> None" for a s by simp
  show "reg_set pr a v s = None \<longleftrightarrow> \<not> slot_of tab a \<noteq> None" for a v s by simp
  show "reg_get pr b s' = (if b = a then Some v else reg_get pr b s)"
    if "reg_set pr a v s = Some s'" for a v s s' b
  proof -
    have wf: "wf_table tab" using assms by (simp add: wf_profile_def)
    show ?thesis
      using that pool_address_inj [OF wf, of b _ a]
      by (cases "slot_of tab b") (auto simp: word_unat_eq_iff [symmetric])
  qed
qed

section \<open>Ingest\<close>

definition ingest_pairs :: "u16 list \<Rightarrow> u16 \<Rightarrow> nat \<Rightarrow> (u16 \<times> u16) list" where
  "ingest_pairs buf start n = map (\<lambda>i. (start + word_of_nat i, buf ! i)) [0..<n]"

lemma ingest_loop:
  assumes "wf_profile pr tab" and "n \<le> length buf"
  shows "foldM (\<lambda>i p. do {
              let dev_addr = start + word_of_nat i;
              m \<leftarrow> device_find_slot (Some pr) dev_addr;
              (case m of
                 None \<Rightarrow> Some p
               | Some e \<Rightarrow>
                   if unat (pool_address e) \<ge> INTERNAL_POOL_SIZE then Some p
                   else do {
                     raw \<leftarrow> buf_load buf i;
                     pool_store (unat (pool_address e)) raw p
                   })
            }) [0..<n] p
    = Some (put_all (reg_set pr) (ingest_pairs buf start n) p)"
  using assms(2)
proof (induction n)
  case (Suc n)
  have wf: "wf_table tab" using assms(1) by (simp add: wf_profile_def)
  show ?case
    using Suc slot_of_props(3) [OF wf, of "start + word_of_nat n"]
    by (auto simp: foldM_append ingest_pairs_def device_find_slot_wf [OF assms(1)]
        reg_set_wf [OF assms(1)] INTERNAL_POOL_SIZE_def buf_load_def pool_store_def Let_def
        split: option.splits)
qed (simp add: ingest_pairs_def)

lemma device_map_read_to_pool_wf:
  assumes "wf_profile pr tab" and "n \<le> length buf"
  shows "device_map_read_to_pool (Some pr) (Some buf) start (int n) p
    = Some (put_all (reg_set pr) (ingest_pairs buf start n) p)"
proof (cases "n = 0 \<or> tab = []")
  case True
  have "reg_set pr a v q = None" if "tab = []" for a v q
    using that by (simp add: reg_set_wf [OF assms(1)] slot_of_def)
  then have "tab = [] \<Longrightarrow> put_all (reg_set pr) kvs q = q" for kvs q
    by (induction kvs rule: rev_induct) (auto split: option.splits)
  then show ?thesis
    using True assms(1)
    by (auto simp: device_map_read_to_pool_def wf_profile_def ingest_pairs_def)
next
  case False
  then show ?thesis
    using assms ingest_loop [OF assms, of start p]
    by (auto simp: device_map_read_to_pool_def wf_profile_def)
qed

lemma offset_eq_iff:
  assumes "n \<le> 65536" and "i < n"
  shows "a = start + word_of_nat i \<longleftrightarrow> unat (a - start :: u16) = i"
proof
  assume "a = start + word_of_nat i"
  then show "unat (a - start) = i" using assms by (simp add: unat_of_nat_small)
next
  assume "unat (a - start) = i"
  then have "word_of_nat i = a - start" by auto
  then show "a = start + word_of_nat i" by simp
qed

lemma distinct_ingest:
  assumes "n \<le> 65536"
  shows "distinct (map fst (ingest_pairs buf start n))"
proof -
  have "inj_on (\<lambda>i. start + word_of_nat i :: u16) {0..<n}"
    using offset_eq_iff [OF assms] by (metis (no_types, lifting) atLeastLessThan_iff inj_onI)
  then show ?thesis
    by (simp add: ingest_pairs_def distinct_map comp_def)
qed

section \<open>Access ranges\<close>

definition forbidden :: "register_access \<Rightarrow> register_access \<Rightarrow> bool" where
  "forbidden req acc \<longleftrightarrow>
     req = ACCESS_RO \<and> acc = ACCESS_WO \<or> req = ACCESS_WO \<and> acc = ACCESS_RO"

definition pool_status :: "device_register_mapping list \<Rightarrow> register_access \<Rightarrow> u16 \<Rightarrow> u8" where
  "pool_status tab req pa =
     (case find (\<lambda>e. pool_address e = pa) tab of
        None \<Rightarrow> MODBUS_EX_ILLEGAL_DATA_ADDRESS
      | Some e \<Rightarrow> if forbidden req (access e) then MODBUS_EX_ILLEGAL_FUNCTION else 0)"

definition range_status ::
  "device_register_mapping list \<Rightarrow> register_access \<Rightarrow> u16 \<Rightarrow> nat \<Rightarrow> u8" where
  "range_status tab req start n =
     (case find (\<lambda>s. s \<noteq> 0) (map (\<lambda>i. pool_status tab req (start + word_of_nat i)) [0..<n]) of
        None \<Rightarrow> 0
      | Some s \<Rightarrow> s)"

definition scan_code :: "scan_result \<Rightarrow> u8" where
  "scan_code r = (case r of Rejected \<Rightarrow> MODBUS_EX_ILLEGAL_FUNCTION
     | Not_found \<Rightarrow> MODBUS_EX_ILLEGAL_DATA_ADDRESS | Found \<Rightarrow> 0)"

lemma access_scan_drop:
  "k \<le> length tab \<Longrightarrow> access_scan tab pa req [k..<length tab]
     = Some (case find (\<lambda>e. pool_address e = pa) (drop k tab) of
         None \<Rightarrow> Not_found
       | Some e \<Rightarrow> if forbidden req (access e) then Rejected else Found)"
proof (induction "length tab - k" arbitrary: k)
  case (Suc n)
  then have k: "k < length tab" by simp
  have "drop k tab = tab ! k # drop (Suc k) tab" using k by (simp add: Cons_nth_drop_Suc)
  then show ?case
    using Suc(1) [of "Suc k"] Suc(2) k
    by (auto simp: upt_conv_Cons buf_load_def forbidden_def)
qed simp

lemma access_scan_status:
  "\<exists>r. access_scan tab pa req [0..<length tab] = Some r \<and> scan_code r = pool_status tab req pa
     \<and> (r = Found \<longleftrightarrow> pool_status tab req pa = 0)"
  by (auto simp: access_scan_drop scan_code_def pool_status_def modbus_consts split: option.split)

lemma range_status_0 [simp]: "range_status tab req start 0 = 0"
  by (simp add: range_status_def)

lemma range_status_Suc:
  "range_status tab req start (Suc n)
    = (if pool_status tab req start \<noteq> 0 then pool_status tab req start
       else range_status tab req (start + 1) n)"
proof -
  have "map (\<lambda>i. pool_status tab req (start + word_of_nat i)) [0..<Suc n]
    = pool_status tab req start
      # map (\<lambda>i. pool_status tab req (start + 1 + word_of_nat i)) [0..<n]"
    by (subst upt_conv_Cons) (simp_all add: map_Suc_upt [symmetric] comp_def add.assoc del: upt_Suc)
  then show ?thesis by (simp add: range_status_def del: upt_Suc)
qed

lemma range_status_zero_iff:
  "range_status tab req start n = 0
    \<longleftrightarrow> (\<forall>i<n. pool_status tab req (start + word_of_nat i) = 0)"
  by (auto simp: range_status_def find_None_iff find_Some_iff split: option.splits)

lemma access_loop_unfold:
  "access_loop tab (length tab) req pa pool_end =
     (if pa \<le> pool_end then
        (if pool_status tab req pa = 0 then access_loop tab (length tab) req (pa + 1) pool_end
         else Some (pool_status tab req pa))
      else Some 0)"
proof -
  obtain r where "access_scan tab pa req [0..<length tab] = Some r"
      "scan_code r = pool_status tab req pa" "r = Found \<longleftrightarrow> pool_status tab req pa = 0"
    using access_scan_status by blast
  then show ?thesis
    by (subst access_loop.simps) (cases r; auto simp: scan_code_def)
qed

lemma access_loop_status:
  assumes "pool_status tab req 0xFFFF \<noteq> 0 \<or> unat pool_end < 65535"
    and "unat pa + n = unat pool_end + 1"
  shows "access_loop tab (length tab) req pa pool_end = Some (range_status tab req pa n)"
  using assms(2)
proof (induction n arbitrary: pa)
  case 0
  then have "\<not> pa \<le> pool_end" by (simp add: word_le_nat_alt)
  then show ?case by (subst access_loop_unfold) simp
next
  case (Suc n)
  then have le: "pa \<le> pool_end" by (simp add: word_le_nat_alt)
  show ?case
  proof (cases "pool_status tab req pa = 0")
    case False
    then show ?thesis using le by (subst access_loop_unfold) (simp add: range_status_Suc)
  next
    case True
    have "unat pa \<noteq> 65535"
    proof
      assume "unat pa = 65535"
      then have "pa = 0xFFFF" "\<not> unat pool_end < 65535"
        using le by (auto simp: word_unat_eq_iff word_le_nat_alt)
      then show False using assms(1) True by simp
    qed
    then have "unat (pa + 1) = unat pa + 1"
      using u16_less [of pa] by (simp add: unat_word_ariths)
    then show ?thesis
      using Suc(1) [of "pa + 1"] Suc(2) True le
      by (subst access_loop_unfold) (simp add: range_status_Suc)
  qed
qed

text \<open>
  The access check of a range agrees with the declared permissions. For a well-formed profile
  and a range that ends inside the 16-bit address space, the result is 0 if every pool address of
  the range is mapped and permits the access, and otherwise the exception code of the first
  address that is unmapped (illegal data address) or forbids it (illegal function).
\<close>

theorem access_range_correct:
  assumes "wf_profile p tab" and "0 < count" and "unat start + unat count \<le> 65536"
  shows "check_register_access_range (Some p) start count req
    = Some (range_status tab req start (unat count))"
proof -
  have n: "0 < unat count" using assms(2) by (simp add: word_less_nat_alt)
  have pend: "unat (start + count - 1) + 1 = unat start + unat count"
  proof -
    have "unat (start + count - 1) = (unat start + unat count - 1) mod 65536"
      using n u16_less [of start] u16_less [of count] assms(3)
      by (cases "unat start + unat count = 65536") (simp_all add: word_unat_eq_iff unat_word_ariths unat_sub_if_size word_size)
    then show ?thesis using n assms(3) by simp
  qed
  have nz: "count \<noteq> 0" using assms(2) by auto
  have "find (\<lambda>e. pool_address e = 0xFFFF) tab = None"
    using assms(1) by (auto simp: find_None_iff wf_profile_def wf_table_def list_all_iff INTERNAL_POOL_SIZE_def)
  then have "pool_status tab req 0xFFFF \<noteq> 0"
    by (simp add: pool_status_def modbus_consts)
  then show ?thesis
    using assms(1) nz pend access_loop_status [of tab req "start + count - 1" start "unat count"]
    by (simp add: check_register_access_range_def wf_profile_def)
qed

theorem access_range_correct_witness:
  "check_register_access_range
     (Some \<lparr>prof_name = [], prof_table = Some [\<lparr>device_address = 0, pool_address = 7,
        access = ACCESS_RO, description = []\<rparr>], table_count = 1, read_chunk = 50\<rparr>) 7 1 ACCESS_WO
   = Some 1"
  using access_range_correct [of "\<lparr>prof_name = [], prof_table = Some [\<lparr>device_address = 0,
      pool_address = 7, access = ACCESS_RO, description = []\<rparr>], table_count = 1,
      read_chunk = 50\<rparr>" "[\<lparr>device_address = 0, pool_address = 7,
        access = ACCESS_RO, description = []\<rparr>]" 1 7 ACCESS_WO]
  by (simp add: wf_profile_def wf_table_def INTERNAL_POOL_SIZE_def range_status_def
      pool_status_def forbidden_def modbus_consts)

text \<open>
  The access check can be bypassed. The end of the range is computed in 16 bits; a range that
  wraps past 0xFFFF has an end below its start, the loop body never runs and every such range is
  accepted, whatever the profile maps and permits.
\<close>

theorem access_range_wraps:
  assumes "prof_table p = Some tab" and "65536 < unat start + unat count"
  shows "check_register_access_range (Some p) start count req = Some 0"
proof -
  have n: "count \<noteq> 0" using assms(2) u16_less [of start] by auto
  have "(unat start + unat count) mod 65536 = unat start + unat count - 65536"
    using assms(2) u16_less [of start] u16_less [of count] by (simp add: le_mod_geq)
  then have "unat (start + count - 1) = unat start + unat count - 65536 - 1"
    using assms(2) by (simp add: unat_word_ariths unat_sub_if_size)
  then have "\<not> start \<le> start + count - 1"
    using assms(2) u16_less [of start] u16_less [of count] by (simp add: word_le_nat_alt)
  then show ?thesis
    using assms(1) n by (simp add: check_register_access_range_def access_loop.simps)
qed

theorem access_range_wraps_witness:
  "check_register_access_range
     (Some \<lparr>prof_name = [], prof_table = Some [], table_count = 0, read_chunk = 50\<rparr>)
     0xFFFF 2 ACCESS_WO = Some 0"
  using access_range_wraps [where p = "\<lparr>prof_name = [], prof_table = Some [], table_count = 0,
    read_chunk = 50\<rparr>" and tab = "[]" and start = "0xFFFF" and count = 2] by simp

lemma pool_read_reg_get:
  assumes "wf_profile pr tab"
  shows "pool_read_by_device_addr p (Some pr) a (Some x)
    = Some (case reg_get pr a p of None \<Rightarrow> (False, Some x) | Some v \<Rightarrow> (True, Some v))"
  by (simp add: pool_read_wf [OF assms] reg_get_wf [OF assms] split: option.splits)

lemma ingest_reg_get:
  assumes "wf_profile pr tab" and "n \<le> 65536" and "slot_of tab a \<noteq> None"
  shows "reg_get pr a (put_all (reg_set pr) (ingest_pairs buf start n) p)
    = (if unat (a - start) < n then Some (buf ! unat (a - start)) else reg_get pr a p)"
proof (cases "unat (a - start) < n")
  case True
  then have "(a, buf ! unat (a - start)) \<in> set (ingest_pairs buf start n)"
    by (auto simp: ingest_pairs_def intro!: image_eqI [of _ _ "unat (a - start)"])
  then show ?thesis
    using True reg_store.rd_put_all_distinct [OF pool_is_store [OF assms(1)] assms(3) _ distinct_ingest [OF assms(2)]]
    by simp
next
  case False
  then have "a \<notin> fst ` set (ingest_pairs buf start n)"
    using offset_eq_iff [OF assms(2)] by (auto simp: ingest_pairs_def)
  then show ?thesis
    using False reg_store.rd_put_all_other [OF pool_is_store [OF assms(1)] assms(3)] by simp
qed

text \<open>The pool slots of the rows whose device address lies in a window.\<close>

definition window_slots :: "device_register_mapping list \<Rightarrow> u16 \<Rightarrow> nat \<Rightarrow> nat set" where
  "window_slots tab start n = (\<lambda>e. unat (pool_address e)) ` {e \<in> set tab. unat (device_address e - start) < n}"

lemma put_all_slots:
  assumes "wf_profile pr tab" and "n \<le> 65536" and "set kvs \<subseteq> set (ingest_pairs buf start n)" and "q \<notin> window_slots tab start n"
  shows "put_all (reg_set pr) kvs p q = p q"
  using assms(3)
proof (induction kvs rule: rev_induct)
  case (snoc x kvs)
  obtain i where x: "x = (start + word_of_nat i, buf ! i)" "i < n" using snoc(2) by (auto simp: ingest_pairs_def)
  have "unat (pool_address e) \<noteq> q" if e: "slot_of tab (start + word_of_nat i) = Some e" for e
  proof -
    have "e \<in> set tab" "device_address e = start + word_of_nat i" using e by (auto simp: slot_of_def find_Some_iff)
    moreover from this have "unat (device_address e - start) = i" using x(2) assms(2) by (simp add: unat_of_nat)
    ultimately show ?thesis using assms(4) x(2) by (auto simp: window_slots_def)
  qed
  then show ?case using snoc x(1) by (auto simp: reg_set_wf [OF assms(1)] split: option.split)
qed simp

text \<open>
  C19: ingest. After storing the \<open>n\<close> registers read from device address \<open>start\<close> on, reading a
  mapped device address of that window returns the register the device sent for it, any other
  address still reads as before, and every slot of the pool is untouched except those that the
  profile maps device addresses of the window to; no access leaves the buffer or the pool.
\<close>

theorem ingest_then_read:
  assumes "wf_profile pr tab" and "n \<le> length buf" and "n \<le> 65536"
  shows "\<exists>p'. device_map_read_to_pool (Some pr) (Some buf) start (int n) p = Some p' \<and>
    (\<forall>a. pool_read_by_device_addr p' (Some pr) a (Some x) =
       (if slot_of tab a \<noteq> None \<and> unat (a - start) < n
        then Some (True, Some (buf ! unat (a - start)))
        else pool_read_by_device_addr p (Some pr) a (Some x)))
    \<and> (\<forall>q. q \<notin> window_slots tab start n \<longrightarrow> p' q = p q)"
proof -
  note rd = ingest_reg_get [OF assms(1,3)]
  let ?kvs = "ingest_pairs buf start n"
  have none: "reg_get pr a q = None" if "slot_of tab a = None" for a q
    using that by (simp add: reg_get_wf [OF assms(1)])
  have "pool_read_by_device_addr (put_all (reg_set pr) ?kvs p) (Some pr) a (Some x) =
       (if slot_of tab a \<noteq> None \<and> unat (a - start) < n
        then Some (True, Some (buf ! unat (a - start)))
        else pool_read_by_device_addr p (Some pr) a (Some x))" for a
    using rd [of a buf start p] none [of a]
    by (cases "slot_of tab a = None") (simp_all add: pool_read_reg_get [OF assms(1)])
  moreover have "put_all (reg_set pr) ?kvs p q = p q" if "q \<notin> window_slots tab start n" for q
    by (rule put_all_slots [where buf = buf, OF assms(1,3) _ that]) simp
  ultimately show ?thesis by (simp add: device_map_read_to_pool_wf [OF assms(1,2)])
qed

theorem ingest_then_read_witness:
  "\<exists>p'. device_map_read_to_pool (Some \<lparr>prof_name = [], prof_table = Some [\<lparr>device_address = 3,
        pool_address = 7, access = ACCESS_RO, description = []\<rparr>], table_count = 1, read_chunk = 50\<rparr>)
       (Some [10, 11]) 2 (int 2) (\<lambda>_. 0) = Some p'
     \<and> pool_read_by_device_addr p' (Some \<lparr>prof_name = [], prof_table = Some [\<lparr>device_address = 3,
        pool_address = 7, access = ACCESS_RO, description = []\<rparr>], table_count = 1, read_chunk = 50\<rparr>)
       3 (Some 0) = Some (True, Some 11) \<and> p' 8 = 0"
proof -
  let ?tab = "[\<lparr>device_address = 3, pool_address = 7, access = ACCESS_RO, description = []\<rparr>]"
  let ?pr = "\<lparr>prof_name = [], prof_table = Some ?tab, table_count = 1, read_chunk = 50\<rparr>"
  have "wf_profile ?pr ?tab" by (simp add: wf_profile_def wf_table_def INTERNAL_POOL_SIZE_def)
  from ingest_then_read [OF this, of 2 "[10, 11]" 2 "\<lambda>_. 0" 0] obtain p' where
    p': "device_map_read_to_pool (Some ?pr) (Some [10, 11]) 2 (int 2) (\<lambda>_. 0) = Some p'"
      "pool_read_by_device_addr p' (Some ?pr) 3 (Some 0) = Some (True, Some 11)"
      "8 \<notin> window_slots ?tab 2 2 \<longrightarrow> p' 8 = 0"
    by (auto simp: slot_of_def dest: spec [of _ 3])
  moreover have "8 \<notin> window_slots ?tab 2 2" by (auto simp: window_slots_def)
  ultimately show ?thesis by blast
qed

text \<open>
  C20: the binary search of a table equals a linear scan for the address, stays inside the table
  and ends, for every well-formed profile.
\<close>

theorem find_slot_linear:
  assumes "wf_profile p tab"
  shows "device_find_slot (Some p) a = Some (find (\<lambda>e. device_address e = a) tab)"
  using device_find_slot_wf [OF assms] by (simp add: slot_of_def)

theorem find_slot_linear_witness:
  "device_find_slot (Some \<lparr>prof_name = [], prof_table = Some [\<lparr>device_address = 3,
        pool_address = 7, access = ACCESS_RO, description = []\<rparr>], table_count = 1,
        read_chunk = 50\<rparr>) 4 = Some None"
  using find_slot_linear [where a = 4 and tab = "[\<lparr>device_address = 3,
        pool_address = 7, access = ACCESS_RO, description = []\<rparr>]"
      and p = "\<lparr>prof_name = [], prof_table = Some [\<lparr>device_address = 3,
        pool_address = 7, access = ACCESS_RO, description = []\<rparr>], table_count = 1,
        read_chunk = 50\<rparr>"]
  by (simp add: wf_profile_def wf_table_def INTERNAL_POOL_SIZE_def)

end
