(* ===== verification/Ups_Map.thy ===== *)
theory Ups_Map
  imports Register_Map
begin

text \<open>
  The register table of the UPS unit and the registry of profiles by Modbus unit identifier
  (\<open>devices/ups/ups_map.c\<close>). The table is shown well-formed, so every lemma of the mapping
  engine applies to it, and the register store interface is interpreted on it.
\<close>

definition ups1_mapping_table :: "device_register_mapping list" where
  "ups1_mapping_table = [
    \<lparr>device_address = 0x0000, pool_address = 0xBB00, access = ACCESS_RO, description = ''UPS1_Warning_Information_1''\<rparr>,
    \<lparr>device_address = 0x0001, pool_address = 0xBB01, access = ACCESS_RO, description = ''UPS1_Warning_Information_2''\<rparr>,
    \<lparr>device_address = 0x0002, pool_address = 0xBB02, access = ACCESS_RO, description = ''UPS1_Warning_Information_3''\<rparr>,
    \<lparr>device_address = 0x0003, pool_address = 0xBB03, access = ACCESS_RO, description = ''UPS1_Warning_Information_4''\<rparr>,
    \<lparr>device_address = 0x0004, pool_address = 0xBB04, access = ACCESS_RO, description = ''UPS1_P_Battery_Voltage''\<rparr>,
    \<lparr>device_address = 0x0005, pool_address = 0xBB05, access = ACCESS_RO, description = ''UPS1_P_Battery_Discharging_Current''\<rparr>,
    \<lparr>device_address = 0x0006, pool_address = 0xBB06, access = ACCESS_RO, description = ''UPS1_P_Battery_Charging_Current''\<rparr>,
    \<lparr>device_address = 0x0007, pool_address = 0xBB07, access = ACCESS_RO, description = ''UPS1_Battery_Capacity''\<rparr>,
    \<lparr>device_address = 0x0008, pool_address = 0xBB08, access = ACCESS_RO, description = ''UPS1_Battery_Remain_Time''\<rparr>,
    \<lparr>device_address = 0x0009, pool_address = 0xBB09, access = ACCESS_RO, description = ''UPS1_N_Battery_Voltage''\<rparr>,
    \<lparr>device_address = 0x000A, pool_address = 0xBB0A, access = ACCESS_RO, description = ''UPS1_N_Battery_Discharging_Current''\<rparr>,
    \<lparr>device_address = 0x000B, pool_address = 0xBB0B, access = ACCESS_RO, description = ''UPS1_N_Battery_Charging_Current''\<rparr>,
    \<lparr>device_address = 0x000C, pool_address = 0xBB0C, access = ACCESS_RO, description = ''UPS1_Battery_Temperature''\<rparr>,
    \<lparr>device_address = 0x000D, pool_address = 0xBB0D, access = ACCESS_RO, description = ''UPS1_Temperature_PFC''\<rparr>,
    \<lparr>device_address = 0x000E, pool_address = 0xBB0E, access = ACCESS_RO, description = ''UPS1_Temperature_INV''\<rparr>,
    \<lparr>device_address = 0x000F, pool_address = 0xBB0F, access = ACCESS_RO, description = ''UPS1_Temperature_Bypass''\<rparr>,
    \<lparr>device_address = 0x0010, pool_address = 0xBB10, access = ACCESS_RO, description = ''UPS1_Max_Temperature''\<rparr>,
    \<lparr>device_address = 0x0011, pool_address = 0xBB11, access = ACCESS_RO, description = ''UPS1_Mode_Information''\<rparr>,
    \<lparr>device_address = 0x0012, pool_address = 0xBB12, access = ACCESS_RW, description = ''UPS1_OT_Fault_Recovery_Value''\<rparr>,
    \<lparr>device_address = 0x0013, pool_address = 0xBB13, access = ACCESS_RW, description = ''UPS1_OT_Warning_Trigger_Value''\<rparr>,
    \<lparr>device_address = 0x0014, pool_address = 0xBB14, access = ACCESS_RW, description = ''UPS1_OT_Warning_Recovery_Value''\<rparr>,
    \<lparr>device_address = 0x0015, pool_address = 0xBB15, access = ACCESS_RW, description = ''UPS1_OT_Warning_Recovery_Value''\<rparr>]"

definition ups1_profile :: device_map_profile where
  "ups1_profile = \<lparr>prof_name = ''UPS1'', prof_table = Some ups1_mapping_table,
     table_count = length ups1_mapping_table, read_chunk = 50\<rparr>"

record ups_uid_profile_entry =
  entry_uid :: u8
  entry_profile :: device_map_profile

definition ups_uid_profile_map :: "ups_uid_profile_entry list" where
  "ups_uid_profile_map = [\<lparr>entry_uid = 1, entry_profile = ups1_profile\<rparr>]"

fun find_profile_loop :: "ups_uid_profile_entry list \<Rightarrow> u8 \<Rightarrow> device_map_profile option" where
  "find_profile_loop [] uid = None"
| "find_profile_loop (e # es) uid =
     (if entry_uid e = uid then Some (entry_profile e) else find_profile_loop es uid)"

definition ups_find_profile_by_uid :: "u8 \<Rightarrow> device_map_profile option" where
  "ups_find_profile_by_uid uid = find_profile_loop ups_uid_profile_map uid"

lemma ups1_length [simp]: "length ups1_mapping_table = 22"
  by (simp add: ups1_mapping_table_def)

lemma ups1_addresses: "map device_address ups1_mapping_table = map word_of_nat [0..<22]"
  by (simp add: ups1_mapping_table_def upt_rec)

lemma ups1_pool_addresses:
  "map pool_address ups1_mapping_table = map (\<lambda>i. 0xBB00 + word_of_nat i) [0..<22]"
  by (simp add: ups1_mapping_table_def upt_rec)

lemma ups1_row:
  assumes "i < 22"
  shows "device_address (ups1_mapping_table ! i) = word_of_nat i"
    and "pool_address (ups1_mapping_table ! i) = 0xBB00 + word_of_nat i"
  using assms arg_cong [OF ups1_addresses, of "\<lambda>l. l ! i"]
    arg_cong [OF ups1_pool_addresses, of "\<lambda>l. l ! i"] by simp_all

lemma ups1_wf: "wf_profile ups1_profile ups1_mapping_table"
proof -
  have "sorted_wrt (<) (map device_address ups1_mapping_table)"
    by (simp add: ups1_mapping_table_def)
  moreover have "distinct (map pool_address ups1_mapping_table)"
    by (simp add: ups1_mapping_table_def)
  moreover have "list_all (\<lambda>e. unat (pool_address e) < INTERNAL_POOL_SIZE) ups1_mapping_table"
    by (simp add: ups1_mapping_table_def INTERNAL_POOL_SIZE_def)
  ultimately show ?thesis
    by (simp add: wf_profile_def wf_table_def ups1_profile_def)
qed

lemma ups1_slot:
  "slot_of ups1_mapping_table a
    = (if a < 22 then Some (ups1_mapping_table ! unat a) else None)"
proof (cases "a < 22")
  case True
  then have "unat a < 22" by (simp add: word_less_nat_alt)
  then have "ups1_mapping_table ! unat a \<in> set ups1_mapping_table"
      "device_address (ups1_mapping_table ! unat a) = a"
    by (simp_all add: ups1_row nth_mem)
  then show ?thesis
    using True slot_of_Some ups1_wf by (simp add: wf_profile_def wf_table_def)
next
  case False
  have "device_address e \<noteq> a" if "e \<in> set ups1_mapping_table" for e
  proof
    assume "device_address e = a"
    with that obtain i where "i < 22" "a = word_of_nat i"
      by (metis in_set_conv_nth ups1_length ups1_row(1))
    then show False using False by (simp add: word_less_nat_alt unat_of_nat_small)
  qed
  then show ?thesis using False by (simp add: slot_of_None)
qed

interpretation ups1: reg_store "reg_get ups1_profile" "reg_set ups1_profile"
  "\<lambda>a. slot_of ups1_mapping_table a \<noteq> None"
  by (rule pool_is_store [OF ups1_wf])

lemma ups1_reg_get:
  "reg_get ups1_profile a p = (if a < 22 then Some (p (0xBB00 + unat a)) else None)"
proof -
  have "unat (0xBB00 + a) = 0xBB00 + unat a" if "a < 22"
    using that by (simp add: word_less_nat_alt unat_word_ariths)
  then show ?thesis
    by (simp add: reg_get_wf [OF ups1_wf] ups1_slot ups1_row word_less_nat_alt)
qed

lemma ups_find_profile:
  "ups_find_profile_by_uid uid = (if uid = 1 then Some ups1_profile else None)"
  by (auto simp: ups_find_profile_by_uid_def ups_uid_profile_map_def)

lemma ups_find_profile_wf:
  "ups_find_profile_by_uid uid = Some p \<Longrightarrow> wf_profile p ups1_mapping_table"
  by (auto simp: ups_find_profile ups1_wf split: if_splits)

text \<open>
  The table of UPS unit 1 obeys the rules of the mapping engine (sorted device addresses,
  unique pool addresses inside the pool), so that after a value is written to the pool by any of
  its 22 device addresses, reading an address by the profile returns the value at that address
  and what was there before everywhere else; device addresses from 22 on are refused.
\<close>

theorem ups1_read_after_write:
  "pool_write_by_device_addr (Some ups1_profile) a v p
     = Some (if a < 22 then (True, p(0xBB00 + unat a := v)) else (False, p))
   \<and> pool_read_by_device_addr (p(0xBB00 + unat a := v)) (Some ups1_profile) b (Some 0)
     = Some (if b < 22 then (True, Some (if b = a then v else p (0xBB00 + unat b)))
             else (False, Some 0))"
proof -
  have un: "unat (0xBB00 + a :: u16) = 0xBB00 + unat a" if "a < 22" for a
    using that by (simp add: word_less_nat_alt unat_word_ariths)
  have wr: "pool_write_by_device_addr (Some ups1_profile) a v p
     = Some (if a < 22 then (True, p(0xBB00 + unat a := v)) else (False, p))"
    using un [of a] by (simp add: pool_write_wf [OF ups1_wf] ups1_slot ups1_row word_less_nat_alt)
  have "pool_read_by_device_addr (p(0xBB00 + unat a := v)) (Some ups1_profile) b (Some 0)
     = Some (if b < 22 then (True, Some (if b = a then v else p (0xBB00 + unat b)))
             else (False, Some 0))"
    by (auto simp: pool_read_reg_get [OF ups1_wf] ups1_reg_get word_unat_eq_iff [symmetric])
  with wr show ?thesis by blast
qed

end
