(* ===== verification/Alarm_Engine.thy ===== *)
theory Alarm_Engine
  imports Register_Map
begin

text \<open>
  The alarm engine (\<open>lib/alarm/alarm_engine.c\<close>): table rows, sticky state per row, condition
  evaluation and the scan. The callbacks are fields of the context, as in C; they act on a world
  \<open>'w\<close> the engine does not look into, and may fail (\<open>None\<close>, undefined behaviour). The state
  array is owned by the context, so a scan returns the context with its states updated.
\<close>

section \<open>Types\<close>

text \<open>\<open>ALARM_COND_OTHER\<close> is any value of the C enumeration type without a case of its own.\<close>

datatype alarm_cond = ALARM_COND_BITMASK | ALARM_COND_RANGE | ALARM_COND_CHANGE | ALARM_COND_OTHER

datatype alarm_event = ALARM_EVENT_TRIGGER | ALARM_EVENT_CLEAR

record alarm_entry =
  ae_address :: u16
  ae_condition :: alarm_cond
  lo_limit :: u16
  hi_limit :: u16
  error_code :: u16
  ae_description :: string

record alarm_state =
  is_active :: bool
  prev_value :: u16

type_synonym ('rd, 'w) alarm_read_fn = "u16 \<Rightarrow> u16 \<Rightarrow> 'rd \<Rightarrow> 'w \<Rightarrow> ((bool \<times> u16) \<times> 'w) run"
type_synonym ('ed, 'w) alarm_event_fn = "alarm_entry \<Rightarrow> u16 \<Rightarrow> alarm_event \<Rightarrow> 'ed \<Rightarrow> 'w \<Rightarrow> 'w run"

record ('rd, 'ed, 'w) alarm_engine_ctx =
  ctx_table :: "alarm_entry list option"
  ctx_states :: "alarm_state list option"
  ctx_count :: nat
  read_fn :: "('rd, 'w) alarm_read_fn option"
  event_fn :: "('ed, 'w) alarm_event_fn option"
  read_data :: 'rd
  event_data :: 'ed

section \<open>Condition evaluators\<close>

definition eval_bitmask :: "alarm_entry \<Rightarrow> u16 \<Rightarrow> bool" where
  "eval_bitmask entry v \<longleftrightarrow> v AND hi_limit entry = hi_limit entry"

definition eval_range :: "alarm_entry \<Rightarrow> u16 \<Rightarrow> bool" where
  "eval_range entry v \<longleftrightarrow> v < lo_limit entry \<or> v > hi_limit entry"

definition eval_change :: "alarm_state \<Rightarrow> u16 \<Rightarrow> bool" where
  "eval_change st v \<longleftrightarrow> v \<noteq> prev_value st"

definition apply_sticky ::
  "('ed, 'w) alarm_event_fn \<Rightarrow> 'ed \<Rightarrow> alarm_entry \<Rightarrow> alarm_state \<Rightarrow> u16 \<Rightarrow> bool \<Rightarrow> 'w
     \<Rightarrow> (alarm_state \<times> 'w) run" where
  "apply_sticky ev ed entry st v triggered w =
     (if triggered \<and> \<not> is_active st then do {
        w \<leftarrow> ev entry v ALARM_EVENT_TRIGGER ed w;
        Some (st\<lparr>is_active := True\<rparr>, w)
      }
      else if \<not> triggered \<and> is_active st then do {
        w \<leftarrow> ev entry v ALARM_EVENT_CLEAR ed w;
        Some (st\<lparr>is_active := False\<rparr>, w)
      }
      else Some (st, w))"

section \<open>The scan\<close>

definition alarm_engine_entry ::
  "('rd, 'w) alarm_read_fn \<Rightarrow> ('ed, 'w) alarm_event_fn \<Rightarrow> 'rd \<Rightarrow> 'ed \<Rightarrow> alarm_entry \<Rightarrow> alarm_state
     \<Rightarrow> 'w \<Rightarrow> (alarm_state \<times> 'w) run" where
  "alarm_engine_entry rd ev rdd ed entry st w = do {
     ((ok, v), w) \<leftarrow> rd (ae_address entry) 0 rdd w;
     if \<not> ok then Some (st, w)
     else (case ae_condition entry of
         ALARM_COND_BITMASK \<Rightarrow> apply_sticky ev ed entry st v (eval_bitmask entry v) w
       | ALARM_COND_RANGE \<Rightarrow> apply_sticky ev ed entry st v (eval_range entry v) w
       | ALARM_COND_CHANGE \<Rightarrow>
           (let changed = eval_change st v; st = st\<lparr>prev_value := v\<rparr> in
            if changed then do {
              w \<leftarrow> ev entry v ALARM_EVENT_TRIGGER ed w;
              Some (st, w)
            }
            else Some (st, w))
       | ALARM_COND_OTHER \<Rightarrow> Some (st, w))
   }"

definition alarm_engine_run ::
  "('rd, 'ed, 'w) alarm_engine_ctx option \<Rightarrow> 'w \<Rightarrow> (('rd, 'ed, 'w) alarm_engine_ctx option \<times> 'w) run" where
  "alarm_engine_run ctx w =
     (case ctx of
        None \<Rightarrow> Some (None, w)
      | Some c \<Rightarrow>
          (case (ctx_table c, ctx_states c, read_fn c, event_fn c) of
             (Some tab, Some sts, Some rd, Some ev) \<Rightarrow>
               if ctx_count c = 0 then Some (Some c, w)
               else do {
                 (sts, w) \<leftarrow> foldM (\<lambda>i (sts, w). do {
                    entry \<leftarrow> buf_load tab i;
                    st \<leftarrow> buf_load sts i;
                    (st, w) \<leftarrow> alarm_engine_entry rd ev (read_data c) (event_data c) entry st w;
                    sts \<leftarrow> buf_store i st sts;
                    Some (sts, w)
                  }) [0..<ctx_count c] (sts, w);
                 Some (Some (c\<lparr>ctx_states := Some sts\<rparr>), w)
               }
           | _ \<Rightarrow> Some (Some c, w)))"

section \<open>Specification of a scan\<close>

text \<open>
  What a scan means: per row, the reading (\<open>None\<close> when the register is unavailable) moves the
  state and yields at most one event; the events of a scan come in table order.
\<close>

definition violates :: "alarm_entry \<Rightarrow> u16 \<Rightarrow> bool" where
  "violates e v \<longleftrightarrow>
     (case ae_condition e of
        ALARM_COND_BITMASK \<Rightarrow> (\<forall>b<16. bit (hi_limit e) b \<longrightarrow> bit v b)
      | ALARM_COND_RANGE \<Rightarrow> \<not> (lo_limit e \<le> v \<and> v \<le> hi_limit e)
      | _ \<Rightarrow> False)"

definition sticky :: "alarm_entry \<Rightarrow> bool" where
  "sticky e \<longleftrightarrow> ae_condition e = ALARM_COND_BITMASK \<or> ae_condition e = ALARM_COND_RANGE"

definition entry_step ::
  "alarm_entry \<Rightarrow> alarm_state \<Rightarrow> u16 option \<Rightarrow> alarm_state \<times> (u16 \<times> alarm_event) option" where
  "entry_step e st r =
     (case r of
        None \<Rightarrow> (st, None)
      | Some v \<Rightarrow>
          if sticky e then
            (st\<lparr>is_active := violates e v\<rparr>,
             if violates e v = is_active st then None
             else Some (v, if violates e v then ALARM_EVENT_TRIGGER else ALARM_EVENT_CLEAR))
          else if ae_condition e = ALARM_COND_CHANGE then
            (st\<lparr>prev_value := v\<rparr>,
             if v = prev_value st then None else Some (v, ALARM_EVENT_TRIGGER))
          else (st, None))"

definition entry_events ::
  "alarm_entry \<Rightarrow> alarm_state \<Rightarrow> u16 option \<Rightarrow> (alarm_entry \<times> u16 \<times> alarm_event) list" where
  "entry_events e st r = (case snd (entry_step e st r) of None \<Rightarrow> [] | Some (v, k) \<Rightarrow> [(e, v, k)])"

definition scan_states ::
  "alarm_entry list \<Rightarrow> alarm_state list \<Rightarrow> (u16 \<Rightarrow> u16 option) \<Rightarrow> alarm_state list" where
  "scan_states tab sts rdv = map2 (\<lambda>e s. fst (entry_step e s (rdv (ae_address e)))) tab sts"

definition scan_events ::
  "alarm_entry list \<Rightarrow> alarm_state list \<Rightarrow> (u16 \<Rightarrow> u16 option)
     \<Rightarrow> (alarm_entry \<times> u16 \<times> alarm_event) list" where
  "scan_events tab sts rdv = concat (map2 (\<lambda>e s. entry_events e s (rdv (ae_address e))) tab sts)"

lemma eval_bitmask_violates:
  "ae_condition e = ALARM_COND_BITMASK \<Longrightarrow> eval_bitmask e v = violates e v"
  by (auto simp: eval_bitmask_def violates_def bit_eq_iff bit_and_iff dest: bit_imp_le_length)

lemma eval_range_violates:
  "ae_condition e = ALARM_COND_RANGE \<Longrightarrow> eval_range e v = violates e v"
  by (auto simp: eval_range_def violates_def)

lemma length_scan_states [simp]:
  "length (scan_states tab sts rdv) = min (length tab) (length sts)"
  by (simp add: scan_states_def)

lemma nth_scan_states [simp]:
  "i < length tab \<Longrightarrow> i < length sts
    \<Longrightarrow> scan_states tab sts rdv ! i = fst (entry_step (tab ! i) (sts ! i) (rdv (ae_address (tab ! i))))"
  by (simp add: scan_states_def)

lemma scan_events_Suc:
  assumes "k < length tab" and "k < length sts"
  shows "scan_events (take (Suc k) tab) (take (Suc k) sts) rdv
    = scan_events (take k tab) (take k sts) rdv
      @ entry_events (tab ! k) (sts ! k) (rdv (ae_address (tab ! k)))"
  using assms by (simp add: scan_events_def take_Suc_conv_app_nth)

section \<open>Interface: what hosts an engine\<close>

text \<open>
  The engine's client side: callbacks over a world with an invariant. While it holds, reading a
  register gives \<open>rdv\<close> and leaves the world alone, and emitting an event always returns and
  keeps the invariant. Under this contract a scan is exactly its specification.
\<close>

locale alarm_host =
  fixes rd :: "('rd, 'w) alarm_read_fn" and ev :: "('ed, 'w) alarm_event_fn"
    and rdd :: 'rd and ed :: 'ed and inv :: "'w \<Rightarrow> bool"
    and rdv :: "u16 \<Rightarrow> u16 option"
    and emit :: "alarm_entry \<Rightarrow> u16 \<Rightarrow> alarm_event \<Rightarrow> 'w \<Rightarrow> 'w"
  assumes rd_ok: "inv w \<Longrightarrow> rd a x rdd w
      = Some (case rdv a of None \<Rightarrow> (False, x) | Some v \<Rightarrow> (True, v), w)"
    and ev_ok: "inv w \<Longrightarrow> ev e v k ed w = Some (emit e v k w)"
    and emit_inv: "inv w \<Longrightarrow> inv (emit e v k w)"
begin

lemma engine_entry:
  assumes "inv w"
  shows "alarm_engine_entry rd ev rdd ed e st w
    = Some (fst (entry_step e st (rdv (ae_address e))),
        fold (\<lambda>(e, v, k). emit e v k) (entry_events e st (rdv (ae_address e))) w)"
proof (cases "rdv (ae_address e)")
  case None
  then show ?thesis
    by (simp add: alarm_engine_entry_def rd_ok [OF assms] entry_step_def entry_events_def)
next
  case (Some v)
  show ?thesis
    by (cases "ae_condition e"; cases "violates e v"; cases "is_active st")
      (simp_all add: Some alarm_engine_entry_def rd_ok [OF assms] ev_ok [OF assms] entry_step_def
        entry_events_def apply_sticky_def eval_bitmask_violates eval_range_violates eval_change_def
        sticky_def Let_def)
qed

lemma emits_inv: "inv w \<Longrightarrow> inv (fold (\<lambda>(e, v, k). emit e v k) evs w)"
  by (induction evs arbitrary: w) (auto simp: emit_inv)

lemma engine_loop:
  assumes "inv w" and "k \<le> length tab" and "length sts = length tab"
  shows "foldM (\<lambda>i (sts, w). do {
            entry \<leftarrow> buf_load tab i;
            st \<leftarrow> buf_load sts i;
            (st, w) \<leftarrow> alarm_engine_entry rd ev rdd ed entry st w;
            sts \<leftarrow> buf_store i st sts;
            Some (sts, w)
          }) [0..<k] (sts, w)
    = Some (take k (scan_states tab sts rdv) @ drop k sts,
        fold (\<lambda>(e, v, k). emit e v k) (scan_events (take k tab) (take k sts) rdv) w)"
  using assms(2)
proof (induction k)
  case (Suc k)
  define w1 where "w1 = fold (\<lambda>(e, v, k). emit e v k) (scan_events (take k tab) (take k sts) rdv) w"
  define s1 where "s1 = take k (scan_states tab sts rdv) @ drop k sts"
  have k: "k < length tab" "k < length sts" using Suc(2) assms(3) by auto
  have inv1: "inv w1" unfolding w1_def by (rule emits_inv [OF assms(1)])
  have s1k: "s1 ! k = sts ! k" "length s1 = length sts"
    using k by (simp_all add: s1_def nth_append min_def)
  have upd: "s1[k := fst (entry_step (tab ! k) (sts ! k) (rdv (ae_address (tab ! k))))]
      = take (Suc k) (scan_states tab sts rdv) @ drop (Suc k) sts"
    using k assms(3)
    by (simp add: s1_def list_update_append take_Suc_conv_app_nth Cons_nth_drop_Suc [symmetric] min_def)
  show ?case
    using Suc k s1k
    by (simp add: foldM_append w1_def [symmetric] s1_def [symmetric] engine_entry [OF inv1] upd
        scan_events_Suc buf_simps)
qed (simp add: scan_events_def)

lemma engine_run:
  assumes "inv w" and "ctx_table c = Some tab" and "ctx_states c = Some sts"
    and "ctx_count c = length tab" and "length sts = length tab"
    and "read_fn c = Some rd" and "event_fn c = Some ev" and "read_data c = rdd"
    and "event_data c = ed"
  shows "alarm_engine_run (Some c) w
    = Some (Some (c\<lparr>ctx_states := Some (scan_states tab sts rdv)\<rparr>),
        fold (\<lambda>(e, v, k). emit e v k) (scan_events tab sts rdv) w)"
proof (cases "tab = []")
  case True
  then show ?thesis
    using assms by (simp add: alarm_engine_run_def scan_states_def scan_events_def)
next
  case False
  then show ?thesis
    using assms engine_loop [OF assms(1) order_refl assms(5)]
    by (simp add: alarm_engine_run_def)
qed

end

section \<open>Histories of scans\<close>

text \<open>
  A host that records the events: its world is what the registers read and the log so far. A
  history is the engine run once per set of readings.
\<close>

type_synonym alarm_log = "(alarm_entry \<times> u16 \<times> alarm_event) list"
type_synonym recorder = "(u16 \<Rightarrow> u16 option) \<times> alarm_log"

definition recording_read :: "(unit, recorder) alarm_read_fn" where
  "recording_read a x d w = Some (case fst w a of None \<Rightarrow> (False, x) | Some v \<Rightarrow> (True, v), w)"

definition recording_event :: "(unit, recorder) alarm_event_fn" where
  "recording_event e v k d w = Some (fst w, snd w @ [(e, v, k)])"

definition recorder_ctx ::
  "alarm_entry list \<Rightarrow> alarm_state list \<Rightarrow> (unit, unit, recorder) alarm_engine_ctx" where
  "recorder_ctx tab sts = \<lparr>ctx_table = Some tab, ctx_states = Some sts, ctx_count = length tab,
     read_fn = Some recording_read, event_fn = Some recording_event, read_data = (), event_data = ()\<rparr>"

definition engine_scans ::
  "(u16 \<Rightarrow> u16 option) list \<Rightarrow> (unit, unit, recorder) alarm_engine_ctx option \<times> alarm_log
     \<Rightarrow> ((unit, unit, recorder) alarm_engine_ctx option \<times> alarm_log) run" where
  "engine_scans rs s = foldM (\<lambda>r (c, log). do {
     (c, w) \<leftarrow> alarm_engine_run c (r, log);
     Some (c, snd w)
   }) rs s"

interpretation recorder: alarm_host recording_read recording_event "()" "()"
  "\<lambda>w. fst w = rdv" rdv "\<lambda>e v k w. (fst w, snd w @ [(e, v, k)])" for rdv
  by unfold_locales (auto simp: recording_read_def recording_event_def)

lemma recorder_fold:
  "fold (\<lambda>(e, v, k). (\<lambda>w. (fst w, snd w @ [(e, v, k)]))) evs (r, log) = (r, log @ evs)"
  by (induction evs arbitrary: log) auto

lemma recorder_scan:
  assumes "length sts = length tab"
  shows "alarm_engine_run (Some (recorder_ctx tab sts)) (r, log)
    = Some (Some (recorder_ctx tab (scan_states tab sts r)), (r, log @ scan_events tab sts r))"
proof -
  have "alarm_engine_run (Some (recorder_ctx tab sts)) (r, log)
    = Some (Some ((recorder_ctx tab sts)\<lparr>ctx_states := Some (scan_states tab sts r)\<rparr>),
        fold (\<lambda>(e, v, k) w. (fst w, snd w @ [(e, v, k)])) (scan_events tab sts r) (r, log))"
    by (rule recorder.engine_run) (simp_all add: recorder_ctx_def assms)
  then show ?thesis by (simp add: recorder_fold recorder_ctx_def)
qed

fun entry_trace ::
  "alarm_entry \<Rightarrow> alarm_state \<Rightarrow> u16 option list \<Rightarrow> alarm_log" where
  "entry_trace e st [] = []"
| "entry_trace e st (r # rs) = entry_events e st r @ entry_trace e (fst (entry_step e st r)) rs"

lemma entry_events_fst: "x \<in> set (entry_events e st r) \<Longrightarrow> fst x = e"
  by (auto simp: entry_events_def split: option.splits)

lemma scan_events_other:
  "e \<notin> set tab \<Longrightarrow> filter (\<lambda>x. fst x = e) (scan_events tab sts r) = []"
  by (auto simp: scan_events_def filter_empty_conv dest!: entry_events_fst dest: set_zip_leftD)

lemma scan_events_entry:
  assumes "length sts = length tab" and "distinct tab" and "i < length tab"
  shows "filter (\<lambda>x. fst x = tab ! i) (scan_events tab sts r)
    = entry_events (tab ! i) (sts ! i) (r (ae_address (tab ! i)))"
  using assms
proof (induction sts tab arbitrary: i rule: list_induct2)
  case (Cons s sts e tab)
  have hd: "scan_events (e # tab) (s # sts) r = entry_events e s (r (ae_address e)) @ scan_events tab sts r"
    by (simp add: scan_events_def)
  have self: "filter (\<lambda>x. fst x = e) (entry_events e s q) = entry_events e s q" for q
    by (auto simp: filter_id_conv dest: entry_events_fst)
  have other: "filter (\<lambda>x. fst x = e') (entry_events e s q) = []" if "e' \<noteq> e" for e' q
    using that by (auto simp: filter_empty_conv dest: entry_events_fst)
  show ?case
  proof (cases i)
    case 0
    then show ?thesis using Cons scan_events_other [of e tab sts r] by (simp add: hd self)
  next
    case (Suc j)
    then have "tab ! j \<noteq> e" using Cons by (auto simp: in_set_conv_nth)
    then show ?thesis using Cons Suc by (simp add: hd other)
  qed
qed simp

lemma engine_scans_trace:
  assumes "length sts = length tab" and "distinct tab" and "i < length tab"
  shows "\<exists>sts' evs. engine_scans rs (Some (recorder_ctx tab sts), log)
      = Some (Some (recorder_ctx tab sts'), log @ evs)
    \<and> length sts' = length tab
    \<and> filter (\<lambda>x. fst x = tab ! i) evs
      = entry_trace (tab ! i) (sts ! i) (map (\<lambda>r. r (ae_address (tab ! i))) rs)"
  using assms(1)
proof (induction rs arbitrary: sts log)
  case Nil
  then show ?case by (simp add: engine_scans_def) blast
next
  case (Cons r rs)
  let ?s = "scan_states tab sts r"
  have len: "length ?s = length tab" using Cons(2) by simp
  obtain sts' evs where *: "engine_scans rs (Some (recorder_ctx tab ?s), log @ scan_events tab sts r)
      = Some (Some (recorder_ctx tab sts'), (log @ scan_events tab sts r) @ evs)"
      "length sts' = length tab"
      "filter (\<lambda>x. fst x = tab ! i) evs
        = entry_trace (tab ! i) (?s ! i) (map (\<lambda>r. r (ae_address (tab ! i))) rs)"
    using Cons(1) [OF len, of "log @ scan_events tab sts r"] by blast
  have "engine_scans (r # rs) (Some (recorder_ctx tab sts), log)
      = Some (Some (recorder_ctx tab sts'), log @ (scan_events tab sts r @ evs))"
    using *(1) by (simp add: engine_scans_def recorder_scan [OF Cons(2)])
  moreover have "filter (\<lambda>x. fst x = tab ! i) (scan_events tab sts r @ evs)
      = entry_trace (tab ! i) (sts ! i) (map (\<lambda>r. r (ae_address (tab ! i))) (r # rs))"
    using *(3) Cons(2) assms(3) scan_events_entry [OF Cons(2) assms(2,3)] by simp
  ultimately show ?case using *(2) by blast
qed

section \<open>Sticky and change conditions\<close>

fun edge_events :: "alarm_entry \<Rightarrow> bool \<Rightarrow> u16 list \<Rightarrow> alarm_log" where
  "edge_events e a [] = []"
| "edge_events e a (v # vs) =
     (if violates e v = a then edge_events e a vs
      else (e, v, if a then ALARM_EVENT_CLEAR else ALARM_EVENT_TRIGGER)
        # edge_events e (violates e v) vs)"

fun change_events :: "alarm_entry \<Rightarrow> u16 \<Rightarrow> u16 list \<Rightarrow> alarm_log" where
  "change_events e p [] = []"
| "change_events e p (v # vs) =
     (if v = p then change_events e p vs else (e, v, ALARM_EVENT_TRIGGER) # change_events e v vs)"

fun alternates :: "bool \<Rightarrow> alarm_event list \<Rightarrow> bool" where
  "alternates a [] \<longleftrightarrow> True"
| "alternates a (k # ks) \<longleftrightarrow>
     k = (if a then ALARM_EVENT_CLEAR else ALARM_EVENT_TRIGGER) \<and> alternates (\<not> a) ks"

lemma edge_events_alternate: "alternates a (map (snd \<circ> snd) (edge_events e a vs))"
  by (induction vs arbitrary: a) auto

lemma entry_trace_sticky:
  "sticky e \<Longrightarrow> entry_trace e st rs = edge_events e (is_active st) (List.map_filter id rs)"
proof (induction rs arbitrary: st)
  case (Cons r rs)
  then show ?case
    by (cases r) (auto simp: entry_events_def entry_step_def map_filter_simps)
qed (simp add: map_filter_simps)

lemma entry_trace_change:
  assumes "ae_condition e = ALARM_COND_CHANGE"
  shows "entry_trace e st rs = change_events e (prev_value st) (List.map_filter id rs)"
  using assms
proof (induction rs arbitrary: st)
  case (Cons r rs)
  then show ?case
    by (cases r) (auto simp: entry_events_def entry_step_def sticky_def map_filter_simps)
qed (simp add: map_filter_simps)

text \<open>
  C18: sticky suppression. Over any history of scans, the events the engine emits for a bit mask or
  range row are exactly the edges of its condition in the sequence of readings that succeeded: one
  TRIGGER when the condition becomes true, one CLEAR when it ceases, nothing in between and
  nothing for a scan whose read failed; so TRIGGER and CLEAR alternate.
\<close>

theorem sticky_one_event_per_edge:
  assumes "length sts = length tab" and "distinct tab" and "i < length tab" and "sticky (tab ! i)"
  shows "\<exists>c log. engine_scans rs (Some (recorder_ctx tab sts), []) = Some (c, log)
    \<and> filter (\<lambda>x. fst x = tab ! i) log
      = edge_events (tab ! i) (is_active (sts ! i)) (List.map_filter (\<lambda>r. r (ae_address (tab ! i))) rs)
    \<and> alternates (is_active (sts ! i)) (map (snd \<circ> snd) (filter (\<lambda>x. fst x = tab ! i) log))"
  using engine_scans_trace [OF assms(1-3), of rs "[]"] edge_events_alternate
  by (auto simp: entry_trace_sticky [OF assms(4)] map_filter_def filter_map comp_def)

theorem sticky_one_event_per_edge_witness:
  "\<exists>c log. engine_scans [\<lambda>_. Some 5, \<lambda>_. None, \<lambda>_. Some 30, \<lambda>_. Some 31]
      (Some (recorder_ctx [\<lparr>ae_address = 2, ae_condition = ALARM_COND_RANGE, lo_limit = 20,
          hi_limit = 0xFFFF, error_code = 16, ae_description = []\<rparr>]
        [\<lparr>is_active = False, prev_value = 0\<rparr>]), []) = Some (c, log)
    \<and> map (snd \<circ> snd) (filter (\<lambda>x. fst x = \<lparr>ae_address = 2, ae_condition = ALARM_COND_RANGE,
          lo_limit = 20, hi_limit = 0xFFFF, error_code = 16, ae_description = []\<rparr>) log)
      = [ALARM_EVENT_TRIGGER, ALARM_EVENT_CLEAR]"
proof -
  let ?e = "\<lparr>ae_address = 2, ae_condition = ALARM_COND_RANGE, lo_limit = 20,
    hi_limit = 0xFFFF, error_code = 16, ae_description = []\<rparr>"
  have "\<not> (v :: u16) > 0xFFFF" for v
    using u16_less [of v] by (simp add: word_less_nat_alt)
  then have "map (snd \<circ> snd) (edge_events ?e False [5, 30, 31])
      = [ALARM_EVENT_TRIGGER, ALARM_EVENT_CLEAR]"
    by (simp add: violates_def)
  then show ?thesis
    using sticky_one_event_per_edge [where sts = "[\<lparr>is_active = False, prev_value = 0\<rparr>]"
      and tab = "[?e]" and i = 0 and rs = "[\<lambda>_. Some 5, \<lambda>_. None, \<lambda>_. Some 30, \<lambda>_. Some 31]"]
    by (force simp: sticky_def map_filter_simps)
qed

text \<open>The documented events of a change row: a reading fires if it is not 0 and differs from the previous one.\<close>

fun documented_changes :: "alarm_entry \<Rightarrow> u16 \<Rightarrow> u16 list \<Rightarrow> alarm_log" where
  "documented_changes e p [] = []"
| "documented_changes e p (v # vs) =
     (if v \<noteq> 0 \<and> v \<noteq> p then (e, v, ALARM_EVENT_TRIGGER) # documented_changes e v vs else documented_changes e v vs)"

lemma change_events_documented:
  "filter (\<lambda>x. fst (snd x) \<noteq> 0) (change_events e p vs) = documented_changes e p vs"
  by (induction vs arbitrary: p) auto

lemma change_events_nonzero: "0 \<notin> set vs \<Longrightarrow> change_events e p vs = documented_changes e p vs"
  by (induction vs arbitrary: p) auto

text \<open>
  C30: change detection. Over any history of scans, the events with a value other than 0 that the
  engine emits for a CHANGE row are exactly the documented ones: one TRIGGER for each successful
  reading that is not 0 and differs from the previous one; an unavailable register neither
  fires nor resets the previous value. If no successful reading is 0, these are all events of the row.
\<close>

theorem change_one_event_per_change:
  assumes "length sts = length tab" and "distinct tab" and "i < length tab"
    and "ae_condition (tab ! i) = ALARM_COND_CHANGE"
  shows "\<exists>c log. engine_scans rs (Some (recorder_ctx tab sts), []) = Some (c, log)
    \<and> filter (\<lambda>x. fst x = tab ! i \<and> fst (snd x) \<noteq> 0) log
      = documented_changes (tab ! i) (prev_value (sts ! i)) (List.map_filter (\<lambda>r. r (ae_address (tab ! i))) rs)
    \<and> (0 \<notin> set (List.map_filter (\<lambda>r. r (ae_address (tab ! i))) rs) \<longrightarrow> filter (\<lambda>x. fst x = tab ! i) log
      = documented_changes (tab ! i) (prev_value (sts ! i)) (List.map_filter (\<lambda>r. r (ae_address (tab ! i))) rs))"
proof -
  let ?vs = "List.map_filter (\<lambda>r. r (ae_address (tab ! i))) rs" and ?p = "prev_value (sts ! i)"
  obtain c log where h: "engine_scans rs (Some (recorder_ctx tab sts), []) = Some (c, log)"
      "filter (\<lambda>x. fst x = tab ! i) log = change_events (tab ! i) ?p ?vs"
    using engine_scans_trace [OF assms(1-3), of rs "[]"]
    by (auto simp: entry_trace_change [OF assms(4)] map_filter_def filter_map comp_def)
  have "filter (\<lambda>x. fst x = tab ! i \<and> fst (snd x) \<noteq> 0) log
      = filter (\<lambda>x. fst (snd x) \<noteq> 0) (filter (\<lambda>x. fst x = tab ! i) log)"
    by (simp add: conj_commute)
  also have "\<dots> = documented_changes (tab ! i) ?p ?vs" unfolding h(2) by (rule change_events_documented)
  finally show ?thesis using h change_events_nonzero [of ?vs] by simp
qed

theorem change_one_event_per_change_witness:
  "\<exists>c log. engine_scans [\<lambda>_. Some 5, \<lambda>_. None, \<lambda>_. Some 5, \<lambda>_. Some 7]
      (Some (recorder_ctx [\<lparr>ae_address = 5, ae_condition = ALARM_COND_CHANGE, lo_limit = 0,
          hi_limit = 0, error_code = 48, ae_description = []\<rparr>]
        [\<lparr>is_active = False, prev_value = 0\<rparr>]), []) = Some (c, log)
    \<and> map (fst \<circ> snd) (filter (\<lambda>x. fst x = \<lparr>ae_address = 5, ae_condition = ALARM_COND_CHANGE,
          lo_limit = 0, hi_limit = 0, error_code = 48, ae_description = []\<rparr>) log) = [5, 7]"
  using change_one_event_per_change [where sts = "[\<lparr>is_active = False, prev_value = 0\<rparr>]"
      and tab = "[\<lparr>ae_address = 5, ae_condition = ALARM_COND_CHANGE, lo_limit = 0,
          hi_limit = 0, error_code = 48, ae_description = []\<rparr>]" and i = 0
      and rs = "[\<lambda>_. Some 5, \<lambda>_. None, \<lambda>_. Some 5, \<lambda>_. Some 7]"]
  by (force simp: map_filter_simps)

text \<open>The code fires for a change to 0 too, which its header and the comment of \<open>eval_change\<close> rule out.\<close>

lemma change_to_zero_fires:
  assumes "p \<noteq> 0" and "ae_condition e = ALARM_COND_CHANGE"
  shows "\<exists>c log. engine_scans [\<lambda>_. Some 0] (Some (recorder_ctx [e] [\<lparr>is_active = False, prev_value = p\<rparr>]), []) = Some (c, log)
    \<and> filter (\<lambda>x. fst x = e) log = [(e, 0, ALARM_EVENT_TRIGGER)]"
  using assms engine_scans_trace [of "[\<lparr>is_active = False, prev_value = p\<rparr>]" "[e]" 0 "[\<lambda>_. Some 0]" "[]"]
  by (auto simp: entry_trace_change map_filter_simps simp del: entry_trace.simps)

end
