(* ===== verification/Alarm_Bridge.thy ===== *)
theory Alarm_Bridge
  imports Alarm_Engine
begin

text \<open>
  The alarm bridge (\<open>lib/alarm/alarm_bridge.c\<close>): registration of engine contexts and the monitor
  thread. Contexts are registered by pointer: \<open>b_heap\<close> is the memory the pointers point into, a
  pointer is a natural number. The thread is its loop body, one call per iteration; what the other
  threads do to the world between two iterations, and what the clock reads, are inputs.
\<close>

section \<open>State\<close>

definition ALARM_BRIDGE_MAX_CTXS :: nat where
  "ALARM_BRIDGE_MAX_CTXS = 16"

definition ALARM_BRIDGE_POLL_MS :: u32 where
  "ALARM_BRIDGE_POLL_MS = 100"

definition ALARM_BRIDGE_STARTUP_DELAY_MS :: u64 where
  "ALARM_BRIDGE_STARTUP_DELAY_MS = 5000"

record timespec =
  tv_sec :: int
  tv_nsec :: int

record ('rd, 'ed, 'w) alarm_bridge =
  b_heap :: "nat \<Rightarrow> ('rd, 'ed, 'w) alarm_engine_ctx option"
  g_ctxs :: "nat option list"
  g_ctx_count :: nat
  g_running :: bool
  g_last_beat_ms :: u64

definition alarm_bridge_init ::
  "(nat \<Rightarrow> ('rd, 'ed, 'w) alarm_engine_ctx option) \<Rightarrow> ('rd, 'ed, 'w) alarm_bridge" where
  "alarm_bridge_init heap = \<lparr>b_heap = heap, g_ctxs = replicate ALARM_BRIDGE_MAX_CTXS None,
     g_ctx_count = 0, g_running = False, g_last_beat_ms = 0\<rparr>"

definition get_monotonic_ms :: "timespec \<Rightarrow> u64" where
  "get_monotonic_ms ts = word_of_int (tv_sec ts) * 1000 + word_of_int (tv_nsec ts) div 1000000"

section \<open>Operations\<close>

definition alarm_bridge_register_ctx ::
  "nat option \<Rightarrow> ('rd, 'ed, 'w) alarm_bridge \<Rightarrow> (int \<times> ('rd, 'ed, 'w) alarm_bridge) run" where
  "alarm_bridge_register_ctx ctx b =
     (if g_running b then Some (- 1, b)
      else if ctx = None then Some (- 1, b)
      else if g_ctx_count b \<ge> ALARM_BRIDGE_MAX_CTXS then Some (- 1, b)
      else do {
        arr \<leftarrow> buf_store (g_ctx_count b) ctx (g_ctxs b);
        Some (0, b\<lparr>g_ctxs := arr, g_ctx_count := g_ctx_count b + 1\<rparr>)
      })"

text \<open>\<open>created\<close> is whether \<open>pthread_create\<close> succeeds.\<close>

definition alarm_bridge_start ::
  "timespec \<Rightarrow> bool \<Rightarrow> ('rd, 'ed, 'w) alarm_bridge \<Rightarrow> int \<times> ('rd, 'ed, 'w) alarm_bridge" where
  "alarm_bridge_start now created b =
     (let b = b\<lparr>g_last_beat_ms := get_monotonic_ms now, g_running := True\<rparr> in
      if \<not> created then (- 1, b\<lparr>g_running := False\<rparr>) else (0, b))"

text \<open>The thread is joined before the function returns; the flag says whether it was.\<close>

definition alarm_bridge_stop ::
  "('rd, 'ed, 'w) alarm_bridge \<Rightarrow> bool \<times> ('rd, 'ed, 'w) alarm_bridge" where
  "alarm_bridge_stop b =
     (if \<not> g_running b then (False, b) else (True, b\<lparr>g_running := False\<rparr>))"

definition alarm_bridge_last_beat_ms :: "('rd, 'ed, 'w) alarm_bridge \<Rightarrow> u64" where
  "alarm_bridge_last_beat_ms b = g_last_beat_ms b"

section \<open>Monitor thread\<close>

definition run_ctx ::
  "nat \<Rightarrow> ('rd, 'ed, 'w) alarm_bridge \<times> 'w \<Rightarrow> (('rd, 'ed, 'w) alarm_bridge \<times> 'w) run" where
  "run_ctx i s = (case s of (b, w) \<Rightarrow> do {
     p \<leftarrow> buf_load (g_ctxs b) i;
     (case p of
        None \<Rightarrow> do { (_, w) \<leftarrow> alarm_engine_run (None :: ('rd, 'ed, 'w) alarm_engine_ctx option) w; Some (b, w) }
      | Some a \<Rightarrow> do {
          c \<leftarrow> b_heap b a;
          (c, w) \<leftarrow> alarm_engine_run (Some c) w;
          Some (b\<lparr>b_heap := (b_heap b)(a := c)\<rparr>, w)
        })
   })"

text \<open>One iteration: the flag is the thread's local \<open>warming\<close>.\<close>

definition alarm_monitor_iter ::
  "u64 \<Rightarrow> timespec \<Rightarrow> bool \<times> ('rd, 'ed, 'w) alarm_bridge \<times> 'w
     \<Rightarrow> (bool \<times> ('rd, 'ed, 'w) alarm_bridge \<times> 'w) run" where
  "alarm_monitor_iter start_ms now s = (case s of (warming, b, w) \<Rightarrow>
     (let now_ms = get_monotonic_ms now; b = b\<lparr>g_last_beat_ms := now_ms\<rparr> in
      if warming \<and> \<not> now_ms - start_ms \<ge> ALARM_BRIDGE_STARTUP_DELAY_MS then Some (True, b, w)
      else do {
        (b, w) \<leftarrow> foldM run_ctx [0..<g_ctx_count b] (b, w);
        Some (False, b, w)
      }))"

text \<open>
  The thread from its start: the first clock value is \<open>start\<close>; each later iteration comes with
  what happened to the world since the previous one and the clock.
\<close>

definition alarm_monitor_thread ::
  "timespec \<Rightarrow> (('w \<Rightarrow> 'w) \<times> timespec) list \<Rightarrow> ('rd, 'ed, 'w) alarm_bridge \<times> 'w
     \<Rightarrow> (bool \<times> ('rd, 'ed, 'w) alarm_bridge \<times> 'w) run" where
  "alarm_monitor_thread start its s =
     foldM (\<lambda>(env, now) (warming, b, w).
         if \<not> g_running b then Some (warming, b, w)
         else alarm_monitor_iter (get_monotonic_ms start) now (warming, b, env w))
       its (True, s)"

section \<open>Registration\<close>

definition bridge_inv :: "('rd, 'ed, 'w) alarm_bridge \<Rightarrow> bool" where
  "bridge_inv b \<longleftrightarrow> length (g_ctxs b) = ALARM_BRIDGE_MAX_CTXS
     \<and> g_ctx_count b \<le> ALARM_BRIDGE_MAX_CTXS
     \<and> list_all (\<lambda>p. p \<noteq> None) (take (g_ctx_count b) (g_ctxs b))"

definition registered :: "('rd, 'ed, 'w) alarm_bridge \<Rightarrow> nat list" where
  "registered b = map the (take (g_ctx_count b) (g_ctxs b))"

lemma bridge_inv_init: "bridge_inv (alarm_bridge_init heap)"
  by (simp add: bridge_inv_def alarm_bridge_init_def)

lemma register_ctx:
  assumes "bridge_inv b"
  shows "\<exists>b'. alarm_bridge_register_ctx p b
      = Some (if p \<noteq> None \<and> \<not> g_running b \<and> length (registered b) < 16 then 0 else - 1, b')
    \<and> bridge_inv b' \<and> b_heap b' = b_heap b \<and> g_running b' = g_running b
    \<and> registered b' = registered b
      @ (case p of Some a \<Rightarrow> if \<not> g_running b \<and> length (registered b) < 16 then [a] else []
         | None \<Rightarrow> [])"
proof -
  have len: "length (registered b) = g_ctx_count b"
    using assms by (simp add: registered_def bridge_inv_def)
  show ?thesis
  proof (cases "g_running b \<or> p = None \<or> g_ctx_count b \<ge> 16")
    case True
    then show ?thesis
      using assms len
      by (auto simp: alarm_bridge_register_ctx_def ALARM_BRIDGE_MAX_CTXS_def split: option.split)
  next
    case False
    then obtain a where "p = Some a" by auto
    then show ?thesis
      using assms False len
      by (simp add: alarm_bridge_register_ctx_def ALARM_BRIDGE_MAX_CTXS_def bridge_inv_def
          registered_def buf_store_def take_Suc_conv_app_nth)
  qed
qed

section \<open>Start-up delay\<close>

definition monitor_passes ::
  "(('w \<Rightarrow> 'w) \<times> timespec) list \<Rightarrow> ('rd, 'ed, 'w) alarm_bridge \<times> 'w
     \<Rightarrow> (('rd, 'ed, 'w) alarm_bridge \<times> 'w) run" where
  "monitor_passes its s = foldM (\<lambda>(env, now) (b, w).
     foldM run_ctx [0..<g_ctx_count b] (b\<lparr>g_last_beat_ms := get_monotonic_ms now\<rparr>, env w)) its s"

definition cold :: "timespec \<Rightarrow> ('w \<Rightarrow> 'w) \<times> timespec \<Rightarrow> bool" where
  "cold start it \<longleftrightarrow> get_monotonic_ms (snd it) - get_monotonic_ms start < ALARM_BRIDGE_STARTUP_DELAY_MS"

definition beats :: "(('w \<Rightarrow> 'w) \<times> timespec) list \<Rightarrow> ('rd, 'ed, 'w) alarm_bridge \<Rightarrow> ('rd, 'ed, 'w) alarm_bridge" where
  "beats its b = (if its = [] then b
     else b\<lparr>g_last_beat_ms := get_monotonic_ms (snd (last its))\<rparr>)"

lemma run_ctx_running:
  "run_ctx i (b, w) = Some (b', w') \<Longrightarrow> g_running b' = g_running b"
  by (auto simp: run_ctx_def alarm_engine_run_def split: option.splits bind_splits if_splits prod.splits)

lemma run_ctxs_running:
  "foldM run_ctx is s = Some s' \<Longrightarrow> g_running (fst s') = g_running (fst s)"
proof (induction "is" arbitrary: s)
  case (Cons i "is")
  then obtain s1 where "run_ctx i s = Some s1" "foldM run_ctx is s1 = Some s'"
    by (auto split: bind_splits)
  then show ?case using Cons(1) run_ctx_running [of i "fst s" "snd s" "fst s1" "snd s1"] by simp
qed auto

abbreviation monitor_body where
  "monitor_body start \<equiv> (\<lambda>(env, now) (warming, b, w).
     if \<not> g_running b then Some (warming, b, w)
     else alarm_monitor_iter (get_monotonic_ms start) now (warming, b, env w))"

lemma monitor_warm:
  assumes "g_running b"
  shows "foldM (monitor_body start) its (False, b, w)
    = monitor_passes its (b, w) \<bind> (\<lambda>(b, w). Some (False, b, w))"
  using assms
proof (induction its arbitrary: b w)
  case (Cons it its)
  obtain env now where it: "it = (env, now)" by force
  show ?case
  proof (cases "foldM run_ctx [0..<g_ctx_count b]
      (b\<lparr>g_last_beat_ms := get_monotonic_ms now\<rparr>, env w)")
    case None
    then show ?thesis
      using Cons(2) by (simp add: it alarm_monitor_iter_def monitor_passes_def Let_def)
  next
    case (Some s)
    then have "g_running (fst s)" using run_ctxs_running Cons(2) by fastforce
    then show ?thesis
      using Cons(1) [of "fst s" "snd s"] Cons(2) Some
      by (simp add: it alarm_monitor_iter_def monitor_passes_def Let_def case_prod_beta)
  qed
qed (simp add: monitor_passes_def)

lemma monitor_cold:
  assumes "g_running b"
  shows "foldM (monitor_body start) its (True, b, w)
    = (let k = takeWhile (cold start) its in
       monitor_passes (dropWhile (cold start) its) (beats k b, fold fst k w)
         \<bind> (\<lambda>(b, w). Some (dropWhile (cold start) its = [], b, w)))"
  using assms
proof (induction its arbitrary: b w)
  case (Cons it its)
  obtain env now where it: "it = (env, now)" by force
  show ?case
  proof (cases "cold start it")
    case True
    have beats: "beats (takeWhile (cold start) its) (b\<lparr>g_last_beat_ms := get_monotonic_ms now\<rparr>)
        = beats (it # takeWhile (cold start) its) b"
      by (simp add: beats_def it)
    have "\<not> get_monotonic_ms now - get_monotonic_ms start \<ge> ALARM_BRIDGE_STARTUP_DELAY_MS"
      using True by (simp add: cold_def it)
    then have "foldM (monitor_body start) (it # its) (True, b, w)
        = foldM (monitor_body start) its (True, b\<lparr>g_last_beat_ms := get_monotonic_ms now\<rparr>, env w)"
      using Cons(2) by (simp add: it alarm_monitor_iter_def Let_def)
    also have "\<dots> = (let k = takeWhile (cold start) its in
       monitor_passes (dropWhile (cold start) its)
           (beats k (b\<lparr>g_last_beat_ms := get_monotonic_ms now\<rparr>), fold fst k (env w))
         \<bind> (\<lambda>(b, w). Some (dropWhile (cold start) its = [], b, w)))"
      by (rule Cons(1)) (simp add: Cons(2))
    finally show ?thesis using True by (simp only: beats Let_def) (simp add: it)
  next
    case False
    then have hot: "ALARM_BRIDGE_STARTUP_DELAY_MS \<le> get_monotonic_ms now - get_monotonic_ms start"
      by (simp add: cold_def it)
    have "foldM (monitor_body start) (it # its) (True, b, w)
        = foldM (monitor_body start) (it # its) (False, b, w)"
      using hot Cons(2) by (simp add: it alarm_monitor_iter_def Let_def)
    then show ?thesis
      using False monitor_warm [OF Cons(2), of start "it # its" w]
      by (simp add: beats_def case_prod_beta' del: foldM.simps)
  qed
qed (simp add: monitor_passes_def beats_def)

text \<open>
  C32: the start-up delay. Over any sequence of clock readings the monitor thread evaluates no
  alarm while less than the delay has passed since its start; from the first iteration after it,
  every iteration, and only then, runs the engine on every registered context in registration
  order. The heartbeat is the last clock reading in both phases.
\<close>

theorem monitor_startup_delay:
  assumes "g_running b"
  shows "alarm_monitor_thread start its (b, w)
    = (let k = takeWhile (cold start) its; hot = dropWhile (cold start) its in
       monitor_passes hot (beats k b, fold fst k w)
         \<bind> (\<lambda>(b, w). Some (hot = [], b, w)))"
  using monitor_cold [OF assms, of start its w] by (simp add: alarm_monitor_thread_def Let_def)

theorem monitor_startup_delay_witness:
  "let b = (alarm_bridge_init (\<lambda>_. None) :: (unit, unit, nat) alarm_bridge)\<lparr>g_running := True\<rparr> in
   alarm_monitor_thread \<lparr>tv_sec = 10, tv_nsec = 0\<rparr> [(Suc, \<lparr>tv_sec = 14, tv_nsec = 999999999\<rparr>)] (b, 0)
     = Some (True, b\<lparr>g_last_beat_ms := 14999\<rparr>, 1)"
proof -
  let ?b = "(alarm_bridge_init (\<lambda>_. None) :: (unit, unit, nat) alarm_bridge)\<lparr>g_running := True\<rparr>"
  let ?t = "\<lparr>tv_sec = 10, tv_nsec = 0\<rparr>"
  let ?it = "(Suc, \<lparr>tv_sec = 14, tv_nsec = 999999999\<rparr>)"
  have "cold ?t ?it"
    by (simp add: cold_def get_monotonic_ms_def ALARM_BRIDGE_STARTUP_DELAY_MS_def)
  then show ?thesis
    using monitor_startup_delay [of ?b ?t "[?it]" 0]
    by (simp add: monitor_passes_def beats_def get_monotonic_ms_def Let_def)
qed

section \<open>Registration of several contexts\<close>

definition register_all ::
  "nat option list \<Rightarrow> ('rd, 'ed, 'w) alarm_bridge \<Rightarrow> (int list \<times> ('rd, 'ed, 'w) alarm_bridge) run" where
  "register_all ps b = foldM (\<lambda>p (rs, b). do {
     (r, b) \<leftarrow> alarm_bridge_register_ctx p b;
     Some (rs @ [r], b)
   }) ps ([], b)"

lemma take_append_one:
  "take n (xs @ [x]) = (if length xs < n then take n xs @ [x] else take n xs)"
  by (auto simp: not_less)

lemma register_all_inv:
  "\<exists>rs b. register_all ps (alarm_bridge_init heap) = Some (rs, b)
     \<and> registered b = take 16 (List.map_filter id ps)
     \<and> length (filter (\<lambda>r. r = 0) rs) = length (registered b) \<and> length rs = length ps
     \<and> bridge_inv b \<and> \<not> g_running b"
proof (induction ps rule: rev_induct)
  case Nil
  show ?case
    by (simp add: register_all_def registered_def bridge_inv_init map_filter_simps)
      (simp add: alarm_bridge_init_def)
next
  case (snoc p ps)
  then obtain rs b where b: "register_all ps (alarm_bridge_init heap) = Some (rs, b)"
      "registered b = take 16 (List.map_filter id ps)"
      "length (filter (\<lambda>r. r = 0) rs) = length (registered b)" "length rs = length ps"
      "bridge_inv b" "\<not> g_running b"
    by blast
  obtain r b' where r: "alarm_bridge_register_ctx p b = Some (r, b')"
      "r = (if p \<noteq> None \<and> length (registered b) < 16 then 0 else - 1)"
      "bridge_inv b'" "\<not> g_running b'"
      "registered b' = registered b @ (case p of Some a \<Rightarrow> if length (registered b) < 16 then [a] else []
         | None \<Rightarrow> [])"
    using register_ctx [OF b(5), of p] b(6) by (auto split: option.splits)
  have "register_all (ps @ [p]) (alarm_bridge_init heap) = Some (rs @ [r], b')"
    using b(1) r(1) by (simp add: register_all_def foldM_append)
  moreover have "registered b' = take 16 (List.map_filter id (ps @ [p]))"
    using r(5) b(2) by (cases p) (auto simp: map_filter_def take_append_one)
  moreover have "length (filter (\<lambda>r. r = 0) (rs @ [r])) = length (registered b')"
    using r(2,5) b(3) by (cases p) auto
  moreover have "length (rs @ [r]) = length (ps @ [p])" using b(4) by simp
  ultimately show ?case using r(3,4) by blast
qed

text \<open>
  Registration. From an empty bridge, registering any pointers in turn keeps the array inside
  its 16 slots: the bridge holds the first 16 non-NULL pointers in order, and a call returns 0
  exactly when it adds one.
\<close>

theorem register_first_16:
  "\<exists>rs b. register_all ps (alarm_bridge_init heap) = Some (rs, b)
     \<and> registered b = take 16 (List.map_filter id ps)
     \<and> length (filter (\<lambda>r. r = 0) rs) = length (registered b) \<and> length rs = length ps"
  using register_all_inv [of ps heap] by blast

end
