(* ===== verification/Config_Loader.thy ===== *)
theory Config_Loader
  imports Prelude Complex_Main
begin

text \<open>
  Configuration loading (\<open>src/config_loader.c\<close>, \<open>include/config_loader.h\<close>). The JSON library is a
  parameter: \<open>'j json_lib\<close> holds the accessors the code calls, with \<open>None\<close> for a NULL
  \<open>json_object\<close> and for the NULL string they may return. The anonymous union of \<open>module_config_t\<close>
  is its 68 bytes, read as a baud rate or as an address and a port (little-endian, as the target).
  Reading a JSON file and \<open>exit\<close> are the input and an outcome of \<open>load_json_config\<close>.
\<close>

section \<open>Types\<close>

datatype connection_state = CONNECTION_DISCONNECTED | CONNECTION_CONNECTED | CONNECTION_UNKNOWN

datatype modbus_format = MODBUS_FORMAT_RTU | MODBUS_FORMAT_TCP

definition MAX_UPS_COUNT :: nat where
  "MAX_UPS_COUNT = 10"

definition MODBUS_MAX_BUFFER_SIZE :: nat where
  "MODBUS_MAX_BUFFER_SIZE = 2048"

record module_config =
  cfg_name :: string
  cfg_enabled :: bool
  is_server :: bool
  cfg_fd :: int
  modbus_uid :: int
  cfg_format :: modbus_format
  cfg_path :: string
  gpio :: string
  cfg_union :: string
  modbus_role :: string
  recv_buffer :: string
  recv_index :: nat
  connection_state :: connection_state
  disconnect_timeout :: real
  rtu_poll_interval_ms :: u32

record system_config =
  ups :: "module_config list"
  ups_count :: int

abbreviation zeros :: "nat \<Rightarrow> string" where
  "zeros n \<equiv> replicate n (CHR 0x00)"

definition zero_module_config :: module_config where
  "zero_module_config = \<lparr>cfg_name = zeros 64, cfg_enabled = False, is_server = False, cfg_fd = 0,
     modbus_uid = 0, cfg_format = MODBUS_FORMAT_RTU, cfg_path = zeros 256, gpio = zeros 16,
     cfg_union = zeros 68, modbus_role = zeros 16, recv_buffer = zeros MODBUS_MAX_BUFFER_SIZE,
     recv_index = 0, connection_state = CONNECTION_DISCONNECTED, disconnect_timeout = 0,
     rtu_poll_interval_ms = 0\<rparr>"

definition zero_system_config :: system_config where
  "zero_system_config = \<lparr>ups = replicate MAX_UPS_COUNT zero_module_config, ups_count = 0\<rparr>"

section \<open>The union\<close>

definition int_bytes :: "int \<Rightarrow> string" where
  "int_bytes i = map (\<lambda>k. char_of (unat (word_of_int i :: u32) div 256 ^ k)) [0..<4]"

definition bytes_int :: "string \<Rightarrow> int" where
  "bytes_int s = sint (word_of_nat (horner_sum of_char 256 s) :: u32)"

definition cfg_ip :: "module_config \<Rightarrow> string" where
  "cfg_ip c = take 64 (cfg_union c)"

definition cfg_port :: "module_config \<Rightarrow> int" where
  "cfg_port c = bytes_int (drop 64 (cfg_union c))"

definition baud_rate :: "module_config \<Rightarrow> int" where
  "baud_rate c = bytes_int (take 4 (cfg_union c))"

definition set_ip :: "string \<Rightarrow> module_config \<Rightarrow> module_config" where
  "set_ip s c = c\<lparr>cfg_union := s @ drop 64 (cfg_union c)\<rparr>"

definition set_port :: "int \<Rightarrow> module_config \<Rightarrow> module_config" where
  "set_port p c = c\<lparr>cfg_union := take 64 (cfg_union c) @ int_bytes p\<rparr>"

definition set_baud_rate :: "int \<Rightarrow> module_config \<Rightarrow> module_config" where
  "set_baud_rate r c = c\<lparr>cfg_union := int_bytes r @ drop 4 (cfg_union c)\<rparr>"

section \<open>JSON library\<close>

record 'j json_lib =
  json_get_ex :: "'j option \<Rightarrow> string \<Rightarrow> 'j option option"
  json_get_string :: "'j option \<Rightarrow> string option"
  json_get_boolean :: "'j option \<Rightarrow> bool"
  json_get_int :: "'j option \<Rightarrow> int"
  json_is_array :: "'j option \<Rightarrow> bool"
  json_array_length :: "'j option \<Rightarrow> nat"
  json_get_idx :: "'j option \<Rightarrow> nat \<Rightarrow> 'j option"

text \<open>\<open>if (json_object_object_get_ex(obj, key, &field)) \<dots>\<close>\<close>

definition with_field ::
  "'j json_lib \<Rightarrow> 'j option \<Rightarrow> string \<Rightarrow> ('j option \<Rightarrow> 's \<Rightarrow> 's run) \<Rightarrow> 's \<Rightarrow> 's run" where
  "with_field J obj key f s = (case json_get_ex J obj key of None \<Rightarrow> Some s | Some field \<Rightarrow> f field s)"

section \<open>Parsing\<close>

definition parse_modbus_format :: "string option \<Rightarrow> modbus_format run" where
  "parse_modbus_format format_str = do {
     s \<leftarrow> format_str;
     Some (if cstr s = ''RTU'' then MODBUS_FORMAT_RTU
       else if cstr s = ''TCP'' then MODBUS_FORMAT_TCP
       else MODBUS_FORMAT_RTU)
   }"

definition parse_modbus_role :: "string \<Rightarrow> bool" where
  "parse_modbus_role role =
     (if cstr role = ''Server'' \<or> cstr role = ''Master'' then True
      else if cstr role = ''Slave'' \<or> cstr role = ''Client'' then False
      else False)"

definition load_gpio :: "'j json_lib \<Rightarrow> 'j option \<Rightarrow> module_config \<Rightarrow> module_config run" where
  "load_gpio J field c = do {
     s \<leftarrow> json_get_string J field;
     d \<leftarrow> strncpy (gpio c) s 15;
     Some (c\<lparr>gpio := d\<rparr>)
   }"

definition load_module_config ::
  "'j json_lib \<Rightarrow> 'j option \<Rightarrow> module_config \<Rightarrow> module_config run" where
  "load_module_config J obj c =
     (if obj = None then Some c
      else do {
        c \<leftarrow> with_field J obj ''name'' (\<lambda>f c. do {
          s \<leftarrow> json_get_string J f; d \<leftarrow> strncpy (cfg_name c) s 63; Some (c\<lparr>cfg_name := d\<rparr>) }) c;
        c \<leftarrow> with_field J obj ''enabled'' (\<lambda>f c. Some (c\<lparr>cfg_enabled := json_get_boolean J f\<rparr>)) c;
        c \<leftarrow> with_field J obj ''modbus_uid'' (\<lambda>f c. Some (c\<lparr>modbus_uid := json_get_int J f\<rparr>)) c;
        c \<leftarrow> with_field J obj ''modbus_format'' (\<lambda>f c. do {
          m \<leftarrow> parse_modbus_format (json_get_string J f); Some (c\<lparr>cfg_format := m\<rparr>) }) c;
        c \<leftarrow> with_field J obj ''path'' (\<lambda>f c. do {
          s \<leftarrow> json_get_string J f; d \<leftarrow> strncpy (cfg_path c) s 255; Some (c\<lparr>cfg_path := d\<rparr>) }) c;
        c \<leftarrow> with_field J obj ''modbus_role'' (\<lambda>f c. do {
          s \<leftarrow> json_get_string J f; d \<leftarrow> strncpy (modbus_role c) s 15;
          Some (c\<lparr>modbus_role := d, is_server := parse_modbus_role d\<rparr>) }) c;
        c \<leftarrow> (case cfg_format c of
            MODBUS_FORMAT_RTU \<Rightarrow> do {
              c \<leftarrow> with_field J obj ''gpio'' (load_gpio J) c;
              with_field J obj ''baud_rate'' (\<lambda>f c. Some (set_baud_rate (json_get_int J f) c)) c
            }
          | MODBUS_FORMAT_TCP \<Rightarrow> do {
              c \<leftarrow> with_field J obj ''gpio'' (load_gpio J) c;
              c \<leftarrow> with_field J obj ''ip'' (\<lambda>f c. do {
                s \<leftarrow> json_get_string J f; d \<leftarrow> strncpy (cfg_ip c) s 63; Some (set_ip d c) }) c;
              with_field J obj ''port'' (\<lambda>f c. Some (set_port (json_get_int J f) c)) c
            });
        Some (c\<lparr>disconnect_timeout := 0, rtu_poll_interval_ms := 200\<rparr>)
      })"

text \<open>The loop over the array, with the count of valid entries so far.\<close>

fun load_ups_loop ::
  "'j json_lib \<Rightarrow> 'j option \<Rightarrow> nat list \<Rightarrow> nat \<Rightarrow> module_config list \<Rightarrow> (nat \<times> module_config list) run" where
  "load_ups_loop J arr [] n cs = Some (n, cs)"
| "load_ups_loop J arr (i # is) n cs =
     (let obj = json_get_idx J arr i in
      case json_get_ex J obj ''enabled'' of
        None \<Rightarrow> load_ups_loop J arr is n cs
      | Some en \<Rightarrow>
          if \<not> json_get_boolean J en then load_ups_loop J arr is n cs
          else do {
            c \<leftarrow> buf_load cs n;
            c \<leftarrow> load_module_config J obj c;
            cs \<leftarrow> buf_store n c cs;
            if n + 1 \<ge> MAX_UPS_COUNT then Some (n + 1, cs)
            else load_ups_loop J arr is (n + 1) cs
          })"

definition load_ups_config :: "'j json_lib \<Rightarrow> 'j option \<Rightarrow> system_config \<Rightarrow> system_config run" where
  "load_ups_config J arr g =
     (if arr = None \<or> \<not> json_is_array J arr then Some g
      else do {
        (n, cs) \<leftarrow> load_ups_loop J arr [0..<json_array_length J arr] 0 (ups g);
        Some (g\<lparr>ups := cs, ups_count := int n\<rparr>)
      })"

datatype 'a outcome = Returned 'a | Exited int

definition load_json_config ::
  "'j json_lib \<Rightarrow> (string \<Rightarrow> 'j option) \<Rightarrow> string \<Rightarrow> string \<times> system_config
     \<Rightarrow> (string \<times> system_config) outcome run" where
  "load_json_config J from_file json_path s = (case s of (path, g) \<Rightarrow>
     (case from_file json_path of
        None \<Rightarrow> Some (Exited 1)
      | Some json_config \<Rightarrow> do {
          path \<leftarrow> strncpy path json_path 255;
          path \<leftarrow> buf_store 255 (CHR 0x00) path;
          let g = zero_system_config;
          g \<leftarrow> with_field J (Some json_config) ''UPS'' (load_ups_config J) g;
          Some (Returned (path, g))
        }))"

section \<open>Well-formed configurations\<close>

definition c_array :: "nat \<Rightarrow> string \<Rightarrow> bool" where
  "c_array n s \<longleftrightarrow> length s = n \<and> last s = CHR 0x00"

definition wf_config :: "module_config \<Rightarrow> bool" where
  "wf_config c \<longleftrightarrow> c_array 64 (cfg_name c) \<and> c_array 256 (cfg_path c) \<and> c_array 16 (gpio c)
     \<and> c_array 16 (modbus_role c) \<and> c_array 64 (cfg_ip c) \<and> length (cfg_union c) = 68"

lemma zero_config_wf: "wf_config zero_module_config"
  by (simp add: wf_config_def c_array_def zero_module_config_def cfg_ip_def)

lemma length_int_bytes [simp]: "length (int_bytes i) = 4"
  by (simp add: int_bytes_def)

lemma bytes_int_bytes [simp]:
  assumes "- (2 ^ 31) \<le> i" and "i < 2 ^ 31"
  shows "bytes_int (int_bytes i) = i"
proof -
  define n where "n = unat (word_of_int i :: u32)"
  have n: "n < 4294967296" unfolding n_def using unsigned_less [of "word_of_int i :: u32"] by simp
  have "horner_sum of_char 256 (int_bytes i)
      = n mod 256 + 256 * (n div 256 mod 256 + 256 * (n div 65536 mod 256 + 256 * (n div 16777216 mod 256)))"
    by (simp add: int_bytes_def n_def upt_rec)
  also have "n div 16777216 mod 256 = n div 65536 div 256"
    using n by (simp add: div_mult2_eq [symmetric] less_mult_imp_div_less)
  also have "n div 65536 mod 256 + 256 * (n div 65536 div 256) = n div 256 div 256"
    by (simp only: mod_mult_div_eq)
  also have "n mod 256 + 256 * (n div 256 mod 256 + 256 * (n div 256 div 256)) = n"
    by (simp only: mod_mult_div_eq)
  finally have "bytes_int (int_bytes i) = sint (word_of_int i :: u32)"
    by (simp add: bytes_int_def n_def)
  also have "\<dots> = i"
    using assms by (simp add: int_word_sint)
  finally show ?thesis .
qed

lemma strncpy_c_array:
  assumes "c_array (Suc n) dst"
  shows "\<exists>d. strncpy dst src n = Some d \<and> c_array (Suc n) d \<and> cstr d = take n (cstr src)"
  using assms strncpy_terminated [of dst n] unfolding c_array_def by metis

section \<open>Loading one module\<close>

text \<open>
  What the loader relies on in the file: the fields it copies as strings are not JSON null.
\<close>

definition string_ok :: "'j json_lib \<Rightarrow> 'j option \<Rightarrow> string \<Rightarrow> bool" where
  "string_ok J obj key \<longleftrightarrow>
     (case json_get_ex J obj key of None \<Rightarrow> True | Some f \<Rightarrow> json_get_string J f \<noteq> None)"

definition json_strings :: "'j json_lib \<Rightarrow> 'j option \<Rightarrow> bool" where
  "json_strings J obj \<longleftrightarrow> list_all (string_ok J obj)
     [''name'', ''modbus_format'', ''path'', ''modbus_role'', ''gpio'', ''ip'']"

definition json_string :: "'j json_lib \<Rightarrow> 'j option \<Rightarrow> string \<Rightarrow> string option" where
  "json_string J obj key = (case json_get_ex J obj key of None \<Rightarrow> None | Some f \<Rightarrow> json_get_string J f)"

definition string_field :: "'j json_lib \<Rightarrow> 'j option \<Rightarrow> string \<Rightarrow> nat \<Rightarrow> string \<Rightarrow> string" where
  "string_field J obj key n d = (case json_string J obj key of None \<Rightarrow> d | Some s \<Rightarrow> take n (cstr s))"

definition int_field :: "'j json_lib \<Rightarrow> 'j option \<Rightarrow> string \<Rightarrow> int \<Rightarrow> int" where
  "int_field J obj key d = (case json_get_ex J obj key of None \<Rightarrow> d | Some f \<Rightarrow> json_get_int J f)"

definition bool_field :: "'j json_lib \<Rightarrow> 'j option \<Rightarrow> string \<Rightarrow> bool \<Rightarrow> bool" where
  "bool_field J obj key d = (case json_get_ex J obj key of None \<Rightarrow> d | Some f \<Rightarrow> json_get_boolean J f)"

definition format_field :: "'j json_lib \<Rightarrow> 'j option \<Rightarrow> modbus_format \<Rightarrow> modbus_format" where
  "format_field J obj d = (case json_string J obj ''modbus_format'' of None \<Rightarrow> d
     | Some s \<Rightarrow> if cstr s = ''TCP'' then MODBUS_FORMAT_TCP else MODBUS_FORMAT_RTU)"

lemma with_string:
  assumes "string_ok J obj key" and "c_array (Suc n) (get c)" and "upd (get c) c = c"
  shows "\<exists>d. with_field J obj key (\<lambda>f c. do {
        s \<leftarrow> json_get_string J f; d \<leftarrow> strncpy (get c) s n; Some (upd d c) }) c = Some (upd d c)
    \<and> c_array (Suc n) d \<and> cstr d = string_field J obj key n (cstr (get c))"
proof (cases "json_get_ex J obj key")
  case None
  then show ?thesis
    using assms by (intro exI [of _ "get c"])
      (simp add: with_field_def string_field_def json_string_def)
next
  case (Some f)
  then obtain s where s: "json_get_string J f = Some s" using assms(1) by (auto simp: string_ok_def)
  then show ?thesis
    using Some strncpy_c_array [OF assms(2), of s]
    by (auto simp: with_field_def string_field_def json_string_def)
qed

lemma with_format:
  assumes "string_ok J obj ''modbus_format''"
  shows "with_field J obj ''modbus_format'' (\<lambda>f c. do {
      m \<leftarrow> parse_modbus_format (json_get_string J f); Some (c\<lparr>cfg_format := m\<rparr>) }) c
    = Some (c\<lparr>cfg_format := format_field J obj (cfg_format c)\<rparr>)"
  using assms
  by (auto simp: with_field_def parse_modbus_format_def format_field_def json_string_def string_ok_def
      split: option.splits)

lemma with_role:
  assumes "string_ok J obj ''modbus_role''" and "c_array 16 (modbus_role c)"
    and "is_server c = parse_modbus_role (modbus_role c)"
  shows "\<exists>d. with_field J obj ''modbus_role'' (\<lambda>f c. do {
        s \<leftarrow> json_get_string J f; d \<leftarrow> strncpy (modbus_role c) s 15;
        Some (c\<lparr>modbus_role := d, is_server := parse_modbus_role d\<rparr>) }) c
      = Some (c\<lparr>modbus_role := d, is_server := parse_modbus_role d\<rparr>)
    \<and> c_array 16 d \<and> cstr d = string_field J obj ''modbus_role'' 15 (cstr (modbus_role c))"
  using with_string [of J obj "''modbus_role''" 15 modbus_role c
      "\<lambda>d c. c\<lparr>modbus_role := d, is_server := parse_modbus_role d\<rparr>"] assms by simp

lemma with_gpio:
  assumes "string_ok J obj ''gpio''" and "c_array 16 (gpio c)"
  shows "\<exists>d. with_field J obj ''gpio'' (load_gpio J) c = Some (c\<lparr>gpio := d\<rparr>)
    \<and> c_array 16 d \<and> cstr d = string_field J obj ''gpio'' 15 (cstr (gpio c))"
  using with_string [of J obj "''gpio''" 15 gpio c "\<lambda>d c. c\<lparr>gpio := d\<rparr>"] assms
  by (simp add: load_gpio_def [abs_def])

text \<open>The tail of the function, by format.\<close>

definition load_transport :: "'j json_lib \<Rightarrow> 'j option \<Rightarrow> module_config \<Rightarrow> module_config run" where
  "load_transport J obj c = (case cfg_format c of
     MODBUS_FORMAT_RTU \<Rightarrow> do {
       c \<leftarrow> with_field J obj ''gpio'' (load_gpio J) c;
       with_field J obj ''baud_rate'' (\<lambda>f c. Some (set_baud_rate (json_get_int J f) c)) c
     }
   | MODBUS_FORMAT_TCP \<Rightarrow> do {
       c \<leftarrow> with_field J obj ''gpio'' (load_gpio J) c;
       c \<leftarrow> with_field J obj ''ip'' (\<lambda>f c. do {
         s \<leftarrow> json_get_string J f; d \<leftarrow> strncpy (cfg_ip c) s 63; Some (set_ip d c) }) c;
       with_field J obj ''port'' (\<lambda>f c. Some (set_port (json_get_int J f) c)) c
     })"

lemma upd_union_same:
  "c\<lparr>gpio := g, cfg_union := cfg_union c\<rparr> = (c\<lparr>gpio := g\<rparr> :: module_config)"
  by (cases c) simp

lemma load_transport_ok:
  assumes "json_strings J obj" and "wf_config c"
  shows "\<exists>g u. load_transport J obj c = Some (c\<lparr>gpio := g, cfg_union := u\<rparr>)
    \<and> wf_config (c\<lparr>gpio := g, cfg_union := u\<rparr>)
    \<and> cstr g = string_field J obj ''gpio'' 15 (cstr (gpio c))
    \<and> (cfg_format c = MODBUS_FORMAT_TCP \<longrightarrow>
        cstr (take 64 u) = string_field J obj ''ip'' 63 (cstr (cfg_ip c))
        \<and> bytes_int (drop 64 u)
          = (case json_get_ex J obj ''port'' of None \<Rightarrow> cfg_port c | Some f \<Rightarrow> bytes_int (int_bytes (json_get_int J f))))
    \<and> (cfg_format c = MODBUS_FORMAT_RTU \<longrightarrow> bytes_int (take 4 u)
          = (case json_get_ex J obj ''baud_rate'' of None \<Rightarrow> baud_rate c | Some f \<Rightarrow> bytes_int (int_bytes (json_get_int J f))))"
proof -
  have ok: "string_ok J obj ''gpio''" "string_ok J obj ''ip''"
    using assms(1) by (simp_all add: json_strings_def)
  have len: "length (cfg_union c) = 68" using assms(2) by (simp add: wf_config_def)
  obtain g where g: "with_field J obj ''gpio'' (load_gpio J) c = Some (c\<lparr>gpio := g\<rparr>)" "c_array 16 g"
      "cstr g = string_field J obj ''gpio'' 15 (cstr (gpio c))"
    using with_gpio [OF ok(1), of c] assms(2) by (auto simp: wf_config_def)
  let ?c = "c\<lparr>gpio := g\<rparr>"
  have wf: "wf_config ?c" using assms(2) g(2) by (simp add: wf_config_def cfg_ip_def)
  show ?thesis
  proof (cases "cfg_format c")
    case MODBUS_FORMAT_RTU
    have "take 64 (cfg_union c) \<noteq> []" using len by auto
    then have "cfg_union c ! 63 = CHR 0x00"
      using wf len by (simp add: wf_config_def c_array_def cfg_ip_def last_conv_nth)
    then have wf': "wf_config (?c\<lparr>cfg_union := int_bytes i @ drop 4 (cfg_union c)\<rparr>)" for i
      using wf len by (simp add: wf_config_def c_array_def cfg_ip_def last_conv_nth nth_append)
    show ?thesis
      using MODBUS_FORMAT_RTU g wf wf' len
      by (intro exI [of _ g] exI [of _ "case json_get_ex J obj ''baud_rate'' of None \<Rightarrow> cfg_union c
          | Some f \<Rightarrow> int_bytes (json_get_int J f) @ drop 4 (cfg_union c)"])
        (simp add: load_transport_def with_field_def [of J obj "''baud_rate''"] set_baud_rate_def
          baud_rate_def upd_union_same split: option.split)
  next
    case MODBUS_FORMAT_TCP
    have "c_array 64 (cfg_ip ?c)" using wf by (simp add: wf_config_def)
    then obtain d where d: "with_field J obj ''ip'' (\<lambda>f c. do {
         s \<leftarrow> json_get_string J f; d \<leftarrow> strncpy (cfg_ip c) s 63; Some (set_ip d c) }) ?c
        = Some (set_ip d ?c)" "c_array 64 d" "cstr d = string_field J obj ''ip'' 63 (cstr (cfg_ip ?c))"
      using with_string [OF ok(2), of 63 cfg_ip ?c set_ip] by (auto simp: set_ip_def cfg_ip_def)
    have ip: "cfg_ip ?c = cfg_ip c" by (simp add: cfg_ip_def)
    have ld: "length d = 64" using d(2) by (simp add: c_array_def)
    have wf': "wf_config (?c\<lparr>cfg_union := d @ t\<rparr>)" if "length t = 4" for t
      using wf d(2) that by (simp add: wf_config_def c_array_def cfg_ip_def)
    show ?thesis
      using MODBUS_FORMAT_TCP g d wf' len ld ip
      by (intro exI [of _ g] exI [of _ "case json_get_ex J obj ''port'' of None \<Rightarrow> d @ drop 64 (cfg_union c)
          | Some f \<Rightarrow> d @ int_bytes (json_get_int J f)"])
        (simp add: load_transport_def with_field_def [of J obj "''port''"] set_ip_def set_port_def
          cfg_port_def split: option.split)
  qed
qed

text \<open>
  What a module loaded from a JSON object looks like, field by field; strings are cut to their
  arrays.
\<close>

definition loaded_from :: "'j json_lib \<Rightarrow> 'j option \<Rightarrow> module_config \<Rightarrow> bool" where
  "loaded_from J obj c \<longleftrightarrow>
     cstr (cfg_name c) = string_field J obj ''name'' 63 []
   \<and> cfg_enabled c = bool_field J obj ''enabled'' False
   \<and> modbus_uid c = int_field J obj ''modbus_uid'' 0
   \<and> cfg_format c = format_field J obj MODBUS_FORMAT_RTU
   \<and> cstr (cfg_path c) = string_field J obj ''path'' 255 []
   \<and> cstr (gpio c) = string_field J obj ''gpio'' 15 []
   \<and> cstr (modbus_role c) = string_field J obj ''modbus_role'' 15 []
   \<and> (is_server c \<longleftrightarrow> cstr (modbus_role c) \<in> {''Server'', ''Master''})
   \<and> (cfg_format c = MODBUS_FORMAT_TCP \<longrightarrow>
        cstr (cfg_ip c) = string_field J obj ''ip'' 63 []
        \<and> cfg_port c = bytes_int (int_bytes (int_field J obj ''port'' 0)))
   \<and> (cfg_format c = MODBUS_FORMAT_RTU \<longrightarrow>
        baud_rate c = bytes_int (int_bytes (int_field J obj ''baud_rate'' 0)))
   \<and> rtu_poll_interval_ms c = 200"

lemma cstr_zeros [simp]: "cstr (zeros n) = []"
  by (cases n) (simp_all add: cstr_def)

lemma bytes_int_zero [simp]: "bytes_int (zeros 4) = 0" "bytes_int (int_bytes 0) = 0"
proof -
  show "bytes_int (int_bytes 0) = 0" by (rule bytes_int_bytes) simp_all
  moreover have "int_bytes 0 = zeros 4" by (simp add: int_bytes_def upt_rec numeral_eq_Suc char_of_def)
  ultimately show "bytes_int (zeros 4) = 0" by simp
qed

lemma load_module_config_ok:
  assumes "json_strings J (Some o')"
  shows "\<exists>c. load_module_config J (Some o') zero_module_config = Some c
    \<and> wf_config c \<and> loaded_from J (Some o') c"
proof -
  let ?z = "zero_module_config" and ?o = "Some o'"
  have ok: "string_ok J ?o ''name''" "string_ok J ?o ''path''" "string_ok J ?o ''modbus_role''"
      "string_ok J ?o ''modbus_format''"
    using assms by (simp_all add: json_strings_def)
  obtain d1 where d1: "with_field J ?o ''name'' (\<lambda>f c. do {
          s \<leftarrow> json_get_string J f; d \<leftarrow> strncpy (cfg_name c) s 63; Some (c\<lparr>cfg_name := d\<rparr>) }) ?z
        = Some (?z\<lparr>cfg_name := d1\<rparr>)"
      "c_array 64 d1" "cstr d1 = string_field J ?o ''name'' 63 []"
    using with_string [OF ok(1), of 63 cfg_name ?z "\<lambda>d c. c\<lparr>cfg_name := d\<rparr>"]
    by (auto simp: zero_module_config_def c_array_def)
  define c2 where "c2 = ?z\<lparr>cfg_name := d1, cfg_enabled := bool_field J ?o ''enabled'' False,
     modbus_uid := int_field J ?o ''modbus_uid'' 0, cfg_format := format_field J ?o MODBUS_FORMAT_RTU\<rparr>"
  obtain d2 where d2: "with_field J ?o ''path'' (\<lambda>f c. do {
          s \<leftarrow> json_get_string J f; d \<leftarrow> strncpy (cfg_path c) s 255; Some (c\<lparr>cfg_path := d\<rparr>) }) c2
        = Some (c2\<lparr>cfg_path := d2\<rparr>)"
      "c_array 256 d2" "cstr d2 = string_field J ?o ''path'' 255 []"
    using with_string [OF ok(2), of 255 cfg_path c2 "\<lambda>d c. c\<lparr>cfg_path := d\<rparr>"]
    by (auto simp: c2_def zero_module_config_def c_array_def)
  obtain d3 where d3: "with_field J ?o ''modbus_role'' (\<lambda>f c. do {
          s \<leftarrow> json_get_string J f; d \<leftarrow> strncpy (modbus_role c) s 15;
          Some (c\<lparr>modbus_role := d, is_server := parse_modbus_role d\<rparr>) }) (c2\<lparr>cfg_path := d2\<rparr>)
        = Some (c2\<lparr>cfg_path := d2, modbus_role := d3, is_server := parse_modbus_role d3\<rparr>)"
      "c_array 16 d3" "cstr d3 = string_field J ?o ''modbus_role'' 15 []"
    using with_role [OF ok(3), of "c2\<lparr>cfg_path := d2\<rparr>"]
    by (auto simp: c2_def zero_module_config_def c_array_def parse_modbus_role_def)
  define c3 where "c3 = c2\<lparr>cfg_path := d2, modbus_role := d3, is_server := parse_modbus_role d3\<rparr>"
  have wf3: "wf_config c3"
    using d1(2) d2(2) d3(2)
    by (simp add: c3_def c2_def wf_config_def cfg_ip_def) (simp add: zero_module_config_def c_array_def)
  obtain g u where gu: "load_transport J ?o c3 = Some (c3\<lparr>gpio := g, cfg_union := u\<rparr>)"
      "wf_config (c3\<lparr>gpio := g, cfg_union := u\<rparr>)"
      "cstr g = string_field J ?o ''gpio'' 15 (cstr (gpio c3))"
      "cfg_format c3 = MODBUS_FORMAT_TCP \<longrightarrow>
        cstr (take 64 u) = string_field J ?o ''ip'' 63 (cstr (cfg_ip c3))
        \<and> bytes_int (drop 64 u) = (case json_get_ex J ?o ''port'' of None \<Rightarrow> cfg_port c3
            | Some f \<Rightarrow> bytes_int (int_bytes (json_get_int J f)))"
      "cfg_format c3 = MODBUS_FORMAT_RTU \<longrightarrow> bytes_int (take 4 u)
          = (case json_get_ex J ?o ''baud_rate'' of None \<Rightarrow> baud_rate c3
              | Some f \<Rightarrow> bytes_int (int_bytes (json_get_int J f)))"
    using load_transport_ok [OF assms wf3] by blast
  have z3: "gpio c3 = zeros 16" "cfg_ip c3 = zeros 64" "cfg_port c3 = 0" "baud_rate c3 = 0"
    by (simp_all add: c3_def c2_def cfg_ip_def cfg_port_def baud_rate_def)
       (simp_all add: zero_module_config_def)
  let ?c = "c3\<lparr>gpio := g, cfg_union := u, disconnect_timeout := 0, rtu_poll_interval_ms := 200\<rparr>"
  have "load_module_config J ?o ?z
      = load_transport J ?o c3 \<bind> (\<lambda>c. Some (c\<lparr>disconnect_timeout := 0, rtu_poll_interval_ms := 200\<rparr>))"
  proof -
    have s2: "with_field J ?o ''enabled'' (\<lambda>f c. Some (c\<lparr>cfg_enabled := json_get_boolean J f\<rparr>))
          (?z\<lparr>cfg_name := d1\<rparr>)
        = Some (?z\<lparr>cfg_name := d1, cfg_enabled := bool_field J ?o ''enabled'' False\<rparr>)"
      by (simp add: with_field_def bool_field_def zero_module_config_def split: option.split)
    have s3: "with_field J ?o ''modbus_uid'' (\<lambda>f c. Some (c\<lparr>modbus_uid := json_get_int J f\<rparr>))
          (?z\<lparr>cfg_name := d1, cfg_enabled := bool_field J ?o ''enabled'' False\<rparr>)
        = Some (?z\<lparr>cfg_name := d1, cfg_enabled := bool_field J ?o ''enabled'' False,
            modbus_uid := int_field J ?o ''modbus_uid'' 0\<rparr>)"
      by (simp add: with_field_def int_field_def zero_module_config_def split: option.split)
    have s4: "with_field J ?o ''modbus_format'' (\<lambda>f c. do {
          m \<leftarrow> parse_modbus_format (json_get_string J f); Some (c\<lparr>cfg_format := m\<rparr>) })
          (?z\<lparr>cfg_name := d1, cfg_enabled := bool_field J ?o ''enabled'' False,
            modbus_uid := int_field J ?o ''modbus_uid'' 0\<rparr>) = Some c2"
      unfolding with_format [OF ok(4)] by (simp add: c2_def) (simp add: zero_module_config_def)
    show ?thesis
      by (simp add: load_module_config_def d1(1) s2 s3 s4 d2(1) d3(1) c3_def [symmetric] load_transport_def)
  qed
  then have "load_module_config J ?o ?z = Some ?c" using gu(1) by simp
  moreover have "wf_config ?c" using gu(2) by (simp add: wf_config_def cfg_ip_def)
  moreover have "loaded_from J ?o ?c"
  proof -
    have c3: "cfg_name c3 = d1" "cfg_enabled c3 = bool_field J ?o ''enabled'' False"
        "modbus_uid c3 = int_field J ?o ''modbus_uid'' 0"
        "cfg_format c3 = format_field J ?o MODBUS_FORMAT_RTU" "cfg_path c3 = d2"
        "modbus_role c3 = d3" "is_server c3 = parse_modbus_role d3"
      by (simp_all add: c3_def c2_def)
    have port: "bytes_int (drop 64 u) = bytes_int (int_bytes (int_field J ?o ''port'' 0))"
      if "cfg_format c3 = MODBUS_FORMAT_TCP"
      using gu(4) that z3 by (simp add: int_field_def split: option.splits)
    have baud: "bytes_int (take 4 u) = bytes_int (int_bytes (int_field J ?o ''baud_rate'' 0))"
      if "cfg_format c3 = MODBUS_FORMAT_RTU"
      using gu(5) that z3 by (simp add: int_field_def split: option.splits)
    show ?thesis
      using d1(3) d2(3) d3(3) gu(3,4) z3 port baud
      by (auto simp: loaded_from_def cfg_ip_def cfg_port_def baud_rate_def c3 parse_modbus_role_def)
  qed
  ultimately show ?thesis by blast
qed

section \<open>Loading the UPS array\<close>

definition entry_enabled :: "'j json_lib \<Rightarrow> 'j option \<Rightarrow> bool" where
  "entry_enabled J obj = (case json_get_ex J obj ''enabled'' of None \<Rightarrow> False
     | Some en \<Rightarrow> json_get_boolean J en)"

definition enabled_entries :: "'j json_lib \<Rightarrow> 'j option \<Rightarrow> nat list \<Rightarrow> 'j option list" where
  "enabled_entries J arr is = filter (entry_enabled J) (map (json_get_idx J arr) is)"

definition loaded_modules :: "'j json_lib \<Rightarrow> 'j option list \<Rightarrow> module_config list \<Rightarrow> bool" where
  "loaded_modules J objs cs \<longleftrightarrow> list_all2 (\<lambda>o' c. wf_config c \<and> loaded_from J o' c) objs cs"

lemma load_ups_loop_ok:
  assumes "n < 10" and "length cs = 10" and "\<forall>k<10. n \<le> k \<longrightarrow> cs ! k = zero_module_config"
    and "\<forall>o'\<in>set (enabled_entries J arr is). o' \<noteq> None \<and> json_strings J o'"
  shows "\<exists>new. load_ups_loop J arr is n cs
      = Some (n + length new, take n cs @ new @ replicate (10 - n - length new) zero_module_config)
    \<and> n + length new \<le> 10
    \<and> loaded_modules J (take (10 - n) (enabled_entries J arr is)) new"
  using assms
proof (induction "is" arbitrary: n cs)
  case Nil
  have "cs = take n cs @ replicate (10 - n) zero_module_config"
    using Nil(1-3) by (intro nth_equalityI) (auto simp: nth_append)
  then show ?case
    using Nil(1) by (intro exI [of _ "[]"]) (simp add: enabled_entries_def loaded_modules_def)
next
  case (Cons i "is")
  let ?o = "json_get_idx J arr i"
  show ?case
  proof (cases "entry_enabled J ?o")
    case False
    then have "load_ups_loop J arr (i # is) n cs = load_ups_loop J arr is n cs"
        "enabled_entries J arr (i # is) = enabled_entries J arr is"
      by (simp_all add: entry_enabled_def enabled_entries_def Let_def split: option.splits)
    then show ?thesis using Cons by simp
  next
    case True
    then have en: "enabled_entries J arr (i # is) = ?o # enabled_entries J arr is"
      by (simp add: enabled_entries_def)
    obtain o' where o': "?o = Some o'" "json_strings J (Some o')"
      using Cons(5) en by fastforce
    obtain c where c: "load_module_config J ?o zero_module_config = Some c" "wf_config c"
        "loaded_from J ?o c"
      using load_module_config_ok [OF o'(2)] o'(1) by auto
    have csn: "cs ! n = zero_module_config" using Cons(2,4) by simp
    have step: "load_ups_loop J arr (i # is) n cs
        = (if n + 1 \<ge> 10 then Some (n + 1, cs[n := c])
           else load_ups_loop J arr is (n + 1) (cs[n := c]))"
      using True Cons(2,3) c(1) csn
      by (auto simp: entry_enabled_def Let_def buf_load_def buf_store_def MAX_UPS_COUNT_def
          split: option.splits)
    show ?thesis
    proof (cases "n + 1 \<ge> 10")
      case True
      then have n: "n = 9" using Cons(2) by simp
      have "cs[9 := c] = take 9 cs @ [c]"
        using Cons(3) by (simp add: upd_conv_take_nth_drop)
      then show ?thesis
        using step True n c en by (intro exI [of _ "[c]"]) (simp add: loaded_modules_def)
    next
      case False
      have z: "\<forall>k<10. n + 1 \<le> k \<longrightarrow> cs[n := c] ! k = zero_module_config" using Cons(4) by simp
      have e: "\<forall>o'\<in>set (enabled_entries J arr is). o' \<noteq> None \<and> json_strings J o'"
        using Cons(5) en by simp
      obtain new where new: "load_ups_loop J arr is (n + 1) (cs[n := c])
          = Some (n + 1 + length new, take (n + 1) (cs[n := c]) @ new
              @ replicate (10 - (n + 1) - length new) zero_module_config)"
          "n + 1 + length new \<le> 10"
          "loaded_modules J (take (10 - (n + 1)) (enabled_entries J arr is)) new"
        using Cons(1) [OF _ _ z e] False Cons(3) by auto
      have tk: "take (n + 1) (cs[n := c]) = take n cs @ [c]"
        using Cons(2,3) by (simp add: take_Suc_conv_app_nth)
      have "10 - n = Suc (10 - (n + 1))" using False by simp
      then show ?thesis
        using step False new tk en c
        by (intro exI [of _ "c # new"]) (simp add: loaded_modules_def)
    qed
  qed
qed

lemma load_config:
  assumes "from_file path = Some json_root" and "json_get_ex J (Some json_root) ''UPS'' = Some (Some arr)"
    and "json_is_array J (Some arr)" and "length old = 256"
    and "\<forall>o'\<in>set (enabled_entries J (Some arr) [0..<json_array_length J (Some arr)]).
           o' \<noteq> None \<and> json_strings J o'"
  shows "\<exists>p g. load_json_config J from_file path (old, g0) = Some (Returned (p, g))
    \<and> cstr p = take 255 (cstr path)
    \<and> length (ups g) = 10 \<and> 0 \<le> ups_count g \<and> ups_count g \<le> 10
    \<and> loaded_modules J (take 10 (enabled_entries J (Some arr) [0..<json_array_length J (Some arr)]))
        (take (nat (ups_count g)) (ups g))
    \<and> (\<forall>k<10. nat (ups_count g) \<le> k \<longrightarrow> ups g ! k = zero_module_config)"
proof -
  let ?q = "take 255 (cstr path) @ replicate (255 - length (cstr path)) (CHR 0x00)"
  have lq: "length ?q = 255" by simp
  have p1: "strncpy old path 255 = Some (?q @ drop 255 old)"
    using assms(4) lq by (simp add: strncpy_def buf_blit_def)
  have p2: "buf_store 255 (CHR 0x00) (?q @ drop 255 old) = Some (?q @ [CHR 0x00])"
  proof -
    have "drop 255 old = [old ! 255]"
      using assms(4) Cons_nth_drop_Suc [of 255 old] by simp
    then have "buf_store 255 (CHR 0x00) (q @ drop 255 old) = Some (q @ [CHR 0x00])"
      if "length q = 255" for q
      using that by (simp add: buf_store_def list_update_append)
    from this [OF lq] show ?thesis .
  qed
  have nn: "CHR 0x00 \<notin> set (take 255 (cstr path))" using cstr_no_nul by (meson in_set_takeD)
  have p3: "cstr (?q @ [CHR 0x00]) = take 255 (cstr path)"
    using nn by (cases "255 - length (cstr path)") (simp_all add: cstr_append_nul)
  have z: "ups zero_system_config = replicate 10 zero_module_config"
    by (simp add: zero_system_config_def MAX_UPS_COUNT_def)
  obtain new where new: "load_ups_loop J (Some arr) [0..<json_array_length J (Some arr)] 0
        (ups zero_system_config)
      = Some (length new, new @ replicate (10 - length new) zero_module_config)"
      "length new \<le> 10"
      "loaded_modules J (take 10 (enabled_entries J (Some arr) [0..<json_array_length J (Some arr)])) new"
    using load_ups_loop_ok [of 0 "ups zero_system_config" J "Some arr"] assms(5) z by auto
  let ?g = "zero_system_config\<lparr>ups := new @ replicate (10 - length new) zero_module_config,
    ups_count := int (length new)\<rparr>"
  have "load_json_config J from_file path (old, g0) = Some (Returned (?q @ [CHR 0x00], ?g))"
    using assms(1-3) new(1) p1 p2
    by (simp add: load_json_config_def with_field_def load_ups_config_def del: append_assoc)
  then show ?thesis
    using p3 new(2,3) by (intro exI [of _ "?q @ [CHR 0x00]"] exI [of _ ?g]) (simp add: nth_append)
qed

text \<open>
  C28: loading a configuration file. If the file parses and the string fields of its enabled UPS
  entries are not null, loading returns a configuration holding exactly the first ten enabled
  entries of the array \<open>UPS\<close>, in order, each with its fields read from its JSON object (strings
  cut to the size of their arrays and always terminated, absent fields zero), and the count of
  them; the rest of the array is zero. No array is overrun.
\<close>

theorem load_config_ok:
  assumes "from_file path = Some json_root" and "json_get_ex J (Some json_root) ''UPS'' = Some (Some arr)"
    and "json_is_array J (Some arr)" and "length old = 256"
    and "\<forall>o'\<in>set (enabled_entries J (Some arr) [0..<json_array_length J (Some arr)]).
           o' \<noteq> None \<and> json_strings J o'"
  shows "\<exists>p g. load_json_config J from_file path (old, g0) = Some (Returned (p, g))
    \<and> cstr p = take 255 (cstr path)
    \<and> length (ups g) = 10 \<and> 0 \<le> ups_count g \<and> ups_count g \<le> 10
    \<and> loaded_modules J (take 10 (enabled_entries J (Some arr) [0..<json_array_length J (Some arr)]))
        (take (nat (ups_count g)) (ups g))
    \<and> (\<forall>k<10. nat (ups_count g) \<le> k \<longrightarrow> ups g ! k = zero_module_config)"
  using assms by (rule load_config)

text \<open>A JSON tree with the documented behaviour of the accessors, for the examples.\<close>

datatype json = JNull | JBool bool | JInt int | JStr string | JArr "json list"
  | JObj "(string \<times> json) list"

definition unnull :: "json \<Rightarrow> json option" where
  "unnull j = (if j = JNull then None else Some j)"

definition demo_json :: "json json_lib" where
  "demo_json = \<lparr>
     json_get_ex = (\<lambda>j k. case j of Some (JObj kvs) \<Rightarrow> map_option unnull (map_of kvs k) | _ \<Rightarrow> None),
     json_get_string = (\<lambda>j. case j of Some (JStr s) \<Rightarrow> Some s | _ \<Rightarrow> None),
     json_get_boolean = (\<lambda>j. case j of Some (JBool b) \<Rightarrow> b | Some (JInt i) \<Rightarrow> i \<noteq> 0 | _ \<Rightarrow> False),
     json_get_int = (\<lambda>j. case j of Some (JInt i) \<Rightarrow> i | _ \<Rightarrow> 0),
     json_is_array = (\<lambda>j. case j of Some (JArr _) \<Rightarrow> True | _ \<Rightarrow> False),
     json_array_length = (\<lambda>j. case j of Some (JArr xs) \<Rightarrow> length xs | _ \<Rightarrow> 0),
     json_get_idx = (\<lambda>j i. case j of Some (JArr xs) \<Rightarrow> if i < length xs then unnull (xs ! i) else None
       | _ \<Rightarrow> None)\<rparr>"

definition demo_file :: json where
  "demo_file = JObj [(''UPS'', JArr [
     JObj [(''name'', JStr ''off''), (''enabled'', JBool False)],
     JObj [(''name'', JStr ''A''), (''enabled'', JBool True), (''modbus_uid'', JInt 1),
       (''modbus_format'', JStr ''TCP''), (''ip'', JStr ''10.0.0.9''), (''port'', JInt 502)]])]"

lemma demo_file_loads:
  obtains arr o' where "json_get_ex demo_json (Some demo_file) ''UPS'' = Some (Some arr)" "json_is_array demo_json (Some arr)"
    "enabled_entries demo_json (Some arr) [0..<json_array_length demo_json (Some arr)] = [Some o']" "json_strings demo_json (Some o')"
    "o' = JObj [(''name'', JStr ''A''), (''enabled'', JBool True), (''modbus_uid'', JInt 1),
       (''modbus_format'', JStr ''TCP''), (''ip'', JStr ''10.0.0.9''), (''port'', JInt 502)]"
proof
  let ?arr = "JArr [
     JObj [(''name'', JStr ''off''), (''enabled'', JBool False)],
     JObj [(''name'', JStr ''A''), (''enabled'', JBool True), (''modbus_uid'', JInt 1),
       (''modbus_format'', JStr ''TCP''), (''ip'', JStr ''10.0.0.9''), (''port'', JInt 502)]]"
  let ?o = "JObj [(''name'', JStr ''A''), (''enabled'', JBool True), (''modbus_uid'', JInt 1),
       (''modbus_format'', JStr ''TCP''), (''ip'', JStr ''10.0.0.9''), (''port'', JInt 502)]"
  show "enabled_entries demo_json (Some ?arr) [0..<json_array_length demo_json (Some ?arr)] = [Some ?o]"
    by (simp add: enabled_entries_def entry_enabled_def demo_json_def unnull_def upt_rec)
  show "json_strings demo_json (Some ?o)"
    by (simp add: json_strings_def string_ok_def demo_json_def unnull_def)
  show "json_get_ex demo_json (Some demo_file) ''UPS'' = Some (Some ?arr)" "json_is_array demo_json (Some ?arr)"
    by (simp_all add: demo_file_def demo_json_def unnull_def)
qed rule

theorem load_config_ok_witness:
  "\<exists>p g. load_json_config demo_json (\<lambda>_. Some demo_file) ''c.json'' (zeros 256, zero_system_config)
      = Some (Returned (p, g)) \<and> ups_count g = 1
    \<and> cstr (cfg_name (ups g ! 0)) = ''A'' \<and> cstr (cfg_ip (ups g ! 0)) = ''10.0.0.9''
    \<and> cfg_port (ups g ! 0) = 502"
proof -
  obtain arr o' where d: "json_get_ex demo_json (Some demo_file) ''UPS'' = Some (Some arr)" "json_is_array demo_json (Some arr)"
    "enabled_entries demo_json (Some arr) [0..<json_array_length demo_json (Some arr)] = [Some o']" "json_strings demo_json (Some o')"
    "o' = JObj [(''name'', JStr ''A''), (''enabled'', JBool True), (''modbus_uid'', JInt 1),
       (''modbus_format'', JStr ''TCP''), (''ip'', JStr ''10.0.0.9''), (''port'', JInt 502)]"
    by (rule demo_file_loads)
  obtain p g where g: "load_json_config demo_json (\<lambda>_. Some demo_file) ''c.json''
        (zeros 256, zero_system_config) = Some (Returned (p, g))" "length (ups g) = 10"
      "0 \<le> ups_count g" "ups_count g \<le> 10"
      "loaded_modules demo_json [Some o'] (take (nat (ups_count g)) (ups g))"
    using load_config_ok [where from_file = "\<lambda>_. Some demo_file" and path = "''c.json''"
        and json_root = demo_file and J = demo_json and arr = arr and old = "zeros 256"
        and ?g0.0 = zero_system_config] d(1-4)
    by auto
  have "length (take (nat (ups_count g)) (ups g)) = 1"
    using g(5) by (simp add: loaded_modules_def list_all2_lengthD [symmetric] del: length_take)
  then have n: "ups_count g = 1" using g(2-4) by simp
  then have "loaded_from demo_json (Some o') (ups g ! 0)"
    using g(2,5) by (cases "ups g") (simp_all add: loaded_modules_def)
  note this [unfolded d(5)]
  moreover have "bytes_int (int_bytes 502) = 502" by simp
  ultimately show ?thesis
    using g(1) n
    by (auto simp: loaded_from_def string_field_def json_string_def int_field_def format_field_def
        demo_json_def unnull_def cstr_def)
qed

text \<open>
  A JSON null where a string is expected crashes the loader. If the name of an enabled entry
  is null, the library returns a NULL string for it, which is copied with \<open>strncpy\<close>: undefined
  behaviour, whatever the rest of the entry.
\<close>

theorem null_name_is_undefined:
  assumes "json_get_ex J (Some obj) ''name'' = Some f" and "json_get_string J f = None"
  shows "load_module_config J (Some obj) c = None"
  using assms by (simp add: load_module_config_def with_field_def)

theorem null_name_is_undefined_witness:
  "load_module_config demo_json (Some (JObj [(''name'', JNull)])) zero_module_config = None"
  by (rule null_name_is_undefined [where f = None]) (simp_all add: demo_json_def unnull_def)

end
