(* ===== verification/Ups_Alarm.thy ===== *)
theory Ups_Alarm
  imports Alarm_Bridge Ups_Map Config_Loader "HOL-Library.List_Lexorder" "HOL-Library.Product_Lexorder"
begin

text \<open>
  The alarm manager (\<open>src/ups_alarm_manager.c\<close>) and the UPS alarm table with its registration
  (\<open>src/ups_alarm.c\<close>). The SQLite library is reached through five statements; whether each
  succeeds is an input per call (\<open>sql_env\<close>), what the SQL text of the source does to the table
  \<open>logs\<close> when it succeeds is written out on a list of rows. Messages to the console log are not
  modelled.
\<close>

section \<open>The log database\<close>

definition LOG_NODE :: string where
  "LOG_NODE = ''ups_alarm_node''"

definition LOG_MAX_ROWS :: nat where
  "LOG_MAX_ROWS = 10000"

record log_row =
  row_id :: nat
  row_timestamp :: string
  row_node :: string
  row_event :: string
  row_detail :: string

text \<open>
  Answers of the library and the clock during one event: opening the file, creating the table,
  counting the rows, preparing and stepping the write, and the formatted time.
\<close>

record sql_env =
  open_ok :: bool
  create_ok :: bool
  count_ok :: bool
  prepare_ok :: bool
  step_ok :: bool
  now_text :: string

record alarm_world =
  aw_pool :: pool
  g_db :: bool
  g_db_open_failed :: bool
  db_rows :: "log_row list"
  db_calls :: nat
  db_env :: "nat \<Rightarrow> sql_env"

definition row_key :: "log_row \<Rightarrow> nat list \<times> nat" where
  "row_key r = (map of_char (row_timestamp r), row_id r)"

definition sql_insert :: "string \<Rightarrow> string \<Rightarrow> string \<Rightarrow> string \<Rightarrow> log_row list \<Rightarrow> log_row list" where
  "sql_insert ts node ev detail rows =
     rows @ [\<lparr>row_id = Suc (foldr max (map row_id rows) 0), row_timestamp = ts, row_node = node,
        row_event = ev, row_detail = detail\<rparr>]"

text \<open>\<open>UPDATE \<dots> WHERE id = (SELECT id FROM logs ORDER BY timestamp ASC, id ASC LIMIT 1)\<close>\<close>

definition sql_update_oldest :: "string \<Rightarrow> string \<Rightarrow> string \<Rightarrow> string \<Rightarrow> log_row list \<Rightarrow> log_row list" where
  "sql_update_oldest ts node ev detail rows =
     (if rows = [] then []
      else map (\<lambda>r. if row_id r = row_id (arg_min_list row_key rows)
          then r\<lparr>row_timestamp := ts, row_node := node, row_event := ev, row_detail := detail\<rparr>
          else r) rows)"

definition log_init :: "sql_env \<Rightarrow> alarm_world \<Rightarrow> alarm_world" where
  "log_init env w =
     (if g_db w then w
      else if g_db_open_failed w then w
      else if \<not> open_ok env then w\<lparr>g_db := False, g_db_open_failed := True\<rparr>
      else if \<not> create_ok env then w\<lparr>g_db := False, g_db_open_failed := True\<rparr>
      else w\<lparr>g_db := True\<rparr>)"

definition write_log :: "sql_env \<Rightarrow> string \<Rightarrow> string \<Rightarrow> alarm_world \<Rightarrow> alarm_world" where
  "write_log env ev detail w =
     (if \<not> g_db w then w
      else
        (let count = (if count_ok env then length (db_rows w) else 0);
             sql = (if count < LOG_MAX_ROWS then sql_insert else sql_update_oldest) in
         if \<not> prepare_ok env then w
         else if \<not> step_ok env then w
         else w\<lparr>db_rows := sql (now_text env) LOG_NODE ev detail (db_rows w)\<rparr>))"

definition ups_alarm_manager_close :: "alarm_world \<Rightarrow> alarm_world" where
  "ups_alarm_manager_close w = (if g_db w then w\<lparr>g_db := False\<rparr> else w)"

text \<open>\<open>%04X\<close> of a 16-bit value, and \<open>snprintf\<close> into 128 bytes.\<close>

definition hex_digit :: "nat \<Rightarrow> char" where
  "hex_digit d = ''0123456789ABCDEF'' ! d"

definition hex4 :: "u16 \<Rightarrow> string" where
  "hex4 v = map (\<lambda>k. hex_digit (unat v div 16 ^ k mod 16)) [3, 2, 1, 0]"

definition alarm_detail :: "string \<Rightarrow> alarm_entry \<Rightarrow> u16 \<Rightarrow> string" where
  "alarm_detail prefix entry v = take 127 (prefix @ ''err=0x'' @ hex4 (error_code entry)
     @ '' | value=0x'' @ hex4 v @ '' | '' @ ae_description entry)"

definition ups_alarm_manager_handle_event ::
  "alarm_entry \<Rightarrow> u16 \<Rightarrow> alarm_event \<Rightarrow> nat option \<Rightarrow> alarm_world \<Rightarrow> alarm_world" where
  "ups_alarm_manager_handle_event entry v event userdata w =
     (let env = db_env w (db_calls w);
          w = log_init env (w\<lparr>db_calls := Suc (db_calls w)\<rparr>) in
      case event of
        ALARM_EVENT_TRIGGER \<Rightarrow> write_log env ''ALARM_TRIGGER'' (alarm_detail [] entry v) w
      | ALARM_EVENT_CLEAR \<Rightarrow> write_log env ''ALARM_CLEAR'' (alarm_detail ''CLEARED '' entry v) w)"

section \<open>The alarm table\<close>

definition UPS_ERR_WARNING_1 :: u16 where "UPS_ERR_WARNING_1 = 0x0001"
definition UPS_ERR_WARNING_2 :: u16 where "UPS_ERR_WARNING_2 = 0x0002"
definition UPS_ERR_BATT_LOW :: u16 where "UPS_ERR_BATT_LOW = 0x0010"
definition UPS_ERR_BATT_TEMP_HIGH :: u16 where "UPS_ERR_BATT_TEMP_HIGH = 0x0011"
definition UPS_ERR_OUTPUT_VOLT_HIGH :: u16 where "UPS_ERR_OUTPUT_VOLT_HIGH = 0x0020"
definition UPS_ERR_FAULT_CHANGE :: u16 where "UPS_ERR_FAULT_CHANGE = 0x0030"

lemmas ups_err_codes = UPS_ERR_WARNING_1_def UPS_ERR_WARNING_2_def UPS_ERR_BATT_LOW_def
  UPS_ERR_BATT_TEMP_HIGH_def UPS_ERR_OUTPUT_VOLT_HIGH_def UPS_ERR_FAULT_CHANGE_def

definition ups_alarm_table :: "alarm_entry list" where
  "ups_alarm_table = [
    \<lparr>ae_address = 0x0000, ae_condition = ALARM_COND_BITMASK, lo_limit = 0x0000, hi_limit = 0x0100,
      error_code = UPS_ERR_WARNING_1, ae_description = ''warning reg1 bit 0x0100''\<rparr>,
    \<lparr>ae_address = 0x0000, ae_condition = ALARM_COND_BITMASK, lo_limit = 0x0000, hi_limit = 0x0010,
      error_code = UPS_ERR_WARNING_2, ae_description = ''warning reg1 bit 0x0010''\<rparr>,
    \<lparr>ae_address = 0x0002, ae_condition = ALARM_COND_RANGE, lo_limit = 0x0014, hi_limit = 0xFFFF,
      error_code = UPS_ERR_BATT_LOW, ae_description = ''battery capacity < 20%''\<rparr>,
    \<lparr>ae_address = 0x0003, ae_condition = ALARM_COND_RANGE, lo_limit = 0x0000, hi_limit = 0x0258,
      error_code = UPS_ERR_BATT_TEMP_HIGH, ae_description = ''battery temperature high''\<rparr>,
    \<lparr>ae_address = 0x0004, ae_condition = ALARM_COND_RANGE, lo_limit = 0x00B4, hi_limit = 0x00F0,
      error_code = UPS_ERR_OUTPUT_VOLT_HIGH, ae_description = ''output voltage out of range''\<rparr>,
    \<lparr>ae_address = 0x0005, ae_condition = ALARM_COND_CHANGE, lo_limit = 0x0000, hi_limit = 0x0000,
      error_code = UPS_ERR_FAULT_CHANGE, ae_description = ''fault register changed''\<rparr>]"

definition ups1_alarm_states :: "alarm_state list" where
  "ups1_alarm_states = replicate (length ups_alarm_table) \<lparr>is_active = False, prev_value = 0\<rparr>"

record ups_alarm_registry =
  reg_uid :: u8
  reg_states :: "alarm_state list"
  reg_count :: nat

definition alarm_registry :: "ups_alarm_registry list" where
  "alarm_registry = [\<lparr>reg_uid = 1, reg_states = ups1_alarm_states, reg_count = length ups_alarm_table\<rparr>]"

definition alarm_read_register :: "(device_map_profile option, alarm_world) alarm_read_fn" where
  "alarm_read_register a x profile w = do {
     (ok, v) \<leftarrow> pool_read_by_device_addr (aw_pool w) profile a (Some x);
     v \<leftarrow> v;
     Some ((ok, v), w)
   }"

definition forward_to_manager :: "(nat option, alarm_world) alarm_event_fn" where
  "forward_to_manager entry v event userdata w =
     Some (ups_alarm_manager_handle_event entry v event userdata w)"

section \<open>Registration\<close>

text \<open>
  The contexts live in the static array \<open>ups_alarm_ctxs\<close>; slot \<open>k\<close> has the address \<open>k\<close> in the
  bridge's heap. A module configuration is referred to by its index in \<open>global_config.ups\<close>.
\<close>

type_synonym ups_bridge = "(device_map_profile option, nat option, alarm_world) alarm_bridge"

fun find_module :: "module_config list \<Rightarrow> u8 \<Rightarrow> nat list \<Rightarrow> nat option run" where
  "find_module cs uid [] = Some None"
| "find_module cs uid (j # js) = do {
     c \<leftarrow> buf_load cs j;
     if word_of_int (modbus_uid c) = uid then Some (Some j) else find_module cs uid js
   }"

definition ups_alarm_ctx ::
  "ups_alarm_registry \<Rightarrow> device_map_profile \<Rightarrow> nat
     \<Rightarrow> (device_map_profile option, nat option, alarm_world) alarm_engine_ctx" where
  "ups_alarm_ctx r profile j = \<lparr>ctx_table = Some ups_alarm_table, ctx_states = Some (reg_states r),
     ctx_count = reg_count r, read_fn = Some alarm_read_register, event_fn = Some forward_to_manager,
     read_data = Some profile, event_data = Some j\<rparr>"

definition ups_alarm_register_one ::
  "system_config \<Rightarrow> ups_alarm_registry \<Rightarrow> nat \<times> ups_bridge \<Rightarrow> (nat \<times> ups_bridge) run" where
  "ups_alarm_register_one g r s = (case s of (n, b) \<Rightarrow>
     (case ups_find_profile_by_uid (reg_uid r) of
        None \<Rightarrow> Some (n, b)
      | Some profile \<Rightarrow> do {
          cfg \<leftarrow> find_module (ups g) (reg_uid r) [0..<nat (ups_count g)];
          (case cfg of
             None \<Rightarrow> Some (n, b)
           | Some j \<Rightarrow>
               if n \<ge> length alarm_registry then None
               else do {
                 (rc, b) \<leftarrow> alarm_bridge_register_ctx (Some n)
                   (b\<lparr>b_heap := (b_heap b)(n \<mapsto> ups_alarm_ctx r profile j)\<rparr>);
                 if rc \<noteq> 0 then Some (n, b) else Some (n + 1, b)
               })
        }))"

definition ups_alarm_register_all :: "system_config \<Rightarrow> ups_bridge \<Rightarrow> (nat \<times> ups_bridge) run" where
  "ups_alarm_register_all g b = foldM (ups_alarm_register_one g) alarm_registry (0, b)"

section \<open>The UPS hosts an engine\<close>

interpretation ups_host: alarm_host alarm_read_register forward_to_manager "Some ups1_profile" ed
  "\<lambda>w. aw_pool w = p" "\<lambda>a. if a < 22 then Some (p (0xBB00 + unat a)) else None"
  "\<lambda>e v k. ups_alarm_manager_handle_event e v k ed" for ed p
proof (unfold_locales, goal_cases)
  case (1 w a x)
  then show ?case
    by (auto simp: alarm_read_register_def pool_read_reg_get [OF ups1_wf] ups1_reg_get)
next
  case (2 w e v k)
  then show ?case by (simp add: forward_to_manager_def)
next
  case (3 w e v k)
  then show ?case
    by (cases k) (simp_all add: ups_alarm_manager_handle_event_def write_log_def log_init_def Let_def)
qed

section \<open>What the manager does to the log\<close>

definition env_all_ok :: "sql_env \<Rightarrow> bool" where
  "env_all_ok e \<longleftrightarrow> open_ok e \<and> create_ok e \<and> count_ok e \<and> prepare_ok e \<and> step_ok e"

definition event_name :: "alarm_event \<Rightarrow> string" where
  "event_name k = (case k of ALARM_EVENT_TRIGGER \<Rightarrow> ''ALARM_TRIGGER'' | ALARM_EVENT_CLEAR \<Rightarrow> ''ALARM_CLEAR'')"

definition event_detail :: "alarm_entry \<Rightarrow> u16 \<Rightarrow> alarm_event \<Rightarrow> string" where
  "event_detail e v k = alarm_detail
     (case k of ALARM_EVENT_TRIGGER \<Rightarrow> [] | ALARM_EVENT_CLEAR \<Rightarrow> ''CLEARED '') e v"

lemma handle_event_alt:
  "ups_alarm_manager_handle_event e v k ed w
    = write_log (db_env w (db_calls w)) (event_name k) (event_detail e v k)
        (log_init (db_env w (db_calls w)) (w\<lparr>db_calls := Suc (db_calls w)\<rparr>))"
  by (cases k) (simp_all add: ups_alarm_manager_handle_event_def event_name_def event_detail_def Let_def)

lemma length_sql_update [simp]: "length (sql_update_oldest ts n ev d rows) = length rows"
  by (simp add: sql_update_oldest_def)

lemma length_sql_insert [simp]: "length (sql_insert ts n ev d rows) = Suc (length rows)"
  by (simp add: sql_insert_def)

lemma log_init_rows [simp]:
  "db_rows (log_init env w) = db_rows w" "db_env (log_init env w) = db_env w"
  "db_calls (log_init env w) = db_calls w" "aw_pool (log_init env w) = aw_pool w"
  by (simp_all add: log_init_def)

lemma write_log_other [simp]:
  "db_env (write_log env ev d w) = db_env w" "db_calls (write_log env ev d w) = db_calls w"
  "aw_pool (write_log env ev d w) = aw_pool w" "g_db_open_failed (write_log env ev d w) = g_db_open_failed w"
  "g_db (write_log env ev d w) = g_db w"
  by (simp_all add: write_log_def Let_def)

lemma write_log_length:
  assumes "length (db_rows w) \<le> LOG_MAX_ROWS" and "count_ok env"
  shows "length (db_rows (write_log env ev d w)) \<le> LOG_MAX_ROWS"
  using assms by (auto simp: write_log_def Let_def)

lemma handle_event_pool:
  "ups_alarm_manager_handle_event e v k ed (w\<lparr>aw_pool := q\<rparr>)
    = (ups_alarm_manager_handle_event e v k ed w)\<lparr>aw_pool := q\<rparr>"
  by (simp add: handle_event_alt write_log_def log_init_def Let_def)

lemma handle_event_env [simp]: "db_env (ups_alarm_manager_handle_event e v k ed w) = db_env w"
  by (simp add: handle_event_alt)

text \<open>
  C31: the alarm log is bounded. If counting the rows succeeds whenever it is tried, no sequence of
  alarm events makes the table longer than 10000 rows, whatever else of the database fails.
\<close>

theorem alarm_log_bounded:
  assumes "length (db_rows w) \<le> 10000" and "\<forall>i. count_ok (db_env w i)"
  shows "length (db_rows (fold (\<lambda>(e, v, k). ups_alarm_manager_handle_event e v k ed) evs w)) \<le> 10000"
  using assms
proof (induction evs arbitrary: w)
  case (Cons x evs)
  obtain e v k where x: "x = (e, v, k)" by (cases x)
  have "length (db_rows (ups_alarm_manager_handle_event e v k ed w)) \<le> 10000"
    unfolding handle_event_alt using Cons(2,3)
    by (intro write_log_length [unfolded LOG_MAX_ROWS_def]) simp_all
  then show ?case using Cons x by simp
qed simp

theorem alarm_log_bounded_witness:
  "length (db_rows (fold (\<lambda>(e, v, k). ups_alarm_manager_handle_event e v k (None :: nat option))
     [(ups_alarm_table ! 2, 5, ALARM_EVENT_TRIGGER)]
     \<lparr>aw_pool = \<lambda>_. 0, g_db = True, g_db_open_failed = False, db_rows = [], db_calls = 0,
       db_env = \<lambda>_. \<lparr>open_ok = True, create_ok = True, count_ok = True, prepare_ok = True,
         step_ok = True, now_text = ''t''\<rparr>\<rparr>)) \<le> 10000"
  by (rule alarm_log_bounded) simp_all

lemma sql_insert_fresh: "Suc (foldr max (map row_id rows) 0) \<notin> row_id ` set rows"
proof -
  have "row_id r \<le> foldr max (map row_id rows) 0" if "r \<in> set rows" for r
    using that by (induction rows) (auto simp: max_def)
  then show ?thesis by fastforce
qed

lemma sql_update_at:
  assumes "rows \<noteq> []" and "distinct (map row_id rows)"
  shows "\<exists>i<length rows. (\<forall>j<length rows. row_key (rows ! i) \<le> row_key (rows ! j))
    \<and> sql_update_oldest ts n ev d rows = rows[i := (rows ! i)\<lparr>row_timestamp := ts, row_node := n,
        row_event := ev, row_detail := d\<rparr>]"
proof -
  let ?m = "arg_min_list row_key rows"
  have "?m \<in> set rows" using assms(1) by (rule arg_min_list_in)
  then obtain i where i: "i < length rows" "rows ! i = ?m" by (auto simp: in_set_conv_nth)
  have "row_key ?m = Min (row_key ` set rows)" by (rule f_arg_min_list_f [OF assms(1)])
  then have "row_key ?m \<le> row_key (rows ! j)" if "j < length rows" for j
    using that by simp
  moreover have "sql_update_oldest ts n ev d rows = rows[i := (rows ! i)\<lparr>row_timestamp := ts,
      row_node := n, row_event := ev, row_detail := d\<rparr>]"
    using assms i
    by (intro nth_equalityI)
      (auto simp: sql_update_oldest_def nth_list_update distinct_conv_nth simp flip: i(2))
  ultimately show ?thesis using i by auto
qed

text \<open>
  The log is a ring. When the database works and the table is full, an event replaces one row,
  of the oldest time (the smallest id among equals), keeping its id, and leaves the other rows;
  below the limit it appends a row with a fresh id. The row holds the event's name and its
  formatted detail.
\<close>

theorem alarm_log_replaces_oldest:
  assumes "env_all_ok (db_env w (db_calls w))" and "g_db w \<or> \<not> g_db_open_failed w"
    and "distinct (map row_id (db_rows w))"
  shows "\<exists>r. row_timestamp r = now_text (db_env w (db_calls w)) \<and> row_event r = event_name k
    \<and> row_detail r = event_detail e v k \<and> row_node r = ''ups_alarm_node''
    \<and> (if length (db_rows w) < 10000
       then db_rows (ups_alarm_manager_handle_event e v k ed w) = db_rows w @ [r]
         \<and> row_id r \<notin> row_id ` set (db_rows w)
       else \<exists>i<length (db_rows w). (\<forall>j<length (db_rows w). row_key (db_rows w ! i) \<le> row_key (db_rows w ! j))
         \<and> row_id r = row_id (db_rows w ! i)
         \<and> db_rows (ups_alarm_manager_handle_event e v k ed w) = (db_rows w)[i := r])"
proof -
  let ?env = "db_env w (db_calls w)" and ?rows = "db_rows w"
  have opened: "g_db (log_init ?env (w\<lparr>db_calls := Suc (db_calls w)\<rparr>))"
    using assms(1,2) by (auto simp: log_init_def env_all_ok_def)
  have rows: "db_rows (ups_alarm_manager_handle_event e v k ed w)
      = (if length ?rows < 10000 then sql_insert else sql_update_oldest) (now_text ?env) LOG_NODE
          (event_name k) (event_detail e v k) ?rows"
    using assms(1) opened by (simp add: handle_event_alt write_log_def env_all_ok_def LOG_MAX_ROWS_def Let_def)
  show ?thesis
  proof (cases "length ?rows < 10000")
    case True
    then show ?thesis
      using rows sql_insert_fresh [of ?rows]
      by (intro exI [of _ "\<lparr>row_id = Suc (foldr max (map row_id ?rows) 0),
          row_timestamp = now_text ?env, row_node = LOG_NODE, row_event = event_name k,
          row_detail = event_detail e v k\<rparr>"]) (simp add: sql_insert_def LOG_NODE_def)
  next
    case False
    then have "?rows \<noteq> []" by auto
    then obtain i where "i < length ?rows" "\<forall>j<length ?rows. row_key (?rows ! i) \<le> row_key (?rows ! j)"
        "db_rows (ups_alarm_manager_handle_event e v k ed w)
          = ?rows[i := (?rows ! i)\<lparr>row_timestamp := now_text ?env, row_node := LOG_NODE,
              row_event := event_name k, row_detail := event_detail e v k\<rparr>]"
      using rows False
        sql_update_at [OF _ assms(3), of "now_text ?env" LOG_NODE "event_name k" "event_detail e v k"]
      by auto
    then show ?thesis
      using False
      by (intro exI [of _ "(?rows ! i)\<lparr>row_timestamp := now_text ?env, row_node := LOG_NODE,
          row_event := event_name k, row_detail := event_detail e v k\<rparr>"]) (auto simp: LOG_NODE_def)
  qed
qed

theorem alarm_log_replaces_oldest_witness:
  "map row_detail (db_rows (ups_alarm_manager_handle_event (ups_alarm_table ! 2) 5 ALARM_EVENT_TRIGGER
     (None :: nat option)
     \<lparr>aw_pool = \<lambda>_. 0, g_db = False, g_db_open_failed = False, db_rows = [], db_calls = 0,
       db_env = \<lambda>_. \<lparr>open_ok = True, create_ok = True, count_ok = True, prepare_ok = True,
         step_ok = True, now_text = ''t''\<rparr>\<rparr>))
   = [''err=0x0010 | value=0x0005 | battery capacity < 20%'']"
proof -
  have "event_detail (ups_alarm_table ! 2) 5 ALARM_EVENT_TRIGGER
      = ''err=0x0010 | value=0x0005 | battery capacity < 20%''"
    by (simp add: event_detail_def alarm_detail_def ups_alarm_table_def hex4_def hex_digit_def
        ups_err_codes)
  then show ?thesis
    using alarm_log_replaces_oldest [of "\<lparr>aw_pool = \<lambda>_. 0, g_db = False, g_db_open_failed = False,
       db_rows = [], db_calls = 0, db_env = \<lambda>_. \<lparr>open_ok = True, create_ok = True, count_ok = True,
       prepare_ok = True, step_ok = True, now_text = ''t''\<rparr>\<rparr>" ALARM_EVENT_TRIGGER
       "ups_alarm_table ! 2" 5 "None :: nat option"]
    by (auto simp: env_all_ok_def)
qed

section \<open>A scan of the unit\<close>

definition ups1_reading :: "pool \<Rightarrow> u16 \<Rightarrow> u16 option" where
  "ups1_reading p a = (if a < 22 then Some (p (0xBB00 + unat a)) else None)"

lemma ups_alarm_table_length [simp]: "length ups_alarm_table = 6"
  by (simp add: ups_alarm_table_def)

lemma ups1_states_list:
  "ups1_alarm_states = (let s = \<lparr>is_active = False, prev_value = 0\<rparr> in [s, s, s, s, s, s])"
  by (simp add: ups1_alarm_states_def numeral_eq_Suc Let_def)

lemma ups1_alarm_scan:
  assumes "ctx = ups_alarm_ctx r ups1_profile j" and "length (reg_states r) = 6" and "reg_count r = 6"
  shows "alarm_engine_run (Some ctx) w
    = Some (Some (ctx\<lparr>ctx_states := Some (scan_states ups_alarm_table (reg_states r)
              (ups1_reading (aw_pool w)))\<rparr>),
        fold (\<lambda>(e, v, k). ups_alarm_manager_handle_event e v k (Some j))
          (scan_events ups_alarm_table (reg_states r) (ups1_reading (aw_pool w))) w)"
  using ups_host.engine_run [of w "aw_pool w" ctx ups_alarm_table "reg_states r" "Some j"] assms
  by (simp add: ups_alarm_ctx_def ups1_reading_def [abs_def])

lemma scan_cong:
  assumes "\<forall>e\<in>set tab. rdv (ae_address e) = rdv' (ae_address e)"
  shows "scan_states tab sts rdv = scan_states tab sts rdv'"
    and "scan_events tab sts rdv = scan_events tab sts rdv'"
  using assms
  by (auto simp: scan_states_def scan_events_def intro!: arg_cong [of _ _ concat])
    (metis set_zip_leftD)+

lemma fold_events_pool:
  "fold (\<lambda>(e, v, k). ups_alarm_manager_handle_event e v k ed) evs (w\<lparr>aw_pool := q\<rparr>)
    = (fold (\<lambda>(e, v, k). ups_alarm_manager_handle_event e v k ed) evs w)\<lparr>aw_pool := q\<rparr>"
  by (induction evs arbitrary: w) (auto simp: handle_event_pool)

text \<open>
  C21: one monitoring pass over the unit. The engine, run on the registered context of UPS unit 1,
  reads each table row's device address from the unit's slots of the pool, moves each row's sticky
  or previous-value state as specified, and hands the resulting events, in table order, to the
  alarm manager, which is all that changes besides the states.
\<close>

theorem ups1_monitoring_pass:
  assumes "length sts = 6"
  shows "alarm_engine_run (Some (ups_alarm_ctx \<lparr>reg_uid = 1, reg_states = sts, reg_count = 6\<rparr> ups1_profile j)) w
    = Some (Some (ups_alarm_ctx \<lparr>reg_uid = 1,
          reg_states = scan_states ups_alarm_table sts (ups1_reading (aw_pool w)), reg_count = 6\<rparr> ups1_profile j),
        fold (\<lambda>(e, v, k). ups_alarm_manager_handle_event e v k (Some j))
          (scan_events ups_alarm_table sts (ups1_reading (aw_pool w))) w)"
  using ups1_alarm_scan [OF refl, of "\<lparr>reg_uid = 1, reg_states = sts, reg_count = 6\<rparr>" j w] assms
  by (simp add: ups_alarm_ctx_def)

theorem ups1_monitoring_pass_witness:
  "\<exists>c w'. alarm_engine_run (Some (ups_alarm_ctx
        \<lparr>reg_uid = 1, reg_states = ups1_alarm_states, reg_count = 6\<rparr> ups1_profile 0))
      \<lparr>aw_pool = (\<lambda>_. 0)(0xBB02 := 20, 0xBB04 := 200, 0xBB00 := 0x0110), g_db = True,
        g_db_open_failed = False, db_rows = [], db_calls = 0,
        db_env = \<lambda>_. \<lparr>open_ok = True, create_ok = True, count_ok = True, prepare_ok = True,
         step_ok = True, now_text = ''t''\<rparr>\<rparr> = Some (c, w')
     \<and> map row_event (db_rows w') = [''ALARM_TRIGGER'', ''ALARM_TRIGGER'']"
proof -
  let ?w = "\<lparr>aw_pool = (\<lambda>_. 0)(0xBB02 := 20, 0xBB04 := 200, 0xBB00 := 0x0110), g_db = True,
        g_db_open_failed = False, db_rows = [], db_calls = 0,
        db_env = \<lambda>_. \<lparr>open_ok = True, create_ok = True, count_ok = True, prepare_ok = True,
         step_ok = True, now_text = ''t''\<rparr>\<rparr>"
  have mask: "violates (ups_alarm_table ! 0) 0x0110" "violates (ups_alarm_table ! 1) 0x0110"
    by (simp_all add: eval_bitmask_violates [symmetric] ups_alarm_table_def eval_bitmask_def)
  have "\<not> (v :: u16) > 0xFFFF" for v
    using u16_less [of v] by (simp add: word_less_nat_alt)
  then have ev: "scan_events ups_alarm_table ups1_alarm_states (ups1_reading (aw_pool ?w))
      = [(ups_alarm_table ! 0, 0x0110, ALARM_EVENT_TRIGGER), (ups_alarm_table ! 1, 0x0110, ALARM_EVENT_TRIGGER)]"
    using mask
    by (simp add: scan_events_def ups_alarm_table_def ups1_states_list Let_def entry_events_def
        entry_step_def ups1_reading_def sticky_def violates_def)
  show ?thesis
    using ups1_monitoring_pass [of ups1_alarm_states 0 ?w] ev
    by (simp add: ups1_alarm_states_def handle_event_alt write_log_def log_init_def Let_def
        LOG_MAX_ROWS_def sql_insert_def event_name_def)
qed

text \<open>
  C40: the battery alarms do not watch the battery. The rows labelled battery capacity and battery
  temperature read device addresses 0x0002 and 0x0003, which the unit's map calls warning
  information; capacity is at 0x0007 and temperature at 0x000C. So a pass logs the same rows
  whatever these two registers hold: an empty or an overheated battery raises no alarm.
\<close>

theorem alarms_ignore_battery:
  assumes "length sts = 6"
  shows "map_option (\<lambda>(c, w). db_rows w) (alarm_engine_run (Some (ups_alarm_ctx
        \<lparr>reg_uid = 1, reg_states = sts, reg_count = 6\<rparr> ups1_profile j))
          (w\<lparr>aw_pool := (aw_pool w)(0xBB07 := capacity, 0xBB0C := temperature)\<rparr>))
    = map_option (\<lambda>(c, w). db_rows w) (alarm_engine_run (Some (ups_alarm_ctx
        \<lparr>reg_uid = 1, reg_states = sts, reg_count = 6\<rparr> ups1_profile j)) w)
   \<and> device_find_slot (Some ups1_profile) 0x0007 = Some (Some \<lparr>device_address = 0x0007,
        pool_address = 0xBB07, access = ACCESS_RO, description = ''UPS1_Battery_Capacity''\<rparr>)
   \<and> device_find_slot (Some ups1_profile) 0x000C = Some (Some \<lparr>device_address = 0x000C,
        pool_address = 0xBB0C, access = ACCESS_RO, description = ''UPS1_Battery_Temperature''\<rparr>)"
proof -
  define q where "q = (aw_pool w)(0xBB07 := capacity, 0xBB0C := temperature)"
  have "\<forall>e\<in>set ups_alarm_table. ups1_reading q (ae_address e) = ups1_reading (aw_pool w) (ae_address e)"
    by (simp add: ups_alarm_table_def ups1_reading_def q_def)
  note same = scan_cong [OF this]
  have "device_find_slot (Some ups1_profile) a = Some (if a < 22 then Some (ups1_mapping_table ! unat a) else None)"
    for a by (simp add: device_find_slot_wf [OF ups1_wf] ups1_slot)
  then show ?thesis
    using ups1_alarm_scan [OF refl, of "\<lparr>reg_uid = 1, reg_states = sts, reg_count = 6\<rparr>" j] assms same
    unfolding q_def [symmetric]
    by (simp add: fold_events_pool) (simp add: ups1_mapping_table_def)
qed

theorem alarms_ignore_battery_witness:
  "map_option (\<lambda>(c, w). db_rows w) (alarm_engine_run (Some (ups_alarm_ctx
        \<lparr>reg_uid = 1, reg_states = ups1_alarm_states, reg_count = 6\<rparr> ups1_profile 0))
      \<lparr>aw_pool = (\<lambda>_. 0)(0xBB02 := 20, 0xBB04 := 200, 0xBB07 := 1, 0xBB0C := 0xFFFF), g_db = True,
        g_db_open_failed = False, db_rows = [], db_calls = 0, 
        db_env = \<lambda>_. \<lparr>open_ok = False, create_ok = True, count_ok = True, prepare_ok = True,
          step_ok = True, now_text = []\<rparr>\<rparr>) = Some []"
proof -
  let ?w = "\<lparr>aw_pool = (\<lambda>_. 0)(0xBB02 := 20, 0xBB04 := 200), g_db = True,
        g_db_open_failed = False, db_rows = [], db_calls = 0, 
        db_env = \<lambda>_. \<lparr>open_ok = False, create_ok = True, count_ok = True, prepare_ok = True,
          step_ok = True, now_text = []\<rparr>\<rparr>"
  have mask: "\<not> violates (ups_alarm_table ! 0) 0" "\<not> violates (ups_alarm_table ! 1) 0"
    by (simp_all add: eval_bitmask_violates [symmetric] ups_alarm_table_def eval_bitmask_def)
  have "\<not> (v :: u16) > 0xFFFF" for v
    using u16_less [of v] by (simp add: word_less_nat_alt)
  then have ev: "scan_events ups_alarm_table ups1_alarm_states (ups1_reading (aw_pool ?w)) = []"
    using mask
    by (simp add: scan_events_def ups_alarm_table_def ups1_states_list Let_def entry_events_def
        entry_step_def ups1_reading_def sticky_def violates_def)
  show ?thesis
    using alarms_ignore_battery [of ups1_alarm_states 0 ?w 1 "0xFFFF"] ev
      ups1_alarm_scan [OF refl, of "\<lparr>reg_uid = 1, reg_states = ups1_alarm_states, reg_count = 6\<rparr>" 0 ?w]
    by (simp add: ups1_alarm_states_def)
qed

section \<open>Registration\<close>

lemma find_module_find:
  "\<forall>j\<in>set js. j < length cs
    \<Longrightarrow> find_module cs uid js = Some (find (\<lambda>j. word_of_int (modbus_uid (cs ! j)) = uid) js)"
  by (induction js) (auto simp: buf_load_def)

text \<open>
  Alarm registration. On a fresh bridge, registration never leaves the configuration array
  (given a count within it) or the context array; it registers one context, for the first
  configured module whose identifier is 1 in 8 bits, holding the alarm table, cleared states and
  the unit's profile, and none if there is no such module.
\<close>

theorem alarm_registration:
  assumes "ups_count g \<le> int (length (ups g))"
  shows "\<exists>n b. ups_alarm_register_all g (alarm_bridge_init (\<lambda>_. None)) = Some (n, b)
    \<and> (case find (\<lambda>j. word_of_int (modbus_uid (ups g ! j)) = (1 :: u8)) [0..<nat (ups_count g)] of
         None \<Rightarrow> n = 0 \<and> registered b = []
       | Some j \<Rightarrow> n = 1 \<and> registered b = [0]
           \<and> b_heap b 0 = Some (ups_alarm_ctx
               \<lparr>reg_uid = 1, reg_states = ups1_alarm_states, reg_count = 6\<rparr> ups1_profile j))"
proof -
  have js: "\<forall>j\<in>set [0..<nat (ups_count g)]. j < length (ups g)" using assms by auto
  let ?b = "alarm_bridge_init (\<lambda>_. None) :: ups_bridge"
  have empty: "registered (?b\<lparr>b_heap := h\<rparr>) = []" "\<not> g_running (?b\<lparr>b_heap := h\<rparr>)"
      "bridge_inv (?b\<lparr>b_heap := h\<rparr>)" for h
    by (simp_all add: registered_def alarm_bridge_init_def bridge_inv_def)
  obtain b' where b': "alarm_bridge_register_ctx (Some 0) (?b\<lparr>b_heap := h\<rparr>) = Some (0, b' h)"
      "registered (b' h) = [0]" "b_heap (b' h) = h" for h
    using register_ctx [OF empty(3), of "Some 0"] empty by simp metis
  show ?thesis
    using b'
    by (cases "find (\<lambda>j. word_of_int (modbus_uid (ups g ! j)) = (1 :: u8)) [0..<nat (ups_count g)]")
      (simp_all add: ups_alarm_register_all_def alarm_registry_def ups_alarm_register_one_def
        ups_find_profile find_module_find [OF js] registered_def alarm_bridge_init_def)
qed

theorem alarm_registration_witness:
  "\<exists>b. ups_alarm_register_all \<lparr>ups = [zero_module_config\<lparr>modbus_uid := 257\<rparr>], ups_count = 1\<rparr>
      (alarm_bridge_init (\<lambda>_. None)) = Some (1, b) \<and> registered b = [0]"
  using alarm_registration [of "\<lparr>ups = [zero_module_config\<lparr>modbus_uid := 257\<rparr>], ups_count = 1\<rparr>"]
  by auto

section \<open>A pass of the monitoring thread\<close>

text \<open>Every registered context is that of the unit's alarm table, whatever its six states.\<close>

definition alarm_ctx_ok :: "(device_map_profile option, nat option, alarm_world) alarm_engine_ctx \<Rightarrow> bool" where
  "alarm_ctx_ok c \<longleftrightarrow> (\<exists>sts j. length sts = 6
     \<and> c = ups_alarm_ctx \<lparr>reg_uid = 1, reg_states = sts, reg_count = 6\<rparr> ups1_profile j)"

definition alarms_ok :: "ups_bridge \<Rightarrow> bool" where
  "alarms_ok b \<longleftrightarrow> g_ctx_count b \<le> length (g_ctxs b)
     \<and> (\<forall>i<g_ctx_count b. \<exists>a c. g_ctxs b ! i = Some a \<and> b_heap b a = Some c \<and> alarm_ctx_ok c)"

lemma alarm_ctx_okI [intro]:
  "length sts = 6 \<Longrightarrow> alarm_ctx_ok (ups_alarm_ctx \<lparr>reg_uid = 1, reg_states = sts, reg_count = 6\<rparr> ups1_profile j)"
  by (auto simp: alarm_ctx_ok_def)

lemma alarms_ok_beat [simp]:
  "alarms_ok (b\<lparr>g_last_beat_ms := t\<rparr>) = alarms_ok b" "alarms_ok (b\<lparr>g_running := r\<rparr>) = alarms_ok b"
  by (simp_all add: alarms_ok_def)

lemma scan_states_length [simp]: "length sts = length tab \<Longrightarrow> length (scan_states tab sts rdv) = length tab"
  by (simp add: scan_states_def)

lemma run_ctx_ok:
  assumes ok: "alarms_ok b" and i: "i < g_ctx_count b"
  shows "\<exists>b' w'. run_ctx i (b, w) = Some (b', w') \<and> alarms_ok b' \<and> g_ctx_count b' = g_ctx_count b"
proof -
  obtain a c where a: "g_ctxs b ! i = Some a" "b_heap b a = Some c" "alarm_ctx_ok c"
    using ok i by (auto simp: alarms_ok_def)
  obtain sts j where sts: "length sts = 6"
      and c: "c = ups_alarm_ctx \<lparr>reg_uid = 1, reg_states = sts, reg_count = 6\<rparr> ups1_profile j"
    using a(3) by (auto simp: alarm_ctx_ok_def)
  let ?sts = "scan_states ups_alarm_table sts (ups1_reading (aw_pool w))"
  let ?c = "ups_alarm_ctx \<lparr>reg_uid = 1, reg_states = ?sts, reg_count = 6\<rparr> ups1_profile j"
  let ?b = "b\<lparr>b_heap := (b_heap b)(a \<mapsto> ?c)\<rparr>"
  obtain w' where r: "run_ctx i (b, w) = Some (?b, w')"
    using a(1,2) ok i sts ups1_alarm_scan [OF refl, of "\<lparr>reg_uid = 1, reg_states = sts, reg_count = 6\<rparr>" j w]
    by (auto simp: c run_ctx_def buf_load_def alarms_ok_def ups_alarm_ctx_def)
  have "length ?sts = 6" using sts by (simp add: scan_states_def)
  then have "alarm_ctx_ok ?c" by blast
  then have "alarms_ok ?b" using ok by (simp add: alarms_ok_def) metis
  then show ?thesis using r by simp
qed

lemma monitor_iter_ok:
  assumes "alarms_ok b"
  shows "\<exists>wm b' w'. alarm_monitor_iter start now (warming, b, w) = Some (wm, b', w') \<and> alarms_ok b' \<and> g_running b' = g_running b"
proof -
  let ?b = "b\<lparr>g_last_beat_ms := get_monotonic_ms now\<rparr>"
  have "\<exists>s'. foldM run_ctx [0..<g_ctx_count b] (?b, w) = Some s' \<and> alarms_ok (fst s') \<and> g_ctx_count (fst s') = g_ctx_count b"
  proof (rule foldM_invariant)
    fix i and s :: "ups_bridge \<times> alarm_world"
    assume "i \<in> set [0..<g_ctx_count b]" and "alarms_ok (fst s) \<and> g_ctx_count (fst s) = g_ctx_count b"
    then show "\<exists>s'. run_ctx i s = Some s' \<and> alarms_ok (fst s') \<and> g_ctx_count (fst s') = g_ctx_count b"
      using run_ctx_ok [of "fst s" i "snd s"] by fastforce
  qed (use assms in simp)
  then obtain b' w' where r: "foldM run_ctx [0..<g_ctx_count b] (?b, w) = Some (b', w')" "alarms_ok b'" by auto
  have "g_running b' = g_running b" using run_ctxs_running [OF r(1)] by simp
  then show ?thesis using r assms
    by (auto simp: alarm_monitor_iter_def Let_def intro: exI [of _ True] exI [of _ False])
qed

lemma register_all_alarms:
  assumes "ups_alarm_register_all g (alarm_bridge_init (\<lambda>_. None)) = Some (n, b)"
  shows "alarms_ok b"
proof (cases "find_module (ups g) 1 [0..<nat (ups_count g)]")
  case None
  then show ?thesis using assms
    by (simp add: ups_alarm_register_all_def alarm_registry_def ups_alarm_register_one_def ups_find_profile)
next
  have st: "alarm_ctx_ok (ups_alarm_ctx \<lparr>reg_uid = 1, reg_states = ups1_alarm_states, reg_count = 6\<rparr> ups1_profile j)" for j
    by (rule alarm_ctx_okI) (simp add: ups1_alarm_states_def)
  case (Some c)
  then show ?thesis using assms
    by (cases c) (auto simp: ups_alarm_register_all_def alarm_registry_def ups_alarm_register_one_def ups_find_profile
      alarm_bridge_register_ctx_def alarm_bridge_init_def ALARM_BRIDGE_MAX_CTXS_def buf_store_def alarms_ok_def st)
qed

end
