(* ===== verification/Ups_Queue.thy ===== *)
theory Ups_Queue
  imports Modbus_Frame
begin

text \<open>
  The write command queue of a UPS unit (\<open>src/ups_module.c\<close>): a ring buffer of 16 commands. Each
  operation is one critical section of the queue's mutex, hence atomic here. The FIFO contract its
  users rely on is the locale \<open>fifo\<close>, interpreted on the ring.
\<close>

section \<open>Types\<close>

datatype ups_write_mode = UPS_WRITE_MODE_AUTO | UPS_WRITE_MODE_FC06 | UPS_WRITE_MODE_FC16

definition UPS_CMD_QUEUE_CAPACITY :: nat where
  "UPS_CMD_QUEUE_CAPACITY = 16"

record ups_write_cmd =
  cmd_addr :: u16
  cmd_values :: "u16 list"
  cmd_count :: u16
  cmd_mode :: ups_write_mode

record ups_cmd_queue =
  q_entries :: "ups_write_cmd list"
  q_head :: nat
  q_tail :: nat
  q_count :: nat
  q_lock :: mutex

definition zero_cmd :: ups_write_cmd where
  "zero_cmd = \<lparr>cmd_addr = 0, cmd_values = replicate (unat MODBUS_MAX_WRITE_REGISTERS) 0,
     cmd_count = 0, cmd_mode = UPS_WRITE_MODE_AUTO\<rparr>"

section \<open>Operations\<close>

definition queue_init :: "ups_cmd_queue" where
  "queue_init = \<lparr>q_entries = replicate UPS_CMD_QUEUE_CAPACITY zero_cmd, q_head = 0, q_tail = 0,
     q_count = 0, q_lock = Mutex_Ready\<rparr>"

definition queue_destroy :: "ups_cmd_queue \<Rightarrow> ups_cmd_queue run" where
  "queue_destroy q = do {
     l \<leftarrow> mutex_destroy (q_lock q);
     Some (q\<lparr>q_lock := l\<rparr>)
   }"

definition queue_push ::
  "u16 \<Rightarrow> u16 list \<Rightarrow> u16 \<Rightarrow> ups_write_mode \<Rightarrow> ups_cmd_queue \<Rightarrow> (int \<times> ups_cmd_queue) run" where
  "queue_push addr values count mode q =
     (if count = 0 \<or> count > MODBUS_MAX_WRITE_REGISTERS then Some (- 1, q)
      else do {
        mutex_lock (q_lock q);
        if q_count q \<ge> UPS_CMD_QUEUE_CAPACITY then Some (- 1, q)
        else do {
          entry \<leftarrow> buf_load (q_entries q) (q_tail q);
          let entry = entry\<lparr>cmd_addr := addr, cmd_count := count, cmd_mode := mode\<rparr>;
          src \<leftarrow> (if unat count \<le> length values then Some (take (unat count) values) else None);
          vs \<leftarrow> buf_blit 0 src (cmd_values entry);
          es \<leftarrow> buf_store (q_tail q) (entry\<lparr>cmd_values := vs\<rparr>) (q_entries q);
          Some (0, q\<lparr>q_entries := es, q_tail := (q_tail q + 1) mod UPS_CMD_QUEUE_CAPACITY,
                   q_count := q_count q + 1\<rparr>)
        }
      })"

definition queue_pop :: "ups_cmd_queue \<Rightarrow> (ups_write_cmd option \<times> ups_cmd_queue) run" where
  "queue_pop q = do {
     mutex_lock (q_lock q);
     if q_count q = 0 then Some (None, q)
     else do {
       out \<leftarrow> buf_load (q_entries q) (q_head q);
       Some (Some out, q\<lparr>q_head := (q_head q + 1) mod UPS_CMD_QUEUE_CAPACITY,
                         q_count := q_count q - 1\<rparr>)
     }
   }"

section \<open>Abstraction\<close>

text \<open>
  A command is its address, its first \<open>count\<close> values and its mode; what the slot holds past them
  is of no interest. The queue is the list of commands from head on.
\<close>

type_synonym command = "u16 \<times> u16 list \<times> ups_write_mode"

definition cmd_abs :: "ups_write_cmd \<Rightarrow> command" where
  "cmd_abs c = (cmd_addr c, take (unat (cmd_count c)) (cmd_values c), cmd_mode c)"

definition cmd_wf :: "ups_write_cmd \<Rightarrow> bool" where
  "cmd_wf c \<longleftrightarrow> length (cmd_values c) = 123 \<and> cmd_count c \<le> 123"

definition queue_inv :: "ups_cmd_queue \<Rightarrow> bool" where
  "queue_inv q \<longleftrightarrow> length (q_entries q) = 16 \<and> q_count q \<le> 16 \<and> q_head q < 16
     \<and> q_tail q = (q_head q + q_count q) mod 16 \<and> list_all cmd_wf (q_entries q)
     \<and> q_lock q = Mutex_Ready"

definition queue_slots :: "ups_cmd_queue \<Rightarrow> ups_write_cmd list" where
  "queue_slots q = map (\<lambda>i. q_entries q ! ((q_head q + i) mod 16)) [0..<q_count q]"

definition queue_abs :: "ups_cmd_queue \<Rightarrow> command list" where
  "queue_abs q = map cmd_abs (queue_slots q)"

definition command_ok :: "command \<Rightarrow> bool" where
  "command_ok x = (case x of (a, vs, m) \<Rightarrow> 0 < length vs \<and> length vs \<le> 123)"

lemma queue_init_ok: "queue_inv queue_init" "queue_abs queue_init = []"
  by (simp_all add: queue_inv_def queue_init_def queue_abs_def queue_slots_def
      UPS_CMD_QUEUE_CAPACITY_def cmd_wf_def zero_cmd_def MODBUS_MAX_WRITE_REGISTERS_def list_all_length)

lemma length_queue_abs [simp]: "length (queue_abs q) = q_count q"
  by (simp add: queue_abs_def queue_slots_def)

lemma queue_abs_Cons:
  assumes "q_count q = Suc n"
  shows "queue_abs q = cmd_abs (q_entries q ! (q_head q mod 16))
    # queue_abs (q\<lparr>q_head := (q_head q + 1) mod 16, q_count := n\<rparr>)"
proof -
  have "[0..<Suc n] = 0 # map Suc [0..<n]" by (simp add: map_Suc_upt upt_conv_Cons del: upt_Suc)
  then show ?thesis
    using assms by (simp add: queue_abs_def queue_slots_def comp_def mod_simps add_ac del: upt_Suc)
qed

lemma queue_pop_ok:
  assumes "queue_inv q"
  shows "queue_pop q = Some (None, q) \<and> queue_abs q = []
    \<or> (\<exists>c q'. queue_pop q = Some (Some c, q') \<and> queue_inv q' \<and> cmd_wf c
        \<and> queue_abs q = cmd_abs c # queue_abs q' \<and> q_count q' < q_count q)"
proof (cases "q_count q")
  case 0
  then show ?thesis
    using assms by (auto simp: queue_pop_def queue_inv_def mutex_lock_def queue_abs_def queue_slots_def)
next
  case (Suc n)
  have hd: "q_head q < length (q_entries q)" using assms by (simp add: queue_inv_def)
  then have wf: "cmd_wf (q_entries q ! q_head q)"
    using assms by (simp add: queue_inv_def list_all_length)
  have inv: "queue_inv (q\<lparr>q_head := (q_head q + 1) mod 16, q_count := n\<rparr>)"
    using assms Suc by (simp add: queue_inv_def mod_simps)
  have "queue_pop q = Some (Some (q_entries q ! q_head q),
      q\<lparr>q_head := (q_head q + 1) mod 16, q_count := n\<rparr>)"
    using assms Suc hd
    by (simp add: queue_pop_def queue_inv_def mutex_lock_def buf_load_def UPS_CMD_QUEUE_CAPACITY_def)
  then show ?thesis
    using queue_abs_Cons [OF Suc] wf inv Suc assms by (auto simp: queue_inv_def)
qed

lemma ring_slot_other:
  assumes "h < (16 :: nat)" and "n < 16" and "i < n"
  shows "(h + i) mod 16 \<noteq> (h + n) mod 16"
proof
  assume "(h + i) mod 16 = (h + n) mod 16"
  then have "(n - i) mod 16 = 0"
    using assms by (metis add_diff_cancel_left diff_add_inverse less_imp_le_nat mod_eq_dvd_iff_nat
        add_le_cancel_left dvd_imp_mod_0 diff_diff_add)
  then show False using assms by simp
qed

lemma queue_push_ok:
  assumes "queue_inv q" and "0 < count" and "count \<le> 123" and "unat count \<le> length vs"
  shows "queue_push addr vs count mode q = Some (- 1, q) \<and> q_count q = 16
    \<or> (\<exists>q'. queue_push addr vs count mode q = Some (0, q') \<and> queue_inv q' \<and> q_count q < 16
        \<and> queue_abs q' = queue_abs q @ [(addr, take (unat count) vs, mode)])"
proof (cases "q_count q = 16")
  case True
  then show ?thesis
    using assms by (auto simp: queue_push_def queue_inv_def mutex_lock_def UPS_CMD_QUEUE_CAPACITY_def
        MODBUS_MAX_WRITE_REGISTERS_def)
next
  case False
  then have n: "q_count q < 16" using assms(1) by (simp add: queue_inv_def)
  let ?t = "(q_head q + q_count q) mod 16"
  let ?old = "q_entries q ! ?t"
  let ?e = "?old\<lparr>cmd_addr := addr, cmd_count := count, cmd_mode := mode,
      cmd_values := take (unat count) vs @ drop (unat count) (cmd_values ?old)\<rparr>"
  let ?q = "q\<lparr>q_entries := (q_entries q)[?t := ?e], q_tail := (?t + 1) mod 16,
      q_count := q_count q + 1\<rparr>"
  have len: "length (q_entries q) = 16" and tail: "q_tail q = ?t" and t: "?t < 16"
    using assms(1) by (simp_all add: queue_inv_def)
  have c: "unat count \<le> 123" using assms(3) by (simp add: word_le_nat_alt)
  have old: "cmd_wf ?old" using assms(1) t by (simp add: queue_inv_def list_all_length)
  have push: "queue_push addr vs count mode q = Some (0, ?q)"
    using assms n len tail t c old
    by (auto simp: queue_push_def queue_inv_def mutex_lock_def UPS_CMD_QUEUE_CAPACITY_def
        MODBUS_MAX_WRITE_REGISTERS_def buf_load_def buf_store_def buf_blit_def cmd_wf_def Let_def)
  have wf: "cmd_wf ?e" using old c assms(3,4) by (simp add: cmd_wf_def)
  have inv: "queue_inv ?q"
    using assms(1) n wf t
    by (auto simp: queue_inv_def mod_simps list_all_length nth_list_update)
  have neq: "(q_head q + i) mod 16 \<noteq> ?t" if "i < q_count q" for i
    using ring_slot_other [OF _ n that] assms(1) by (simp add: queue_inv_def)
  have "map (\<lambda>i. (q_entries q)[?t := ?e] ! ((q_head q + i) mod 16)) [0..<q_count q] = queue_slots q"
    unfolding queue_slots_def
  proof (rule map_cong [OF refl])
    fix i assume "i \<in> set [0..<q_count q]"
    then have "?t \<noteq> (q_head q + i) mod 16" using neq [of i] by simp
    then show "(q_entries q)[?t := ?e] ! ((q_head q + i) mod 16) = q_entries q ! ((q_head q + i) mod 16)"
      by (rule nth_list_update_neq)
  qed
  then have "queue_slots ?q = queue_slots q @ [?e]"
    using len t by (simp add: queue_slots_def)
  moreover have "cmd_abs ?e = (addr, take (unat count) vs, mode)"
    using assms(4) by (simp add: cmd_abs_def min_def)
  ultimately have abs: "queue_abs ?q = queue_abs q @ [(addr, take (unat count) vs, mode)]"
    by (simp add: queue_abs_def)
  show ?thesis using push inv abs n by blast
qed

section \<open>Interface: a bounded FIFO\<close>

locale fifo =
  fixes enq :: "'a \<Rightarrow> 'q \<Rightarrow> 'q option" and deq :: "'q \<Rightarrow> ('a \<times> 'q) option"
    and inv :: "'q \<Rightarrow> bool" and contents :: "'q \<Rightarrow> 'a list" and ok :: "'a \<Rightarrow> bool" and cap :: nat
  assumes enq_ok: "inv q \<Longrightarrow> ok x \<Longrightarrow> length (contents q) < cap
      \<Longrightarrow> \<exists>q'. enq x q = Some q' \<and> inv q' \<and> contents q' = contents q @ [x]"
    and enq_full: "inv q \<Longrightarrow> ok x \<Longrightarrow> cap \<le> length (contents q) \<Longrightarrow> enq x q = None"
    and deq_empty: "inv q \<Longrightarrow> contents q = [] \<Longrightarrow> deq q = None"
    and deq_ok: "inv q \<Longrightarrow> contents q = x # xs \<Longrightarrow> \<exists>q'. deq q = Some (x, q') \<and> inv q' \<and> contents q' = xs"
    and bounded: "inv q \<Longrightarrow> length (contents q) \<le> cap"

text \<open>
  A schedule of the two sides: \<open>Inl x\<close> pushes \<open>x\<close>, \<open>Inr ()\<close> pops. The result is what was
  accepted, what was popped, and the queue.
\<close>

fun fifo_run ::
  "('a \<Rightarrow> 'q \<Rightarrow> 'q option) \<Rightarrow> ('q \<Rightarrow> ('a \<times> 'q) option) \<Rightarrow> ('a + unit) list \<Rightarrow> 'q
     \<Rightarrow> 'a list \<times> 'a list \<times> 'q" where
  "fifo_run enq deq [] q = ([], [], q)"
| "fifo_run enq deq (Inl x # ops) q =
     (case enq x q of
        None \<Rightarrow> fifo_run enq deq ops q
      | Some q' \<Rightarrow> (case fifo_run enq deq ops q' of (acc, out, q'') \<Rightarrow> (x # acc, out, q'')))"
| "fifo_run enq deq (Inr u # ops) q =
     (case deq q of
        None \<Rightarrow> fifo_run enq deq ops q
      | Some (x, q') \<Rightarrow> (case fifo_run enq deq ops q' of (acc, out, q'') \<Rightarrow> (acc, x # out, q'')))"

context fifo
begin

lemma run_conserves:
  assumes "inv q" and "\<forall>x. Inl x \<in> set ops \<longrightarrow> ok x" and "fifo_run enq deq ops q = (acc, out, q')"
  shows "inv q' \<and> contents q @ acc = out @ contents q'"
  using assms
proof (induction ops arbitrary: q acc out)
  case (Cons op ops)
  consider (refused) x where "op = Inl x" "enq x q = None"
    | (accepted) x q1 where "op = Inl x" "enq x q = Some q1"
    | (none) "op = Inr ()" "deq q = None"
    | (popped) x q1 where "op = Inr ()" "deq q = Some (x, q1)"
    by (cases op; cases "enq (projl op) q"; cases "deq q") auto
  then show ?case
  proof cases
    case refused
    then show ?thesis using Cons by auto
  next
    case accepted
    then have "inv q1" "contents q1 = contents q @ [x]"
      using enq_ok [of q x] enq_full [of q x] Cons(2,3) by (cases "length (contents q) < cap"; force)+
    then show ?thesis
      using accepted Cons by (auto split: prod.splits) (metis append.assoc append_Cons append_Nil)
  next
    case none
    then show ?thesis using Cons by auto
  next
    case popped
    then have "inv q1" "contents q = x # contents q1"
      using deq_ok [of q] deq_empty [of q] Cons(2) by (cases "contents q"; force)+
    then show ?thesis
      using popped Cons by (auto split: prod.splits)
  qed
qed simp

lemma drain:
  assumes "inv q"
  shows "\<exists>q'. fifo_run enq deq (replicate (length (contents q)) (Inr ())) q = ([], contents q, q')
    \<and> inv q' \<and> contents q' = []"
  using assms
proof (induction "contents q" arbitrary: q)
  case Nil
  then show ?case by simp
next
  case (Cons x xs)
  then obtain q1 where q1: "deq q = Some (x, q1)" "inv q1" "contents q1 = xs"
    using deq_ok [of q x xs] by auto
  then show ?case
    using Cons(1) [of q1] Cons(2) [symmetric] by auto
qed

end

section \<open>The ring is a FIFO\<close>

definition ring_enq :: "command \<Rightarrow> ups_cmd_queue \<Rightarrow> ups_cmd_queue option" where
  "ring_enq x q = (case x of (a, vs, m) \<Rightarrow>
     (case queue_push a vs (word_of_nat (length vs)) m q of
        Some (rc, q') \<Rightarrow> if rc = 0 then Some q' else None
      | None \<Rightarrow> None))"

definition ring_deq :: "ups_cmd_queue \<Rightarrow> (command \<times> ups_cmd_queue) option" where
  "ring_deq q =
     (case queue_pop q of
        Some (Some c, q') \<Rightarrow> Some (cmd_abs c, q')
      | _ \<Rightarrow> None)"

lemma ring_enq_ok:
  assumes "queue_inv q" and "command_ok x"
  shows "q_count q = 16 \<and> ring_enq x q = None
    \<or> (\<exists>q'. ring_enq x q = Some q' \<and> queue_inv q' \<and> q_count q < 16 \<and> queue_abs q' = queue_abs q @ [x])"
proof -
  obtain a vs m where x: "x = (a, vs, m)" by (cases x)
  let ?c = "word_of_nat (length vs) :: u16"
  have len: "0 < length vs" "length vs \<le> 123" using assms(2) x by (auto simp: command_ok_def)
  then have c: "unat ?c = length vs" by (simp add: unat_of_nat_small)
  then have "0 < ?c" "?c \<le> 123" using len by (simp_all add: word_less_nat_alt word_le_nat_alt)
  then show ?thesis
    using queue_push_ok [OF assms(1), of ?c vs a m] c x by (auto simp: ring_enq_def)
qed

interpretation ring: fifo ring_enq ring_deq queue_inv queue_abs command_ok 16
proof unfold_locales
  fix q x xs
  assume q: "queue_inv q"
  show "\<exists>q'. ring_enq x q = Some q' \<and> queue_inv q' \<and> queue_abs q' = queue_abs q @ [x]"
    if "command_ok x" "length (queue_abs q) < 16" using ring_enq_ok [OF q that(1)] that(2) by auto
  show "ring_enq x q = None" if "command_ok x" "16 \<le> length (queue_abs q)"
    using ring_enq_ok [OF q that(1)] that(2) by auto
  show "ring_deq q = None" if "queue_abs q = []"
    using queue_pop_ok [OF q] that by (auto simp: ring_deq_def)
  show "\<exists>q'. ring_deq q = Some (x, q') \<and> queue_inv q' \<and> queue_abs q' = xs"
    if "queue_abs q = x # xs"
    using queue_pop_ok [OF q] that by (auto simp: ring_deq_def)
  show "length (queue_abs q) \<le> 16" using q by (simp add: queue_inv_def)
qed

text \<open>
  C10: the command queue is a FIFO. For any interleaving of pushes by the bridge and pops by the
  poll thread on a fresh queue, the commands popped so far followed by the ones still queued are
  exactly the commands accepted, in the order of their acceptance; at most 16 are queued, and
  a push is refused only when 16 are.
\<close>

theorem queue_is_fifo:
  assumes "\<forall>x. Inl x \<in> set ops \<longrightarrow> command_ok x"
  shows "case fifo_run ring_enq ring_deq ops queue_init of (acc, out, q) \<Rightarrow>
    acc = out @ queue_abs q \<and> length (queue_abs q) \<le> 16
    \<and> (\<forall>x. command_ok x \<longrightarrow> (ring_enq x q = None \<longleftrightarrow> length (queue_abs q) = 16))"
proof -
  obtain acc out q where run: "fifo_run ring_enq ring_deq ops queue_init = (acc, out, q)"
    by (cases "fifo_run ring_enq ring_deq ops queue_init")
  from ring.run_conserves [OF queue_init_ok(1) assms run] queue_init_ok(2)
  have q: "queue_inv q" "acc = out @ queue_abs q" by auto
  show ?thesis
    using run q ring.bounded [OF q(1)] ring.enq_ok [OF q(1)] ring.enq_full [OF q(1)] by force
qed

theorem queue_is_fifo_witness:
  "case fifo_run ring_enq ring_deq
      [Inl (2, [7], UPS_WRITE_MODE_AUTO), Inl (3, [8, 9], UPS_WRITE_MODE_FC16), Inr (), Inr (), Inr ()]
      queue_init of (acc, out, q) \<Rightarrow>
    acc = out @ queue_abs q \<and> length (queue_abs q) \<le> 16
    \<and> (\<forall>x. command_ok x \<longrightarrow> (ring_enq x q = None \<longleftrightarrow> length (queue_abs q) = 16))"
  by (rule queue_is_fifo) (auto simp: command_ok_def)

end
