(* ===== verification/Ups_Module.thy ===== *)
theory Ups_Module
  imports Modbus_Client Ups_Map Ups_Queue Config_Loader "HOL-Library.Sublist"
begin

text \<open>
  The UPS polling module (\<open>src/ups_module.c\<close>): writing to a device, draining the command queue,
  the segmented register scan, the callbacks, the poll thread, start and stop.

  The helpers work on the parts of a unit they touch (client context, queue, pool, connection);
  the callbacks work on \<open>ups_world\<close>: the array of units, the configurations they point to (by
  index), the shared pool, the connection of the calling thread and the trace of descriptor
  events. The callback pointers of a unit are always the four functions below, so they are called
  directly. Sleeping has no effect on the state.
\<close>

section \<open>State\<close>

definition UPS_RECONNECT_DELAY_MS :: nat where "UPS_RECONNECT_DELAY_MS = 5000"
definition UPS_COMM_FAIL_THRESHOLD :: int where "UPS_COMM_FAIL_THRESHOLD = 5"
definition UPS_SHUTDOWN_CHECK_INTERVAL_MS :: nat where "UPS_SHUTDOWN_CHECK_INTERVAL_MS = 100"

record ups_unit =
  u_cfg :: "nat option"
  u_profile :: "device_map_profile option"
  u_tcp :: mb_tcp_client_ctx
  u_running :: bool
  comm_fail_count :: int
  cmd_queue :: ups_cmd_queue

record ups_world =
  ups_units :: "ups_unit list"
  ups_unit_count :: nat
  uw_cfgs :: "module_config list"
  uw_pool :: pool
  uw_net :: net
  uw_fds :: "fd_ev list"

definition zero_unit :: ups_unit where
  "zero_unit = \<lparr>u_cfg = None, u_profile = None, u_tcp = zero_client_ctx, u_running = False,
     comm_fail_count = 0, cmd_queue = queue_init\<lparr>q_lock := Mutex_Unset\<rparr>\<rparr>"

abbreviation upd_unit :: "nat \<Rightarrow> (ups_unit \<Rightarrow> ups_unit) \<Rightarrow> ups_world \<Rightarrow> ups_world" where
  "upd_unit k f w \<equiv> w\<lparr>ups_units := (ups_units w)[k := f (ups_units w ! k)]\<rparr>"

section \<open>Lookup\<close>

fun unit_loop :: "(ups_unit \<Rightarrow> bool run) \<Rightarrow> ups_unit list \<Rightarrow> nat list \<Rightarrow> nat option run" where
  "unit_loop P us [] = Some None"
| "unit_loop P us (i # is) = do {
     u \<leftarrow> buf_load us i;
     b \<leftarrow> P u;
     if b then Some (Some i) else unit_loop P us is
   }"

definition ups_unit_from_config :: "nat \<Rightarrow> ups_world \<Rightarrow> nat option run" where
  "ups_unit_from_config cfg w =
     unit_loop (\<lambda>u. Some (u_cfg u = Some cfg)) (ups_units w) [0..<ups_unit_count w]"

definition ups_unit_from_uid :: "u8 \<Rightarrow> ups_world \<Rightarrow> nat option run" where
  "ups_unit_from_uid uid w =
     unit_loop (\<lambda>u. case u_cfg u of None \<Rightarrow> Some False
         | Some c \<Rightarrow> do {
             conf \<leftarrow> buf_load (uw_cfgs w) c;
             Some (word_of_int (modbus_uid conf) = uid)
           }) (ups_units w) [0..<ups_unit_count w]"

text \<open>
  The interruptible sleep: \<open>obs k\<close> is what the \<open>k\<close>-th test of the running flag sees; the result
  counts the intervals slept.
\<close>

function sleep_loop :: "(nat \<Rightarrow> bool) \<Rightarrow> nat \<Rightarrow> nat \<Rightarrow> nat \<Rightarrow> nat" where
  "sleep_loop obs duration_ms elapsed_ms k =
     (if elapsed_ms < duration_ms \<and> obs k
      then sleep_loop obs duration_ms (elapsed_ms + UPS_SHUTDOWN_CHECK_INTERVAL_MS) (k + 1)
      else k)"
  by pat_completeness auto
termination
  by (relation "measure (\<lambda>(obs, d, e, k). d - e)") (auto simp: UPS_SHUTDOWN_CHECK_INTERVAL_MS_def)

declare sleep_loop.simps [simp del]

definition interruptible_sleep_ms :: "(nat \<Rightarrow> bool) \<Rightarrow> nat \<Rightarrow> nat" where
  "interruptible_sleep_ms obs duration_ms = sleep_loop obs duration_ms 0 0"

section \<open>Writing to a device\<close>

definition write_registers_to_device ::
  "bytes \<Rightarrow> u16 \<Rightarrow> u16 list \<Rightarrow> u16 \<Rightarrow> ups_write_mode \<Rightarrow> mb_tcp_client_ctx \<times> net
     \<Rightarrow> (int \<times> mb_tcp_client_ctx \<times> net) run" where
  "write_registers_to_device junk addr values count mode s = (case s of (tcp, n) \<Rightarrow>
     (let
        single = do {
          v \<leftarrow> buf_load values 0;
          mb_tcp_client_write_single_register junk (Some tcp) addr v n
        };
        multiple = mb_tcp_client_write_multiple_registers junk (Some tcp) addr count (Some values) n;
        finish = (\<lambda>(result, tcp', n'). do {
          tcp' \<leftarrow> tcp';
          Some (if result \<noteq> MB_TCP_CLIENT_OK then - 1 else (0 :: int), tcp', n')
        })
      in
      case mode of
        UPS_WRITE_MODE_FC06 \<Rightarrow>
          if count \<noteq> 1 then Some (- 1, tcp, n) else single \<bind> finish
      | UPS_WRITE_MODE_FC16 \<Rightarrow> multiple \<bind> finish
      | UPS_WRITE_MODE_AUTO \<Rightarrow> (if count = 1 then single else multiple) \<bind> finish))"

text \<open>
  The drain loop. The bridge may push commands at any time; \<open>pushes\<close> lists what it pushes before
  each pop, and nothing once the list is used up.
\<close>

definition apply_pushes :: "command list \<Rightarrow> ups_cmd_queue \<Rightarrow> ups_cmd_queue" where
  "apply_pushes xs q = fold (\<lambda>x q. case ring_enq x q of None \<Rightarrow> q | Some q' \<Rightarrow> q') xs q"

lemma queue_pop_less: "queue_pop q = Some (Some c, q') \<Longrightarrow> q_count q' < q_count q"
  by (auto simp: queue_pop_def split: bind_splits if_splits)

function drain_queue ::
  "bytes \<Rightarrow> command list list \<Rightarrow> ups_cmd_queue \<Rightarrow> mb_tcp_client_ctx \<times> net
     \<Rightarrow> (ups_cmd_queue \<times> mb_tcp_client_ctx \<times> net) run" where
  "drain_queue junk pushes q s =
     (let q0 = (case pushes of [] \<Rightarrow> q | p # _ \<Rightarrow> apply_pushes p q) in
      case queue_pop q0 of
        None \<Rightarrow> None
      | Some (None, q') \<Rightarrow> Some (q', s)
      | Some (Some cmd, q') \<Rightarrow>
          (case write_registers_to_device junk (cmd_addr cmd) (cmd_values cmd) (cmd_count cmd)
                  (cmd_mode cmd) s of
             None \<Rightarrow> None
           | Some (rc, s') \<Rightarrow> drain_queue junk (tl pushes) q' s'))"
  by pat_completeness auto
termination
  by (relation "measures [\<lambda>(junk, pushes, q, s). length pushes, \<lambda>(junk, pushes, q, s). q_count q]")
    (auto split: list.splits dest: queue_pop_less)

declare drain_queue.simps [simp del]

section \<open>The register scan\<close>

record ups_scan =
  sc_buf :: "u16 list"
  sc_fails :: int
  sc_tcp :: mb_tcp_client_ctx
  sc_net :: net
  sc_pool :: pool

text \<open>
  One segment of \<open>seg_len\<close> rows from row \<open>seg_start\<close>: the FC03 request and what becomes of its
  result; the flag asks to give up.
\<close>

definition scan_segment ::
  "bytes \<Rightarrow> device_map_profile \<Rightarrow> device_register_mapping list \<Rightarrow> nat \<Rightarrow> nat \<Rightarrow> ups_scan
     \<Rightarrow> (bool \<times> ups_scan) run" where
  "scan_segment junk pr tab seg_start seg_len s = do {
     e \<leftarrow> buf_load tab seg_start;
     let start = device_address e;
     let count = (word_of_nat seg_len :: u16);
     (result, tcp, buf, n) \<leftarrow>
       mb_tcp_client_read_holding_registers junk (Some (sc_tcp s)) start count (Some (sc_buf s)) (sc_net s);
     tcp \<leftarrow> tcp;
     buf \<leftarrow> buf;
     let s = s\<lparr>sc_tcp := tcp, sc_buf := buf, sc_net := n\<rparr>;
     if result \<noteq> MB_TCP_CLIENT_OK then
       (let s = s\<lparr>sc_fails := sc_fails s + 1\<rparr> in
        Some (sc_fails s \<ge> UPS_COMM_FAIL_THRESHOLD, s))
     else do {
       p \<leftarrow> device_map_read_to_pool (Some pr) (Some buf) start (int (unat count)) (sc_pool s);
       Some (False, s\<lparr>sc_fails := 0, sc_pool := p\<rparr>)
     }
   }"

definition row_contiguous :: "device_map_profile \<Rightarrow> device_register_mapping list \<Rightarrow> nat \<Rightarrow> bool run" where
  "row_contiguous pr tab i =
     (if i < table_count pr then do {
        a \<leftarrow> buf_load tab i;
        b \<leftarrow> buf_load tab (i - 1);
        Some (unat (device_address a) = unat (device_address b) + 1)
      } else Some False)"

fun scan_loop ::
  "bytes \<Rightarrow> device_map_profile \<Rightarrow> device_register_mapping list \<Rightarrow> nat list \<Rightarrow> nat \<Rightarrow> nat \<Rightarrow> ups_scan
     \<Rightarrow> (int \<times> ups_scan) run" where
  "scan_loop junk pr tab [] seg_start seg_len s = Some (0, s)"
| "scan_loop junk pr tab (i # is) seg_start seg_len s = do {
     contiguous \<leftarrow> row_contiguous pr tab i;
     let chunk_full = seg_len \<ge> unat (read_chunk pr);
     if contiguous \<and> \<not> chunk_full then scan_loop junk pr tab is seg_start (seg_len + 1) s
     else do {
       (give_up, s) \<leftarrow> scan_segment junk pr tab seg_start seg_len s;
       if give_up then Some (- 1, s) else scan_loop junk pr tab is i 1 s
     }
   }"

section \<open>Callbacks\<close>

text \<open>
  What the system answers during one connection attempt: the calls of \<open>connect\<close>, the mutex
  initialisation, and the connection if there is one.
\<close>

definition ups_client_config :: "module_config \<Rightarrow> mb_tcp_client_config" where
  "ups_client_config c = \<lparr>cc_remote_host = Some (cfg_ip c),
     cc_port = (if cfg_port c > 0 then word_of_int (cfg_port c) else 502),
     cc_bind_iface = None, cc_unit_id = word_of_int (modbus_uid c),
     cc_connect_timeout_sec = 5, cc_response_timeout_ms = 1000\<rparr>"

definition ups_tcp_init_callback ::
  "connect_env \<Rightarrow> int \<Rightarrow> net \<Rightarrow> nat option \<Rightarrow> ups_world \<Rightarrow> (int \<times> ups_world) run" where
  "ups_tcp_init_callback env rc_mutex_init fresh cfg w =
     (case cfg of
        None \<Rightarrow> Some (- 1, w)
      | Some c \<Rightarrow> do {
          k \<leftarrow> ups_unit_from_config c w;
          (case k of
             None \<Rightarrow> Some (- 1, w)
           | Some k \<Rightarrow> do {
               conf \<leftarrow> buf_load (uw_cfgs w) c;
               (rc, tcp, tr) \<leftarrow> mb_tcp_client_connect env rc_mutex_init
                 (Some (u_tcp (ups_units w ! k))) (Some (ups_client_config conf)) (uw_fds w);
               tcp \<leftarrow> tcp;
               let w = (upd_unit k (\<lambda>u. u\<lparr>u_tcp := tcp\<rparr>) w)\<lparr>uw_fds := tr\<rparr>;
               if rc \<noteq> 0 then Some (- 1, w)
               else Some (0, (upd_unit k (\<lambda>u. u\<lparr>comm_fail_count := 0\<rparr>) w)
                 \<lparr>uw_cfgs := (uw_cfgs w)[c := conf\<lparr>connection_state := CONNECTION_CONNECTED\<rparr>],
                   uw_net := fresh\<rparr>)
             })
        })"

definition ups_tcp_process_callback ::
  "bytes \<Rightarrow> command list list \<Rightarrow> nat option \<Rightarrow> ups_world \<Rightarrow> (int \<times> ups_world) run" where
  "ups_tcp_process_callback junk pushes cfg w =
     (case cfg of
        None \<Rightarrow> Some (- 1, w)
      | Some c \<Rightarrow> do {
          k \<leftarrow> ups_unit_from_config c w;
          (case k of
             None \<Rightarrow> Some (- 1, w)
           | Some k \<Rightarrow> do {
               let u = ups_units w ! k;
               (q, tcp, n) \<leftarrow> drain_queue junk pushes (cmd_queue u) (u_tcp u, uw_net w);
               let w = (upd_unit k (\<lambda>u. u\<lparr>cmd_queue := q, u_tcp := tcp\<rparr>) w)\<lparr>uw_net := n\<rparr>;
               pr \<leftarrow> u_profile u;
               if table_count pr = 0 then Some (0, w)
               else do {
                 tab \<leftarrow> prof_table pr;
                 (rc, s) \<leftarrow> scan_loop junk pr tab [1..<Suc (table_count pr)] 0 1
                   \<lparr>sc_buf = replicate (unat MODBUS_MAX_READ_REGISTERS) 0,
                    sc_fails = comm_fail_count u, sc_tcp = tcp, sc_net = n, sc_pool = uw_pool w\<rparr>;
                 Some (rc, (upd_unit k (\<lambda>u. u\<lparr>u_tcp := sc_tcp s, comm_fail_count := sc_fails s\<rparr>) w)
                   \<lparr>uw_net := sc_net s, uw_pool := sc_pool s\<rparr>)
               }
             })
        })"

definition ups_tcp_error_callback ::
  "nat option \<Rightarrow> connection_state \<Rightarrow> ups_world \<Rightarrow> (int \<times> ups_world) run" where
  "ups_tcp_error_callback cfg state w =
     (case cfg of
        None \<Rightarrow> Some (0, w)
      | Some c \<Rightarrow> do {
          k \<leftarrow> ups_unit_from_config c w;
          w \<leftarrow> (case k of
             None \<Rightarrow> Some w
           | Some k \<Rightarrow> do {
               (tcp, tr) \<leftarrow> mb_tcp_client_disconnect (Some (u_tcp (ups_units w ! k))) (uw_fds w);
               tcp \<leftarrow> tcp;
               Some ((upd_unit k (\<lambda>u. u\<lparr>u_tcp := tcp, comm_fail_count := 0\<rparr>) w)\<lparr>uw_fds := tr\<rparr>)
             });
          conf \<leftarrow> buf_load (uw_cfgs w) c;
          Some (0, w\<lparr>uw_cfgs := (uw_cfgs w)[c := conf\<lparr>connection_state := state\<rparr>]\<rparr>)
        })"

definition ups_msg_callback ::
  "bytes \<Rightarrow> nat option \<Rightarrow> u16 \<Rightarrow> u16 list option \<Rightarrow> nat \<Rightarrow> ups_world \<Rightarrow> (int \<times> ups_world) run" where
  "ups_msg_callback junk cfg addr values count w =
     (case (cfg, values) of
        (Some c, Some vs) \<Rightarrow>
          if count = 0 then Some (- 1, w)
          else do {
            k \<leftarrow> ups_unit_from_config c w;
            (case k of
               None \<Rightarrow> Some (- 1, w)
             | Some k \<Rightarrow> do {
                 (rc, tcp, n) \<leftarrow> write_registers_to_device junk addr vs (word_of_nat count)
                   UPS_WRITE_MODE_AUTO (u_tcp (ups_units w ! k), uw_net w);
                 Some (rc, (upd_unit k (\<lambda>u. u\<lparr>u_tcp := tcp\<rparr>) w)\<lparr>uw_net := n\<rparr>)
               })
          }
      | _ \<Rightarrow> Some (- 1, w))"

section \<open>Commands from the bridge\<close>

definition ups_cmd_push ::
  "u8 \<Rightarrow> u16 \<Rightarrow> u16 list option \<Rightarrow> u16 \<Rightarrow> ups_write_mode \<Rightarrow> ups_world \<Rightarrow> (int \<times> ups_world) run" where
  "ups_cmd_push uid addr values count mode w =
     (case values of
        None \<Rightarrow> Some (- 1, w)
      | Some vs \<Rightarrow>
          if count = 0 \<or> count > MODBUS_MAX_WRITE_REGISTERS then Some (- 1, w)
          else do {
            k \<leftarrow> ups_unit_from_uid uid w;
            (case k of
               None \<Rightarrow> Some (- 1, w)
             | Some k \<Rightarrow> do {
                 (rc, q) \<leftarrow> queue_push addr vs count mode (cmd_queue (ups_units w ! k));
                 Some (rc, upd_unit k (\<lambda>u. u\<lparr>cmd_queue := q\<rparr>) w)
               })
          })"

section \<open>Start and stop\<close>

text \<open>
  One configured module; \<open>created\<close> is whether its thread could be created. The state is the
  status and the world.
\<close>

definition start_one_module :: "(nat \<Rightarrow> bool) \<Rightarrow> nat \<Rightarrow> int \<times> ups_world \<Rightarrow> (int \<times> ups_world) run" where
  "start_one_module created i s = (case s of (status, w) \<Rightarrow> do {
     conf \<leftarrow> buf_load (uw_cfgs w) i;
     if \<not> cfg_enabled conf then Some (status, w)
     else (case ups_find_profile_by_uid (word_of_int (modbus_uid conf)) of
         None \<Rightarrow> Some (- 1, w)
       | Some pr \<Rightarrow> do {
           u \<leftarrow> buf_load (ups_units w) (ups_unit_count w);
           let u = u\<lparr>u_cfg := Some i, u_profile := Some pr, u_running := True, comm_fail_count := 0,
                      u_tcp := zero_client_ctx, cmd_queue := queue_init\<rparr>;
           if created i then
             Some (status, w\<lparr>ups_units := (ups_units w)[ups_unit_count w := u],
                              ups_unit_count := ups_unit_count w + 1\<rparr>)
           else do {
             q \<leftarrow> queue_destroy (cmd_queue u);
             Some (- 1, w\<lparr>ups_units := (ups_units w)[ups_unit_count w := u\<lparr>cmd_queue := q, u_running := False\<rparr>]\<rparr>)
           }
         })
   })"

definition start_ups_modules ::
  "(nat \<Rightarrow> bool) \<Rightarrow> int \<Rightarrow> nat \<Rightarrow> ups_world \<Rightarrow> (int \<times> ups_world) run" where
  "start_ups_modules created bridge_rc cnt w = do {
     (status, w) \<leftarrow> foldM (start_one_module created) [0..<cnt] (0, w\<lparr>ups_unit_count := 0\<rparr>);
     Some (if bridge_rc \<noteq> 0 then - 1 else status, w)
   }"

text \<open>
  The two loops of \<open>stop_ups_modules\<close>, for one unit. The joins are waits: what the threads do
  until they return is in \<open>Daemon_Stop\<close>. The bridge is stopped by the caller, as it is started.
\<close>

definition clear_running :: "nat \<Rightarrow> ups_unit list \<Rightarrow> ups_unit list run" where
  "clear_running i us = do {
     u \<leftarrow> buf_load us i;
     buf_store i (u\<lparr>u_running := False\<rparr>) us
   }"

definition release_queue :: "nat \<Rightarrow> ups_unit list \<Rightarrow> ups_unit list run" where
  "release_queue i us = do {
     u \<leftarrow> buf_load us i;
     q \<leftarrow> queue_destroy (cmd_queue u);
     buf_store i (u\<lparr>cmd_queue := q\<rparr>) us
   }"

definition stop_ups_modules :: "ups_world \<Rightarrow> (int \<times> ups_world) run" where
  "stop_ups_modules w = do {
     us \<leftarrow> foldM clear_running [0..<ups_unit_count w] (ups_units w);
     us \<leftarrow> foldM release_queue [0..<ups_unit_count w] us;
     Some (0, w\<lparr>ups_units := us, ups_unit_count := 0\<rparr>)
   }"

section \<open>The poll thread\<close>

text \<open>
  Where the thread of a unit is: at the test of the outer loop, at the test of the inner loop,
  returned, or past undefined behaviour. A step is one pass from test to test, or a step of the
  rest of the program: a command pushed, the running flag cleared, bytes arriving. \<open>nofile\<close> is the limit
  of the process on its descriptors (\<open>RLIMIT_NOFILE\<close>): \<open>socket\<close> returns one below it or fails.
\<close>

datatype ups_phase = At_outer | At_inner | Returned_thread | Undefined_behaviour

inductive ups_thread_step :: "int \<Rightarrow> nat \<Rightarrow> ups_phase \<times> ups_world \<Rightarrow> ups_phase \<times> ups_world \<Rightarrow> bool" for nofile k where
  init_failed: "u_running (ups_units w ! k) \<Longrightarrow> rc_socket env < nofile
     \<Longrightarrow> ups_tcp_init_callback env rc fresh (u_cfg (ups_units w ! k)) w = Some (r, w') \<Longrightarrow> r \<noteq> 0
     \<Longrightarrow> ups_thread_step nofile k (At_outer, w) (At_outer, w')"
| init_done: "u_running (ups_units w ! k) \<Longrightarrow> rc_socket env < nofile
     \<Longrightarrow> ups_tcp_init_callback env rc fresh (u_cfg (ups_units w ! k)) w = Some (0, w')
     \<Longrightarrow> ups_thread_step nofile k (At_outer, w) (At_inner, w')"
| init_undefined: "u_running (ups_units w ! k) \<Longrightarrow> rc_socket env < nofile
     \<Longrightarrow> ups_tcp_init_callback env rc fresh (u_cfg (ups_units w ! k)) w = None
     \<Longrightarrow> ups_thread_step nofile k (At_outer, w) (Undefined_behaviour, w)"
| process_done: "u_running (ups_units w ! k) \<Longrightarrow> length junk = 260
     \<Longrightarrow> (\<forall>x\<in>set (concat pushes). command_ok x)
     \<Longrightarrow> ups_tcp_process_callback junk pushes (u_cfg (ups_units w ! k)) w = Some (0, w')
     \<Longrightarrow> ups_thread_step nofile k (At_inner, w) (At_inner, w')"
| process_failed: "u_running (ups_units w ! k) \<Longrightarrow> length junk = 260
     \<Longrightarrow> (\<forall>x\<in>set (concat pushes). command_ok x)
     \<Longrightarrow> ups_tcp_process_callback junk pushes (u_cfg (ups_units w ! k)) w = Some (r, w1) \<Longrightarrow> r \<noteq> 0
     \<Longrightarrow> ups_tcp_error_callback (u_cfg (ups_units w1 ! k)) CONNECTION_DISCONNECTED w1 = Some (e, w')
     \<Longrightarrow> ups_thread_step nofile k (At_inner, w) (At_outer, w')"
| process_undefined: "u_running (ups_units w ! k) \<Longrightarrow> length junk = 260
     \<Longrightarrow> (\<forall>x\<in>set (concat pushes). command_ok x)
     \<Longrightarrow> (case ups_tcp_process_callback junk pushes (u_cfg (ups_units w ! k)) w of
            None \<Rightarrow> True
          | Some (r, w1) \<Rightarrow> r \<noteq> 0
              \<and> ups_tcp_error_callback (u_cfg (ups_units w1 ! k)) CONNECTION_DISCONNECTED w1 = None)
     \<Longrightarrow> ups_thread_step nofile k (At_inner, w) (Undefined_behaviour, w)"
| inner_stopped: "\<not> u_running (ups_units w ! k)
     \<Longrightarrow> ups_thread_step nofile k (At_inner, w) (At_outer, w)"
| thread_stopped: "\<not> u_running (ups_units w ! k)
     \<Longrightarrow> mb_tcp_client_disconnect (Some (u_tcp (ups_units w ! k))) (uw_fds w) = Some (Some tcp, tr)
     \<Longrightarrow> ups_thread_step nofile k (At_outer, w)
          (Returned_thread, (upd_unit k (\<lambda>u. u\<lparr>u_tcp := tcp\<rparr>) w)\<lparr>uw_fds := tr\<rparr>)"
| stop_undefined: "\<not> u_running (ups_units w ! k)
     \<Longrightarrow> mb_tcp_client_disconnect (Some (u_tcp (ups_units w ! k))) (uw_fds w) = None
     \<Longrightarrow> ups_thread_step nofile k (At_outer, w) (Undefined_behaviour, w)"
| bridge_push: "command_ok x \<Longrightarrow> ring_enq x (cmd_queue (ups_units w ! k)) = Some q
     \<Longrightarrow> ups_thread_step nofile k (ph, w) (ph, upd_unit k (\<lambda>u. u\<lparr>cmd_queue := q\<rparr>) w)"
| stop_signal: "ups_thread_step nofile k (ph, w) (ph, upd_unit k (\<lambda>u. u\<lparr>u_running := False\<rparr>) w)"
| bytes_arrive: "ups_thread_step nofile k (ph, w) (ph, w\<lparr>uw_net := (uw_net w)\<lparr>net_rx := net_rx (uw_net w) @ evs\<rparr>\<rparr>)"

inductive_cases step_from_outer: "ups_thread_step nofile k (At_outer, w) s'"
inductive_cases step_from_inner: "ups_thread_step nofile k (At_inner, w) s'"

inductive ups_thread_reach :: "int \<Rightarrow> nat \<Rightarrow> ups_phase \<times> ups_world \<Rightarrow> ups_phase \<times> ups_world \<Rightarrow> bool" for nofile k where
  reach_start: "ups_thread_reach nofile k s s"
| reach_next: "ups_thread_reach nofile k s s' \<Longrightarrow> ups_thread_step nofile k s' s'' \<Longrightarrow> ups_thread_reach nofile k s s''"

section \<open>Commands on the wire\<close>

text \<open>The PDU of a command, and the frames a list of commands gives, with consecutive tids.\<close>

definition cmd_single :: "command \<Rightarrow> bool" where
  "cmd_single x = (case x of (a, vs, m) \<Rightarrow>
     m = UPS_WRITE_MODE_FC06 \<or> m = UPS_WRITE_MODE_AUTO \<and> length vs = 1)"

definition cmd_dropped :: "command \<Rightarrow> bool" where
  "cmd_dropped x = (case x of (a, vs, m) \<Rightarrow> m = UPS_WRITE_MODE_FC06 \<and> length vs \<noteq> 1)"

definition cmd_pdu :: "command \<Rightarrow> bytes" where
  "cmd_pdu x = (case x of (a, vs, m) \<Rightarrow>
     if cmd_single x then request_pdu MODBUS_FUNC_WRITE_SINGLE_REGISTER a (vs ! 0) else fc16_pdu a vs)"

fun cmd_frames :: "u16 \<Rightarrow> u8 \<Rightarrow> command list \<Rightarrow> bytes list" where
  "cmd_frames tid uid [] = []"
| "cmd_frames tid uid (x # xs) =
     (if cmd_dropped x then cmd_frames tid uid xs
      else adu (bump_tid tid) uid (cmd_pdu x) # cmd_frames (bump_tid tid) uid xs)"

fun cmd_tid :: "u16 \<Rightarrow> command list \<Rightarrow> u16" where
  "cmd_tid tid [] = tid"
| "cmd_tid tid (x # xs) = cmd_tid (if cmd_dropped x then tid else bump_tid tid) xs"

lemma cmd_frames_append:
  "cmd_frames tid uid (xs @ ys) = cmd_frames tid uid xs @ cmd_frames (cmd_tid tid xs) uid ys"
  by (induction xs arbitrary: tid) auto

lemma client_ready_tid [simp]: "client_ready (c\<lparr>cl_tid := t\<rparr>) = client_ready c"
  by (simp add: client_ready_def)

lemma write_device:
  assumes "client_ready c" and "length junk = 260" and "0 < count" and "count \<le> 123"
    and "unat count \<le> length vs" and "x = (a, take (unat count) vs, m)"
  shows "\<exists>rc c' n'. write_registers_to_device junk a vs count m (c, n) = Some (rc, c', n')
    \<and> (rc = 0 \<or> rc = - 1) \<and> c' = c\<lparr>cl_tid := cmd_tid (cl_tid c) [x]\<rparr>
    \<and> net_tx n' = net_tx n @ cmd_frames (cl_tid c) (cc_unit_id (cl_cfg c)) [x]"
proof -
  have u: "0 < unat count" "unat count \<le> 123"
    using assms(3,4) by (simp_all add: word_less_nat_alt word_le_nat_alt)
  have one: "count = 1 \<longleftrightarrow> unat count = 1" by (auto simp: word_unat_eq_iff)
  have lx: "length (take (unat count) vs) = unat count" using assms(5) by simp
  have v0: "buf_load vs 0 = Some (take (unat count) vs ! 0)"
    using u assms(5) by (auto simp: buf_load_def)
  obtain rs ns where s: "mb_tcp_client_write_single_register junk (Some c) a (take (unat count) vs ! 0) n
      = Some (rs, Some (c\<lparr>cl_tid := bump_tid (cl_tid c)\<rparr>), ns)"
      "net_tx ns = net_tx n @ [adu (bump_tid (cl_tid c)) (cc_unit_id (cl_cfg c))
        (request_pdu MODBUS_FUNC_WRITE_SINGLE_REGISTER a (take (unat count) vs ! 0))]"
    using write_single_safe [OF assms(1,2)] by blast
  obtain rm nm where mm: "mb_tcp_client_write_multiple_registers junk (Some c) a count (Some vs) n
      = Some (rm, Some (c\<lparr>cl_tid := bump_tid (cl_tid c)\<rparr>), nm)"
      "net_tx nm = net_tx n @ [adu (bump_tid (cl_tid c)) (cc_unit_id (cl_cfg c))
        (fc16_pdu a (take (unat count) vs))]"
    using write_multiple_safe [OF assms(1-5)] by blast
  show ?thesis
    using s mm v0 lx one u
    by (cases m; cases "count = 1")
      (auto simp: write_registers_to_device_def assms(6) cmd_dropped_def cmd_pdu_def cmd_single_def)
qed

section \<open>Draining\<close>

lemma apply_pushes_ok:
  assumes "queue_inv q" and "\<forall>x\<in>set xs. command_ok x"
  shows "\<exists>acc. queue_inv (apply_pushes xs q) \<and> queue_abs (apply_pushes xs q) = queue_abs q @ acc
    \<and> subseq acc xs"
  using assms
proof (induction xs arbitrary: q)
  case Nil
  then show ?case by (simp add: apply_pushes_def)
next
  case (Cons x xs)
  have step: "apply_pushes (x # xs) q
      = apply_pushes xs (case ring_enq x q of None \<Rightarrow> q | Some q' \<Rightarrow> q')"
    by (simp add: apply_pushes_def)
  show ?case
  proof (cases "ring_enq x q")
    case None
    then show ?thesis using Cons(1) [OF Cons(2)] Cons(3) step by (auto intro: list_emb_Cons)
  next
    case (Some q1)
    then have q1: "queue_inv q1" "queue_abs q1 = queue_abs q @ [x]"
      using ring_enq_ok [OF Cons(2), of x] Cons(3) by auto
    then obtain acc where "queue_inv (apply_pushes xs q1)" "subseq acc xs"
        "queue_abs (apply_pushes xs q1) = queue_abs q1 @ acc"
      using Cons(1) [OF q1(1)] Cons(3) by auto
    then show ?thesis using Some q1 step by (intro exI [of _ "x # acc"]) simp
  qed
qed

lemma subseq_set_le: "subseq xs ys \<Longrightarrow> set xs \<subseteq> set ys"
  by (auto elim: list_emb_set)

lemma cmd_abs_wf: "cmd_wf c \<Longrightarrow> command_ok (cmd_abs c) \<Longrightarrow> 0 < cmd_count c \<and> cmd_count c \<le> 123
    \<and> unat (cmd_count c) \<le> length (cmd_values c)"
  by (auto simp: cmd_wf_def cmd_abs_def command_ok_def word_le_nat_alt word_less_nat_alt)

lemma drain_queue_ok:
  assumes "queue_inv q" and "list_all command_ok (queue_abs q)" and "client_ready c" and "length junk = 260"
    and "\<forall>x\<in>set (concat pushes). command_ok x"
  shows "\<exists>acc q' n'. drain_queue junk pushes q (c, n)
      = Some (q', c\<lparr>cl_tid := cmd_tid (cl_tid c) (queue_abs q @ acc)\<rparr>, n')
    \<and> queue_inv q' \<and> queue_abs q' = [] \<and> subseq acc (concat pushes)
    \<and> net_tx n' = net_tx n @ cmd_frames (cl_tid c) (cc_unit_id (cl_cfg c)) (queue_abs q @ acc)"
  using assms
proof (induction junk pushes q "(c, n)" arbitrary: c n rule: drain_queue.induct)
  case (1 junk pushes q)
  define q0 where "q0 = (case pushes of [] \<Rightarrow> q | p # _ \<Rightarrow> apply_pushes p q)"
  have "\<exists>acc. queue_inv q0 \<and> queue_abs q0 = queue_abs q @ acc \<and> subseq acc (concat (take 1 pushes))"
  proof (cases pushes)
    case Nil
    then show ?thesis using 1(2) by (simp add: q0_def)
  next
    case (Cons p ps)
    then show ?thesis using apply_pushes_ok [OF 1(2), of p] 1(6) by (simp add: q0_def)
  qed
  then obtain acc0 where q0: "queue_inv q0" "queue_abs q0 = queue_abs q @ acc0"
      "subseq acc0 (concat (take 1 pushes))"
    by blast
  have cc: "concat pushes = concat (take 1 pushes) @ concat (tl pushes)"
    by (cases pushes) simp_all
  have ok0: "list_all command_ok (queue_abs q0)"
    using q0(2,3) 1(3,6) cc by (auto simp: list_all_iff dest!: subseq_set_le)
  have unfold: "drain_queue junk pushes q (c, n) =
     (case queue_pop q0 of
        None \<Rightarrow> None
      | Some (None, q') \<Rightarrow> Some (q', c, n)
      | Some (Some cmd, q') \<Rightarrow>
          (case write_registers_to_device junk (cmd_addr cmd) (cmd_values cmd) (cmd_count cmd)
                  (cmd_mode cmd) (c, n) of
             None \<Rightarrow> None
           | Some (rc, s') \<Rightarrow> drain_queue junk (tl pushes) q' s'))"
    by (subst drain_queue.simps) (simp add: q0_def Let_def)
  from queue_pop_ok [OF q0(1)] show ?case
  proof (elim disjE exE conjE)
    assume pop: "queue_pop q0 = Some (None, q0)" and empty: "queue_abs q0 = []"
    then show ?thesis using unfold q0 by (intro exI [of _ "[]"]) simp
  next
    fix cmd q' assume pop: "queue_pop q0 = Some (Some cmd, q')" and inv': "queue_inv q'"
      and wf: "cmd_wf cmd" and abs: "queue_abs q0 = cmd_abs cmd # queue_abs q'"
    have "command_ok (cmd_abs cmd)" using ok0 abs by simp
    note args = cmd_abs_wf [OF wf this]
    obtain rc n1 where w: "write_registers_to_device junk (cmd_addr cmd) (cmd_values cmd) (cmd_count cmd)
          (cmd_mode cmd) (c, n) = Some (rc, c\<lparr>cl_tid := cmd_tid (cl_tid c) [cmd_abs cmd]\<rparr>, n1)"
        "net_tx n1 = net_tx n @ cmd_frames (cl_tid c) (cc_unit_id (cl_cfg c)) [cmd_abs cmd]"
      using write_device [OF 1(4,5) _ _ _ cmd_abs_def] args by blast
    let ?c = "c\<lparr>cl_tid := cmd_tid (cl_tid c) [cmd_abs cmd]\<rparr>"
    have "list_all command_ok (queue_abs q')" "client_ready ?c"
        "\<forall>x\<in>set (concat (tl pushes)). command_ok x"
      using ok0 abs 1(4,6) cc by auto
    from "1.hyps" [OF q0_def pop refl refl w(1) refl inv' this(1,2) 1(5) this(3)]
    obtain acc1 q2 n2 where r: "drain_queue junk (tl pushes) q' (?c, n1)
        = Some (q2, ?c\<lparr>cl_tid := cmd_tid (cl_tid ?c) (queue_abs q' @ acc1)\<rparr>, n2)"
        "queue_inv q2" "queue_abs q2 = []" "subseq acc1 (concat (tl pushes))"
        "net_tx n2 = net_tx n1 @ cmd_frames (cl_tid ?c) (cc_unit_id (cl_cfg ?c)) (queue_abs q' @ acc1)"
      by blast
    have all: "queue_abs q @ acc0 @ acc1 = cmd_abs cmd # queue_abs q' @ acc1"
      using abs q0(2) by simp
    have "subseq (acc0 @ acc1) (concat pushes)"
      using q0(3) r(4) unfolding cc by (rule list_emb_append_mono)
    moreover have "net_tx n2 = net_tx n @ cmd_frames (cl_tid c) (cc_unit_id (cl_cfg c))
        (queue_abs q @ acc0 @ acc1)"
      using r(5) w(2) unfolding all by simp
    moreover have "drain_queue junk pushes q (c, n)
        = Some (q2, c\<lparr>cl_tid := cmd_tid (cl_tid c) (queue_abs q @ acc0 @ acc1)\<rparr>, n2)"
      using unfold pop w(1) r(1) unfolding all by simp
    ultimately show ?thesis using r(2,3) by blast
  qed
qed

section \<open>Segments\<close>

text \<open>The scan loop reduced to the segments it reads: pairs of first row and number of rows.\<close>

fun seg_loop :: "(nat \<Rightarrow> bool) \<Rightarrow> nat \<Rightarrow> nat list \<Rightarrow> nat \<Rightarrow> nat \<Rightarrow> (nat \<times> nat) list" where
  "seg_loop cont chunk [] start len = []"
| "seg_loop cont chunk (i # is) start len =
     (if cont i \<and> len < chunk then seg_loop cont chunk is start (len + 1)
      else (start, len) # seg_loop cont chunk is i 1)"

definition row_next :: "device_register_mapping list \<Rightarrow> nat \<Rightarrow> bool" where
  "row_next tab i \<longleftrightarrow> i < length tab
     \<and> unat (device_address (tab ! i)) = unat (device_address (tab ! (i - 1))) + 1"

definition segments :: "device_map_profile \<Rightarrow> device_register_mapping list \<Rightarrow> (nat \<times> nat) list" where
  "segments pr tab = seg_loop (row_next tab) (unat (read_chunk pr)) [1..<Suc (length tab)] 0 1"

fun run_segments ::
  "bytes \<Rightarrow> device_map_profile \<Rightarrow> device_register_mapping list \<Rightarrow> (nat \<times> nat) list \<Rightarrow> ups_scan
     \<Rightarrow> (int \<times> ups_scan) run" where
  "run_segments junk pr tab [] s = Some (0, s)"
| "run_segments junk pr tab ((start, len) # segs) s = do {
     (give_up, s) \<leftarrow> scan_segment junk pr tab start len s;
     if give_up then Some (- 1, s) else run_segments junk pr tab segs s
   }"

lemma row_contiguous_ok:
  assumes "wf_profile pr tab"
  shows "row_contiguous pr tab i = Some (row_next tab i)"
  using assms by (auto simp: row_contiguous_def row_next_def wf_profile_def buf_load_def)

lemma scan_loop_segments:
  assumes "wf_profile pr tab"
  shows "scan_loop junk pr tab is start len s
    = run_segments junk pr tab (seg_loop (row_next tab) (unat (read_chunk pr)) is start len) s"
proof (induction "is" arbitrary: start len s)
  case (Cons i "is")
  show ?case
    by (cases "scan_segment junk pr tab start len s")
      (auto simp: row_contiguous_ok [OF assms] Let_def not_less Cons)
qed simp

lemma seg_loop_partition:
  assumes "1 \<le> len" and "start + len = i" and "i \<le> n" and "\<not> cont n"
  shows "concat (map (\<lambda>(a, l). [a..<a + l]) (seg_loop cont chunk [i..<Suc n] start len)) = [start..<n]
    \<and> ((\<forall>j. start < j \<and> j < i \<longrightarrow> cont j) \<and> len \<le> max 1 chunk \<longrightarrow>
       (\<forall>(a, l) \<in> set (seg_loop cont chunk [i..<Suc n] start len).
         1 \<le> l \<and> l \<le> max 1 chunk \<and> (\<forall>j. a < j \<and> j < a + l \<longrightarrow> cont j)))"
  using assms
proof (induction "n - i" arbitrary: i start len)
  case 0
  then have "i = n" by simp
  then show ?case using 0 by auto
next
  case (Suc d)
  then have i: "i < n" by simp
  then have up: "[i..<Suc n] = i # [Suc i..<Suc n]" by (simp add: upt_conv_Cons del: upt_Suc)
  show ?case
  proof (cases "cont i \<and> len < chunk")
    case True
    have "\<forall>j. start < j \<and> j < i \<longrightarrow> cont j \<Longrightarrow> \<forall>j. start < j \<and> j < Suc i \<longrightarrow> cont j"
      using True by (auto simp: less_Suc_eq)
    then show ?thesis
      using Suc(1) [of "Suc i" "Suc len" start] Suc(2-) True i unfolding up by auto
  next
    case False
    have "[start..<n] = [start..<start + len] @ [i..<n]"
      using Suc(4) i upt_add_eq_append [of start i "n - i"] by simp
    then show ?thesis
      using Suc(1) [of "Suc i" 1 i] Suc(2-) False i unfolding up by auto
  qed
qed

lemma seg_loop_whole:
  assumes "\<forall>j. i \<le> j \<and> j < n \<longrightarrow> cont j" and "\<not> cont n" and "i \<le> n" and "n \<le> chunk"
    and "start + len = i" and "1 \<le> i"
  shows "seg_loop cont chunk [i..<Suc n] start len = [(start, len + (n - i))]"
  using assms
proof (induction "n - i" arbitrary: i len)
  case 0
  then show ?case by auto
next
  case (Suc d)
  then have up: "[i..<Suc n] = i # [Suc i..<Suc n]" and "i < n"
    by (simp_all add: upt_conv_Cons del: upt_Suc)
  then show ?case using Suc(1) [of "Suc i" "Suc len"] Suc(2-) unfolding up by auto
qed

lemma ups1_row_next: "row_next ups1_mapping_table i \<longleftrightarrow> i < 22 \<and> 1 \<le> i"
proof (cases "i < 22")
  case True
  then have "unat (device_address (ups1_mapping_table ! i)) = i"
      "unat (device_address (ups1_mapping_table ! (i - 1))) = i - 1"
    by (simp_all add: ups1_row unat_of_nat_small)
  then show ?thesis using True by (auto simp: row_next_def)
qed (simp add: row_next_def)

lemma ups1_segments: "segments ups1_profile ups1_mapping_table = [(0, 22)]"
  using seg_loop_whole [of 1 22 "row_next ups1_mapping_table" 50 0 1]
  by (simp add: segments_def ups1_row_next ups1_profile_def del: upt_Suc)

section \<open>The scan never fails on a well-formed profile\<close>

definition scan_inv :: "ups_scan \<Rightarrow> bool" where
  "scan_inv s \<longleftrightarrow> client_ready (sc_tcp s) \<and> length (sc_buf s) = 125"

lemma scan_segment_ok:
  assumes "wf_profile pr tab" and "scan_inv s" and "length junk = 260"
    and "start < length tab" and "0 < len" and "len \<le> 125"
  shows "\<exists>give_up s'. scan_segment junk pr tab start len s = Some (give_up, s') \<and> scan_inv s'
    \<and> cl_cfg (sc_tcp s') = cl_cfg (sc_tcp s) \<and> cl_sock (sc_tcp s') = cl_sock (sc_tcp s)
    \<and> net_tx (sc_net s') = net_tx (sc_net s) @ [adu (bump_tid (cl_tid (sc_tcp s)))
        (cc_unit_id (cl_cfg (sc_tcp s))) (request_pdu MODBUS_FUNC_READ_HOLDING_REGISTERS
          (device_address (tab ! start)) (word_of_nat len))]
    \<and> cl_tid (sc_tcp s') = bump_tid (cl_tid (sc_tcp s))
    \<and> (give_up \<longrightarrow> 5 \<le> sc_fails s')"
proof -
  let ?q = "word_of_nat len :: u16"
  have q: "unat ?q = len" "?q \<noteq> 0" "?q \<le> 125"
    using assms(5,6) by (auto simp: unat_of_nat_small word_le_nat_alt simp flip: unat_gt_0)
  have args: "read_args_ok (sc_tcp s) ?q" and lb: "unat ?q \<le> length (sc_buf s)"
    using assms(2,6) q by (simp_all add: read_args_ok_def scan_inv_def)
  obtain rc out n' where r: "mb_tcp_client_read_holding_registers junk (Some (sc_tcp s))
        (device_address (tab ! start)) ?q (Some (sc_buf s)) (sc_net s)
      = Some (rc, Some ((sc_tcp s)\<lparr>cl_tid := bump_tid (cl_tid (sc_tcp s))\<rparr>), Some out, n')"
      "length out = length (sc_buf s)"
      "net_tx n' = net_tx (sc_net s) @ [adu (bump_tid (cl_tid (sc_tcp s))) (cc_unit_id (cl_cfg (sc_tcp s)))
        (request_pdu MODBUS_FUNC_READ_HOLDING_REGISTERS (device_address (tab ! start)) ?q)]"
    using read_safe_aux [OF args assms(3) lb] by blast
  have ld: "buf_load tab start = Some (tab ! start)" using assms(4) by (simp add: buf_load_def)
  obtain p where pool: "device_map_read_to_pool (Some pr) (Some out) (device_address (tab ! start))
      (int (unat ?q)) (sc_pool s) = Some p"
    using device_map_read_to_pool_wf [OF assms(1), of "unat ?q" out] r(2) lb by simp
  show ?thesis
  proof (cases "rc = MB_TCP_CLIENT_OK")
    case True
    then show ?thesis
      using r ld pool assms(2)
      by (intro exI [of _ False]) (simp add: scan_segment_def scan_inv_def)
  next
    case False
    then show ?thesis
      using r ld assms(2)
      by (simp add: scan_segment_def scan_inv_def Let_def UPS_COMM_FAIL_THRESHOLD_def)
  qed
qed

text \<open>The frames of a scan that reads all of its segments.\<close>

fun seg_frames :: "u16 \<Rightarrow> u8 \<Rightarrow> device_register_mapping list \<Rightarrow> (nat \<times> nat) list \<Rightarrow> bytes list" where
  "seg_frames tid uid tab [] = []"
| "seg_frames tid uid tab ((start, len) # segs) =
     adu (bump_tid tid) uid (request_pdu MODBUS_FUNC_READ_HOLDING_REGISTERS
       (device_address (tab ! start)) (word_of_nat len)) # seg_frames (bump_tid tid) uid tab segs"

lemma run_segments_ok:
  assumes "wf_profile pr tab" and "scan_inv s" and "length junk = 260"
    and "\<forall>(a, l) \<in> set segs. a < length tab \<and> 0 < l \<and> l \<le> 125"
  shows "\<exists>rc s'. run_segments junk pr tab segs s = Some (rc, s') \<and> scan_inv s' \<and> cl_sock (sc_tcp s') = cl_sock (sc_tcp s)
    \<and> (rc = 0 \<or> rc = - 1) \<and> (rc = - 1 \<longrightarrow> 5 \<le> sc_fails s')
    \<and> (\<exists>k. net_tx (sc_net s') = net_tx (sc_net s)
          @ take k (seg_frames (cl_tid (sc_tcp s)) (cc_unit_id (cl_cfg (sc_tcp s))) tab segs)
        \<and> (rc = 0 \<longrightarrow> k = length segs))"
  using assms(2,4)
proof (induction segs arbitrary: s)
  case Nil
  then show ?case by auto
next
  case (Cons seg segs)
  obtain a l where seg: "seg = (a, l)" by force
  obtain g s1 where s1: "scan_segment junk pr tab a l s = Some (g, s1)" "scan_inv s1"
      "cl_cfg (sc_tcp s1) = cl_cfg (sc_tcp s)" "cl_sock (sc_tcp s1) = cl_sock (sc_tcp s)"
      "net_tx (sc_net s1) = net_tx (sc_net s) @ [adu (bump_tid (cl_tid (sc_tcp s)))
        (cc_unit_id (cl_cfg (sc_tcp s))) (request_pdu MODBUS_FUNC_READ_HOLDING_REGISTERS
          (device_address (tab ! a)) (word_of_nat l))]"
      "cl_tid (sc_tcp s1) = bump_tid (cl_tid (sc_tcp s))" "g \<longrightarrow> 5 \<le> sc_fails s1"
    using scan_segment_ok [OF assms(1) Cons(2) assms(3), of a l] Cons(3) seg by auto
  show ?case
  proof (cases g)
    case True
    then show ?thesis
      using s1 True seg by (auto intro!: exI [of _ 1])
  next
    case False
    obtain rc s2 k where s2: "run_segments junk pr tab segs s1 = Some (rc, s2)" "scan_inv s2"
        "cl_sock (sc_tcp s2) = cl_sock (sc_tcp s1)"
        "rc = 0 \<or> rc = - 1" "rc = - 1 \<longrightarrow> 5 \<le> sc_fails s2"
        "net_tx (sc_net s2) = net_tx (sc_net s1)
          @ take k (seg_frames (cl_tid (sc_tcp s1)) (cc_unit_id (cl_cfg (sc_tcp s1))) tab segs)"
        "rc = 0 \<longrightarrow> k = length segs"
      using Cons(1) [OF s1(2)] Cons(3) by auto
    then show ?thesis
      using s1 False seg by (auto intro!: exI [of _ "Suc k"])
  qed
qed

section \<open>A poll cycle\<close>

text \<open>
  Unit \<open>k\<close> is set up: it is the unit of configuration \<open>c\<close>, has a well-formed profile whose
  segments fit one request, and a well-formed queue of commands.
\<close>

definition unit_wf ::
  "ups_world \<Rightarrow> nat \<Rightarrow> nat \<Rightarrow> device_map_profile \<Rightarrow> device_register_mapping list \<Rightarrow> bool" where
  "unit_wf w k c pr tab \<longleftrightarrow>
     k < ups_unit_count w \<and> ups_unit_count w \<le> length (ups_units w)
   \<and> (\<forall>j<k. u_cfg (ups_units w ! j) \<noteq> Some c) \<and> u_cfg (ups_units w ! k) = Some c
   \<and> c < length (uw_cfgs w) \<and> u_profile (ups_units w ! k) = Some pr
   \<and> wf_profile pr tab \<and> read_chunk pr \<le> 125
   \<and> queue_inv (cmd_queue (ups_units w ! k)) \<and> list_all command_ok (queue_abs (cmd_queue (ups_units w ! k)))"

lemma unit_loop_first:
  assumes "k < n" and "n \<le> length us" and "\<forall>i<n. P (us ! i) = Some (Q i)" and "\<forall>j<k. \<not> Q j" and "Q k"
  shows "unit_loop P us [0..<n] = Some (Some k)"
proof -
  have "unit_loop P us [j..<n] = Some (Some k)" if "j \<le> k" for j
    using that
  proof (induction "k - j" arbitrary: j)
    case 0
    then show ?case
      using assms by (simp add: upt_conv_Cons buf_load_def)
  next
    case (Suc d)
    then have "j < n" using assms(1) by simp
    then show ?case
      using Suc(1) [of "Suc j"] Suc(2,3) assms
      by (simp add: upt_conv_Cons buf_load_def)
  qed
  then show ?thesis by blast
qed

lemma unit_wf_lookup:
  assumes "unit_wf w k c pr tab"
  shows "ups_unit_from_config c w = Some (Some k)"
  unfolding ups_unit_from_config_def
  using assms
  by (intro unit_loop_first [where Q = "\<lambda>i. u_cfg (ups_units w ! i) = Some c"]) (auto simp: unit_wf_def)

lemma segments_ok:
  assumes "wf_profile pr tab" and "read_chunk pr \<le> 125"
  shows "\<forall>(a, l) \<in> set (segments pr tab). a < length tab \<and> 0 < l \<and> l \<le> 125"
    and "tab \<noteq> [] \<Longrightarrow> concat (map (\<lambda>(a, l). [a..<a + l]) (segments pr tab)) = [0..<length tab]"
    and "\<forall>(a, l) \<in> set (segments pr tab). 1 \<le> l \<and> l \<le> max 1 (unat (read_chunk pr))
      \<and> (\<forall>j. a < j \<and> j < a + l \<longrightarrow> row_next tab j)"
proof -
  have ch: "unat (read_chunk pr) \<le> 125" using assms(2) by (simp add: word_le_nat_alt)
  have part: "concat (map (\<lambda>(a, l). [a..<a + l]) (segments pr tab)) = [0..<length tab]
      \<and> (\<forall>(a, l) \<in> set (segments pr tab). 1 \<le> l \<and> l \<le> max 1 (unat (read_chunk pr))
          \<and> (\<forall>j. a < j \<and> j < a + l \<longrightarrow> row_next tab j))" if "tab \<noteq> []"
  proof -
    have nc: "\<not> row_next tab (length tab)" by (simp add: row_next_def)
    have "1 \<le> length tab" using that by (cases tab) auto
    from seg_loop_partition [of 1 0 1 "length tab" "row_next tab", OF _ _ this nc, of "unat (read_chunk pr)"]
    show ?thesis unfolding segments_def by (auto simp del: upt_Suc)
  qed
  show "tab \<noteq> [] \<Longrightarrow> concat (map (\<lambda>(a, l). [a..<a + l]) (segments pr tab)) = [0..<length tab]"
    using part by blast
  have "segments pr [] = []" by (simp add: segments_def)
  then show p3: "\<forall>(a, l) \<in> set (segments pr tab). 1 \<le> l \<and> l \<le> max 1 (unat (read_chunk pr))
      \<and> (\<forall>j. a < j \<and> j < a + l \<longrightarrow> row_next tab j)"
    using part by (cases "tab = []") auto
  show "\<forall>(a, l) \<in> set (segments pr tab). a < length tab \<and> 0 < l \<and> l \<le> 125"
  proof (clarify, intro conjI)
    fix a l assume al: "(a, l) \<in> set (segments pr tab)"
    then have l: "1 \<le> l" "l \<le> max 1 (unat (read_chunk pr))" using p3 by auto
    then show "0 < l" "l \<le> 125" using ch by auto
    have ne: "tab \<noteq> []" using al \<open>segments pr [] = []\<close> by auto
    have "a \<in> set (concat (map (\<lambda>(a, l). [a..<a + l]) (segments pr tab)))"
      using l(1) by (auto intro!: bexI [OF _ al])
    then show "a < length tab" using part [OF ne] by simp
  qed
qed

lemma process_callback_ok:
  assumes "unit_wf w k c pr tab" and "client_ready (u_tcp (ups_units w ! k))" and "length junk = 260"
    and "\<forall>x\<in>set (concat pushes). command_ok x"
  shows "\<exists>rc w' acc m. ups_tcp_process_callback junk pushes (Some c) w = Some (rc, w')
    \<and> (rc = 0 \<or> rc = - 1) \<and> (rc = - 1 \<longrightarrow> 5 \<le> comm_fail_count (ups_units w' ! k))
    \<and> unit_wf w' k c pr tab \<and> client_ready (u_tcp (ups_units w' ! k))
    \<and> queue_abs (cmd_queue (ups_units w' ! k)) = [] \<and> subseq acc (concat pushes)
    \<and> u_running (ups_units w' ! k) = u_running (ups_units w ! k)
    \<and> uw_cfgs w' = uw_cfgs w \<and> uw_fds w' = uw_fds w
    \<and> cl_sock (u_tcp (ups_units w' ! k)) = cl_sock (u_tcp (ups_units w ! k))
    \<and> net_tx (uw_net w') = net_tx (uw_net w)
        @ cmd_frames (cl_tid (u_tcp (ups_units w ! k))) (cc_unit_id (cl_cfg (u_tcp (ups_units w ! k))))
            (queue_abs (cmd_queue (ups_units w ! k)) @ acc)
        @ take m (seg_frames (cmd_tid (cl_tid (u_tcp (ups_units w ! k)))
              (queue_abs (cmd_queue (ups_units w ! k)) @ acc))
            (cc_unit_id (cl_cfg (u_tcp (ups_units w ! k)))) tab (segments pr tab))
    \<and> (rc = 0 \<longrightarrow> m = length (segments pr tab))"
proof -
  let ?u = "ups_units w ! k"
  have wf: "wf_profile pr tab" "read_chunk pr \<le> 125" "u_profile ?u = Some pr" "k < length (ups_units w)"
      "queue_inv (cmd_queue ?u)" "list_all command_ok (queue_abs (cmd_queue ?u))"
    using assms(1) by (auto simp: unit_wf_def)
  obtain acc q n where d: "drain_queue junk pushes (cmd_queue ?u) (u_tcp ?u, uw_net w)
      = Some (q, (u_tcp ?u)\<lparr>cl_tid := cmd_tid (cl_tid (u_tcp ?u)) (queue_abs (cmd_queue ?u) @ acc)\<rparr>, n)"
      "queue_inv q" "queue_abs q = []" "subseq acc (concat pushes)"
      "net_tx n = net_tx (uw_net w) @ cmd_frames (cl_tid (u_tcp ?u)) (cc_unit_id (cl_cfg (u_tcp ?u)))
          (queue_abs (cmd_queue ?u) @ acc)"
    using drain_queue_ok [OF wf(5,6) assms(2,3,4)] by blast
  let ?tcp = "(u_tcp ?u)\<lparr>cl_tid := cmd_tid (cl_tid (u_tcp ?u)) (queue_abs (cmd_queue ?u) @ acc)\<rparr>"
  let ?s = "\<lparr>sc_buf = replicate (unat MODBUS_MAX_READ_REGISTERS) 0, sc_fails = comm_fail_count ?u,
      sc_tcp = ?tcp, sc_net = n, sc_pool = uw_pool w\<rparr>"
  have inv: "scan_inv ?s" using assms(2) by (simp add: scan_inv_def MODBUS_MAX_READ_REGISTERS_def)
  obtain rc s' m where s': "run_segments junk pr tab (segments pr tab) ?s = Some (rc, s')" "scan_inv s'"
      "cl_sock (sc_tcp s') = cl_sock ?tcp"
      "rc = 0 \<or> rc = - 1" "rc = - 1 \<longrightarrow> 5 \<le> sc_fails s'"
      "net_tx (sc_net s') = net_tx n @ take m (seg_frames (cl_tid ?tcp) (cc_unit_id (cl_cfg ?tcp)) tab (segments pr tab))"
      "rc = 0 \<longrightarrow> m = length (segments pr tab)"
    using run_segments_ok [OF wf(1) inv assms(3) segments_ok(1) [OF wf(1,2)]] by auto
  show ?thesis
  proof (cases "tab = []")
    case True
    then have seg: "segments pr tab = []" by (simp add: segments_def)
    have "ups_tcp_process_callback junk pushes (Some c) w
        = Some (0, (upd_unit k (\<lambda>u. u\<lparr>cmd_queue := q, u_tcp := ?tcp\<rparr>) w)\<lparr>uw_net := n\<rparr>)"
      using True wf d(1) unit_wf_lookup [OF assms(1)]
      by (simp add: ups_tcp_process_callback_def Let_def wf_profile_def)
    moreover have "unit_wf ((upd_unit k (\<lambda>u. u\<lparr>cmd_queue := q, u_tcp := ?tcp\<rparr>) w)\<lparr>uw_net := n\<rparr>) k c pr tab"
      using assms(1) d(2,3) wf(4) by (auto simp: unit_wf_def)
    ultimately show ?thesis
      using d assms(2) wf(4) seg by (intro exI) auto
  next
    case False
    let ?w = "(upd_unit k (\<lambda>u. u\<lparr>cmd_queue := q, u_tcp := sc_tcp s', comm_fail_count := sc_fails s'\<rparr>) w)
        \<lparr>uw_net := sc_net s', uw_pool := sc_pool s'\<rparr>"
    have "scan_loop junk pr tab [1..<Suc (length tab)] 0 1 ?s = Some (rc, s')"
      using s'(1) scan_loop_segments [OF wf(1)] by (simp add: segments_def del: upt_Suc)
    then have "ups_tcp_process_callback junk pushes (Some c) w = Some (rc, ?w)"
      using False wf d(1) unit_wf_lookup [OF assms(1)]
      by (simp add: ups_tcp_process_callback_def Let_def wf_profile_def del: upt_Suc)
    moreover have "unit_wf ?w k c pr tab"
      using assms(1) d(2,3) wf(4) by (auto simp: unit_wf_def)
    moreover have "client_ready (u_tcp (ups_units ?w ! k))" using s'(2) wf(4) by (simp add: scan_inv_def)
    moreover have "net_tx (uw_net ?w) = net_tx (uw_net w)
        @ cmd_frames (cl_tid (u_tcp ?u)) (cc_unit_id (cl_cfg (u_tcp ?u))) (queue_abs (cmd_queue ?u) @ acc)
        @ take m (seg_frames (cmd_tid (cl_tid (u_tcp ?u)) (queue_abs (cmd_queue ?u) @ acc))
            (cc_unit_id (cl_cfg (u_tcp ?u))) tab (segments pr tab))"
      using s'(6) d(5) by simp
    ultimately show ?thesis
      using s'(3-5,7) d(3,4) wf(4) by (intro exI [of _ rc] exI [of _ ?w] exI [of _ acc] exI [of _ m]) simp
  qed
qed

section \<open>Connecting and disconnecting a unit\<close>

lemma connect_socket:
  "mb_tcp_connect env (Some s) bi h p t tr = Some (rc, so, tr') \<Longrightarrow> rc = 0 \<Longrightarrow> so = Some (rc_socket env) \<and> 0 \<le> rc_socket env"
  by (auto simp: mb_tcp_connect_def connect_fail_def Let_def EINVAL_def split: option.splits if_splits bind_splits)

lemma client_connect_total:
  assumes "rc_socket env < FD_SETSIZE"
  shows "\<exists>rc c tr'. mb_tcp_client_connect env m (Some c0) (Some cf) tr = Some (rc, Some c, tr')"
proof -
  let ?t = "if cc_connect_timeout_sec cf \<noteq> 0 then cc_connect_timeout_sec cf else 5"
  obtain rc so tr' where r: "mb_tcp_connect env (Some (-1)) (cc_bind_iface cf) (cc_remote_host cf) (cc_port cf) ?t tr
      = Some (rc, so, tr')"
    using mb_tcp_connect_total [OF assms] by blast
  show ?thesis
    using r connect_socket [OF r]
    by (cases "rc = 0") (auto simp: mb_tcp_client_connect_def mutex_destroy_def Let_def)
qed

lemma client_connect_result:
  assumes "mb_tcp_client_connect env m (Some c0) (Some cf) tr = Some (rc, c, tr')"
  shows "\<exists>c1. c = Some c1 \<and> (rc = 0 \<longrightarrow> client_ready c1 \<and> cl_tid c1 = 0 \<and> cl_cfg c1 = cf)
    \<and> (rc \<noteq> 0 \<longrightarrow> cl_lock c1 \<noteq> Mutex_Ready \<or> c1 = c0)"
proof (cases "(case cc_remote_host cf of None \<Rightarrow> True | Some h \<Rightarrow> cstr h = []) \<or> cc_port cf = 0 \<or> m \<noteq> 0")
  case True
  then show ?thesis using assms
    by (auto simp: mb_tcp_client_connect_def Let_def zero_client_ctx_def split: option.splits if_splits)
next
  case False
  let ?t = "if cc_connect_timeout_sec cf \<noteq> 0 then cc_connect_timeout_sec cf else 5"
  obtain r so tr1 where r: "mb_tcp_connect env (Some (-1)) (cc_bind_iface cf) (cc_remote_host cf) (cc_port cf) ?t tr
      = Some (r, so, tr1)"
    using assms False by (auto simp: mb_tcp_client_connect_def Let_def split: bind_splits)
  show ?thesis
    using assms False r connect_socket [OF r]
    by (cases "r = 0") (auto simp: mb_tcp_client_connect_def mutex_destroy_def client_ready_def Let_def)
qed

lemma init_callback_ok:
  assumes "unit_wf w k c pr tab" and "ups_tcp_init_callback env m fresh (Some c) w = Some (rc, w')"
  shows "unit_wf w' k c pr tab"
    and "rc = 0 \<Longrightarrow> client_ready (u_tcp (ups_units w' ! k)) \<and> cl_tid (u_tcp (ups_units w' ! k)) = 0
         \<and> comm_fail_count (ups_units w' ! k) = 0 \<and> uw_net w' = fresh
         \<and> connection_state (uw_cfgs w' ! c) = CONNECTION_CONNECTED"
    and "rc \<noteq> 0 \<Longrightarrow> cl_lock (u_tcp (ups_units w' ! k)) \<noteq> Mutex_Ready
         \<or> u_tcp (ups_units w' ! k) = u_tcp (ups_units w ! k)"
    and "u_running (ups_units w' ! k) = u_running (ups_units w ! k)"
proof -
  have c: "c < length (uw_cfgs w)" "k < length (ups_units w)" using assms(1) by (auto simp: unit_wf_def)
  then have ld: "buf_load (uw_cfgs w) c = Some (uw_cfgs w ! c)" by (simp add: buf_load_def)
  obtain r t tr where r: "mb_tcp_client_connect env m (Some (u_tcp (ups_units w ! k)))
        (Some (ups_client_config (uw_cfgs w ! c))) (uw_fds w) = Some (r, Some t, tr)"
      "r = 0 \<longrightarrow> client_ready t \<and> cl_tid t = 0"
      "r \<noteq> 0 \<longrightarrow> cl_lock t \<noteq> Mutex_Ready \<or> t = u_tcp (ups_units w ! k)"
    using assms(2) ld
    by (auto simp: ups_tcp_init_callback_def unit_wf_lookup [OF assms(1)] Let_def split: bind_splits dest: client_connect_result)
  let ?P = "unit_wf w' k c pr tab
    \<and> (rc = 0 \<longrightarrow> client_ready (u_tcp (ups_units w' ! k)) \<and> cl_tid (u_tcp (ups_units w' ! k)) = 0
         \<and> comm_fail_count (ups_units w' ! k) = 0 \<and> uw_net w' = fresh
         \<and> connection_state (uw_cfgs w' ! c) = CONNECTION_CONNECTED)
    \<and> (rc \<noteq> 0 \<longrightarrow> cl_lock (u_tcp (ups_units w' ! k)) \<noteq> Mutex_Ready
         \<or> u_tcp (ups_units w' ! k) = u_tcp (ups_units w ! k))
    \<and> u_running (ups_units w' ! k) = u_running (ups_units w ! k)"
  have ?P
  proof (cases "r = 0")
    case True
    let ?w = "(upd_unit k (\<lambda>u. u\<lparr>comm_fail_count := 0\<rparr>) ((upd_unit k (\<lambda>u. u\<lparr>u_tcp := t\<rparr>) w)\<lparr>uw_fds := tr\<rparr>))
      \<lparr>uw_cfgs := (uw_cfgs w)[c := (uw_cfgs w ! c)\<lparr>connection_state := CONNECTION_CONNECTED\<rparr>], uw_net := fresh\<rparr>"
    have "rc = 0" "w' = ?w"
      using assms(2) r(1) True ld by (simp_all add: ups_tcp_init_callback_def unit_wf_lookup [OF assms(1)] Let_def)
    moreover have "unit_wf ?w k c pr tab" using assms(1) c by (auto simp: unit_wf_def)
    ultimately show ?thesis using r(2) True c by simp
  next
    case False
    let ?w = "(upd_unit k (\<lambda>u. u\<lparr>u_tcp := t\<rparr>) w)\<lparr>uw_fds := tr\<rparr>"
    have "rc = - 1" "w' = ?w"
      using assms(2) r(1) False ld by (simp_all add: ups_tcp_init_callback_def unit_wf_lookup [OF assms(1)] Let_def)
    moreover have "unit_wf ?w k c pr tab" using assms(1) c by (auto simp: unit_wf_def)
    ultimately show ?thesis using r(3) False c by simp
  qed
  then show "unit_wf w' k c pr tab"
    and "rc = 0 \<Longrightarrow> client_ready (u_tcp (ups_units w' ! k)) \<and> cl_tid (u_tcp (ups_units w' ! k)) = 0
         \<and> comm_fail_count (ups_units w' ! k) = 0 \<and> uw_net w' = fresh
         \<and> connection_state (uw_cfgs w' ! c) = CONNECTION_CONNECTED"
    and "rc \<noteq> 0 \<Longrightarrow> cl_lock (u_tcp (ups_units w' ! k)) \<noteq> Mutex_Ready
         \<or> u_tcp (ups_units w' ! k) = u_tcp (ups_units w ! k)"
    and "u_running (ups_units w' ! k) = u_running (ups_units w ! k)"
    by blast+
qed

lemma init_callback_total:
  assumes "unit_wf w k c pr tab" and "rc_socket env < FD_SETSIZE"
  shows "\<exists>rc w'. ups_tcp_init_callback env m fresh (Some c) w = Some (rc, w')"
proof -
  have "c < length (uw_cfgs w)" using assms(1) by (simp add: unit_wf_def)
  then have ld: "buf_load (uw_cfgs w) c = Some (uw_cfgs w ! c)" by (simp add: buf_load_def)
  obtain rc t tr where "mb_tcp_client_connect env m (Some (u_tcp (ups_units w ! k)))
        (Some (ups_client_config (uw_cfgs w ! c))) (uw_fds w) = Some (rc, Some t, tr)"
    using client_connect_total [OF assms(2)] by blast
  then show ?thesis using ld by (simp add: ups_tcp_init_callback_def unit_wf_lookup [OF assms(1)] Let_def)
qed

lemma error_callback_ok:
  assumes "unit_wf w k c pr tab" and "client_ready (u_tcp (ups_units w ! k))"
  shows "\<exists>w'. ups_tcp_error_callback (Some c) st w = Some (0, w') \<and> unit_wf w' k c pr tab
    \<and> cl_lock (u_tcp (ups_units w' ! k)) = Mutex_Destroyed \<and> cl_sock (u_tcp (ups_units w' ! k)) = -1
    \<and> comm_fail_count (ups_units w' ! k) = 0
    \<and> uw_fds w' = uw_fds w @ [Fd_shutdown (cl_sock (u_tcp (ups_units w ! k))),
                              Fd_close (cl_sock (u_tcp (ups_units w ! k)))]
    \<and> connection_state (uw_cfgs w' ! c) = st
    \<and> u_running (ups_units w' ! k) = u_running (ups_units w ! k)"
proof -
  have c: "c < length (uw_cfgs w)" "k < length (ups_units w)" using assms by (auto simp: unit_wf_def)
  let ?t = "(u_tcp (ups_units w ! k))\<lparr>cl_sock := -1, cl_lock := Mutex_Destroyed\<rparr>"
  let ?w = "(upd_unit k (\<lambda>u. u\<lparr>u_tcp := ?t, comm_fail_count := 0\<rparr>) w)
    \<lparr>uw_fds := uw_fds w @ [Fd_shutdown (cl_sock (u_tcp (ups_units w ! k))),
        Fd_close (cl_sock (u_tcp (ups_units w ! k)))],
     uw_cfgs := (uw_cfgs w)[c := (uw_cfgs w ! c)\<lparr>connection_state := st\<rparr>]\<rparr>"
  have "ups_tcp_error_callback (Some c) st w = Some (0, ?w)"
    using c by (simp add: ups_tcp_error_callback_def unit_wf_lookup [OF assms(1)]
        disconnect_ready [OF assms(2)] buf_load_def)
  moreover have "unit_wf ?w k c pr tab" using assms(1) c by (auto simp: unit_wf_def)
  ultimately show ?thesis using c by (intro exI [of _ ?w]) simp
qed

section \<open>The thread's invariant\<close>

definition thread_inv ::
  "nat \<Rightarrow> nat \<Rightarrow> device_map_profile \<Rightarrow> device_register_mapping list \<Rightarrow> ups_phase \<times> ups_world \<Rightarrow> bool" where
  "thread_inv k c pr tab s \<longleftrightarrow> (case s of (ph, w) \<Rightarrow> unit_wf w k c pr tab
     \<and> (ph = At_inner \<longrightarrow> client_ready (u_tcp (ups_units w ! k)))
     \<and> (ph = At_outer \<longrightarrow> cl_lock (u_tcp (ups_units w ! k)) \<noteq> Mutex_Ready
          \<or> client_ready (u_tcp (ups_units w ! k)) \<and> \<not> u_running (ups_units w ! k)))"

lemma thread_inv_step:
  assumes "ups_thread_step nofile k s s'" and "thread_inv k c pr tab s"
  shows "thread_inv k c pr tab s'"
  using assms
proof (cases rule: ups_thread_step.cases)
  case (init_failed w env rc fresh r w')
  have wf: "unit_wf w k c pr tab" "u_cfg (ups_units w ! k) = Some c"
    using assms(2) init_failed by (auto simp: thread_inv_def unit_wf_def)
  show ?thesis
    using init_callback_ok [OF wf(1), of env rc fresh r w'] init_failed assms(2) wf(2)
    by (auto simp: thread_inv_def)
next
  case (init_done w env rc fresh w')
  have wf: "unit_wf w k c pr tab" "u_cfg (ups_units w ! k) = Some c"
    using assms(2) init_done by (auto simp: thread_inv_def unit_wf_def)
  show ?thesis
    using init_callback_ok [OF wf(1), of env rc fresh 0 w'] init_done wf(2) by (auto simp: thread_inv_def)
next
  case (init_undefined w env rc fresh)
  then show ?thesis using assms(2) by (simp add: thread_inv_def)
next
  case (process_done w junk pushes w')
  have wf: "unit_wf w k c pr tab" "u_cfg (ups_units w ! k) = Some c"
      "client_ready (u_tcp (ups_units w ! k))"
    using assms(2) process_done by (auto simp: thread_inv_def unit_wf_def)
  show ?thesis
    using process_callback_ok [OF wf(1,3), of junk pushes] process_done wf(2) by (auto simp: thread_inv_def)
next
  case (process_failed w junk pushes r w1 e w')
  have wf: "unit_wf w k c pr tab" "u_cfg (ups_units w ! k) = Some c"
      "client_ready (u_tcp (ups_units w ! k))"
    using assms(2) process_failed by (auto simp: thread_inv_def unit_wf_def)
  have w1: "unit_wf w1 k c pr tab" "client_ready (u_tcp (ups_units w1 ! k))"
    using process_callback_ok [OF wf(1,3), of junk pushes] process_failed wf(2) by auto
  then have "u_cfg (ups_units w1 ! k) = Some c" by (simp add: unit_wf_def)
  then show ?thesis
    using error_callback_ok [OF w1, of CONNECTION_DISCONNECTED] process_failed
    by (auto simp: thread_inv_def)
next
  case (process_undefined w junk pushes)
  have wf: "unit_wf w k c pr tab" "u_cfg (ups_units w ! k) = Some c"
      "client_ready (u_tcp (ups_units w ! k))"
    using assms(2) process_undefined by (auto simp: thread_inv_def unit_wf_def)
  obtain rc w1 where p: "ups_tcp_process_callback junk pushes (Some c) w = Some (rc, w1)"
      "unit_wf w1 k c pr tab" "client_ready (u_tcp (ups_units w1 ! k))"
    using process_callback_ok [OF wf(1,3), of junk pushes] process_undefined by auto
  then have "u_cfg (ups_units w1 ! k) = Some c" by (simp add: unit_wf_def)
  then show ?thesis
    using error_callback_ok [OF p(2,3), of CONNECTION_DISCONNECTED] process_undefined p(1) wf(2)
    by auto
next
  case (inner_stopped w)
  then show ?thesis using assms(2) by (auto simp: thread_inv_def)
next
  case (thread_stopped w tcp tr)
  then show ?thesis using assms(2) by (auto simp: thread_inv_def unit_wf_def)
next
  case (stop_undefined w)
  then show ?thesis using assms(2) by (auto simp: thread_inv_def)
next
  case (bridge_push x w q ph)
  then have k: "k < length (ups_units w)" "queue_inv (cmd_queue (ups_units w ! k))"
    using assms(2) by (auto simp: thread_inv_def unit_wf_def)
  then have "queue_inv q" "queue_abs q = queue_abs (cmd_queue (ups_units w ! k)) @ [x]"
    using ring_enq_ok [OF k(2) bridge_push(3)] bridge_push(4) by auto
  then show ?thesis
    using bridge_push assms(2) k(1) by (auto simp: thread_inv_def unit_wf_def)
next
  case (stop_signal ph w)
  then have "k < length (ups_units w)" using assms(2) by (auto simp: thread_inv_def unit_wf_def)
  then show ?thesis using stop_signal assms(2) by (auto simp: thread_inv_def unit_wf_def)
next
  case (bytes_arrive ph w evs)
  then show ?thesis using assms(2) by (auto simp: thread_inv_def unit_wf_def)
qed

text \<open>A step is undefined only for a unit whose flag is cleared, or with descriptors that do not fit \<open>select\<close>.\<close>

lemma undefined_step:
  assumes "ups_thread_step nofile k s s'" and "thread_inv k c pr tab s" and "fst s' = Undefined_behaviour"
    and "nofile \<le> FD_SETSIZE" and "fst s \<noteq> Undefined_behaviour"
  shows "\<not> u_running (ups_units (snd s') ! k)"
  using assms(1)
proof (cases rule: ups_thread_step.cases)
  case (init_undefined w env rc fresh)
  have wf: "unit_wf w k c pr tab" "u_cfg (ups_units w ! k) = Some c"
    using assms(2) init_undefined by (auto simp: thread_inv_def unit_wf_def)
  have "rc_socket env < FD_SETSIZE" using init_undefined(4) assms(4) by simp
  from init_callback_total [OF wf(1) this, of rc fresh] show ?thesis using init_undefined wf(2) by auto
next
  case (process_undefined w junk pushes)
  have wf: "unit_wf w k c pr tab" "u_cfg (ups_units w ! k) = Some c"
      "client_ready (u_tcp (ups_units w ! k))"
    using assms(2) process_undefined by (auto simp: thread_inv_def unit_wf_def)
  obtain rc w1 where p: "ups_tcp_process_callback junk pushes (Some c) w = Some (rc, w1)"
      "unit_wf w1 k c pr tab" "client_ready (u_tcp (ups_units w1 ! k))"
    using process_callback_ok [OF wf(1,3), of junk pushes] process_undefined by auto
  then have "u_cfg (ups_units w1 ! k) = Some c" by (simp add: unit_wf_def)
  then show ?thesis
    using error_callback_ok [OF p(2,3), of CONNECTION_DISCONNECTED] process_undefined p(1) wf(2)
    by auto
qed (use assms(2,3,5) in \<open>auto simp: thread_inv_def unit_wf_def\<close>)

text \<open>Past undefined behaviour only the rest of the program takes steps, and it sets no flag.\<close>

lemma undefined_stays:
  "ups_thread_step nofile k s s' \<Longrightarrow> fst s = Undefined_behaviour \<Longrightarrow> k < length (ups_units (snd s))
    \<Longrightarrow> \<not> u_running (ups_units (snd s) ! k) \<Longrightarrow> \<not> u_running (ups_units (snd s') ! k)"
  by (auto elim!: ups_thread_step.cases)

lemma undefined_reach:
  assumes "ups_thread_reach nofile k s s'" and "thread_inv k c pr tab s" and "fst s \<noteq> Undefined_behaviour" and "nofile \<le> FD_SETSIZE"
  shows "thread_inv k c pr tab s' \<and> (fst s' = Undefined_behaviour \<longrightarrow> \<not> u_running (ups_units (snd s') ! k))"
  using assms(1-3)
proof (induction rule: ups_thread_reach.induct)
  case (reach_next s s' s'')
  then have inv: "thread_inv k c pr tab s'" "k < length (ups_units (snd s'))"
      "fst s' = Undefined_behaviour \<longrightarrow> \<not> u_running (ups_units (snd s') ! k)"
    by (auto simp: thread_inv_def unit_wf_def split: prod.splits)
  then show ?case
    using thread_inv_step [OF reach_next(2) inv(1)] undefined_step [OF reach_next(2) inv(1) _ assms(4)]
      undefined_stays [OF reach_next(2)] by blast
qed simp

lemma thread_inv_reach:
  "ups_thread_reach nofile k s s' \<Longrightarrow> thread_inv k c pr tab s \<Longrightarrow> thread_inv k c pr tab s'"
  by (induction rule: ups_thread_reach.induct) (auto intro: thread_inv_step)

section \<open>Properties of the poll thread\<close>

text \<open>One unit on its way to a connection, for the examples.\<close>

definition demo_unit :: ups_unit where
  "demo_unit = \<lparr>u_cfg = Some 0, u_profile = Some ups1_profile, u_tcp = zero_client_ctx,
     u_running = True, comm_fail_count = 0, cmd_queue = queue_init\<rparr>"

definition demo_world :: ups_world where
  "demo_world = \<lparr>ups_units = demo_unit # replicate 9 zero_unit, ups_unit_count = 1,
     uw_cfgs = [zero_module_config\<lparr>modbus_uid := 1, cfg_enabled := True\<rparr>], uw_pool = \<lambda>_. 0,
     uw_net = demo_net [], uw_fds = []\<rparr>"

lemma demo_world_simps [simp]:
  "ups_units demo_world ! 0 = demo_unit" "u_tcp demo_unit = zero_client_ctx"
  "u_running demo_unit" "cmd_queue demo_unit = queue_init" "comm_fail_count demo_unit = 0"
  "uw_net demo_world = demo_net []" "length (ups_units demo_world) = 10"
  "ups_unit_count demo_world = 1" "u_cfg demo_unit = Some 0"
  by (simp_all add: demo_world_def demo_unit_def)

lemma demo_world_wf: "unit_wf demo_world 0 0 ups1_profile ups1_mapping_table"
  using ups1_wf queue_init_ok
  by (simp add: unit_wf_def) (simp add: demo_world_def demo_unit_def ups1_profile_def)

lemma zero_lock [simp]: "cl_lock zero_client_ctx = Mutex_Unset"
  by (simp add: zero_client_ctx_def)

text \<open>
  C13: the poll thread is safe while it is wanted. From a unit that is set up but not connected,
  whatever the network delivers, whatever commands are pushed and whenever the stop flag falls, the
  thread is inside its poll loop only with a connected client whose mutex is initialised, the
  unit's queue and profile stay well-formed, and, if the process can have no more than the 1024
  descriptors that fit the set of \<open>select\<close>, undefined behaviour is reached only after the running flag
  has been cleared.
\<close>

theorem poll_thread_safe:
  assumes "unit_wf w k c pr tab" and "cl_lock (u_tcp (ups_units w ! k)) \<noteq> Mutex_Ready"
    and "ups_thread_reach nofile k (At_outer, w) (ph, w')" and "nofile \<le> 1024"
  shows "unit_wf w' k c pr tab \<and> (ph = At_inner \<longrightarrow> client_ready (u_tcp (ups_units w' ! k)))
    \<and> (ph = Undefined_behaviour \<longrightarrow> \<not> u_running (ups_units w' ! k))"
proof -
  have "thread_inv k c pr tab (At_outer, w)" using assms(1,2) by (simp add: thread_inv_def)
  from undefined_reach [OF assms(3) this] show ?thesis using assms(4) by (simp add: thread_inv_def FD_SETSIZE_def)
qed

theorem poll_thread_safe_witness:
  "\<exists>w'. ups_thread_reach 1024 0 (At_outer, demo_world) (Undefined_behaviour, w')
     \<and> unit_wf w' 0 0 ups1_profile ups1_mapping_table \<and> \<not> u_running (ups_units w' ! 0)"
proof -
  let ?w = "upd_unit 0 (\<lambda>u. u\<lparr>u_running := False\<rparr>) demo_world"
  have "ups_thread_step 1024 0 (At_outer, ?w) (Undefined_behaviour, ?w)"
    by (rule stop_undefined) (simp_all add: disconnect_not_ready)
  then have r: "ups_thread_reach 1024 0 (At_outer, demo_world) (Undefined_behaviour, ?w)"
    by (intro reach_next [OF reach_next [OF reach_start stop_signal]])
  moreover have "cl_lock (u_tcp (ups_units demo_world ! 0)) \<noteq> Mutex_Ready" by simp
  ultimately have "unit_wf ?w 0 0 ups1_profile ups1_mapping_table \<and> \<not> u_running (ups_units ?w ! 0)"
    using poll_thread_safe [OF demo_world_wf _ r] by blast
  then show ?thesis using r by blast
qed

text \<open>
  Stopping a disconnected unit is undefined. If the running flag is cleared while the unit has
  no connection (before the first connect succeeds, or while it waits to reconnect), the thread
  leaves its loop and disconnects a context whose mutex is not initialised; the thread has no
  other step to take.
\<close>

theorem stop_while_disconnected:
  assumes "k < length (ups_units w)" and "cl_lock (u_tcp (ups_units w ! k)) \<noteq> Mutex_Ready"
  shows "\<exists>w'. ups_thread_step nofile k (At_outer, w) (At_outer, w') \<and> \<not> u_running (ups_units w' ! k)
    \<and> ups_thread_step nofile k (At_outer, w') (Undefined_behaviour, w')
    \<and> \<not> (\<exists>w''. ups_thread_step nofile k (At_outer, w') (Returned_thread, w''))"
proof -
  let ?w = "upd_unit k (\<lambda>u. u\<lparr>u_running := False\<rparr>) w"
  have d: "mb_tcp_client_disconnect (Some (u_tcp (ups_units ?w ! k))) (uw_fds ?w) = None"
    using assms by (simp add: disconnect_not_ready)
  have "ups_thread_step nofile k (At_outer, w) (At_outer, ?w)" by (rule stop_signal)
  moreover have nr: "\<not> u_running (ups_units ?w ! k)" using assms(1) by simp
  moreover have "ups_thread_step nofile k (At_outer, ?w) (Undefined_behaviour, ?w)"
    by (rule stop_undefined [OF nr d])
  moreover have "\<not> (\<exists>w''. ups_thread_step nofile k (At_outer, ?w) (Returned_thread, w''))"
    using d by (auto elim!: step_from_outer)
  ultimately show ?thesis by blast
qed

theorem stop_while_disconnected_witness:
  "\<exists>w'. ups_thread_step 1024 0 (At_outer, demo_world) (At_outer, w') \<and> \<not> u_running (ups_units w' ! 0)
    \<and> ups_thread_step 1024 0 (At_outer, w') (Undefined_behaviour, w')
    \<and> \<not> (\<exists>w''. ups_thread_step 1024 0 (At_outer, w') (Returned_thread, w''))"
  by (rule stop_while_disconnected) simp_all

text \<open>
  C11: one poll cycle. On a connected unit the process callback always returns, whatever the peer
  does: it first sends every queued command, once each and in queue order (with those pushed while
  it drains), each as the FC06 or FC16 frame its mode asks for, then the FC03 requests of the
  profile's segments in order; it sends all of them if it returns 0, and it returns -1 only when at
  least five reads in a row have failed. It leaves the queue empty and the client connected.
\<close>

theorem poll_cycle_frames:
  assumes "unit_wf w k c pr tab" and "client_ready (u_tcp (ups_units w ! k))" and "length junk = 260"
    and "\<forall>x\<in>set (concat pushes). command_ok x"
  shows "\<exists>rc w' acc m. ups_tcp_process_callback junk pushes (Some c) w = Some (rc, w')
    \<and> (rc = 0 \<or> rc = - 1 \<and> 5 \<le> comm_fail_count (ups_units w' ! k))
    \<and> client_ready (u_tcp (ups_units w' ! k))
    \<and> queue_abs (cmd_queue (ups_units w' ! k)) = [] \<and> subseq acc (concat pushes)
    \<and> (let t = u_tcp (ups_units w ! k); uid = cc_unit_id (cl_cfg t);
           cmds = queue_abs (cmd_queue (ups_units w ! k)) @ acc in
       net_tx (uw_net w') = net_tx (uw_net w) @ cmd_frames (cl_tid t) uid cmds
         @ take m (seg_frames (cmd_tid (cl_tid t) cmds) uid tab (segments pr tab)))
    \<and> (rc = 0 \<longrightarrow> m = length (segments pr tab))"
  using process_callback_ok [OF assms] by (auto simp: Let_def) 

text \<open>
  C27: the scan covers the table. For a well-formed profile the FC03 requests of a scan are for
  consecutive blocks of rows that partition the table in order; the device addresses inside a
  block are consecutive, and no block is longer than the profile's chunk (or one register).
\<close>

theorem scan_covers_table:
  assumes "wf_profile pr tab" and "tab \<noteq> []" and "read_chunk pr \<le> 125"
  shows "scan_loop junk pr tab [1..<Suc (length tab)] 0 1 s = run_segments junk pr tab (segments pr tab) s
    \<and> concat (map (\<lambda>(a, l). [a..<a + l]) (segments pr tab)) = [0..<length tab]
    \<and> (\<forall>(a, l) \<in> set (segments pr tab). 1 \<le> l \<and> l \<le> max 1 (unat (read_chunk pr))
        \<and> (\<forall>j. a < j \<and> j < a + l \<longrightarrow>
            unat (device_address (tab ! j)) = unat (device_address (tab ! (j - 1))) + 1))"
proof -
  have "\<forall>(a, l) \<in> set (segments pr tab). 1 \<le> l \<and> l \<le> max 1 (unat (read_chunk pr))
      \<and> (\<forall>j. a < j \<and> j < a + l \<longrightarrow> row_next tab j)"
    by (rule segments_ok(3) [OF assms(1,3)])
  then have "\<forall>(a, l) \<in> set (segments pr tab). 1 \<le> l \<and> l \<le> max 1 (unat (read_chunk pr))
      \<and> (\<forall>j. a < j \<and> j < a + l \<longrightarrow>
          unat (device_address (tab ! j)) = unat (device_address (tab ! (j - 1))) + 1)"
    unfolding row_next_def by blast
  then show ?thesis
    using segments_ok(2) [OF assms(1,3,2)] scan_loop_segments [OF assms(1)]
    by (simp add: segments_def del: upt_Suc)
qed

theorem scan_covers_table_witness:
  "concat (map (\<lambda>(a, l). [a..<a + l]) (segments ups1_profile ups1_mapping_table)) = [0..<22]"
proof -
  have "ups1_mapping_table \<noteq> []" "read_chunk ups1_profile \<le> 125"
    by (simp_all add: ups1_mapping_table_def ups1_profile_def)
  from scan_covers_table [OF ups1_wf this] show ?thesis unfolding ups1_length by blast
qed

lemma sleep_loop_spec:
  assumes "\<forall>j<k. obs j"
  shows "(\<forall>j < sleep_loop obs d e k. obs j)
    \<and> (sleep_loop obs d e k = k + (d - e + 99) div 100 \<or> \<not> obs (sleep_loop obs d e k))
    \<and> sleep_loop obs d e k \<le> k + (d - e + 99) div 100"
  using assms
proof (induction obs d e k rule: sleep_loop.induct)
  case (1 obs d e k)
  define a where "a = (d - e + 99) div 100"
  define b where "b = (d - (e + 100) + 99) div 100"
  show ?case
  proof (cases "e < d \<and> obs k")
    case True
    then have eq: "sleep_loop obs d e k = sleep_loop obs d (e + 100) (k + 1)"
      by (subst sleep_loop.simps) (simp add: UPS_SHUTDOWN_CHECK_INTERVAL_MS_def)
    have "\<forall>j<k + 1. obs j" using 1(2) True by (auto simp: less_Suc_eq)
    note ih = 1(1) [OF True, unfolded UPS_SHUTDOWN_CHECK_INTERVAL_MS_def, OF this, folded b_def]
    have "a = Suc b"
      using True by (cases "d - e \<le> 100") (auto simp: a_def b_def)
    then show ?thesis using ih unfolding eq a_def [symmetric] by auto
  next
    case False
    then have "sleep_loop obs d e k = k" by (subst sleep_loop.simps) auto
    then show ?thesis using 1(2) False by auto
  qed
qed

text \<open>
  The sleep between reconnects is bounded and interruptible. Asked for 5000 ms it takes at most
  50 intervals of 100 ms, ends at the first test that finds the running flag cleared, and
  otherwise lasts the full time.
\<close>

theorem sleep_interruptible:
  "(\<forall>j < interruptible_sleep_ms obs UPS_RECONNECT_DELAY_MS. obs j)
   \<and> interruptible_sleep_ms obs UPS_RECONNECT_DELAY_MS \<le> 50
   \<and> (interruptible_sleep_ms obs UPS_RECONNECT_DELAY_MS < 50
       \<longrightarrow> \<not> obs (interruptible_sleep_ms obs UPS_RECONNECT_DELAY_MS))"
  using sleep_loop_spec [of 0 obs 5000 0]
  by (auto simp: interruptible_sleep_ms_def UPS_RECONNECT_DELAY_MS_def)

theorem sleep_interruptible_witness:
  "interruptible_sleep_ms (\<lambda>_. True) UPS_RECONNECT_DELAY_MS = 50"
  using sleep_interruptible [of "\<lambda>_. True"] by auto

section \<open>Polling unit 1\<close>

lemma queue_pop_empty:
  assumes "queue_inv q" and "queue_abs q = []"
  shows "queue_pop q = Some (None, q)"
  using queue_pop_ok [OF assms(1)] assms(2) by auto

lemma drain_empty:
  assumes "queue_inv q" and "queue_abs q = []"
  shows "drain_queue junk [] q s = Some (q, s)"
  by (subst drain_queue.simps) (simp add: queue_pop_empty [OF assms] Let_def)

text \<open>With an empty queue a poll of unit 1 is one FC03 read of 22 registers from address 0.\<close>

lemma ups1_poll:
  assumes "unit_wf w k c ups1_profile ups1_mapping_table"
    and "queue_abs (cmd_queue (ups_units w ! k)) = []"
  shows "ups_tcp_process_callback junk [] (Some c) w
    = (let u = ups_units w ! k in do {
        (give_up, s) \<leftarrow> scan_segment junk ups1_profile ups1_mapping_table 0 22
          \<lparr>sc_buf = replicate 125 0, sc_fails = comm_fail_count u, sc_tcp = u_tcp u,
           sc_net = uw_net w, sc_pool = uw_pool w\<rparr>;
        Some (if give_up then - 1 else 0,
          (upd_unit k (\<lambda>u. u\<lparr>u_tcp := sc_tcp s, comm_fail_count := sc_fails s\<rparr>) w)
            \<lparr>uw_net := sc_net s, uw_pool := sc_pool s\<rparr>)
      })"
proof -
  have u: "u_profile (ups_units w ! k) = Some ups1_profile" "queue_inv (cmd_queue (ups_units w ! k))"
      "k < length (ups_units w)"
    using assms(1) by (auto simp: unit_wf_def)
  have pr: "prof_table ups1_profile = Some ups1_mapping_table" "table_count ups1_profile = 22"
    using ups1_wf by (simp_all add: wf_profile_def)
  have "scan_loop junk ups1_profile ups1_mapping_table [1..<Suc 22] 0 1 s
      = (scan_segment junk ups1_profile ups1_mapping_table 0 22 s
          \<bind> (\<lambda>(g, s). Some (if g then - 1 else 0, s)))" for s
    using scan_loop_segments [OF ups1_wf, of junk "[1..<Suc 22]" 0 1 s] ups1_segments
    by (auto simp: segments_def simp del: upt_Suc split: bind_splits)
  then show ?thesis
    using u pr drain_empty [OF u(2) assms(2)]
    by (simp add: ups_tcp_process_callback_def unit_wf_lookup [OF assms(1)] Let_def
        MODBUS_MAX_READ_REGISTERS_def del: upt_Suc) (simp add: case_prod_beta' bind_assoc comp_def)
qed

lemma ups1_poll_pool:
  assumes "unit_wf w k c ups1_profile ups1_mapping_table" and "client_ready (u_tcp (ups_units w ! k))"
    and "queue_abs (cmd_queue (ups_units w ! k)) = []" and "length junk = 260"
    and "net_send_rc (uw_net w) = []" and "length vs = 22"
    and "net_rx (uw_net w) = map Data chunks @ tail_rx" and "[] \<notin> set chunks"
    and "concat chunks = adu (bump_tid (cl_tid (u_tcp (ups_units w ! k)))) uid
           (read_response_pdu MODBUS_FUNC_READ_HOLDING_REGISTERS vs) @ later"
  shows "\<exists>w'. ups_tcp_process_callback junk [] (Some c) w = Some (0, w')
    \<and> comm_fail_count (ups_units w' ! k) = 0
    \<and> (\<forall>i<22. pool_read_by_device_addr (uw_pool w') (Some ups1_profile) (word_of_nat i) (Some 0)
          = Some (True, Some (vs ! i)))
    \<and> net_tx (uw_net w') = net_tx (uw_net w)
        @ [adu (bump_tid (cl_tid (u_tcp (ups_units w ! k)))) (cc_unit_id (cl_cfg (u_tcp (ups_units w ! k))))
            (request_pdu MODBUS_FUNC_READ_HOLDING_REGISTERS 0 22)]"
proof -
  let ?t = "u_tcp (ups_units w ! k)"
  let ?out = "vs @ drop 22 (replicate 125 0)"
  obtain n' where r: "mb_tcp_client_read_holding_registers junk (Some ?t) 0 (word_of_nat (length vs))
        (Some (replicate 125 0)) (uw_net w)
      = Some (MB_TCP_CLIENT_OK, Some (?t\<lparr>cl_tid := bump_tid (cl_tid ?t)\<rparr>), Some ?out, n')"
      "net_tx n' = net_tx (uw_net w) @ [adu (bump_tid (cl_tid ?t)) (cc_unit_id (cl_cfg ?t))
          (request_pdu MODBUS_FUNC_READ_HOLDING_REGISTERS 0 (word_of_nat (length vs)))]"
    using read_registers_conforming [OF assms(2) _ _ assms(5,4) _ assms(7-9), of "replicate 125 0" 0]
      assms(6) by auto
  let ?p = "put_all (reg_set ups1_profile) (ingest_pairs ?out 0 22) (uw_pool w)"
  let ?w = "(upd_unit k (\<lambda>u. u\<lparr>u_tcp := ?t\<lparr>cl_tid := bump_tid (cl_tid ?t)\<rparr>, comm_fail_count := 0\<rparr>) w)
      \<lparr>uw_net := n', uw_pool := ?p\<rparr>"
  have k: "k < length (ups_units w)" using assms(1) by (auto simp: unit_wf_def)
  have row0: "buf_load ups1_mapping_table 0 = Some (ups1_mapping_table ! 0)"
      "device_address (ups1_mapping_table ! 0) = 0"
    by (simp_all add: buf_load_def ups1_row)
  have pool: "device_map_read_to_pool (Some ups1_profile) (Some ?out) 0 (int (unat (22 :: u16))) (uw_pool w)
      = Some ?p"
    using device_map_read_to_pool_wf [OF ups1_wf, of 22 ?out 0 "uw_pool w"] assms(6) by simp
  have run: "ups_tcp_process_callback junk [] (Some c) w = Some (0, ?w)"
    using r(1) pool assms(6) row0
    by (simp add: ups1_poll [OF assms(1,3)] scan_segment_def Let_def)
  have get: "pool_read_by_device_addr ?p (Some ups1_profile) (word_of_nat i) (Some 0)
      = Some (True, Some (vs ! i))" if "i < 22" for i
  proof -
    have i: "unat (word_of_nat i :: u16) = i" using that by (simp add: unat_of_nat_small)
    then have "(word_of_nat i :: u16) < 22" using that by (simp add: word_less_nat_alt)
    then have s: "slot_of ups1_mapping_table (word_of_nat i) \<noteq> None" by (simp add: ups1_slot)
    have "reg_get ups1_profile (word_of_nat i) ?p = Some (vs ! i)"
      using ingest_reg_get [OF ups1_wf, of 22 "word_of_nat i" ?out 0 "uw_pool w"] s i that assms(6)
      by (simp add: nth_append)
    then show ?thesis by (simp add: pool_read_reg_get [OF ups1_wf])
  qed
  show ?thesis
    using run get r(2) k assms(6) by (intro exI [of _ ?w]) simp
qed

text \<open>
  C12: a good poll fills the pool. If unit 1 is connected with nothing queued and the device
  answers the scan with 22 register values, in any chunking of the stream, the process callback
  sends exactly one request, returns 0, resets the failure count, and reading any device address
  below 22 from the pool then gives the value the device sent for it.
\<close>

theorem ups1_poll_fills_pool:
  assumes "unit_wf w k c ups1_profile ups1_mapping_table" and "client_ready (u_tcp (ups_units w ! k))"
    and "queue_abs (cmd_queue (ups_units w ! k)) = []" and "length junk = 260"
    and "net_send_rc (uw_net w) = []" and "length vs = 22"
    and "net_rx (uw_net w) = map Data chunks @ tail_rx" and "[] \<notin> set chunks"
    and "concat chunks = adu (bump_tid (cl_tid (u_tcp (ups_units w ! k)))) uid
           (read_response_pdu MODBUS_FUNC_READ_HOLDING_REGISTERS vs) @ later"
  shows "\<exists>w'. ups_tcp_process_callback junk [] (Some c) w = Some (0, w')
    \<and> comm_fail_count (ups_units w' ! k) = 0
    \<and> (\<forall>i<22. pool_read_by_device_addr (uw_pool w') (Some ups1_profile) (word_of_nat i) (Some 0)
          = Some (True, Some (vs ! i)))
    \<and> net_tx (uw_net w') = net_tx (uw_net w)
        @ [adu (bump_tid (cl_tid (u_tcp (ups_units w ! k)))) (cc_unit_id (cl_cfg (u_tcp (ups_units w ! k))))
            (request_pdu MODBUS_FUNC_READ_HOLDING_REGISTERS 0 22)]"
  using assms by (rule ups1_poll_pool)

definition demo_connected :: "net \<Rightarrow> ups_world" where
  "demo_connected n = (upd_unit 0 (\<lambda>u. u\<lparr>u_tcp := demo_client\<rparr>) demo_world)\<lparr>uw_net := n\<rparr>"

lemma demo_connected_simps [simp]:
  "u_tcp (ups_units (demo_connected n) ! 0) = demo_client" "uw_net (demo_connected n) = n"
  "cmd_queue (ups_units (demo_connected n) ! 0) = queue_init"
  "comm_fail_count (ups_units (demo_connected n) ! 0) = 0"
  by (simp_all add: demo_connected_def)

lemma demo_connected_wf: "unit_wf (demo_connected n) 0 0 ups1_profile ups1_mapping_table"
  using demo_world_wf by (simp add: unit_wf_def demo_connected_def)

lemma demo_scan_reply:
  assumes "length vs = 22"
  shows "concat [[0, 7, 0], [0, 0, 47, 1, 3, 44] @ regs_bytes vs]
      = adu (bump_tid 6) 1 (read_response_pdu MODBUS_FUNC_READ_HOLDING_REGISTERS vs) @ []"
  using assms by (simp add: adu_def read_response_pdu_def modbus_consts hi_byte_def lo_byte_def)

theorem ups1_poll_fills_pool_witness:
  "\<exists>w'. ups_tcp_process_callback (replicate 260 0) [] (Some 0)
        (demo_connected (demo_net [Data [0, 7, 0],
          Data ([0, 0, 47, 1, 3, 44] @ regs_bytes (map word_of_nat [100..<122]))])) = Some (0, w')
    \<and> pool_read_by_device_addr (uw_pool w') (Some ups1_profile) (word_of_nat 7) (Some 0)
      = Some (True, Some (word_of_nat 107))"
proof -
  define vs :: "u16 list" where "vs = map word_of_nat [100..<122]"
  have vs: "length vs = 22" "vs ! 7 = word_of_nat 107" by (simp_all add: vs_def)
  define w where "w = demo_connected (demo_net [Data [0, 7, 0], Data ([0, 0, 47, 1, 3, 44] @ regs_bytes vs)])"
  note cc = demo_scan_reply [OF vs(1)]
  have w: "unit_wf w 0 0 ups1_profile ups1_mapping_table" "u_tcp (ups_units w ! 0) = demo_client"
      "queue_abs (cmd_queue (ups_units w ! 0)) = []" "net_send_rc (uw_net w) = []"
      "net_rx (uw_net w) = map Data [[0, 7, 0], [0, 0, 47, 1, 3, 44] @ regs_bytes vs] @ []"
    using demo_connected_wf queue_init_ok(2) by (simp_all add: w_def demo_net_def)
  have r: "client_ready demo_client" "cl_tid demo_client = 6" by (simp_all add: demo_client_def client_ready_def)
  have "\<exists>w'. ups_tcp_process_callback (replicate 260 0) [] (Some 0) w = Some (0, w')
    \<and> (\<forall>i<22. pool_read_by_device_addr (uw_pool w') (Some ups1_profile) (word_of_nat i) (Some 0)
          = Some (True, Some (vs ! i)))"
    using ups1_poll_fills_pool [OF w(1) _ w(3) _ w(4) vs(1) w(5), of "replicate 260 0" 1 "[]"] cc
    by (auto simp: w(2) r)
  then obtain w' where w': "ups_tcp_process_callback (replicate 260 0) [] (Some 0) w = Some (0, w')"
      "\<forall>i<22. pool_read_by_device_addr (uw_pool w') (Some ups1_profile) (word_of_nat i) (Some 0)
          = Some (True, Some (vs ! i))"
    by blast
  have "pool_read_by_device_addr (uw_pool w') (Some ups1_profile) (word_of_nat 7) (Some 0)
      = Some (True, Some (vs ! 7))"
    using spec [OF w'(2), of 7] by simp
  then show ?thesis using w'(1) vs(2) unfolding w_def vs_def by metis
qed

text \<open>
  Communication loss. If the device sends nothing, a poll of unit 1 times out and the failure
  count goes up by one; the callback still returns 0 until the count reaches five, then -1, on
  which the thread disconnects. The pool keeps its last values.
\<close>

theorem silent_device_counts:
  assumes "unit_wf w k c ups1_profile ups1_mapping_table" and "client_ready (u_tcp (ups_units w ! k))"
    and "queue_abs (cmd_queue (ups_units w ! k)) = []" and "length junk = 260"
    and "net_send_rc (uw_net w) = []" and "net_rx (uw_net w) = []"
  shows "\<exists>w'. ups_tcp_process_callback junk [] (Some c) w
      = Some (if comm_fail_count (ups_units w ! k) + 1 \<ge> 5 then - 1 else 0, w')
    \<and> comm_fail_count (ups_units w' ! k) = comm_fail_count (ups_units w ! k) + 1
    \<and> uw_pool w' = uw_pool w \<and> net_rx (uw_net w') = [] \<and> net_send_rc (uw_net w') = []
    \<and> client_ready (u_tcp (ups_units w' ! k))"
proof -
  let ?t = "u_tcp (ups_units w ! k)"
  let ?fr = "adu (bump_tid (cl_tid ?t)) (cc_unit_id (cl_cfg ?t))
      (request_pdu MODBUS_FUNC_READ_HOLDING_REGISTERS 0 22)"
  let ?n = "(uw_net w)\<lparr>net_tx := net_tx (uw_net w) @ [?fr], net_wire := net_wire (uw_net w) @ ?fr, net_errno := EAGAIN\<rparr>"
  have "recv_exact 0 6 0 junk ((uw_net w)\<lparr>net_tx := net_tx (uw_net w) @ [?fr], net_wire := net_wire (uw_net w) @ ?fr\<rparr>) = Some (- 2, junk, ?n)"
    using assms(6) by (subst recv_exact.simps) (simp add: sys_recv_def)
  then have r: "mb_tcp_client_read_holding_registers junk (Some ?t) 0 22 (Some (replicate 125 0)) (uw_net w)
      = Some (MB_TCP_CLIENT_ERR_TIMEOUT, Some (?t\<lparr>cl_tid := bump_tid (cl_tid ?t)\<rparr>), Some (replicate 125 0), ?n)"
    using assms(2,5)
    by (simp add: mb_tcp_client_read_holding_registers_def client_ready_def mutex_lock_def next_tid_bump
        build_fc03_ok sys_send_ok modbus_consts recv_response_def recv_err_to_client_err_def)
  have k: "k < length (ups_units w)" using assms(1) by (auto simp: unit_wf_def)
  have row0: "buf_load ups1_mapping_table 0 = Some (ups1_mapping_table ! 0)"
      "device_address (ups1_mapping_table ! 0) = 0"
    by (simp_all add: buf_load_def ups1_row)
  show ?thesis
    using r row0 k assms(2,5,6)
    by (simp add: ups1_poll [OF assms(1,3)] scan_segment_def Let_def client_codes UPS_COMM_FAIL_THRESHOLD_def)
qed

theorem silent_device_counts_witness:
  "\<exists>w'. ups_tcp_process_callback (replicate 260 0) [] (Some 0) (demo_connected (demo_net [])) = Some (0, w')
    \<and> comm_fail_count (ups_units w' ! 0) = 1"
  using silent_device_counts [OF demo_connected_wf [of "demo_net []"], where junk = "replicate 260 0"]
    queue_init_ok(2)
  by (auto simp: demo_net_def)

theorem poll_cycle_frames_witness:
  "\<exists>rc w'. ups_tcp_process_callback (replicate 260 0) [[(0x12, [55], UPS_WRITE_MODE_AUTO)]] (Some 0)
      (demo_connected (demo_net [])) = Some (rc, w') \<and> client_ready (u_tcp (ups_units w' ! 0))"
proof -
  have "client_ready (u_tcp (ups_units (demo_connected (demo_net [])) ! 0))" by (simp add: demo_client_def client_ready_def)
  moreover have "\<forall>x \<in> set (concat [[(0x12, [55], UPS_WRITE_MODE_AUTO)]]). command_ok x"
    by (simp add: command_ok_def)
  ultimately show ?thesis
    using poll_cycle_frames [OF demo_connected_wf [of "demo_net []"], of "replicate 260 0"] by fastforce
qed

section \<open>Starting, stopping, pushing\<close>

definition startable :: "ups_world \<Rightarrow> nat \<Rightarrow> bool" where
  "startable w i \<longleftrightarrow> cfg_enabled (uw_cfgs w ! i)
     \<and> ups_find_profile_by_uid (word_of_int (modbus_uid (uw_cfgs w ! i))) \<noteq> None"

definition fresh_unit :: "nat \<Rightarrow> ups_unit \<Rightarrow> bool" where
  "fresh_unit i u \<longleftrightarrow> u_cfg u = Some i \<and> u_profile u = Some ups1_profile \<and> u_running u
     \<and> comm_fail_count u = 0 \<and> u_tcp u = zero_client_ctx \<and> cmd_queue u = queue_init"

definition new_unit :: "nat \<Rightarrow> ups_unit \<Rightarrow> ups_unit" where
  "new_unit i u = u\<lparr>u_cfg := Some i, u_profile := Some ups1_profile, u_running := True,
     comm_fail_count := 0, u_tcp := zero_client_ctx, cmd_queue := queue_init\<rparr>"

lemma fresh_new [simp]: "fresh_unit i (new_unit i u)"
  by (simp add: fresh_unit_def new_unit_def)

lemma start_one_cases:
  assumes "i < length (uw_cfgs w)" and "ups_unit_count w < length (ups_units w)"
  shows "\<not> cfg_enabled (uw_cfgs w ! i) \<Longrightarrow> start_one_module created i (st, w) = Some (st, w)"
    and "cfg_enabled (uw_cfgs w ! i) \<Longrightarrow> \<not> startable w i
      \<Longrightarrow> start_one_module created i (st, w) = Some (- 1, w)"
    and "startable w i \<Longrightarrow> created i \<Longrightarrow> start_one_module created i (st, w)
      = Some (st, w\<lparr>ups_units := (ups_units w)[ups_unit_count w := new_unit i (ups_units w ! ups_unit_count w)],
          ups_unit_count := ups_unit_count w + 1\<rparr>)"
    and "startable w i \<Longrightarrow> \<not> created i \<Longrightarrow> \<exists>u. start_one_module created i (st, w)
      = Some (- 1, w\<lparr>ups_units := (ups_units w)[ups_unit_count w := u]\<rparr>)"
  using assms
  by (auto simp: start_one_module_def buf_load_def startable_def ups_find_profile Let_def new_unit_def
      queue_destroy_def queue_init_def mutex_destroy_def split: if_splits)

lemma start_loop:
  assumes "n \<le> length (uw_cfgs w)" and "n \<le> length (ups_units w)"
  shows "\<exists>st w'. foldM (start_one_module created) [0..<n] (0, w\<lparr>ups_unit_count := 0\<rparr>) = Some (st, w')
    \<and> uw_cfgs w' = uw_cfgs w \<and> length (ups_units w') = length (ups_units w)
    \<and> ups_unit_count w' \<le> n
    \<and> list_all2 fresh_unit (filter (\<lambda>i. startable w i \<and> created i) [0..<n]) (take (ups_unit_count w') (ups_units w'))
    \<and> (st = 0 \<longleftrightarrow> (\<forall>i<n. cfg_enabled (uw_cfgs w ! i) \<longrightarrow> startable w i \<and> created i))"
  using assms
proof (induction n)
  case 0
  then show ?case by simp
next
  case (Suc n)
  then obtain st w' where h: "foldM (start_one_module created) [0..<n] (0, w\<lparr>ups_unit_count := 0\<rparr>) = Some (st, w')"
      "uw_cfgs w' = uw_cfgs w" "length (ups_units w') = length (ups_units w)" "ups_unit_count w' \<le> n"
      "list_all2 fresh_unit (filter (\<lambda>i. startable w i \<and> created i) [0..<n]) (take (ups_unit_count w') (ups_units w'))"
      "st = 0 \<longleftrightarrow> (\<forall>i<n. cfg_enabled (uw_cfgs w ! i) \<longrightarrow> startable w i \<and> created i)"
    by auto
  let ?k = "ups_unit_count w'"
  have k: "n < length (uw_cfgs w')" "?k < length (ups_units w')" using h(2,3,4) Suc(2,3) by auto
  have f: "foldM (start_one_module created) [0..<Suc n] (0, w\<lparr>ups_unit_count := 0\<rparr>)
      = start_one_module created n (st, w')"
    using h(1) by (cases "start_one_module created n (st, w')") (auto simp: foldM_append)
  have sw: "startable w' n = startable w n" by (simp add: startable_def h(2))
  note one = start_one_cases [OF k, of created st, unfolded sw h(2)]
  consider (off) "\<not> cfg_enabled (uw_cfgs w ! n)" | (none) "cfg_enabled (uw_cfgs w ! n)" "\<not> startable w n"
    | (started) "startable w n" "created n" | (failed) "startable w n" "\<not> created n"
    by blast
  then show ?case
  proof cases
    case off
    then have "\<not> startable w n" by (simp add: startable_def)
    with off one(1) h show ?thesis unfolding f by (auto simp: less_Suc_eq)
  next
    case none
    with one(2) h show ?thesis unfolding f by (auto simp: less_Suc_eq)
  next
    case started
    let ?u = "new_unit n (ups_units w' ! ?k)"
    have "take (Suc ?k) ((ups_units w')[?k := ?u]) = take ?k (ups_units w') @ [?u]"
      using k by (simp add: take_Suc_conv_app_nth)
    then show ?thesis
      using one(3) [OF started] started h unfolding f by (auto simp: less_Suc_eq intro: list_all2_appendI)
  next
    case failed
    then have "cfg_enabled (uw_cfgs w ! n)" by (simp add: startable_def)
    then show ?thesis
      using one(4) [OF failed] failed h unfolding f by (auto simp: less_Suc_eq)
  qed
qed

lemma started_units_wf:
  assumes "list_all2 fresh_unit is (take (ups_unit_count w) (ups_units w))" and "distinct is"
    and "ups_unit_count w \<le> length (ups_units w)" and "\<forall>i\<in>set is. i < length (uw_cfgs w)"
  shows "ups_unit_count w = length is
    \<and> (\<forall>k<length is. unit_wf w k (is ! k) ups1_profile ups1_mapping_table \<and> fresh_unit (is ! k) (ups_units w ! k))"
proof -
  have n: "ups_unit_count w = length is" using list_all2_lengthD [OF assms(1)] assms(3) by simp
  have fr: "fresh_unit (is ! k) (ups_units w ! k)" if "k < length is" for k
    using list_all2_nthD [OF assms(1) that] that n by simp
  have "unit_wf w k (is ! k) ups1_profile ups1_mapping_table" if k: "k < length is" for k
  proof -
    have "is ! j \<noteq> is ! k" if "j < k" for j
      using that k assms(2) by (simp add: nth_eq_iff_index_eq)
    then have "\<forall>j<k. u_cfg (ups_units w ! j) \<noteq> Some (is ! k)"
      using fr k by (auto simp: fresh_unit_def)
    moreover have "read_chunk ups1_profile \<le> 125" by (simp add: ups1_profile_def)
    ultimately show ?thesis
      using fr [OF k] k n assms(3,4) ups1_wf queue_init_ok
      by (simp add: unit_wf_def fresh_unit_def)
  qed
  then show ?thesis using n fr by blast
qed

text \<open>
  Starting. Every enabled module whose identifier has a profile and whose thread can be
  created gets a unit of its own, in the order of the configuration, well-formed, running, with
  an empty queue and an unconnected client; the other modules get none. The call reports success
  exactly if every enabled module was started and the bridge started too.
\<close>

theorem start_ups_modules_ok:
  assumes "cnt \<le> length (uw_cfgs w)" and "cnt \<le> length (ups_units w)"
  shows "\<exists>st w'. start_ups_modules created bridge_rc cnt w = Some (st, w')
    \<and> (st = 0 \<longleftrightarrow> bridge_rc = 0 \<and> (\<forall>i<cnt. cfg_enabled (uw_cfgs w ! i) \<longrightarrow> startable w i \<and> created i))
    \<and> (let started = filter (\<lambda>i. startable w i \<and> created i) [0..<cnt] in
        ups_unit_count w' = length started
        \<and> (\<forall>k<length started. unit_wf w' k (started ! k) ups1_profile ups1_mapping_table
            \<and> fresh_unit (started ! k) (ups_units w' ! k)))"
proof -
  let ?is = "filter (\<lambda>i. startable w i \<and> created i) [0..<cnt]"
  obtain st w' where h: "foldM (start_one_module created) [0..<cnt] (0, w\<lparr>ups_unit_count := 0\<rparr>) = Some (st, w')"
      "uw_cfgs w' = uw_cfgs w" "length (ups_units w') = length (ups_units w)" "ups_unit_count w' \<le> cnt"
      "list_all2 fresh_unit ?is (take (ups_unit_count w') (ups_units w'))"
      "st = 0 \<longleftrightarrow> (\<forall>i<cnt. cfg_enabled (uw_cfgs w ! i) \<longrightarrow> startable w i \<and> created i)"
    using start_loop [OF assms] by blast
  have "ups_unit_count w' = length ?is
    \<and> (\<forall>k<length ?is. unit_wf w' k (?is ! k) ups1_profile ups1_mapping_table
        \<and> fresh_unit (?is ! k) (ups_units w' ! k))"
    by (rule started_units_wf [OF h(5)]) (use h assms in auto)
  moreover have "start_ups_modules created bridge_rc cnt w = Some (if bridge_rc \<noteq> 0 then - 1 else st, w')"
    using h(1) by (simp add: start_ups_modules_def)
  ultimately show ?thesis using h(6) by (auto simp: Let_def)
qed

theorem start_ups_modules_ok_witness:
  "\<exists>st w'. start_ups_modules (\<lambda>_. True) 0 1 (demo_world\<lparr>ups_unit_count := 7\<rparr>) = Some (st, w') \<and> st = 0
     \<and> ups_unit_count w' = 1"
proof -
  have s: "startable (demo_world\<lparr>ups_unit_count := 7\<rparr>) 0" "length (uw_cfgs demo_world) = 1"
    by (simp_all add: startable_def demo_world_def ups_find_profile)
  then show ?thesis
    using start_ups_modules_ok [of 1 "demo_world\<lparr>ups_unit_count := 7\<rparr>" "\<lambda>_. True" 0] by auto
qed

lemma foldM_units:
  assumes "n \<le> length us" and "\<forall>k<n. f (us ! k) = Some (g (us ! k))"
  shows "foldM (\<lambda>i us. buf_load us i \<bind> (\<lambda>u. f u \<bind> (\<lambda>u. buf_store i u us))) [0..<n] us
    = Some (map g (take n us) @ drop n us)"
  using assms
proof (induction n)
  case 0
  then show ?case by simp
next
  case (Suc n)
  let ?us = "map g (take n us) @ drop n us"
  have d: "drop n us = us ! n # drop (Suc n) us" using Suc(2) by (simp add: Cons_nth_drop_Suc)
  have "buf_load ?us n = Some (us ! n)" "buf_store n (g (us ! n)) ?us = Some (map g (take (Suc n) us) @ drop (Suc n) us)"
    using Suc(2) d by (simp_all add: buf_load_def buf_store_def nth_append list_update_append take_Suc_conv_app_nth)
  then show ?case using Suc by (simp add: foldM_append)
qed

text \<open>
  Stopping. Once the threads are joined, every unit is marked stopped and its queue mutex
  destroyed, the unit count is zero, the call returns 0, and from then on every command from the
  bridge is refused.
\<close>

theorem stop_ups_modules_ok:
  assumes "ups_unit_count w \<le> length (ups_units w)"
    and "\<forall>k<ups_unit_count w. queue_inv (cmd_queue (ups_units w ! k))"
  shows "\<exists>w'. stop_ups_modules w = Some (0, w') \<and> ups_unit_count w' = 0
    \<and> (\<forall>k<ups_unit_count w. \<not> u_running (ups_units w' ! k)
        \<and> q_lock (cmd_queue (ups_units w' ! k)) = Mutex_Destroyed)
    \<and> (\<forall>uid addr vs cnt mode. ups_cmd_push uid addr vs cnt mode w' = Some (- 1, w'))"
proof -
  let ?n = "ups_unit_count w" and ?us = "ups_units w"
  let ?f = "\<lambda>u. u\<lparr>u_running := False\<rparr>"
  let ?g = "\<lambda>u. u\<lparr>cmd_queue := (cmd_queue u)\<lparr>q_lock := Mutex_Destroyed\<rparr>\<rparr>"
  let ?us1 = "map ?f (take ?n ?us) @ drop ?n ?us"
  let ?us2 = "map ?g (take ?n ?us1) @ drop ?n ?us1"
  have len: "?n \<le> length ?us1" using assms(1) by simp
  have one: "foldM clear_running [0..<?n] ?us = Some ?us1"
    using foldM_units [OF assms(1), of "\<lambda>u. Some (?f u)" ?f] by (simp add: clear_running_def [abs_def])
  have lock: "\<forall>k<?n. (queue_destroy (cmd_queue (?us1 ! k)) \<bind> (\<lambda>q. Some ((?us1 ! k)\<lparr>cmd_queue := q\<rparr>)))
      = Some (?g (?us1 ! k))"
    using assms by (auto simp: nth_append queue_destroy_def queue_inv_def mutex_destroy_def)
  have two: "foldM release_queue [0..<?n] ?us1 = Some ?us2"
    using foldM_units [OF len lock] by (simp add: release_queue_def [abs_def])
  have run: "stop_ups_modules w = Some (0, w\<lparr>ups_units := ?us2, ups_unit_count := 0\<rparr>)"
    using one two by (simp add: stop_ups_modules_def)
  show ?thesis
  proof (intro exI conjI allI impI)
    show "stop_ups_modules w = Some (0, w\<lparr>ups_units := ?us2, ups_unit_count := 0\<rparr>)" by (rule run)
  qed (use assms(1) in \<open>auto simp: nth_append ups_cmd_push_def ups_unit_from_uid_def split: option.splits\<close>)
qed

theorem stop_ups_modules_ok_witness:
  "\<exists>w'. stop_ups_modules demo_world = Some (0, w')
     \<and> ups_cmd_push 1 5 (Some [9]) 1 UPS_WRITE_MODE_AUTO w' = Some (- 1, w')"
  using stop_ups_modules_ok [of demo_world] queue_init_ok(1) by auto

text \<open>With sends that complete, everything a poll hands to \<open>send\<close> is on the wire.\<close>

lemma write_device_all_sent:
  "write_registers_to_device junk addr vs cnt mode (tcp, n) = Some (rc, tcp', n') \<Longrightarrow> all_sent n0 n \<Longrightarrow> all_sent n0 n'"
  by (cases mode) (auto simp: write_registers_to_device_def Let_def split: bind_splits if_splits prod.splits dest: write_all_sent(2,3))

lemma drain_all_sent:
  "drain_queue junk pushes q s = Some (q', tcp', n') \<Longrightarrow> all_sent n0 (snd s) \<Longrightarrow> all_sent n0 n'"
proof (induction junk pushes q s rule: drain_queue.induct)
  case (1 junk pushes q s)
  obtain tcp n where s: "s = (tcp, n)" by (cases s)
  let ?q = "case pushes of [] \<Rightarrow> q | p # _ \<Rightarrow> apply_pushes p q"
  show ?case
  proof (cases "queue_pop ?q")
    case None
    then show ?thesis using 1(2) by (subst (asm) drain_queue.simps) (simp add: Let_def)
  next
    case (Some r)
    obtain c q1 where r: "r = (c, q1)" by (cases r)
    show ?thesis
    proof (cases c)
      case None
      then show ?thesis using 1(2,3) Some r by (subst (asm) drain_queue.simps) (simp add: Let_def)
    next
      case (Some cmd)
      note pop = \<open>queue_pop ?q = Some r\<close> [unfolded r Some]
      obtain rc tcp1 n1 where w: "write_registers_to_device junk (cmd_addr cmd) (cmd_values cmd) (cmd_count cmd) (cmd_mode cmd) (tcp, n)
          = Some (rc, tcp1, n1)" and d: "drain_queue junk (tl pushes) q1 (tcp1, n1) = Some (q', tcp', n')"
        using 1(2) pop s by (subst (asm) drain_queue.simps) (auto simp: Let_def split: option.splits)
      have "all_sent n0 n1" using write_device_all_sent [OF w] 1(3) s by simp
      then show ?thesis using "1.IH" [OF refl pop refl refl w [folded s] refl] d by simp
    qed
  qed
qed

lemma scan_segment_all_sent:
  "scan_segment junk pr tab i l s = Some (g, s') \<Longrightarrow> all_sent n0 (sc_net s) \<Longrightarrow> all_sent n0 (sc_net s')"
  using read_all_sent [of junk "Some (sc_tcp s)" _ _ "Some (sc_buf s)" "sc_net s" _ _ _ _ n0]
  by (fastforce simp: scan_segment_def Let_def split: bind_splits if_splits)

lemma scan_loop_all_sent:
  "scan_loop junk pr tab is i l s = Some (rc, s') \<Longrightarrow> all_sent n0 (sc_net s) \<Longrightarrow> all_sent n0 (sc_net s')"
  by (induction junk pr tab "is" i l s rule: scan_loop.induct)
    (auto simp: Let_def split: bind_splits if_splits dest: scan_segment_all_sent)

lemma process_all_sent:
  assumes "ups_tcp_process_callback junk pushes cfg w = Some (rc, w')" and "all_sent n0 (uw_net w)"
  shows "all_sent n0 (uw_net w')"
  using assms
  by (auto simp: ups_tcp_process_callback_def Let_def split: option.splits bind_splits if_splits
      dest!: drain_all_sent scan_loop_all_sent)

lemma poll_sends_queue:
  assumes "unit_wf w k c pr tab" and "client_ready (u_tcp (ups_units w ! k))" and "length junk = 260"
  shows "\<exists>rc w2 reads. ups_tcp_process_callback junk [] (Some c) w = Some (rc, w2)
    \<and> (let t = u_tcp (ups_units w ! k) in net_tx (uw_net w2) = net_tx (uw_net w)
        @ cmd_frames (cl_tid t) (cc_unit_id (cl_cfg t)) (queue_abs (cmd_queue (ups_units w ! k))) @ reads)"
proof -
  have "\<forall>x\<in>set (concat []). command_ok x" by simp
  from process_callback_ok [OF assms this] obtain rc w' acc m where
      "ups_tcp_process_callback junk [] (Some c) w = Some (rc, w')" "subseq acc (concat [])"
      "net_tx (uw_net w') = net_tx (uw_net w)
        @ cmd_frames (cl_tid (u_tcp (ups_units w ! k))) (cc_unit_id (cl_cfg (u_tcp (ups_units w ! k))))
            (queue_abs (cmd_queue (ups_units w ! k)) @ acc)
        @ take m (seg_frames (cmd_tid (cl_tid (u_tcp (ups_units w ! k)))
              (queue_abs (cmd_queue (ups_units w ! k)) @ acc))
            (cc_unit_id (cl_cfg (u_tcp (ups_units w ! k)))) tab (segments pr tab))"
    by blast
  moreover from this(2) have "acc = []" by (auto dest: list_emb_length)
  ultimately show ?thesis by (simp add: Let_def)
qed

lemma poll_wires_queue:
  assumes "unit_wf w k c pr tab" and "client_ready (u_tcp (ups_units w ! k))" and "length junk = 260"
    and "net_send_rc (uw_net w) = []"
  shows "\<exists>rc w2 reads. ups_tcp_process_callback junk [] (Some c) w = Some (rc, w2)
    \<and> (let t = u_tcp (ups_units w ! k) in net_wire (uw_net w2) = net_wire (uw_net w)
        @ concat (cmd_frames (cl_tid t) (cc_unit_id (cl_cfg t)) (queue_abs (cmd_queue (ups_units w ! k))) @ reads))"
proof -
  obtain rc w2 reads where p: "ups_tcp_process_callback junk [] (Some c) w = Some (rc, w2)"
      "net_tx (uw_net w2) = net_tx (uw_net w) @ (let t = u_tcp (ups_units w ! k) in
        cmd_frames (cl_tid t) (cc_unit_id (cl_cfg t)) (queue_abs (cmd_queue (ups_units w ! k)))) @ reads"
    using poll_sends_queue [OF assms(1-3)] by (auto simp: Let_def)
  have "all_sent (uw_net w) (uw_net w2)" by (rule process_all_sent [OF p(1) all_sent_refl [OF assms(4)]])
  from all_sent_wire [OF this p(2)] p(1) show ?thesis
    by (intro exI [of _ rc] exI [of _ w2] exI [of _ reads]) (simp add: Let_def)
qed

lemma cmd_push_ok:
  assumes "unit_wf w k c pr tab"
    and "word_of_int (modbus_uid (uw_cfgs w ! c)) = uid"
    and "\<forall>i<ups_unit_count w. \<exists>c'<length (uw_cfgs w). u_cfg (ups_units w ! i) = Some c'
      \<and> (i < k \<longrightarrow> word_of_int (modbus_uid (uw_cfgs w ! c')) \<noteq> uid)"
    and "0 < cnt" and "cnt \<le> 123" and "unat cnt \<le> length vs"
  shows "(length (queue_abs (cmd_queue (ups_units w ! k))) = 16
      \<and> ups_cmd_push uid addr (Some vs) cnt mode w = Some (- 1, w))
    \<or> (\<exists>q'. ups_cmd_push uid addr (Some vs) cnt mode w = Some (0, upd_unit k (\<lambda>u. u\<lparr>cmd_queue := q'\<rparr>) w)
        \<and> length (queue_abs (cmd_queue (ups_units w ! k))) < 16
        \<and> queue_abs q' = queue_abs (cmd_queue (ups_units w ! k)) @ [(addr, take (unat cnt) vs, mode)]
        \<and> unit_wf (upd_unit k (\<lambda>u. u\<lparr>cmd_queue := q'\<rparr>) w) k c pr tab)"
proof -
  let ?q = "cmd_queue (ups_units w ! k)" and ?x = "(addr, take (unat cnt) vs, mode)"
  have inv: "queue_inv ?q" "k < ups_unit_count w" "ups_unit_count w \<le> length (ups_units w)"
      "u_cfg (ups_units w ! k) = Some c"
    using assms(1) by (auto simp: unit_wf_def)
  let ?Q = "\<lambda>i. word_of_int (modbus_uid (uw_cfgs w ! the (u_cfg (ups_units w ! i)))) = uid"
  have lk: "ups_unit_from_uid uid w = Some (Some k)"
    unfolding ups_unit_from_uid_def
  proof (rule unit_loop_first [where Q = ?Q, OF inv(2,3)])
    show "\<forall>i<ups_unit_count w. (case u_cfg (ups_units w ! i) of None \<Rightarrow> Some False
        | Some c \<Rightarrow> buf_load (uw_cfgs w) c \<bind> (\<lambda>conf. Some (word_of_int (modbus_uid conf) = uid))) = Some (?Q i)"
      using assms(3) by (auto simp: buf_load_def)
    show "\<forall>j<k. \<not> ?Q j"
    proof (intro allI impI)
      fix j assume j: "j < k"
      then have "j < ups_unit_count w" using inv(2) by simp
      then show "\<not> ?Q j" using assms(3) j by force
    qed
    show "?Q k" using assms(2) inv(4) by simp
  qed
  have push: "ups_cmd_push uid addr (Some vs) cnt mode w = (queue_push addr vs cnt mode ?q
      \<bind> (\<lambda>(rc, q). Some (rc, upd_unit k (\<lambda>u. u\<lparr>cmd_queue := q\<rparr>) w)))"
    using assms(4,5) lk by (auto simp: ups_cmd_push_def MODBUS_MAX_WRITE_REGISTERS_def)
  from queue_push_ok [OF inv(1) assms(4-6), of addr mode] show ?thesis
  proof (elim disjE exE conjE)
    assume full: "queue_push addr vs cnt mode ?q = Some (- 1, ?q)" "q_count ?q = 16"
    then have "ups_cmd_push uid addr (Some vs) cnt mode w = Some (- 1, w)"
      using push by simp
    then show ?thesis using full(2) by simp
  next
    fix q' assume q: "queue_push addr vs cnt mode ?q = Some (0, q')" "queue_inv q'" "q_count ?q < 16"
      "queue_abs q' = queue_abs ?q @ [?x]"
    let ?w = "upd_unit k (\<lambda>u. u\<lparr>cmd_queue := q'\<rparr>) w"
    have ok: "command_ok ?x"
      using assms(4-6) by (auto simp: command_ok_def word_le_nat_alt word_less_nat_alt)
    have "unit_wf ?w k c pr tab" using assms(1) inv q(2,4) ok by (auto simp: unit_wf_def)
    then show ?thesis using push q inv by (intro disjI2 exI [of _ q']) simp
  qed
qed

text \<open>
  A command reaches the wire. A command pushed for the identifier of a connected unit is
  refused only if sixteen are waiting, and then nothing changes; otherwise the unit's next poll
  sends the frames of the waiting commands in order and then the frame of this one, before any
  read request.
\<close>

theorem push_reaches_wire:
  assumes "unit_wf w k c pr tab" and "client_ready (u_tcp (ups_units w ! k))" and "length junk = 260"
    and "word_of_int (modbus_uid (uw_cfgs w ! c)) = uid"
    and "\<forall>i<ups_unit_count w. \<exists>c'<length (uw_cfgs w). u_cfg (ups_units w ! i) = Some c'
      \<and> (i < k \<longrightarrow> word_of_int (modbus_uid (uw_cfgs w ! c')) \<noteq> uid)"
    and "0 < cnt" and "cnt \<le> 123" and "unat cnt \<le> length vs"
  shows "(length (queue_abs (cmd_queue (ups_units w ! k))) = 16
      \<and> ups_cmd_push uid addr (Some vs) cnt mode w = Some (- 1, w))
    \<or> (\<exists>w1 rc w2 reads. ups_cmd_push uid addr (Some vs) cnt mode w = Some (0, w1)
        \<and> ups_tcp_process_callback junk [] (Some c) w1 = Some (rc, w2)
        \<and> (let t = u_tcp (ups_units w ! k) in net_tx (uw_net w2) = net_tx (uw_net w)
            @ cmd_frames (cl_tid t) (cc_unit_id (cl_cfg t))
                (queue_abs (cmd_queue (ups_units w ! k)) @ [(addr, take (unat cnt) vs, mode)])
            @ reads))"
proof -
  from cmd_push_ok [OF assms(1,4-8), of addr mode] show ?thesis
  proof (elim disjE exE conjE)
    fix q' let ?w = "upd_unit k (\<lambda>u. u\<lparr>cmd_queue := q'\<rparr>) w"
    assume q: "ups_cmd_push uid addr (Some vs) cnt mode w = Some (0, ?w)"
      "queue_abs q' = queue_abs (cmd_queue (ups_units w ! k)) @ [(addr, take (unat cnt) vs, mode)]"
      "unit_wf ?w k c pr tab"
    have k: "k < length (ups_units w)" using assms(1) by (simp add: unit_wf_def)
    then have "client_ready (u_tcp (ups_units ?w ! k))" using assms(2) by simp
    from poll_sends_queue [OF q(3) this assms(3)] show ?thesis using q(1,2) k by (simp add: Let_def)
  qed simp
qed

theorem push_reaches_wire_witness:
  "\<exists>w1 rc w2 reads. ups_cmd_push 1 0x12 (Some [55]) 1 UPS_WRITE_MODE_AUTO (demo_connected (demo_net [])) = Some (0, w1)
     \<and> ups_tcp_process_callback (replicate 260 0) [] (Some 0) w1 = Some (rc, w2)
     \<and> net_tx (uw_net w2) = cmd_frames 6 1 [(0x12, [55], UPS_WRITE_MODE_AUTO)] @ reads"
proof -
  let ?w = "demo_connected (demo_net [])"
  have h: "client_ready (u_tcp (ups_units ?w ! 0))" "word_of_int (modbus_uid (uw_cfgs ?w ! 0)) = (1 :: u8)"
    by (simp_all add: demo_client_def client_ready_def demo_connected_def demo_world_def)
  have u: "\<forall>i<ups_unit_count ?w. \<exists>c'<length (uw_cfgs ?w). u_cfg (ups_units ?w ! i) = Some c'
      \<and> (i < 0 \<longrightarrow> word_of_int (modbus_uid (uw_cfgs ?w ! c')) \<noteq> (1 :: u8))"
    by (simp add: demo_connected_def demo_world_def demo_unit_def)
  have c: "cl_tid demo_client = 6" "cc_unit_id (cl_cfg demo_client) = 1" "net_tx (demo_net []) = []"
    by (simp_all add: demo_client_def demo_net_def)
  show ?thesis
    using push_reaches_wire [OF demo_connected_wf h(1) _ h(2) u, where junk = "replicate 260 0"
      and cnt = 1 and vs = "[55]" and addr = "0x12" and mode = UPS_WRITE_MODE_AUTO]
    by (simp only: demo_connected_simps c queue_init_ok(2) Let_def) (simp del: cmd_frames.simps)
qed

end
