(* ===== verification/Cmos_Pub.thy ===== *)
theory Cmos_Pub
  imports Cmos_Text
begin

text \<open>
  The CMOS publisher (\<open>lib/cmos/cmos_pub.c\<close>) and its batch helper (\<open>lib/cmos/cmos_util.h\<close>):
  registration with the master, accepting subscribers, publishing a message to all of them,
  closing. The static variables are the record \<open>cmos_pub\<close>; ignoring SIGPIPE and socket options
  have no effect on it and are left out.
\<close>

section \<open>State\<close>

definition CM_MAX_SUB_CLIENT :: nat where "CM_MAX_SUB_CLIENT = 512"

record cmos_pub =
  pub_master_sock :: int
  listen_sock :: int
  sub_socks :: "int list"
  sub_count :: nat
  pub_topic :: string
  pub_epfd :: int

definition static_pub :: cmos_pub where
  "static_pub = \<lparr>pub_master_sock = - 1, listen_sock = - 1, sub_socks = replicate CM_MAX_SUB_CLIENT 0,
     sub_count = 0, pub_topic = replicate 64 (CHR 0x00), pub_epfd = - 1\<rparr>"

section \<open>Numbers as text\<close>

text \<open>\<open>printf\<close>'s \<open>%u\<close> and \<open>%d\<close>.\<close>

definition digit :: "nat \<Rightarrow> char" where
  "digit d = char_of (48 + d)"

fun show_nat :: "nat \<Rightarrow> string" where
  "show_nat n = (if n < 10 then [digit n] else show_nat (n div 10) @ [digit (n mod 10)])"

declare show_nat.simps [simp del]

definition show_int :: "int \<Rightarrow> string" where
  "show_int i = (if i < 0 then CHR 0x2D # show_nat (nat (- i)) else show_nat (nat i))"

text \<open>\<open>snprintf(buf, cap, \<dots>)\<close> into a fresh array, as the string it then holds.\<close>

definition snprintf_text :: "nat \<Rightarrow> string \<Rightarrow> string" where
  "snprintf_text cap txt = take (cap - 1) txt"

section \<open>Initialisation\<close>

text \<open>What the system answers to one \<open>cmos_pub_init\<close> besides the connection to the master.\<close>

record pub_env =
  e_listen_socket :: int
  e_bind :: int
  e_listen :: int
  e_epoll_create :: int

definition cmos_pub_init ::
  "pub_env \<Rightarrow> string \<Rightarrow> int \<Rightarrow> string \<Rightarrow> string \<Rightarrow> int \<Rightarrow> cmos_pub \<times> cm_io \<Rightarrow> (int \<times> cmos_pub \<times> cm_io) run" where
  "cmos_pub_init env master_ip master_port node_name topic listen_port s = (case s of (p, io) \<Rightarrow> do {
     t \<leftarrow> strncpy (pub_topic p) topic 63;
     t \<leftarrow> buf_store 63 (CHR 0x00) t;
     let p = p\<lparr>pub_topic := t\<rparr>;
     socks \<leftarrow> foldM (\<lambda>i socks. buf_store i (- 1) socks) [0..<CM_MAX_SUB_CLIENT] (sub_socks p);
     let p = p\<lparr>sub_socks := socks, sub_count := 0\<rparr>;
     let (m, io) = connect_tcp master_ip master_port io;
     let p = p\<lparr>pub_master_sock := m\<rparr>;
     if m < 0 then Some (- 1, p, io)
     else (case send_line m (snprintf_text 256 (''NODE '' @ cstr node_name @ [CHR 0x0A])) io of (n, io) \<Rightarrow>
       if n \<le> 0 then Some (- 1, p, io)
       else (let p = p\<lparr>listen_sock := e_listen_socket env\<rparr> in
         if e_listen_socket env < 0 then Some (- 1, p, io)
         else (let io = open_fd (e_listen_socket env) io in
           if e_bind env < 0 then Some (- 1, p, io)
           else if e_listen env < 0 then Some (- 1, p, io)
           else (let p = p\<lparr>pub_epfd := e_epoll_create env\<rparr> in
             if e_epoll_create env < 0 then Some (- 1, p, io)
             else (let io = open_fd (e_epoll_create env) io in
               case send_line m (snprintf_text 256 (''REGISTER_PUB '' @ cstr topic @ '' 127.0.0.1 ''
                   @ show_int listen_port @ [CHR 0x0A])) io of (n, io) \<Rightarrow>
                 Some (if n \<le> 0 then - 1 else 0, p, io))))))
   })"

section \<open>Accepting\<close>

text \<open>\<open>ready\<close> is the result of \<open>epoll_wait\<close>, \<open>c\<close> that of \<open>accept\<close>.\<close>

definition cmos_pub_poll ::
  "int \<Rightarrow> int \<Rightarrow> cmos_pub \<times> cm_io \<Rightarrow> (cmos_pub \<times> cm_io) run" where
  "cmos_pub_poll ready c s = (case s of (p, io) \<Rightarrow>
     if listen_sock p < 0 \<or> pub_epfd p < 0 then Some (p, io)
     else if ready \<le> 0 then Some (p, io)
     else if c \<ge> 0 \<and> sub_count p < CM_MAX_SUB_CLIENT then do {
       socks \<leftarrow> buf_store (sub_count p) c (sub_socks p);
       Some (p\<lparr>sub_socks := socks, sub_count := sub_count p + 1\<rparr>, open_fd c io)
     }
     else if c \<ge> 0 then Some (p, close_fd c (open_fd c io))
     else Some (p, io))"

section \<open>Publishing\<close>

text \<open>
  One optional field: its text, after a blank if something precedes it. \<open>data\<close> is the array of
  896 bytes, not initialised.
\<close>

definition put_field :: "string \<Rightarrow> string option \<Rightarrow> nat \<times> string \<Rightarrow> (nat \<times> string) run" where
  "put_field label field s = (case s of (pos, data) \<Rightarrow>
     (case field of
        None \<Rightarrow> Some (pos, data)
      | Some f \<Rightarrow> snprintf_at pos ((if pos \<noteq> 0 then '' '' else '''') @ label @ cstr f) data))"

definition put_value :: "string option \<Rightarrow> nat \<times> string \<Rightarrow> (nat \<times> string) run" where
  "put_value field s = (case s of (pos, data) \<Rightarrow>
     (case field of
        None \<Rightarrow> Some (pos, data)
      | Some f \<Rightarrow> snprintf_at pos (if pos \<noteq> 0 then '' value='' @ cstr f else cstr f) data))"

definition publish_line ::
  "string \<Rightarrow> cmos_pub \<Rightarrow> string option \<Rightarrow> string option \<Rightarrow> string option \<Rightarrow> string option \<Rightarrow> string run" where
  "publish_line junk p state type key value = do {
     s \<leftarrow> (case state of None \<Rightarrow> Some (0, junk) | Some f \<Rightarrow> snprintf_at 0 (''state='' @ cstr f) junk);
     s \<leftarrow> put_field ''type='' type s;
     s \<leftarrow> put_field ''key='' key s;
     (pos, data) \<leftarrow> put_value value s;
     topic \<leftarrow> c_string (pub_topic p);
     text \<leftarrow> c_string data;
     Some (snprintf_text 1024 (''MSG '' @ topic @ '' '' @ text @ [CHR 0x0A]))
   }"

text \<open>Removing subscriber \<open>i\<close>: the later ones move down.\<close>

definition drop_sub :: "nat \<Rightarrow> cmos_pub \<Rightarrow> cmos_pub run" where
  "drop_sub i p = do {
     socks \<leftarrow> foldM (\<lambda>k socks. do { x \<leftarrow> buf_load socks (k + 1); buf_store k x socks })
       [i..<sub_count p - 1] (sub_socks p);
     socks \<leftarrow> buf_store (sub_count p - 1) (- 1) socks;
     Some (p\<lparr>sub_socks := socks, sub_count := sub_count p - 1\<rparr>)
   }"

lemma drop_sub_count: "drop_sub i p = Some p' \<Longrightarrow> sub_count p' = sub_count p - 1"
  by (auto simp: drop_sub_def split: bind_splits)

function publish_loop :: "string \<Rightarrow> nat \<Rightarrow> cmos_pub \<Rightarrow> cm_io \<Rightarrow> (cmos_pub \<times> cm_io) run" where
  "publish_loop buf i p io =
     (if i < sub_count p then
        (case buf_load (sub_socks p) i of
           None \<Rightarrow> None
         | Some fd \<Rightarrow>
             (case send_text fd buf io of (n, io') \<Rightarrow>
                if n \<le> 0 then
                  (case drop_sub i p of
                     None \<Rightarrow> None
                   | Some p' \<Rightarrow> publish_loop buf i p' (close_fd fd io'))
                else publish_loop buf (i + 1) p io'))
      else Some (p, io))"
  by pat_completeness auto
termination
  by (relation "measure (\<lambda>(buf, i, p, io). sub_count p - i)") (auto dest: drop_sub_count)

declare publish_loop.simps [simp del]

definition cmos_publish ::
  "string \<Rightarrow> string option \<Rightarrow> string option \<Rightarrow> string option \<Rightarrow> string option
     \<Rightarrow> cmos_pub \<times> cm_io \<Rightarrow> (int \<times> cmos_pub \<times> cm_io) run" where
  "cmos_publish junk state type key value s = (case s of (p, io) \<Rightarrow> do {
     buf \<leftarrow> publish_line junk p state type key value;
     (p, io) \<leftarrow> publish_loop buf 0 p io;
     Some (0, p, io)
   })"

text \<open>Each message of a batch comes with what the uninitialised array holds in its call.\<close>

record cmos_msg =
  msg_state :: "string option"
  msg_type :: "string option"
  msg_key :: "string option"
  msg_value :: "string option"

fun cmos_publish_batch ::
  "(string \<times> cmos_msg) list \<Rightarrow> cmos_pub \<times> cm_io \<Rightarrow> (int \<times> cmos_pub \<times> cm_io) run" where
  "cmos_publish_batch [] s = Some (0, s)"
| "cmos_publish_batch ((junk, m) # ms) s = do {
     (rc, s) \<leftarrow> cmos_publish junk (msg_state m) (msg_type m) (msg_key m) (msg_value m) s;
     if rc < 0 then Some (- 1, s) else cmos_publish_batch ms s
   }"

section \<open>Closing\<close>

definition cmos_pub_close :: "cmos_pub \<times> cm_io \<Rightarrow> (cmos_pub \<times> cm_io) run" where
  "cmos_pub_close s = (case s of (p, io) \<Rightarrow> do {
     (socks, io) \<leftarrow> foldM (\<lambda>i (socks, io). do {
         fd \<leftarrow> buf_load socks i;
         socks \<leftarrow> buf_store i (- 1) socks;
         Some (socks, if fd \<ge> 0 then close_fd fd io else io)
       }) [0..<sub_count p] (sub_socks p, io);
     let p = p\<lparr>sub_socks := socks, sub_count := 0\<rparr>;
     let (p, io) = (if pub_epfd p \<ge> 0 then (p\<lparr>pub_epfd := - 1\<rparr>, close_fd (pub_epfd p) io) else (p, io));
     let (p, io) = (if listen_sock p \<ge> 0 then (p\<lparr>listen_sock := - 1\<rparr>, close_fd (listen_sock p) io) else (p, io));
     Some (if pub_master_sock p \<ge> 0 then (p\<lparr>pub_master_sock := - 1\<rparr>, close_fd (pub_master_sock p) io) else (p, io))
   })"

section \<open>The subscriber list\<close>

definition subs :: "cmos_pub \<Rightarrow> int list" where
  "subs p = take (sub_count p) (sub_socks p)"

definition pub_inv :: "cmos_pub \<Rightarrow> bool" where
  "pub_inv p \<longleftrightarrow> length (sub_socks p) = 512 \<and> sub_count p \<le> 512 \<and> (\<forall>fd\<in>set (subs p). 0 \<le> fd)
     \<and> drop (sub_count p) (sub_socks p) = replicate (512 - sub_count p) (- 1)
     \<and> length (pub_topic p) = 64 \<and> pub_topic p ! 63 = CHR 0x00"

definition same_pub :: "cmos_pub \<Rightarrow> cmos_pub \<Rightarrow> bool" where
  "same_pub p p' \<longleftrightarrow> pub_topic p' = pub_topic p \<and> listen_sock p' = listen_sock p
     \<and> pub_epfd p' = pub_epfd p \<and> pub_master_sock p' = pub_master_sock p"

lemma same_pub_refl [simp]: "same_pub p p"
  by (simp add: same_pub_def)

lemma shift_down:
  assumes "i \<le> m" and "m < length xs"
  shows "foldM (\<lambda>k socks. buf_load socks (k + 1) \<bind> (\<lambda>x. buf_store k x socks)) [i..<m] xs
    = Some (take i xs @ drop (Suc i) (take (Suc m) xs) @ drop m xs)"
  using assms
proof (induction m rule: dec_induct)
  case base
  then show ?case by simp
next
  case (step m)
  let ?p = "take i xs @ drop (Suc i) (take (Suc m) xs)"
  let ?ys = "?p @ drop m xs"
  have len: "length ?p = m" using step by simp
  have ld: "buf_load ?ys (m + 1) = Some (xs ! Suc m)"
  proof -
    have "?ys ! (length ?p + 1) = drop m xs ! 1" by (simp only: nth_append_length_plus append_assoc [symmetric])
    then show ?thesis using step len by (simp add: buf_load_def del: append_assoc)
  qed
  have "drop m xs = xs ! m # drop (Suc m) xs" using step by (simp add: Cons_nth_drop_Suc)
  then have st: "buf_store m (xs ! Suc m) ?ys = Some (?p @ xs ! Suc m # drop (Suc m) xs)"
    using len step by (simp add: buf_store_def list_update_append)
  have "take (Suc (Suc m)) xs = take (Suc m) xs @ [xs ! Suc m]" using step by (simp add: take_Suc_conv_app_nth)
  then have "take i xs @ drop (Suc i) (take (Suc (Suc m)) xs) @ drop (Suc m) xs = ?p @ xs ! Suc m # drop (Suc m) xs"
    using step by simp
  then show ?case using step ld st by (simp add: foldM_append)
qed

lemma drop_sub_ok:
  assumes "pub_inv p" and "i < sub_count p"
  shows "\<exists>p'. drop_sub i p = Some p' \<and> pub_inv p' \<and> subs p' = take i (subs p) @ drop (Suc i) (subs p)
    \<and> sub_count p' = sub_count p - 1 \<and> same_pub p p'"
proof -
  let ?m = "sub_count p - 1" and ?xs = "sub_socks p"
  have m: "i \<le> ?m" "?m < length ?xs" "Suc ?m = sub_count p" using assms by (auto simp: pub_inv_def)
  let ?h = "take i ?xs @ drop (Suc i) (take (sub_count p) ?xs)"
  have h: "length ?h = ?m" using m by simp
  have "drop ?m ?xs = ?xs ! ?m # drop (sub_count p) ?xs" using m by (metis Cons_nth_drop_Suc)
  then have st: "buf_store ?m (- 1) (?h @ drop ?m ?xs) = Some (?h @ - 1 # drop (sub_count p) ?xs)"
    using h m by (simp add: buf_store_def list_update_append)
  let ?p = "p\<lparr>sub_socks := ?h @ - 1 # drop (sub_count p) ?xs, sub_count := ?m\<rparr>"
  have run: "drop_sub i p = Some ?p"
    using shift_down [OF m(1,2)] m(3) st by (simp add: drop_sub_def)
  have s: "subs ?p = take i (subs p) @ drop (Suc i) (subs p)"
    using h m by (simp add: subs_def)
  have "512 - ?m = Suc (512 - sub_count p)" using m assms(1) by (auto simp: pub_inv_def)
  moreover have "set (subs ?p) \<subseteq> set (subs p)" unfolding s by (auto dest: in_set_takeD in_set_dropD)
  ultimately have "pub_inv ?p"
    using assms(1) m h unfolding pub_inv_def by (auto simp: subs_def [of ?p])
  then show ?thesis using run s by (intro exI [of _ ?p]) (simp add: same_pub_def)
qed

text \<open>
  What sending one line to a list of subscribers comes to: those that remain, what went on the
  wire, the descriptors closed and the answers left over.
\<close>

fun deliver :: "string \<Rightarrow> int list \<Rightarrow> int list \<Rightarrow> int list \<times> (int \<times> string) list \<times> fd_ev list \<times> int list" where
  "deliver buf [] rcs = ([], [], [], rcs)"
| "deliver buf (fd # fds) rcs =
     (let n = (case rcs of [] \<Rightarrow> int (length buf) | r # _ \<Rightarrow> r) in
      case deliver buf fds (tl rcs) of (live, wire, cls, rest) \<Rightarrow>
        if n \<le> 0 then (live, wire, Fd_close fd # cls, rest)
        else (fd # live, (fd, take (nat n) buf) # wire, cls, rest))"

lemma publish_loop_deliver:
  assumes "pub_inv p" and "i \<le> sub_count p"
    and "deliver buf (drop i (subs p)) (io_send_rc io) = (live, wire, cls, rest)"
  shows "\<exists>p' io'. publish_loop buf i p io = Some (p', io') \<and> pub_inv p'
    \<and> subs p' = take i (subs p) @ live \<and> same_pub p p'
    \<and> io' = io\<lparr>io_wire := io_wire io @ wire, io_fds := io_fds io @ cls, io_send_rc := rest\<rparr>"
  using assms
proof (induction buf i p io arbitrary: live wire cls rest rule: publish_loop.induct)
  case (1 buf i p io)
  have len: "length (subs p) = sub_count p" "sub_count p \<le> length (sub_socks p)"
    using 1(3) by (auto simp: pub_inv_def subs_def)
  show ?case
  proof (cases "i < sub_count p")
    case False
    then have "drop i (subs p) = []" "take i (subs p) = subs p" using len by simp_all
    then show ?thesis using False 1(3,5) by (subst publish_loop.simps) auto
  next
    case True
    let ?fd = "subs p ! i"
    have ld: "buf_load (sub_socks p) i = Some ?fd" using True len by (simp add: buf_load_def subs_def)
    have pos: "0 \<le> ?fd" using True 1(3) len by (auto simp: pub_inv_def)
    have dr: "drop i (subs p) = ?fd # drop (Suc i) (subs p)" using True len by (simp add: Cons_nth_drop_Suc)
    let ?n = "case io_send_rc io of [] \<Rightarrow> int (length buf) | r # _ \<Rightarrow> r"
    obtain io1 where s: "send_text ?fd buf io = (?n, io1)"
        "io1 = io\<lparr>io_send_rc := tl (io_send_rc io),
          io_wire := io_wire io @ (if ?n > 0 then [(?fd, take (nat ?n) buf)] else [])\<rparr>"
      using pos by (simp add: send_text_def Let_def)
    obtain live1 wire1 cls1 rest1 where d: "deliver buf (drop (Suc i) (subs p)) (tl (io_send_rc io))
        = (live1, wire1, cls1, rest1)"
      by (cases "deliver buf (drop (Suc i) (subs p)) (tl (io_send_rc io))")
    show ?thesis
    proof (cases "?n \<le> 0")
      case neg: True
      obtain p1 where p1: "drop_sub i p = Some p1" "pub_inv p1"
          "subs p1 = take i (subs p) @ drop (Suc i) (subs p)" "sub_count p1 = sub_count p - 1"
          "same_pub p p1"
        using drop_sub_ok [OF 1(3) True] by blast
      have "drop i (subs p1) = drop (Suc i) (subs p)" "take i (subs p1) = take i (subs p)"
        using p1(3) True len by simp_all
      note tk = this
      have "i \<le> sub_count p1" using p1(4) True by simp
      from 1(1) [OF True ld s(1) [symmetric] neg p1(1) p1(2) this, of live1 wire1 cls1 rest1]
      obtain p' io' where h: "publish_loop buf i p1 (close_fd ?fd io1) = Some (p', io')" "pub_inv p'"
          "subs p' = take i (subs p) @ live1" "same_pub p1 p'"
          "io' = (close_fd ?fd io1)\<lparr>io_wire := io_wire (close_fd ?fd io1) @ wire1,
             io_fds := io_fds (close_fd ?fd io1) @ cls1, io_send_rc := rest1\<rparr>"
        using d s(2) tk by (auto simp: close_fd_def)
      have "publish_loop buf i p io = Some (p', io')"
        using True ld s(1) neg p1(1) h(1) by (subst publish_loop.simps) simp
      moreover have "same_pub p p'"
        using h(4) p1(5) by (simp add: same_pub_def)
      moreover have "live = live1" "wire = wire1" "cls = Fd_close ?fd # cls1" "rest = rest1"
        using 1(5) d neg unfolding dr by (auto simp: Let_def)
      ultimately show ?thesis
        using h(2,3,5) s(2) neg by (intro exI [of _ p'] exI [of _ io']) (simp add: close_fd_def)
    next
      case ok: False
      have "Suc i \<le> sub_count p" using True by simp
      with 1(2) [OF True ld s(1) [symmetric] ok 1(3), of live1 wire1 cls1 rest1]
      obtain p' io' where h: "publish_loop buf (i + 1) p io1 = Some (p', io')" "pub_inv p'"
          "subs p' = take (Suc i) (subs p) @ live1" "same_pub p p'"
          "io' = io1\<lparr>io_wire := io_wire io1 @ wire1, io_fds := io_fds io1 @ cls1, io_send_rc := rest1\<rparr>"
        using d s(2) by auto
      have "publish_loop buf i p io = Some (p', io')"
        using True ld s(1) ok h(1) by (subst publish_loop.simps) simp
      moreover have "live = ?fd # live1" "wire = (?fd, take (nat ?n) buf) # wire1" "cls = cls1" "rest = rest1"
        using 1(5) d ok unfolding dr by (auto simp: Let_def)
      moreover have "take (Suc i) (subs p) = take i (subs p) @ [?fd]"
        using True len by (simp add: take_Suc_conv_app_nth)
      ultimately show ?thesis
        using h(2-5) s(2) ok by (intro exI [of _ p'] exI [of _ io']) simp
    qed
  qed
qed

section \<open>The message line\<close>

text \<open>The documented text of a message: the given fields, labelled, with blanks between; a value alone is sent as it is.\<close>

fun join_blank :: "string list \<Rightarrow> string" where
  "join_blank [] = []"
| "join_blank [x] = x"
| "join_blank (x # y # zs) = x @ '' '' @ join_blank (y # zs)"

definition labelled :: "string \<Rightarrow> string option \<Rightarrow> string list" where
  "labelled label f = (case f of None \<Rightarrow> [] | Some t \<Rightarrow> [label @ cstr t])"

definition message_text :: "string option \<Rightarrow> string option \<Rightarrow> string option \<Rightarrow> string option \<Rightarrow> string" where
  "message_text state type key value =
     (let parts = labelled ''state='' state @ labelled ''type='' type @ labelled ''key='' key in
      if parts = [] then (case value of None \<Rightarrow> [] | Some v \<Rightarrow> cstr v)
      else join_blank (parts @ labelled ''value='' value))"

lemma join_snoc: "xs \<noteq> [] \<Longrightarrow> join_blank (xs @ [x]) = join_blank xs @ '' '' @ x"
  by (induction xs rule: join_blank.induct) auto

lemma join_empty: "\<forall>x\<in>set xs. x \<noteq> [] \<Longrightarrow> join_blank xs = [] \<longleftrightarrow> xs = []"
  by (induction xs rule: join_blank.induct) auto

lemma labelled_nonempty: "label \<noteq> [] \<Longrightarrow> \<forall>x\<in>set (labelled label f). x \<noteq> []"
  by (auto simp: labelled_def split: option.splits)

text \<open>\<open>(pos, data)\<close> holds the text so far; \<open>w\<close> tells whether it has been terminated.\<close>

definition part :: "string \<Rightarrow> bool \<Rightarrow> nat \<times> string \<Rightarrow> bool" where
  "part txt w s \<longleftrightarrow> (case s of (pos, data) \<Rightarrow> pos = length txt \<and> length data = 896
     \<and> take pos data = txt \<and> pos < 896 \<and> (w \<longrightarrow> data ! pos = CHR 0x00))"

lemma part_step:
  assumes "part txt w (pos, data)" and "length (txt @ add) < 896"
  shows "\<exists>s'. snprintf_at pos add data = Some s' \<and> part (txt @ add) True s'"
proof -
  have h: "pos = length txt" "length data = 896" "take pos data = txt"
    using assms(1) by (auto simp: part_def)
  have "snprintf_at pos add data = Some (pos + length add,
      take pos data @ add @ CHR 0x00 # drop (pos + length add + 1) data)"
    using assms(2) h by (intro snprintf_fits) auto
  moreover have "part (txt @ add) True (pos + length add,
      take pos data @ add @ CHR 0x00 # drop (pos + length add + 1) data)"
    using assms(2) h by (auto simp: part_def nth_append)
  ultimately show ?thesis by blast
qed

lemma part_string:
  assumes "part txt True (pos, data)" and "CHR 0x00 \<notin> set txt"
  shows "c_string data = Some txt"
proof -
  have h: "pos = length txt" "length data = 896" "take pos data = txt" "pos < 896" "data ! pos = CHR 0x00"
    using assms(1) by (auto simp: part_def)
  then have "data = txt @ CHR 0x00 # drop (Suc pos) data" by (metis id_take_nth_drop)
  moreover have "CHR 0x00 \<in> set data" using h by (metis nth_mem)
  ultimately show ?thesis using assms(2) by (metis c_string_def cstr_append_nul)
qed

lemma put_field_part:
  assumes "part (join_blank xs) (xs \<noteq> []) s" and "\<forall>x\<in>set xs. x \<noteq> []"
    and "length (join_blank (xs @ labelled label f)) < 896"
  shows "\<exists>s'. put_field label f s = Some s'
    \<and> part (join_blank (xs @ labelled label f)) (xs @ labelled label f \<noteq> []) s'"
proof -
  obtain pos data where s: "s = (pos, data)" by (cases s)
  have pos: "pos = 0 \<longleftrightarrow> xs = []" using assms(1) s join_empty [OF assms(2)] by (auto simp: part_def)
  show ?thesis
  proof (cases f)
    case None
    then show ?thesis using assms(1) s by (simp add: put_field_def labelled_def)
  next
    case (Some t)
    let ?add = "(if xs \<noteq> [] then '' '' else '''') @ label @ cstr t"
    have j: "join_blank (xs @ labelled label f) = join_blank xs @ ?add"
      using Some by (cases "xs = []") (auto simp: labelled_def join_snoc)
    from part_step [OF assms(1) [unfolded s], of ?add] assms(3) j
    show ?thesis using Some s pos by (auto simp: put_field_def labelled_def)
  qed
qed

lemma join_prefix: "length (join_blank xs) \<le> length (join_blank (xs @ ys))"
proof (induction ys rule: rev_induct)
  case (snoc y ys)
  then show ?case
    using join_snoc [of "xs @ ys" y] by (cases "xs @ ys = []") auto
qed simp

lemma topic_string:
  assumes "pub_inv p"
  shows "c_string (pub_topic p) = Some (cstr (pub_topic p))" and "length (cstr (pub_topic p)) \<le> 63"
proof -
  have t: "length (pub_topic p) = 64" "pub_topic p ! 63 = CHR 0x00" using assms by (auto simp: pub_inv_def)
  then have "pub_topic p ! 63 \<in> set (pub_topic p)" by (intro nth_mem) simp
  then have "CHR 0x00 \<in> set (pub_topic p)" using t by simp
  then show "c_string (pub_topic p) = Some (cstr (pub_topic p))" by (simp add: c_string_def)
  show "length (cstr (pub_topic p)) \<le> 63"
  proof (rule ccontr)
    assume "\<not> length (cstr (pub_topic p)) \<le> 63"
    then have n: "63 < length (cstr (pub_topic p))" by simp
    then have "cstr (pub_topic p) ! 63 = pub_topic p ! 63"
      unfolding cstr_def by (rule takeWhile_nth)
    then show False using t(2) n cstr_no_nul by (metis nth_mem)
  qed
qed

lemma publish_line_ok:
  assumes "pub_inv p" and "length junk = 896"
    and "state \<noteq> None \<or> type \<noteq> None \<or> key \<noteq> None \<or> val \<noteq> None"
    and "length (message_text state type key val) < 896"
  shows "publish_line junk p state type key val
    = Some (''MSG '' @ cstr (pub_topic p) @ '' '' @ message_text state type key val @ [CHR 0x0A])"
proof -
  let ?a = "labelled ''state='' state" and ?b = "labelled ''type='' type" and ?c = "labelled ''key='' key"
    and ?d = "labelled ''value='' val"
  let ?m = "message_text state type key val"
  have ne: "\<forall>x\<in>set ?a. x \<noteq> []" "\<forall>x\<in>set ?b. x \<noteq> []" "\<forall>x\<in>set ?c. x \<noteq> []"
    by (rule labelled_nonempty; simp)+
  have l3: "length (join_blank (?a @ ?b @ ?c)) < 896"
    using assms(4) join_prefix [of "?a @ ?b @ ?c" ?d]
    by (cases "?a @ ?b @ ?c = []") (auto simp: message_text_def Let_def)
  have l1: "length (join_blank ?a) < 896" "length (join_blank (?a @ ?b)) < 896"
    using l3 join_prefix [of ?a "?b @ ?c"] join_prefix [of "?a @ ?b" ?c] by auto
  have p0: "part (join_blank []) ([] \<noteq> []) (0, junk)" using assms(2) by (simp add: part_def)
  have "put_field ''state='' state (0, junk)
      = (case state of None \<Rightarrow> Some (0, junk) | Some f \<Rightarrow> snprintf_at 0 (''state='' @ cstr f) junk)"
    by (simp add: put_field_def split: option.splits)
  then obtain s1 where s1: "(case state of None \<Rightarrow> Some (0, junk) | Some f \<Rightarrow> snprintf_at 0 (''state='' @ cstr f) junk) = Some s1"
      "part (join_blank ?a) (?a \<noteq> []) s1"
    using put_field_part [OF p0, of "''state=''" state] l1(1) by auto
  obtain s2 where s2: "put_field ''type='' type s1 = Some s2" "part (join_blank (?a @ ?b)) (?a @ ?b \<noteq> []) s2"
    using put_field_part [OF s1(2) ne(1), of "''type=''" type] l1(2) by auto
  obtain s3 where s3: "put_field ''key='' key s2 = Some s3"
      "part (join_blank (?a @ ?b @ ?c)) (?a @ ?b @ ?c \<noteq> []) s3"
    using put_field_part [OF s2(2), of "''key=''" key] ne l3 by auto
  obtain pos data where s3': "s3 = (pos, data)" by (cases s3)
  have pos: "pos = 0 \<longleftrightarrow> ?a @ ?b @ ?c = []"
    using s3(2) s3' join_empty [of "?a @ ?b @ ?c"] ne by (auto simp: part_def)
  have "\<exists>s4. put_value val s3 = Some s4 \<and> part ?m True s4"
  proof (cases val)
    case None
    then have n3: "?a @ ?b @ ?c \<noteq> []" using assms(3) by (auto simp: labelled_def split: option.splits)
    then have "?m = join_blank (?a @ ?b @ ?c)"
      using None by (auto simp: message_text_def Let_def labelled_def [of "''value=''"])
    then have "part ?m True s3" using s3(2) n3 by simp
    then show ?thesis using None s3' by (simp add: put_value_def)
  next
    case (Some v)
    show ?thesis
    proof (cases "?a @ ?b @ ?c = []")
      case True
      then show ?thesis
        using Some part_step [OF s3(2) [unfolded s3'], of "cstr v"] assms(4) pos s3'
        by (simp add: put_value_def message_text_def Let_def)
    next
      case False
      have "?m = join_blank (?a @ ?b @ ?c) @ '' value='' @ cstr v"
        using False Some join_snoc [OF False, of "''value='' @ cstr v"]
        by (simp add: message_text_def Let_def labelled_def [of "''value=''"])
      moreover have "\<exists>s'. snprintf_at pos ('' value='' @ cstr v) data = Some s'
          \<and> part (join_blank (?a @ ?b @ ?c) @ '' value='' @ cstr v) True s'"
        using assms(4) calculation by (intro part_step [OF s3(2) [unfolded s3']]) simp
      moreover have "put_value val s3 = snprintf_at pos ('' value='' @ cstr v) data"
        using pos False Some s3' by (auto simp: put_value_def)
      ultimately show ?thesis by simp
    qed
  qed
  then obtain pos4 data4 where s4: "put_value val s3 = Some (pos4, data4)" "part ?m True (pos4, data4)"
    by (metis surj_pair)
  have nn: "CHR 0x00 \<notin> set (join_blank xs)" if "\<forall>x\<in>set xs. CHR 0x00 \<notin> set x" for xs
    using that by (induction xs rule: join_blank.induct) auto
  have "CHR 0x00 \<notin> set ?m"
    unfolding message_text_def Let_def
    using cstr_no_nul by (auto split: option.splits intro!: nn simp: labelled_def)
  note c = part_string [OF s4(2) this]
  have "length ?m < 896" by (rule assms(4))
  then have "take 1023 (''MSG '' @ cstr (pub_topic p) @ '' '' @ ?m @ [CHR 0x0A])
      = ''MSG '' @ cstr (pub_topic p) @ '' '' @ ?m @ [CHR 0x0A]"
    using topic_string(2) [OF assms(1)] by (intro take_all) simp
  then show ?thesis
    using s1(1) s2(1) s3(1) s4(1) c topic_string(1) [OF assms(1)]
    by (simp add: publish_line_def snprintf_text_def)
qed

section \<open>Delivery\<close>

lemma deliver_all: "buf \<noteq> [] \<Longrightarrow> deliver buf fds [] = (fds, map (\<lambda>fd. (fd, buf)) fds, [], [])"
  by (induction fds) (simp_all add: Let_def)

lemma publish_ok:
  assumes "pub_inv p" and "length junk = 896"
    and "state \<noteq> None \<or> type \<noteq> None \<or> key \<noteq> None \<or> val \<noteq> None"
    and "length (message_text state type key val) < 896"
    and "deliver (''MSG '' @ cstr (pub_topic p) @ '' '' @ message_text state type key val @ [CHR 0x0A])
      (subs p) (io_send_rc io) = (live, wire, cls, rest)"
  shows "\<exists>p'. cmos_publish junk state type key val (p, io) = Some (0, p',
      io\<lparr>io_wire := io_wire io @ wire, io_fds := io_fds io @ cls, io_send_rc := rest\<rparr>)
    \<and> pub_inv p' \<and> subs p' = live \<and> same_pub p p'"
proof -
  let ?buf = "''MSG '' @ cstr (pub_topic p) @ '' '' @ message_text state type key val @ [CHR 0x0A]"
  from publish_loop_deliver [OF assms(1), of 0 ?buf io live wire cls rest] assms(5)
  obtain p' where h: "publish_loop ?buf 0 p io = Some (p',
      io\<lparr>io_wire := io_wire io @ wire, io_fds := io_fds io @ cls, io_send_rc := rest\<rparr>)"
      "pub_inv p'" "subs p' = live" "same_pub p p'"
    by auto
  then show ?thesis
    using publish_line_ok [OF assms(1-4)] by (simp add: cmos_publish_def del: append.simps)
qed

text \<open>
  C17: publishing. If the fields fit, \<open>cmos_publish\<close> offers the line ''MSG topic fields'' to every
  subscriber once, in the order they connected, with the fields as documented (labelled and
  separated by blanks, a lone value as it is); a subscriber whose \<open>send\<close> fails is closed and
  forgotten without disturbing the others, and the call returns 0.
\<close>

theorem publish_delivers:
  assumes "pub_inv p" and "length junk = 896"
    and "state \<noteq> None \<or> type \<noteq> None \<or> key \<noteq> None \<or> val \<noteq> None"
    and "length (message_text state type key val) < 896"
  shows "\<exists>p' io'. cmos_publish junk state type key val (p, io) = Some (0, p', io') \<and> pub_inv p' \<and> same_pub p p'
    \<and> (\<exists>wire cls.
        deliver (''MSG '' @ cstr (pub_topic p) @ '' '' @ message_text state type key val @ [CHR 0x0A])
          (subs p) (io_send_rc io) = (subs p', wire, cls, io_send_rc io')
        \<and> io_wire io' = io_wire io @ wire \<and> io_fds io' = io_fds io @ cls)"
proof -
  let ?buf = "''MSG '' @ cstr (pub_topic p) @ '' '' @ message_text state type key val @ [CHR 0x0A]"
  obtain live wire cls rest where d: "deliver ?buf (subs p) (io_send_rc io) = (live, wire, cls, rest)"
    by (cases "deliver ?buf (subs p) (io_send_rc io)")
  let ?io = "io\<lparr>io_wire := io_wire io @ wire, io_fds := io_fds io @ cls, io_send_rc := rest\<rparr>"
  from publish_ok [OF assms d] obtain p' where p: "cmos_publish junk state type key val (p, io) = Some (0, p', ?io)"
      "pub_inv p'" "subs p' = live" "same_pub p p'"
    by blast
  have "deliver ?buf (subs p) (io_send_rc io) = (subs p', wire, cls, io_send_rc ?io)"
    using d p(3) by simp
  with p(1,2,4) show ?thesis by (intro exI [of _ p'] exI [of _ ?io]) simp
qed

definition demo_pub :: cmos_pub where
  "demo_pub = \<lparr>pub_master_sock = 4, listen_sock = 5, sub_socks = [7, 8, 9] @ replicate 509 (- 1),
     sub_count = 3, pub_topic = ''ups'' @ replicate 61 (CHR 0x00), pub_epfd = 6\<rparr>"

definition demo_io :: "int list \<Rightarrow> cm_io" where
  "demo_io rcs = \<lparr>io_connects = [], io_dials = [], io_send_rc = rcs, io_master_rx = [], io_wire = [], io_fds = [], io_calls = []\<rparr>"

lemma demo_pub_ok:
  "pub_inv demo_pub" "subs demo_pub = [7, 8, 9]" "cstr (pub_topic demo_pub) = ''ups''"
proof -
  show s: "subs demo_pub = [7, 8, 9]" by (simp add: subs_def demo_pub_def)
  have "pub_topic demo_pub ! 63 = CHR 0x00" by (simp add: demo_pub_def nth_append nth_Cons')
  then show "pub_inv demo_pub" using s by (simp add: pub_inv_def) (simp add: demo_pub_def)
  have "replicate 61 (CHR 0x00) = CHR 0x00 # replicate 60 (CHR 0x00)" by (simp add: numeral_eq_Suc)
  then show "cstr (pub_topic demo_pub) = ''ups''" by (simp add: demo_pub_def cstr_def)
qed

theorem publish_delivers_witness:
  "\<exists>p' io'. cmos_publish (replicate 896 (CHR 0x41)) (Some ''Alive'') None (Some ''ups_warning_1'') (Some ''17'')
      (demo_pub, demo_io [50, - 1]) = Some (0, p', io')
    \<and> subs p' = [7, 9] \<and> io_fds io' = [Fd_close 8]
    \<and> io_wire io' = [(7, ''MSG ups state=Alive key=ups_warning_1 value=17'' @ [CHR 0x0A]),
                     (9, ''MSG ups state=Alive key=ups_warning_1 value=17'' @ [CHR 0x0A])]"
proof -
  have c: "cstr ''Alive'' = ''Alive''" "cstr ''ups_warning_1'' = ''ups_warning_1''" "cstr ''17'' = ''17''"
    by (simp_all add: cstr_def)
  have t: "message_text (Some ''Alive'') None (Some ''ups_warning_1'') (Some ''17'')
      = ''state=Alive key=ups_warning_1 value=17''"
    by (simp add: message_text_def labelled_def c)
  have "\<exists>p' io'. cmos_publish (replicate 896 (CHR 0x41)) (Some ''Alive'') None (Some ''ups_warning_1'') (Some ''17'')
      (demo_pub, demo_io [50, - 1]) = Some (0, p', io') \<and> pub_inv p' \<and> same_pub demo_pub p'
    \<and> (\<exists>wire cls.
        deliver (''MSG '' @ cstr (pub_topic demo_pub) @ '' ''
            @ message_text (Some ''Alive'') None (Some ''ups_warning_1'') (Some ''17'') @ [CHR 0x0A])
          (subs demo_pub) (io_send_rc (demo_io [50, - 1])) = (subs p', wire, cls, io_send_rc io')
        \<and> io_wire io' = io_wire (demo_io [50, - 1]) @ wire \<and> io_fds io' = io_fds (demo_io [50, - 1]) @ cls)"
    by (rule publish_delivers [OF demo_pub_ok(1)]) (simp_all add: t)
  then show ?thesis
    unfolding t demo_pub_ok by (auto simp: demo_io_def Let_def)
qed

text \<open>
  C39: a field too long overruns the message buffer. If a state of more than 890 characters is followed by a
  type, the size left of the 896 is computed below zero in an unsigned type and the type is
  written past the end.
\<close>

theorem publish_overflow:
  assumes "length junk = 896" and "890 < length (cstr st)" and "length (cstr st) < 2 ^ 62"
  shows "cmos_publish junk (Some st) (Some ty) key val (p, io) = None"
proof -
  obtain data where d: "snprintf_at 0 (''state='' @ cstr st) junk = Some (6 + length (cstr st), data)"
      "length data = 896"
  proof -
    have "length (take 895 (''state='' @ cstr st)) = 895" using assms(2) by simp
    then obtain b where b: "buf_blit 0 (take 895 (''state='' @ cstr st) @ [CHR 0x00]) junk = Some b"
      using assms(1) by (simp add: buf_blit_def)
    then have "snprintf_at 0 (''state='' @ cstr st) junk = Some (6 + length (cstr st), b)"
      using assms(1) by (simp add: snprintf_at_def Let_def)
    then show thesis using that buf_blit_length [OF b] assms(1) by simp
  qed
  have "snprintf_at (6 + length (cstr st)) ('' '' @ ''type='' @ cstr ty) data = None"
    using assms d(2) by (intro snprintf_past_end) auto
  then show ?thesis
    using d(1) by (simp add: cmos_publish_def publish_line_def put_field_def)
qed

theorem publish_overflow_witness:
  "cmos_publish (replicate 896 (CHR 0x00)) (Some (replicate 900 (CHR 0x41))) (Some ''x'') None None (demo_pub, demo_io []) = None"
proof -
  have "cstr (replicate 900 (CHR 0x41)) = replicate 900 (CHR 0x41)" by (rule cstr_id) simp
  then show ?thesis by (intro publish_overflow) simp_all
qed

section \<open>Descriptors\<close>

definition pub_fds :: "cmos_pub \<Rightarrow> int multiset" where
  "pub_fds p = held (subs p) + held [pub_master_sock p, listen_sock p, pub_epfd p]"

definition balanced :: "cmos_pub \<times> cm_io \<Rightarrow> bool" where
  "balanced s \<longleftrightarrow> (case s of (p, io) \<Rightarrow> opened (io_fds io) = closed (io_fds io) + pub_fds p)"

lemma deliver_fds:
  assumes "deliver buf fds rcs = (live, wire, cls, rest)" and "\<forall>fd\<in>set fds. 0 \<le> fd"
  shows "held fds = held live + closed cls \<and> opened cls = {#}"
  using assms
proof (induction buf fds rcs arbitrary: live wire cls rest rule: deliver.induct)
  case (1 buf rcs)
  then show ?case by simp
next
  case (2 buf fd fds rcs)
  obtain a b c d where r: "deliver buf fds (tl rcs) = (a, b, c, d)" by (cases "deliver buf fds (tl rcs)")
  show ?case
    using 2(1) [OF refl r] 2(2,3) r by (auto simp: Let_def split: if_splits)
qed

lemma publish_balanced:
  assumes "pub_inv p" and "balanced (p, io)" and "length junk = 896"
    and "state \<noteq> None \<or> type \<noteq> None \<or> key \<noteq> None \<or> val \<noteq> None"
    and "length (message_text state type key val) < 896"
  shows "\<exists>p' io'. cmos_publish junk state type key val (p, io) = Some (0, p', io') \<and> pub_inv p'
    \<and> balanced (p', io') \<and> same_pub p p'"
proof -
  let ?buf = "''MSG '' @ cstr (pub_topic p) @ '' '' @ message_text state type key val @ [CHR 0x0A]"
  obtain live wire cls rest where d: "deliver ?buf (subs p) (io_send_rc io) = (live, wire, cls, rest)"
    by (cases "deliver ?buf (subs p) (io_send_rc io)")
  let ?io = "io\<lparr>io_wire := io_wire io @ wire, io_fds := io_fds io @ cls, io_send_rc := rest\<rparr>"
  obtain p' where h: "cmos_publish junk state type key val (p, io) = Some (0, p', ?io)" "pub_inv p'"
      "subs p' = live" "same_pub p p'"
    using publish_ok [OF assms(1,3-5) d] by blast
  have "held (subs p) = held live + closed cls \<and> opened cls = {#}"
    using deliver_fds [OF d] assms(1) by (simp add: pub_inv_def)
  then have "balanced (p', ?io)"
    using assms(2) h(3,4) by (simp add: balanced_def pub_fds_def same_pub_def)
  with h show ?thesis by blast
qed

lemma poll_ok:
  assumes "pub_inv p" and "balanced (p, io)"
  shows "\<exists>p' io'. cmos_pub_poll ready c (p, io) = Some (p', io') \<and> pub_inv p' \<and> balanced (p', io') \<and> same_pub p p'
    \<and> subs p' = (if 0 \<le> listen_sock p \<and> 0 \<le> pub_epfd p \<and> 0 < ready \<and> 0 \<le> c \<and> sub_count p < 512
        then subs p @ [c] else subs p)"
proof (cases "0 \<le> listen_sock p \<and> 0 \<le> pub_epfd p \<and> 0 < ready \<and> 0 \<le> c \<and> sub_count p < 512")
  case True
  let ?n = "sub_count p" and ?xs = "sub_socks p"
  let ?p = "p\<lparr>sub_socks := ?xs[?n := c], sub_count := ?n + 1\<rparr>"
  have len: "length ?xs = 512" and n: "?n < 512" using True assms(1) by (auto simp: pub_inv_def)
  have s: "subs ?p = subs p @ [c]"
    using len n by (simp add: subs_def take_Suc_conv_app_nth)
  have "drop (?n + 1) (?xs[?n := c]) = drop 1 (drop ?n ?xs)" by simp
  also have "\<dots> = replicate (512 - (?n + 1)) (- 1)"
    using assms(1) n by (simp add: pub_inv_def)
  finally have inv: "pub_inv ?p"
    using assms(1) True n s unfolding pub_inv_def by auto
  have "cmos_pub_poll ready c (p, io) = Some (?p, open_fd c io)"
    using True len by (simp add: cmos_pub_poll_def CM_MAX_SUB_CLIENT_def buf_store_def)
  moreover have "balanced (?p, open_fd c io)"
    using assms(2) True s by (simp add: balanced_def pub_fds_def open_fd_def)
  ultimately show ?thesis using inv s True by (intro exI [of _ ?p] exI [of _ "open_fd c io"]) (simp add: same_pub_def)
next
  case False
  then have "cmos_pub_poll ready c (p, io) = Some (p, io)
      \<or> cmos_pub_poll ready c (p, io) = Some (p, close_fd c (open_fd c io))"
    by (auto simp: cmos_pub_poll_def CM_MAX_SUB_CLIENT_def)
  then show ?thesis
    using False assms by (auto simp: balanced_def open_fd_def close_fd_def)
qed

lemma init_ok:
  assumes "length (sub_socks p) = 512" and "length (pub_topic p) = 64" and "pub_topic p ! 63 = CHR 0x00"
    and "held [pub_master_sock p, listen_sock p, pub_epfd p] = {#}" and "opened (io_fds io) = closed (io_fds io)"
  shows "\<exists>rc p' io'. cmos_pub_init env ip mport node topic port (p, io) = Some (rc, p', io') \<and> pub_inv p' \<and> balanced (p', io')
    \<and> subs p' = [] \<and> cstr (pub_topic p') = take 63 (cstr topic) \<and> (rc = 0 \<or> rc = - 1)"
proof -
  have last: "last (pub_topic p) = CHR 0x00" using assms(2,3) by (subst last_conv_nth) auto
  obtain t where t: "strncpy (pub_topic p) topic 63 = Some t" "length t = 64" "last t = CHR 0x00"
      "cstr t = take 63 (cstr topic)"
    using strncpy_terminated [of "pub_topic p" 63 topic] assms(2) last by auto
  have t63: "t ! 63 = CHR 0x00" using t(2,3) by (subst (asm) last_conv_nth) auto
  then have st: "buf_store 63 (CHR 0x00) t = Some t" using t(2) by (simp add: buf_store_def list_update_same_conv)
  have socks: "foldM (\<lambda>i socks. buf_store i (- 1 :: int) socks) [0..<n] xs = Some (replicate n (- 1) @ drop n xs)"
    if "n \<le> length xs" for n xs
    using that
  proof (induction n)
    case (Suc n)
    then have "drop n xs = xs ! n # drop (Suc n) xs" by (simp add: Cons_nth_drop_Suc)
    then show ?case
      using Suc by (simp add: foldM_append buf_store_def list_update_append replicate_append_same)
  qed simp
  have pre: "foldM (\<lambda>i socks. buf_store i (- 1) socks) [0..<CM_MAX_SUB_CLIENT] (sub_socks p) = Some (replicate 512 (- 1))"
    using socks [of 512 "sub_socks p"] assms(1) by (simp add: CM_MAX_SUB_CLIENT_def)
  show ?thesis
  proof (cases rule: connect_tcp_cases [of ip mport io])
    case (failed io')
    then show ?thesis
      using t st pre assms(4,5) t63
      by (auto simp: cmos_pub_init_def balanced_def pub_fds_def pub_inv_def subs_def split: if_splits)
  next
    case (connected fd io')
    let ?reg = "snprintf_text 256 (''REGISTER_PUB '' @ cstr topic @ '' 127.0.0.1 '' @ show_int port @ [CHR 0x0A])"
    let ?q = "p\<lparr>pub_topic := t, sub_socks := replicate 512 (- 1), sub_count := 0, pub_master_sock := fd\<rparr>"
    let ?run = "cmos_pub_init env ip mport node topic port (p, io)"
    obtain n io1 where s1: "send_line fd (snprintf_text 256 (''NODE '' @ cstr node @ [CHR 0x0A])) io' = (n, io1)"
      by (metis surj_pair)
    let ?io2 = "open_fd (e_epoll_create env) (open_fd (e_listen_socket env) io1)"
    obtain n2 io2 where s2: "send_line fd ?reg ?io2 = (n2, io2)" by (metis surj_pair)
    have f1: "io_fds io1 = io_fds io @ [Fd_open fd]"
      using arg_cong [OF s1, of "\<lambda>r. io_fds (snd r)"] connected(3) by (simp add: send_line_def)
    have f2: "io_fds io2 = io_fds io1 @ [Fd_open (e_listen_socket env), Fd_open (e_epoll_create env)]"
      using arg_cong [OF s2, of "\<lambda>r. io_fds (snd r)"] by (simp add: send_line_def open_fd_def)
    have neg: "pub_master_sock p < 0" "listen_sock p < 0" "pub_epfd p < 0"
      using assms(4) by (auto split: if_splits)
    have fin: ?thesis if "?run = Some (rc, q, io3)" "q = ?q\<lparr>listen_sock := l, pub_epfd := e\<rparr>"
        "io_fds io3 = io_fds io1 @ tr" "opened tr = held [l, e]" "closed tr = {#}" "rc = 0 \<or> rc = - 1" for rc q io3 l e tr
    proof -
      have "pub_inv q" "subs q = []" using that(2) t t63 by (simp_all add: pub_inv_def subs_def)
      moreover have "balanced (q, io3)"
        using that(2-5) f1 assms(5) connected(2) by (simp add: balanced_def pub_fds_def subs_def)
      ultimately show ?thesis using that(1,2,6) t(4) by auto
    qed
    have run: "?run = (if n \<le> 0 then Some (- 1, ?q, io1)
        else if e_listen_socket env < 0 then Some (- 1, ?q\<lparr>listen_sock := e_listen_socket env\<rparr>, io1)
        else if e_bind env < 0 \<or> e_listen env < 0
          then Some (- 1, ?q\<lparr>listen_sock := e_listen_socket env\<rparr>, open_fd (e_listen_socket env) io1)
        else if e_epoll_create env < 0
          then Some (- 1, ?q\<lparr>listen_sock := e_listen_socket env, pub_epfd := e_epoll_create env\<rparr>,
            open_fd (e_listen_socket env) io1)
        else Some (if n2 \<le> 0 then - 1 else 0,
          ?q\<lparr>listen_sock := e_listen_socket env, pub_epfd := e_epoll_create env\<rparr>, io2))"
      using t(1) st pre connected(1,2) s1 s2 by (simp add: cmos_pub_init_def Let_def)
    consider "n \<le> 0" | "0 < n" "e_listen_socket env < 0"
      | "0 < n" "0 \<le> e_listen_socket env" "e_bind env < 0 \<or> e_listen env < 0"
      | "0 < n" "0 \<le> e_listen_socket env" "\<not> (e_bind env < 0 \<or> e_listen env < 0)" "e_epoll_create env < 0"
      | "0 < n" "0 \<le> e_listen_socket env" "\<not> (e_bind env < 0 \<or> e_listen env < 0)" "0 \<le> e_epoll_create env"
      by linarith
    then show ?thesis
    proof cases
      case 1
      then show ?thesis using neg by (intro fin [of "- 1" ?q io1 "pub_epfd p" "listen_sock p" "[]"]) (simp_all add: run)
    next
      case 2
      then show ?thesis using neg
        by (intro fin [of "- 1" _ io1 "pub_epfd p" "e_listen_socket env" "[]"]) (simp_all add: run)
    next
      case 3
      then show ?thesis using neg
        by (intro fin [of "- 1" _ "open_fd (e_listen_socket env) io1" "pub_epfd p" "e_listen_socket env"
              "[Fd_open (e_listen_socket env)]"]) (simp_all add: run open_fd_def)
    next
      case 4
      then show ?thesis
        by (intro fin [of "- 1" _ "open_fd (e_listen_socket env) io1" "e_epoll_create env" "e_listen_socket env"
              "[Fd_open (e_listen_socket env)]"]) (simp_all add: run open_fd_def)
    next
      case 5
      then show ?thesis
        by (intro fin [of _ _ io2 "e_epoll_create env" "e_listen_socket env"
              "[Fd_open (e_listen_socket env), Fd_open (e_epoll_create env)]"]) (auto simp: run f2)
    qed
  qed
qed

lemma close_loop:
  assumes "n \<le> length socks"
  shows "foldM (\<lambda>i (socks, io). do {
         fd \<leftarrow> buf_load socks i;
         socks \<leftarrow> buf_store i (- 1) socks;
         Some (socks, if fd \<ge> 0 then close_fd fd io else io)
       }) [0..<n] (socks, io)
    = Some (replicate n (- 1) @ drop n socks,
        io\<lparr>io_fds := io_fds io @ map Fd_close (filter (\<lambda>fd. 0 \<le> fd) (take n socks))\<rparr>)"
  using assms
proof (induction n)
  case (Suc n)
  let ?s = "replicate n (- 1) @ drop n socks"
  have d: "drop n socks = socks ! n # drop (Suc n) socks" using Suc(2) by (simp add: Cons_nth_drop_Suc)
  have "buf_load ?s n = Some (socks ! n)" "buf_store n (- 1) ?s = Some (replicate (Suc n) (- 1) @ drop (Suc n) socks)"
    using Suc(2) d by (simp_all add: buf_load_def buf_store_def nth_append list_update_append replicate_append_same)
  then show ?case
    using Suc by (simp add: foldM_append take_Suc_conv_app_nth close_fd_def)
qed simp

lemma close_ok:
  assumes "pub_inv p" and "balanced (p, io)"
  shows "\<exists>p' io'. cmos_pub_close (p, io) = Some (p', io') \<and> opened (io_fds io') = closed (io_fds io')
    \<and> subs p' = [] \<and> pub_master_sock p' < 0 \<and> listen_sock p' < 0 \<and> pub_epfd p' < 0 \<and> io_wire io' = io_wire io"
proof -
  have n: "sub_count p \<le> length (sub_socks p)" using assms(1) by (simp add: pub_inv_def)
  have cl: "closed (map Fd_close fds) = held fds" "opened (map Fd_close fds) = {#}" for fds
    by (induction fds) simp_all
  have "held (filter (\<lambda>fd. 0 \<le> fd) fds) = held fds" for fds
    by (simp add: held_def)
  then show ?thesis
    using assms(2) cl
    by (simp add: cmos_pub_close_def close_loop [OF n] balanced_def pub_fds_def close_fd_def subs_def Let_def)
qed

text \<open>The publisher's life after a start: polls and messages, in any order.\<close>

datatype pub_op = Pub_poll int int | Pub_send string "string option" "string option" "string option" "string option"

definition pub_op_fits :: "pub_op \<Rightarrow> bool" where
  "pub_op_fits op = (case op of Pub_poll r c \<Rightarrow> True
    | Pub_send junk st ty key v \<Rightarrow> length junk = 896 \<and> (st \<noteq> None \<or> ty \<noteq> None \<or> key \<noteq> None \<or> v \<noteq> None)
        \<and> length (message_text st ty key v) < 896)"

definition pub_do :: "pub_op \<Rightarrow> cmos_pub \<times> cm_io \<Rightarrow> (cmos_pub \<times> cm_io) run" where
  "pub_do op s = (case op of Pub_poll r c \<Rightarrow> cmos_pub_poll r c s
    | Pub_send junk st ty key v \<Rightarrow> map_option snd (cmos_publish junk st ty key v s))"

lemma pub_do_ok:
  assumes "pub_inv p" and "balanced (p, io)" and "pub_op_fits op"
  shows "\<exists>p1 io1. pub_do op (p, io) = Some (p1, io1) \<and> pub_inv p1 \<and> balanced (p1, io1)"
proof (cases op)
  case (Pub_poll r c)
  then show ?thesis using poll_ok [OF assms(1,2), of r c] by (auto simp: pub_do_def)
next
  case (Pub_send junk st ty key v)
  then show ?thesis
    using publish_balanced [OF assms(1,2), of junk st ty key v] assms(3) by (auto simp: pub_do_def pub_op_fits_def)
qed

interpretation publisher: descriptor_owner "\<lambda>s. pub_inv (fst s)" "\<lambda>s. io_fds (snd s)" "\<lambda>s. pub_fds (fst s)"
  pub_do pub_op_fits cmos_pub_close "\<lambda>s. io_fds (snd s)"
proof unfold_locales
  fix s :: "cmos_pub \<times> cm_io" and op
  assume "pub_inv (fst s)" "opened (io_fds (snd s)) = closed (io_fds (snd s)) + pub_fds (fst s)" "pub_op_fits op"
  then show "\<exists>s'. pub_do op s = Some s' \<and> pub_inv (fst s') \<and> opened (io_fds (snd s')) = closed (io_fds (snd s')) + pub_fds (fst s')"
    using pub_do_ok [of "fst s" "snd s" op] by (fastforce simp: balanced_def)
next
  fix s :: "cmos_pub \<times> cm_io"
  assume "pub_inv (fst s)" "opened (io_fds (snd s)) = closed (io_fds (snd s)) + pub_fds (fst s)"
  then show "\<exists>t. cmos_pub_close s = Some t \<and> opened (io_fds (snd t)) = closed (io_fds (snd t))"
    using close_ok [of "fst s" "snd s"] by (fastforce simp: balanced_def)
qed

text \<open>
  C35: the publisher leaks no descriptor. Start it (whether or not the start succeeds), then accept
  subscribers and publish messages in any order and with any results of the system calls: at any
  time at most 512 subscribers are kept, and closing it has closed every descriptor that was ever
  opened, each as often as it was opened.
\<close>

theorem publisher_no_leak:
  assumes "opened (io_fds io) = closed (io_fds io)" and "\<forall>op\<in>set ops. pub_op_fits op"
  shows "\<exists>rc p1 io1 p2 io2 p3 io3.
      cmos_pub_init env ip mport node topic port (static_pub, io) = Some (rc, p1, io1)
    \<and> foldM pub_do ops (p1, io1) = Some (p2, io2) \<and> length (subs p2) \<le> 512
    \<and> cmos_pub_close (p2, io2) = Some (p3, io3) \<and> opened (io_fds io3) = closed (io_fds io3)"
proof -
  have st: "length (sub_socks static_pub) = 512" "length (pub_topic static_pub) = 64" "pub_topic static_pub ! 63 = CHR 0x00"
      "held [pub_master_sock static_pub, listen_sock static_pub, pub_epfd static_pub] = {#}"
    by (simp_all add: static_pub_def CM_MAX_SUB_CLIENT_def)
  obtain rc p1 io1 where 1: "cmos_pub_init env ip mport node topic port (static_pub, io) = Some (rc, p1, io1)" "pub_inv p1" "balanced (p1, io1)"
    using init_ok [OF st assms(1)] by blast
  obtain p2 io2 p3 io3 where 2: "foldM pub_do ops (p1, io1) = Some (p2, io2)" "pub_inv p2"
      "cmos_pub_close (p2, io2) = Some (p3, io3)" "opened (io_fds io3) = closed (io_fds io3)"
    using publisher.life [of "(p1, io1)" ops] 1(2,3) assms(2) by (fastforce simp: balanced_def)
  have "length (subs p2) \<le> 512" using 2(2) by (simp add: pub_inv_def subs_def)
  with 1(1) 2 show ?thesis by blast
qed

theorem publisher_no_leak_witness:
  "\<exists>rc p1 io1 p2 io2 p3 io3.
      cmos_pub_init \<lparr>e_listen_socket = 5, e_bind = 0, e_listen = 0, e_epoll_create = 6\<rparr> ''127.0.0.1'' 10000 ''n'' ''t'' 12000
        (static_pub, (demo_io [])\<lparr>io_connects := [\<lparr>t_socket = 4, t_address_ok = True, t_connect_ok = True\<rparr>]\<rparr>)
      = Some (rc, p1, io1)
    \<and> foldM pub_do [Pub_poll 1 7, Pub_send (replicate 896 (CHR 0x00)) None None None (Some ''5'')] (p1, io1) = Some (p2, io2)
    \<and> length (subs p2) \<le> 512
    \<and> cmos_pub_close (p2, io2) = Some (p3, io3) \<and> opened (io_fds io3) = closed (io_fds io3)"
proof (rule publisher_no_leak)
  have "cstr ''5'' = ''5''" by (simp add: cstr_def)
  then have "message_text None None None (Some ''5'') = ''5''" by (simp add: message_text_def labelled_def)
  then show "\<forall>op\<in>set [Pub_poll 1 7, Pub_send (replicate 896 (CHR 0x00)) None None None (Some ''5'')]. pub_op_fits op"
    by (simp add: pub_op_fits_def)
qed (simp add: demo_io_def)

end
