(* ===== verification/Cmos_Sub.thy ===== *)
theory Cmos_Sub
  imports Cmos_Pub
begin

text \<open>
  The CMOS subscriber (\<open>lib/cmos/cmos_sub.c\<close>): the subscription slots, the connections to
  publishers, the dialogue with the master, the parsing of message lines and their dispatch to
  callbacks, and one round of the receive loop.

  A callback is a number; a call is recorded in \<open>io_calls\<close> with its two arguments. Of the receive
  buffer \<open>rxbuf\<close> with its length \<open>rxlen\<close> the model keeps the \<open>rxlen\<close> bytes in use; the bytes after
  them are never read. \<open>recv\<close> is bounded by the room the code passes. Keep-alive options and
  the epoll registrations are left out; what \<open>epoll_wait\<close> reports is an input. A line is taken
  out of the buffer at each newline; the code does the same with two indices.
\<close>

section \<open>State\<close>

definition CM_RX_BUF :: nat where "CM_RX_BUF = 2048"
definition CM_MAX_PUB_CONN :: nat where "CM_MAX_PUB_CONN = 512"
definition CM_MAX_SUB_SLOTS :: nat where "CM_MAX_SUB_SLOTS = 512"

record cm_sub_slot =
  sl_topic :: string
  filter_state :: string
  filter_type :: string
  filter_key :: string
  sl_cb :: "nat option"
  sl_used :: bool

record cm_pub_conn =
  pc_sock :: int
  pc_node_name :: string
  pc_rx :: string
  pc_active :: bool
  pc_sub_slot :: int

record cmos_sub_ctx =
  master_sock :: int
  master_ip :: string
  master_port :: int
  sub_node_name :: string
  sub_slots :: "cm_sub_slot list"
  sub_slot_count :: nat
  pub_conns :: "cm_pub_conn list"
  pub_count :: int
  epfd :: int

definition zero_slot :: cm_sub_slot where
  "zero_slot = \<lparr>sl_topic = replicate 64 (CHR 0x00), filter_state = replicate 32 (CHR 0x00),
     filter_type = replicate 32 (CHR 0x00), filter_key = replicate 32 (CHR 0x00), sl_cb = None, sl_used = False\<rparr>"

definition zero_conn :: cm_pub_conn where
  "zero_conn = \<lparr>pc_sock = 0, pc_node_name = replicate 64 (CHR 0x00), pc_rx = [], pc_active = False, pc_sub_slot = 0\<rparr>"

text \<open>What \<open>calloc\<close> returns.\<close>

definition zero_sub_ctx :: cmos_sub_ctx where
  "zero_sub_ctx = \<lparr>master_sock = 0, master_ip = replicate 64 (CHR 0x00), master_port = 0,
     sub_node_name = replicate 64 (CHR 0x00), sub_slots = replicate CM_MAX_SUB_SLOTS zero_slot, sub_slot_count = 0,
     pub_conns = replicate CM_MAX_PUB_CONN zero_conn, pub_count = 0, epfd = 0\<rparr>"

section \<open>Connections\<close>

definition unused_conn :: "cm_pub_conn \<Rightarrow> cm_pub_conn run" where
  "unused_conn c = do {
     nn \<leftarrow> buf_store 0 (CHR 0x00) (pc_node_name c);
     Some (c\<lparr>pc_sock := - 1, pc_node_name := nn, pc_rx := [], pc_active := False, pc_sub_slot := - 1\<rparr>)
   }"

definition ctx_init_conns :: "cmos_sub_ctx \<Rightarrow> cmos_sub_ctx run" where
  "ctx_init_conns ctx = do {
     cs \<leftarrow> foldM (\<lambda>i cs. do {
         c \<leftarrow> buf_load cs i;
         c \<leftarrow> unused_conn c;
         buf_store i c cs
       }) [0..<CM_MAX_PUB_CONN] (pub_conns ctx);
     Some (ctx\<lparr>pub_conns := cs, pub_count := 0\<rparr>)
   }"

definition ctx_close_conn :: "nat \<Rightarrow> cmos_sub_ctx \<times> cm_io \<Rightarrow> (cmos_sub_ctx \<times> cm_io) run" where
  "ctx_close_conn idx s = (case s of (ctx, io) \<Rightarrow>
     if idx \<ge> CM_MAX_PUB_CONN then Some (ctx, io)
     else do {
       c \<leftarrow> buf_load (pub_conns ctx) idx;
       let n = (if pc_active c then pub_count ctx - 1 else pub_count ctx);
       c' \<leftarrow> unused_conn c;
       cs \<leftarrow> buf_store idx c' (pub_conns ctx);
       Some (ctx\<lparr>pub_conns := cs, pub_count := n\<rparr>, if pc_sock c \<ge> 0 then close_fd (pc_sock c) io else io)
     })"

definition ctx_close_all_conns :: "cmos_sub_ctx \<times> cm_io \<Rightarrow> (cmos_sub_ctx \<times> cm_io) run" where
  "ctx_close_all_conns s = foldM ctx_close_conn [0..<CM_MAX_PUB_CONN] s"

fun conn_search :: "(cm_pub_conn \<Rightarrow> bool) \<Rightarrow> cm_pub_conn list \<Rightarrow> nat list \<Rightarrow> nat option run" where
  "conn_search P cs [] = Some None"
| "conn_search P cs (i # is) = do {
     c \<leftarrow> buf_load cs i;
     if P c then Some (Some i) else conn_search P cs is
   }"

definition ctx_find_conn :: "string \<Rightarrow> int \<Rightarrow> cmos_sub_ctx \<Rightarrow> nat option run" where
  "ctx_find_conn node slot ctx =
     conn_search (\<lambda>c. pc_active c \<and> pc_sub_slot c = slot \<and> cstr (pc_node_name c) = cstr node)
       (pub_conns ctx) [0..<CM_MAX_PUB_CONN]"

text \<open>The result is 0 or -1.\<close>

definition ctx_add_pub ::
  "int \<Rightarrow> string option \<Rightarrow> string option \<Rightarrow> int \<Rightarrow> cmos_sub_ctx \<times> cm_io \<Rightarrow> (int \<times> cmos_sub_ctx \<times> cm_io) run" where
  "ctx_add_pub sub_slot node_name ip port s = (case s of (ctx, io) \<Rightarrow>
     (case (node_name, ip) of
        (Some node, Some ip) \<Rightarrow> do {
          found \<leftarrow> ctx_find_conn node sub_slot ctx;
          if found \<noteq> None then Some (0, ctx, io)
          else do {
            free \<leftarrow> conn_search (\<lambda>c. \<not> pc_active c) (pub_conns ctx) [0..<CM_MAX_PUB_CONN];
            (case free of
               None \<Rightarrow> Some (- 1, ctx, io)
             | Some slot \<Rightarrow>
                 (case connect_tcp ip port io of (sock, io) \<Rightarrow>
                    if sock < 0 then Some (- 1, ctx, io)
                    else do {
                      c \<leftarrow> buf_load (pub_conns ctx) slot;
                      nn \<leftarrow> strncpy (pc_node_name c) node 63;
                      nn \<leftarrow> buf_store 63 (CHR 0x00) nn;
                      cs \<leftarrow> buf_store slot \<lparr>pc_sock = sock, pc_node_name = nn, pc_rx = [], pc_active = True,
                                              pc_sub_slot = sub_slot\<rparr> (pub_conns ctx);
                      Some (0, ctx\<lparr>pub_conns := cs, pub_count := pub_count ctx + 1\<rparr>, io)
                    }))
          }
        }
      | _ \<Rightarrow> Some (- 1, ctx, io)))"

definition ctx_active_count :: "cmos_sub_ctx \<Rightarrow> nat run" where
  "ctx_active_count ctx =
     foldM (\<lambda>i n. do {
         c \<leftarrow> buf_load (pub_conns ctx) i;
         Some (if pc_active c \<and> pc_sock c \<ge> 0 then n + 1 else n)
       }) [0..<CM_MAX_PUB_CONN] 0"

section \<open>The master\<close>

definition drop_master :: "cmos_sub_ctx \<times> cm_io \<Rightarrow> cmos_sub_ctx \<times> cm_io" where
  "drop_master s = (case s of (ctx, io) \<Rightarrow> (ctx\<lparr>master_sock := - 1\<rparr>, close_fd (master_sock ctx) io))"

fun register_slots :: "cmos_sub_ctx \<Rightarrow> nat list \<Rightarrow> cm_io \<Rightarrow> (bool \<times> cm_io) run" where
  "register_slots ctx [] io = Some (True, io)"
| "register_slots ctx (i # is) io = do {
     sl \<leftarrow> buf_load (sub_slots ctx) i;
     if \<not> sl_used sl then register_slots ctx is io
     else (case send_line (master_sock ctx)
             (snprintf_text 256 (''REGISTER_SUB '' @ cstr (sl_topic sl) @ [CHR 0x0A])) io of (n, io) \<Rightarrow>
       if n \<le> 0 then Some (False, io) else register_slots ctx is io)
   }"

definition ctx_reconnect_master :: "cmos_sub_ctx \<times> cm_io \<Rightarrow> (int \<times> cmos_sub_ctx \<times> cm_io) run" where
  "ctx_reconnect_master s = (case s of (ctx, io) \<Rightarrow>
     (case (if master_sock ctx \<ge> 0 then drop_master (ctx, io) else (ctx, io)) of (ctx, io) \<Rightarrow>
      case connect_tcp (master_ip ctx) (master_port ctx) io of (m, io) \<Rightarrow>
        let ctx = ctx\<lparr>master_sock := m\<rparr> in
        if m < 0 then Some (- 1, ctx, io)
        else (case send_line m (snprintf_text 256 (''NODE '' @ cstr (sub_node_name ctx) @ [CHR 0x0A])) io of (n, io) \<Rightarrow>
          if n \<le> 0 then Some (- 1, drop_master (ctx, io))
          else do {
            (ok, io) \<leftarrow> register_slots ctx [0..<sub_slot_count ctx] io;
            Some (if ok then (0, ctx, io) else (- 1, drop_master (ctx, io)))
          })))"

text \<open>The complete lines of a receive buffer, each with its newline, and what is left.\<close>

function split_lines :: "string \<Rightarrow> string list \<times> string" where
  "split_lines rx =
     (if CHR 0x0A \<in> set rx then
        (case split_lines (drop 1 (dropWhile (\<lambda>c. c \<noteq> CHR 0x0A) rx)) of (ls, rest) \<Rightarrow>
           ((takeWhile (\<lambda>c. c \<noteq> CHR 0x0A) rx @ [CHR 0x0A]) # ls, rest))
      else ([], rx))"
  by pat_completeness auto
termination
proof (relation "measure length")
  fix rx :: string
  assume "CHR 0x0A \<in> set rx"
  then have "dropWhile (\<lambda>c. c \<noteq> CHR 0x0A) rx \<noteq> []" by auto
  then have "length (drop 1 (dropWhile (\<lambda>c. c \<noteq> CHR 0x0A) rx)) < length (dropWhile (\<lambda>c. c \<noteq> CHR 0x0A) rx)"
    by simp
  then show "(drop 1 (dropWhile (\<lambda>c. c \<noteq> CHR 0x0A) rx), rx) \<in> measure length"
    using length_dropWhile_le [of "\<lambda>c. c \<noteq> CHR 0x0A" rx] by (simp del: length_drop)
qed simp

declare split_lines.simps [simp del]

text \<open>A line copied into \<open>char line[512]\<close>, as a string.\<close>

definition line_copy :: "string \<Rightarrow> string" where
  "line_copy l = cstr (take 511 l)"

text \<open>
  \<open>atoi\<close> of the platform's C library (glibc, 64-bit \<open>long\<close>, 32-bit \<open>int\<close>): the value of blanks, a
  sign and decimal digits as \<open>strtol\<close> returns it, at most \<open>LONG_MAX\<close> and at least \<open>LONG_MIN\<close>, cut to an
  \<open>int\<close>. (The C standard leaves \<open>atoi\<close> undefined where the value does not fit an \<open>int\<close>.)
\<close>

definition is_space :: "char \<Rightarrow> bool" where
  "is_space c \<longleftrightarrow> c \<in> set [CHR 0x20, CHR 0x09, CHR 0x0A, CHR 0x0B, CHR 0x0C, CHR 0x0D]"

definition is_digit :: "char \<Rightarrow> bool" where
  "is_digit c \<longleftrightarrow> 48 \<le> (of_char c :: nat) \<and> (of_char c :: nat) \<le> 57"

definition digits_value :: "string \<Rightarrow> nat" where
  "digits_value ds = foldl (\<lambda>n c. 10 * n + (of_char c - 48)) 0 ds"

definition decimal :: "string \<Rightarrow> int" where
  "decimal s = (case dropWhile is_space s of
       c # r \<Rightarrow> if c = CHR 0x2D then - int (digits_value (takeWhile is_digit r))
                else if c = CHR 0x2B then int (digits_value (takeWhile is_digit r))
                else int (digits_value (takeWhile is_digit (c # r)))
     | [] \<Rightarrow> 0)"

definition atoi :: "string \<Rightarrow> int" where
  "atoi s = sint (word_of_int (max (- (2 ^ 63)) (min (2 ^ 63 - 1) (decimal s))) :: 32 word)"

definition blank_crlf :: "char \<Rightarrow> bool" where
  "blank_crlf c \<longleftrightarrow> c = CHR 0x20 \<or> c = CHR 0x0D \<or> c = CHR 0x0A"

definition crlf :: "char \<Rightarrow> bool" where
  "crlf c \<longleftrightarrow> c = CHR 0x0D \<or> c = CHR 0x0A"

text \<open>One line of the master's answer for slot \<open>s\<close>; \<open>Inl\<close> ends the lookup with its result.\<close>

definition lookup_line ::
  "nat \<Rightarrow> string \<Rightarrow> bool \<times> cmos_sub_ctx \<times> cm_io \<Rightarrow> (int + bool \<times> cmos_sub_ctx \<times> cm_io) run" where
  "lookup_line s line st = (case st of (found, c) \<Rightarrow>
     if line = ''END'' @ [CHR 0x0A] then Some (Inl (if found then 0 else - 1))
     else if take 8 line = ''PUBINFO '' then
       (case strtok blank_crlf line of (_, r0) \<Rightarrow>
        case strtok blank_crlf r0 of (_, r1) \<Rightarrow>
        case strtok blank_crlf r1 of (ip, r2) \<Rightarrow>
        case strtok blank_crlf r2 of (port, r3) \<Rightarrow>
        case strtok blank_crlf r3 of (node, _) \<Rightarrow>
          (case (ip, port, node) of
             (Some ip, Some port, Some node) \<Rightarrow> do {
               (rc, c) \<leftarrow> ctx_add_pub (int s) (Some node) (Some ip) (atoi port) c;
               Some (Inr (found \<or> rc = 0, c))
             }
           | _ \<Rightarrow> Some (Inr (found, c))))
     else Some (Inr (found, c)))"

fun lookup_lines ::
  "nat \<Rightarrow> string list \<Rightarrow> bool \<times> cmos_sub_ctx \<times> cm_io \<Rightarrow> (int option \<times> bool \<times> cmos_sub_ctx \<times> cm_io) run" where
  "lookup_lines s [] st = Some (None, st)"
| "lookup_lines s (l # ls) st = do {
     r \<leftarrow> lookup_line s (line_copy l) st;
     (case r of Inl rc \<Rightarrow> Some (Some rc, st) | Inr st' \<Rightarrow> lookup_lines s ls st')
   }"

text \<open>
  Receiving the answer: \<open>evs\<close> is what the master's socket delivers (\<open>None\<close>: failure or timeout,
  an empty chunk: end of stream), at most the room left in \<open>rxbuf[2048]\<close> at a time.
\<close>

function lookup_recv ::
  "nat \<Rightarrow> string \<Rightarrow> string option list \<Rightarrow> bool \<times> cmos_sub_ctx \<times> cm_io
     \<Rightarrow> (int \<times> string option list \<times> cmos_sub_ctx \<times> cm_io) run" where
  "lookup_recv s rx evs st =
     (let room = CM_RX_BUF - 1 - length rx; fail = (\<lambda>evs. Some (- 1, evs, drop_master (snd st))) in
      case evs of
        [] \<Rightarrow> fail []
      | None # r \<Rightarrow> fail r
      | Some chunk # r \<Rightarrow>
          if take room chunk = [] then fail r
          else (case split_lines (rx @ take room chunk) of (ls, rest) \<Rightarrow>
            (case lookup_lines s ls st of
               None \<Rightarrow> None
             | Some (Some rc, st') \<Rightarrow>
                 Some (rc, if length chunk \<le> room then r else Some (drop room chunk) # r, snd st')
             | Some (None, st') \<Rightarrow>
                 lookup_recv s (if length rest \<ge> CM_RX_BUF - 1 then [] else rest)
                   (if length chunk \<le> room then r else Some (drop room chunk) # r) st')))"
  by pat_completeness auto
termination
  by (relation "measure (\<lambda>(s, rx, evs, st). sum_list (map (\<lambda>e. case e of None \<Rightarrow> 1 | Some c \<Rightarrow> Suc (length c)) evs))")
    (auto simp: neq_Nil_conv)

declare lookup_recv.simps [simp del]

definition ctx_lookup_slot :: "nat \<Rightarrow> cmos_sub_ctx \<times> cm_io \<Rightarrow> (int \<times> cmos_sub_ctx \<times> cm_io) run" where
  "ctx_lookup_slot s c = (case c of (ctx, io) \<Rightarrow> do {
     sl \<leftarrow> buf_load (sub_slots ctx) s;
     (case send_line (master_sock ctx)
         (snprintf_text 256 (''LOOKUP_TOPIC '' @ cstr (sl_topic sl) @ [CHR 0x0A])) io of (n, io) \<Rightarrow>
       if n \<le> 0 then Some (- 1, drop_master (ctx, io))
       else do {
         (rc, evs, ctx, io) \<leftarrow> lookup_recv s [] (io_master_rx io) (False, ctx, io);
         Some (rc, ctx, io\<lparr>io_master_rx := evs\<rparr>)
       })
   })"

definition ctx_reconnect_all_pubs :: "cmos_sub_ctx \<times> cm_io \<Rightarrow> (cmos_sub_ctx \<times> cm_io) run" where
  "ctx_reconnect_all_pubs s = do {
     (rc, s) \<leftarrow> (if master_sock (fst s) < 0 then ctx_reconnect_master s else Some (0, s));
     if rc \<noteq> 0 then Some s
     else foldM (\<lambda>i s. do {
         sl \<leftarrow> buf_load (sub_slots (fst s)) i;
         if sl_used sl then map_option snd (ctx_lookup_slot i s) else Some s
       }) [0..<sub_slot_count (fst s)] s
   }"

section \<open>Messages\<close>

record msg_fields =
  p_state :: "string option"
  p_type :: "string option"
  p_key :: "string option"
  p_value :: "string option"

definition msg_field :: "string \<Rightarrow> msg_fields \<Rightarrow> msg_fields" where
  "msg_field t f =
     (if take 6 t = ''state='' then f\<lparr>p_state := Some (drop 6 t)\<rparr>
      else if take 5 t = ''type='' then f\<lparr>p_type := Some (drop 5 t)\<rparr>
      else if take 4 t = ''key='' then f\<lparr>p_key := Some (drop 4 t)\<rparr>
      else if take 6 t = ''value='' then f\<lparr>p_value := Some (drop 6 t)\<rparr>
      else f)"

function parse_fields :: "string \<Rightarrow> msg_fields \<Rightarrow> msg_fields" where
  "parse_fields s f =
     (case strtok (\<lambda>c. c = CHR 0x20) s of
        (None, _) \<Rightarrow> f
      | (Some t, r) \<Rightarrow> parse_fields r (msg_field t f))"
  by pat_completeness auto
termination
  by (relation "measure (\<lambda>(s, f). length s)") (auto dest: strtok_shorter [OF sym])

declare parse_fields.simps [simp del]

definition filter_rejects :: "string \<Rightarrow> string option \<Rightarrow> bool" where
  "filter_rejects filt p \<longleftrightarrow> cstr filt \<noteq> [] \<and> (case p of None \<Rightarrow> True | Some v \<Rightarrow> v \<noteq> cstr filt)"

definition call_cb :: "nat \<Rightarrow> string \<Rightarrow> string \<Rightarrow> cm_io \<Rightarrow> cm_io" where
  "call_cb cb topic arg io = io\<lparr>io_calls := io_calls io @ [(cb, topic, arg)]\<rparr>"

definition ctx_handle_line :: "cmos_sub_ctx \<Rightarrow> int \<Rightarrow> string \<Rightarrow> cm_io \<Rightarrow> cm_io run" where
  "ctx_handle_line ctx s line io =
     (case strtok blank_crlf line of (cmd, r0) \<Rightarrow>
        if cmd \<noteq> Some ''MSG'' then Some io
        else (case strtok blank_crlf r0 of (topic, r1) \<Rightarrow>
              case strtok crlf r1 of (data, _) \<Rightarrow>
          (case (topic, data) of
             (Some topic, Some data) \<Rightarrow>
               if s < 0 \<or> s \<ge> int (sub_slot_count ctx) then Some io
               else do {
                 slot \<leftarrow> buf_load (sub_slots ctx) (nat s);
                 if \<not> sl_used slot then Some io
                 else if topic \<noteq> cstr (sl_topic slot) then Some io
                 else (case sl_cb slot of
                    None \<Rightarrow> Some io
                  | Some cb \<Rightarrow>
                      if cstr (filter_state slot) = [] \<and> cstr (filter_type slot) = [] \<and> cstr (filter_key slot) = []
                      then Some (call_cb cb topic data io)
                      else (let f = parse_fields (take 511 data)
                              \<lparr>p_state = None, p_type = None, p_key = None, p_value = None\<rparr> in
                        if filter_rejects (filter_state slot) (p_state f)
                         \<or> filter_rejects (filter_type slot) (p_type f)
                         \<or> filter_rejects (filter_key slot) (p_key f) then Some io
                        else if cstr (filter_key slot) \<noteq> []
                        then Some (call_cb cb topic (case p_value f of None \<Rightarrow> [] | Some v \<Rightarrow> v) io)
                        else Some (call_cb cb topic data io)))
               }
           | _ \<Rightarrow> Some io)))"

section \<open>The public operations\<close>

text \<open>What the system answers to \<open>cmos_sub_create\<close> besides the connection to the master.\<close>

record sub_env =
  e_calloc_ok :: bool
  e_epoll :: int

definition cmos_sub_create ::
  "sub_env \<Rightarrow> string \<Rightarrow> int \<Rightarrow> string \<Rightarrow> cm_io \<Rightarrow> (cmos_sub_ctx option \<times> cm_io) run" where
  "cmos_sub_create env ip port node_name io =
     (if \<not> e_calloc_ok env then Some (None, io)
      else do {
        let ctx = zero_sub_ctx\<lparr>epfd := - 1\<rparr>;
        ctx \<leftarrow> ctx_init_conns ctx;
        if e_epoll env < 0 then Some (None, io)
        else do {
          let io = open_fd (e_epoll env) io;
          mip \<leftarrow> strncpy (master_ip ctx) ip 63;
          nn \<leftarrow> strncpy (sub_node_name ctx) node_name 63;
          let ctx = ctx\<lparr>epfd := e_epoll env, master_ip := mip, sub_node_name := nn, master_port := port,
                         sub_slot_count := 0\<rparr>;
          (case connect_tcp ip port io of (m, io) \<Rightarrow>
             let ctx = ctx\<lparr>master_sock := m\<rparr> in
             if m < 0 then Some (None, io)
             else (case send_line m (snprintf_text 256 (''NODE '' @ cstr node_name @ [CHR 0x0A])) io of (n, io) \<Rightarrow>
               if n \<le> 0 then Some (None, close_fd m io) else Some (Some ctx, io)))
        }
      })"

definition slot_string :: "string option \<Rightarrow> nat \<Rightarrow> string \<Rightarrow> string run" where
  "slot_string src n dst = do {
     d \<leftarrow> strncpy dst (case src of None \<Rightarrow> [] | Some f \<Rightarrow> f) n;
     buf_store n (CHR 0x00) d
   }"

definition cmos_sub_add ::
  "string option \<Rightarrow> string option \<Rightarrow> string option \<Rightarrow> string option \<Rightarrow> nat option
     \<Rightarrow> cmos_sub_ctx option \<times> cm_io \<Rightarrow> (int \<times> cmos_sub_ctx option \<times> cm_io) run" where
  "cmos_sub_add topic fstate ftype fkey cb c = (case c of (ctx, io) \<Rightarrow>
     (case (ctx, topic) of
        (Some ctx, Some topic) \<Rightarrow>
          if sub_slot_count ctx \<ge> CM_MAX_SUB_SLOTS then Some (- 1, Some ctx, io)
          else do {
            let s = sub_slot_count ctx;
            old \<leftarrow> buf_load (sub_slots ctx) s;
            t \<leftarrow> slot_string (Some topic) 63 (sl_topic old);
            fs \<leftarrow> slot_string fstate 31 (filter_state old);
            ft \<leftarrow> slot_string ftype 31 (filter_type old);
            fk \<leftarrow> slot_string fkey 31 (filter_key old);
            slots \<leftarrow> buf_store s \<lparr>sl_topic = t, filter_state = fs, filter_type = ft, filter_key = fk,
                                    sl_cb = cb, sl_used = True\<rparr> (sub_slots ctx);
            let ctx = ctx\<lparr>sub_slots := slots, sub_slot_count := s + 1\<rparr>;
            let io = snd (send_line (master_sock ctx)
              (snprintf_text 256 (''REGISTER_SUB '' @ cstr topic @ [CHR 0x0A])) io);
            (rc, ctx, io) \<leftarrow> ctx_lookup_slot s (ctx, io);
            Some (0, Some ctx, io)
          }
      | _ \<Rightarrow> Some (- 1, ctx, io)))"

text \<open>
  One event of \<open>epoll_wait\<close>: the connection and what \<open>recv\<close> finds there (\<open>None\<close>: failure, an empty
  chunk: end of stream).
\<close>

definition handle_event :: "nat \<times> string option \<Rightarrow> cmos_sub_ctx \<times> cm_io \<Rightarrow> (cmos_sub_ctx \<times> cm_io) run" where
  "handle_event ev s = (case (ev, s) of ((i, got), (ctx, io)) \<Rightarrow>
     if i \<ge> CM_MAX_PUB_CONN then Some (ctx, io)
     else do {
       c \<leftarrow> buf_load (pub_conns ctx) i;
       if \<not> pc_active c \<or> pc_sock c < 0 then Some (ctx, io)
       else (let data = (case got of None \<Rightarrow> [] | Some b \<Rightarrow> take (CM_RX_BUF - 1 - length (pc_rx c)) b) in
         if data = [] then ctx_close_conn i (ctx, io)
         else (case split_lines (pc_rx c @ data) of (ls, rest) \<Rightarrow> do {
           io \<leftarrow> foldM (\<lambda>l io. ctx_handle_line ctx (pc_sub_slot c) (line_copy l) io) ls io;
           cs \<leftarrow> buf_store i (c\<lparr>pc_rx := (if length rest \<ge> CM_RX_BUF - 1 then [] else rest)\<rparr>) (pub_conns ctx);
           Some (ctx\<lparr>pub_conns := cs\<rparr>, io)
         }))
     })"

text \<open>One round of \<open>while (1)\<close>: the events reported and the time.\<close>

definition lookup_missing :: "cmos_sub_ctx \<times> cm_io \<Rightarrow> (cmos_sub_ctx \<times> cm_io) run" where
  "lookup_missing s =
     foldM (\<lambda>i s. do {
         sl \<leftarrow> buf_load (sub_slots (fst s)) i;
         if \<not> sl_used sl then Some s
         else do {
           has \<leftarrow> conn_search (\<lambda>c. pc_active c \<and> pc_sub_slot c = int i) (pub_conns (fst s)) [0..<CM_MAX_PUB_CONN];
           if has = None then map_option snd (ctx_lookup_slot i s) else Some s
         }
       }) [0..<sub_slot_count (fst s)] s"

definition spin_round ::
  "int \<Rightarrow> (nat \<times> string option) list \<Rightarrow> int \<times> cmos_sub_ctx \<times> cm_io \<Rightarrow> (int \<times> cmos_sub_ctx \<times> cm_io) run" where
  "spin_round now events s = (case s of (last_reconnect, s) \<Rightarrow> do {
     n \<leftarrow> ctx_active_count (fst s);
     s \<leftarrow> (if n = 0 then ctx_reconnect_all_pubs s else Some s);
     n \<leftarrow> ctx_active_count (fst s);
     if n = 0 then do {
       s \<leftarrow> ctx_reconnect_all_pubs s;
       Some (last_reconnect, s)
     }
     else do {
       s \<leftarrow> (if now - last_reconnect \<ge> 2 then lookup_missing s else Some s);
       s \<leftarrow> foldM handle_event events s;
       Some (if now - last_reconnect \<ge> 2 then now else last_reconnect, s)
     }
   })"

definition cmos_sub_destroy :: "cmos_sub_ctx option \<times> cm_io \<Rightarrow> cm_io run" where
  "cmos_sub_destroy c = (case c of
       (None, io) \<Rightarrow> Some io
     | (Some ctx, io) \<Rightarrow> do {
         (ctx, io) \<leftarrow> ctx_close_all_conns (ctx, io);
         let io = (if master_sock ctx \<ge> 0 then close_fd (master_sock ctx) io else io);
         Some (if epfd ctx \<ge> 0 then close_fd (epfd ctx) io else io)
       })"

section \<open>Decimal numbers\<close>

lemma digit_facts:
  assumes "d < 10"
  shows "\<not> is_space (digit d)" "digit d \<noteq> CHR 0x2D" "digit d \<noteq> CHR 0x2B" "digit d = CHR ''0'' \<longleftrightarrow> d = 0"
    "digit d \<noteq> CHR 0x20" "digit d \<noteq> CHR 0x0D" "digit d \<noteq> CHR 0x0A" "digit d \<noteq> CHR 0x00"
proof -
  have n: "of_char (digit d) = 48 + d" using assms by (simp add: digit_def)
  have ne: "digit d \<noteq> c" if "of_char c < (48 :: nat)" for c using that n by auto
  show "\<not> is_space (digit d)" "digit d \<noteq> CHR 0x2D" "digit d \<noteq> CHR 0x2B"
      "digit d \<noteq> CHR 0x20" "digit d \<noteq> CHR 0x0D" "digit d \<noteq> CHR 0x0A" "digit d \<noteq> CHR 0x00"
    by (simp_all add: is_space_def ne)
  show "digit d = CHR ''0'' \<longleftrightarrow> d = 0"
  proof
    assume "digit d = CHR ''0''"
    then have "of_char (digit d) = (of_char (CHR ''0'') :: nat)" by (rule arg_cong)
    then show "d = 0" using n by simp
  next
    assume "d = 0"
    then have "of_char (digit d) = (of_char (CHR ''0'') :: nat)" using n by simp
    then show "digit d = CHR ''0''" by (simp only: of_char_eq_iff)
  qed
qed

lemma show_nat_digits: "\<forall>c\<in>set (show_nat n). \<exists>d<10. c = digit d"
proof (induction n rule: show_nat.induct)
  case (1 n)
  then show ?case by (subst show_nat.simps) (auto intro!: exI [of _ "n mod 10"])
qed

lemma show_nat_head: "0 < n \<Longrightarrow> \<exists>d r. show_nat n = digit d # r \<and> 0 < d \<and> d < 10"
proof (induction n rule: show_nat.induct)
  case (1 n)
  show ?case
  proof (cases "n < 10")
    case True
    then show ?thesis using 1(2) by (subst show_nat.simps) auto
  next
    case False
    then have "0 < n div 10" by (simp add: div_greater_zero_iff)
    with False 1(1) obtain d r where "show_nat (n div 10) = digit d # r" "0 < d" "d < 10" by blast
    then show ?thesis using False by (subst show_nat.simps) auto
  qed
qed

lemma show_nat_length: "n < 10 ^ k \<Longrightarrow> 0 < k \<Longrightarrow> length (show_nat n) \<le> k"
proof (induction k arbitrary: n)
  case (Suc k)
  show ?case
  proof (cases "n < 10")
    case False
    then have "n div 10 < 10 ^ k" "0 < k" using Suc(2) by (auto simp: less_mult_imp_div_less mult.commute elim: contrapos_pp)
    then show ?thesis using Suc(1) [of "n div 10"] False by (subst show_nat.simps) simp
  qed (simp add: show_nat.simps)
qed simp

lemma digit_of: "d < 10 \<Longrightarrow> of_char (digit d) = (48 + d :: nat)"
  by (simp add: digit_def)

lemma show_nat_is_digit: "\<forall>c\<in>set (show_nat n). is_digit c"
  using show_nat_digits [of n] by (auto simp: is_digit_def digit_of)

lemma digits_value_show: "digits_value (show_nat n) = n"
proof (induction n rule: show_nat.induct)
  case (1 n)
  have "digits_value (show_nat n) = (if n < 10 then n else 10 * digits_value (show_nat (n div 10)) + n mod 10)"
    by (subst show_nat.simps) (simp add: digits_value_def digit_of)
  then show ?case using 1 by simp
qed

lemma decimal_show_nat: "decimal (show_nat n) = int n"
proof -
  obtain d r where d: "show_nat n = digit d # r" "d < 10"
  proof (cases "n = 0")
    case True
    then have "show_nat n = digit 0 # []" by (simp add: show_nat.simps [of 0])
    then show ?thesis by (rule that) simp
  next
    case False
    then show ?thesis using show_nat_head [of n] that by blast
  qed
  have "takeWhile is_digit (show_nat n) = show_nat n" using show_nat_is_digit by (simp add: takeWhile_eq_all_conv)
  moreover have "dropWhile is_space (show_nat n) = show_nat n" using d digit_facts(1) [OF d(2)] by simp
  ultimately show ?thesis
    using d digit_facts(2,3) [OF d(2)] digits_value_show [of n] by (simp add: decimal_def)
qed

lemma decimal_show_int: "decimal (show_int i) = i"
proof (cases "i < 0")
  case True
  have digits: "takeWhile is_digit (show_nat (nat (- i))) = show_nat (nat (- i))"
    using show_nat_is_digit by (simp add: takeWhile_eq_all_conv)
  show ?thesis using True by (simp add: show_int_def decimal_def is_space_def digits_value_show digits)
qed (simp add: show_int_def decimal_show_nat)

text \<open>\<open>atoi\<close> returns an \<open>int\<close>, and reads back every \<open>int\<close> that was printed.\<close>

lemma atoi_range: "- (2 ^ 31) \<le> atoi s" "atoi s < 2 ^ 31"
  using sint_range_size [of "word_of_int (max (- (2 ^ 63)) (min (2 ^ 63 - 1) (decimal s))) :: 32 word"]
  by (simp_all add: atoi_def word_size)

lemma atoi_show_int:
  assumes "- (2 ^ 31) \<le> i" and "i < 2 ^ 31"
  shows "atoi (show_int i) = i"
proof -
  have "max (- (2 ^ 63)) (min (2 ^ 63 - 1) i) = i" using assms by simp
  then show ?thesis
    using assms by (simp add: atoi_def decimal_show_int sint_sbintrunc' signed_take_bit_int_eq_self)
qed

lemma show_int_length:
  assumes "- (2 ^ 31) \<le> i" and "i < 2 ^ 31"
  shows "length (show_int i) \<le> 11"
proof -
  have "length (show_nat (nat j)) \<le> 10" if "j \<le> 2 ^ 31" for j
    using show_nat_length [of "nat j" 10] that by simp
  from this [of i] this [of "- i"] show ?thesis using assms by (simp add: show_int_def)
qed

section \<open>The invariant\<close>

text \<open>
  A connection is in use exactly if it has a socket, belongs to a slot in use, and keeps less
  than a buffer of an unfinished line; the count is the number of connections in use.
\<close>

definition slot_wf :: "cm_sub_slot \<Rightarrow> bool" where
  "slot_wf sl \<longleftrightarrow> length (sl_topic sl) = 64 \<and> length (filter_state sl) = 32
     \<and> length (filter_type sl) = 32 \<and> length (filter_key sl) = 32"

definition conn_wf :: "nat \<Rightarrow> cm_pub_conn \<Rightarrow> bool" where
  "conn_wf n c \<longleftrightarrow> length (pc_node_name c) = 64 \<and> length (pc_rx c) < 2047 \<and> CHR 0x0A \<notin> set (pc_rx c)
     \<and> (if pc_active c then 0 \<le> pc_sock c \<and> 0 \<le> pc_sub_slot c \<and> pc_sub_slot c < int n
        else pc_sock c = - 1 \<and> pc_rx c = [])"

definition sub_inv :: "cmos_sub_ctx \<Rightarrow> bool" where
  "sub_inv ctx \<longleftrightarrow> length (sub_slots ctx) = 512 \<and> sub_slot_count ctx \<le> 512
     \<and> (\<forall>sl\<in>set (sub_slots ctx). slot_wf sl) \<and> (\<forall>i < sub_slot_count ctx. sl_used (sub_slots ctx ! i))
     \<and> length (pub_conns ctx) = 512 \<and> (\<forall>c\<in>set (pub_conns ctx). conn_wf (sub_slot_count ctx) c)
     \<and> pub_count ctx = int (length (filter pc_active (pub_conns ctx)))"

definition sub_fds :: "cmos_sub_ctx \<Rightarrow> int multiset" where
  "sub_fds ctx = held (map pc_sock (pub_conns ctx)) + held [master_sock ctx, epfd ctx]"

definition sub_good :: "cmos_sub_ctx \<times> cm_io \<Rightarrow> bool" where
  "sub_good s \<longleftrightarrow> (case s of (ctx, io) \<Rightarrow> sub_inv ctx \<and> opened (io_fds io) = closed (io_fds io) + sub_fds ctx)"

definition sub_frame :: "cmos_sub_ctx \<Rightarrow> cmos_sub_ctx \<Rightarrow> bool" where
  "sub_frame ctx ctx' \<longleftrightarrow> sub_slots ctx' = sub_slots ctx \<and> sub_slot_count ctx' = sub_slot_count ctx
     \<and> master_ip ctx' = master_ip ctx \<and> master_port ctx' = master_port ctx
     \<and> sub_node_name ctx' = sub_node_name ctx \<and> epfd ctx' = epfd ctx"

lemma sub_frame_refl [simp]: "sub_frame ctx ctx"
  by (simp add: sub_frame_def)

lemma sub_frame_trans: "sub_frame a b \<Longrightarrow> sub_frame b c \<Longrightarrow> sub_frame a c"
  by (simp add: sub_frame_def)

lemma filter_update_count:
  assumes "i < length xs"
  shows "int (length (filter P (xs[i := x]))) = int (length (filter P xs)) - of_bool (P (xs ! i)) + of_bool (P x)"
  using assms
proof (induction xs arbitrary: i)
  case Nil
  then show ?case by simp
next
  case (Cons y ys)
  then show ?case by (cases i) auto
qed

lemma conn_search_total:
  assumes "\<forall>i\<in>set is. i < length cs"
  shows "\<exists>r. conn_search P cs is = Some r \<and> (\<forall>i. r = Some i \<longrightarrow> i \<in> set is \<and> P (cs ! i))
    \<and> (r = None \<longrightarrow> (\<forall>i\<in>set is. \<not> P (cs ! i)))"
  using assms by (induction "is") (auto simp: buf_load_def)

text \<open>Writing one connection.\<close>

lemma good_update:
  assumes "sub_good (ctx, io)" and "i < 512" and "conn_wf (sub_slot_count ctx) c"
    and "n = pub_count ctx - of_bool (pc_active (pub_conns ctx ! i)) + of_bool (pc_active c)"
    and "opened (io_fds io') = opened (io_fds io) + held [pc_sock c] + X"
    and "closed (io_fds io') = closed (io_fds io) + held [pc_sock (pub_conns ctx ! i)] + X"
  shows "sub_good (ctx\<lparr>pub_conns := (pub_conns ctx)[i := c], pub_count := n\<rparr>, io')"
proof -
  have len: "length (pub_conns ctx) = 512" using assms(1) by (simp add: sub_good_def sub_inv_def)
  have "pub_count ctx = int (length (filter pc_active (pub_conns ctx)))"
    using assms(1) by (simp add: sub_good_def sub_inv_def)
  then have "n = int (length (filter pc_active ((pub_conns ctx)[i := c])))"
    using assms(2,4) len filter_update_count [of i "pub_conns ctx" pc_active c] by simp
  moreover have "\<forall>c'\<in>set ((pub_conns ctx)[i := c]). conn_wf (sub_slot_count ctx) c'"
    using assms(1,3) set_update_subset_insert [of "pub_conns ctx" i c]
    by (auto simp: sub_good_def sub_inv_def)
  moreover have "held (map pc_sock ((pub_conns ctx)[i := c])) + held [pc_sock (pub_conns ctx ! i)]
      = held (map pc_sock (pub_conns ctx)) + held [pc_sock c]"
    using held_update [of i "map pc_sock (pub_conns ctx)" "pc_sock c"] assms(2) len by (simp only: map_update length_map nth_map)
  moreover have "opened (io_fds io) = closed (io_fds io) + sub_fds ctx" using assms(1) by (simp add: sub_good_def)
  ultimately show ?thesis
    using assms(1,5,6) unfolding sub_good_def sub_inv_def sub_fds_def
    by (simp add: add_ac del: held_simps(2))
qed

lemma good_io:
  assumes "sub_good (ctx, io)" and "opened (io_fds io') = opened (io_fds io) + X"
    and "closed (io_fds io') = closed (io_fds io) + X"
  shows "sub_good (ctx, io')"
  using assms by (simp add: sub_good_def add_ac)

lemma good_same_fds: "sub_good (ctx, io) \<Longrightarrow> io_fds io' = io_fds io \<Longrightarrow> sub_good (ctx, io')"
  by (simp add: sub_good_def)

lemma good_conn:
  assumes "sub_good (ctx, io)" and "i < 512"
  shows "buf_load (pub_conns ctx) i = Some (pub_conns ctx ! i)" and "conn_wf (sub_slot_count ctx) (pub_conns ctx ! i)"
  using assms by (auto simp: sub_good_def sub_inv_def buf_load_def)

lemma good_slot:
  assumes "sub_good (ctx, io)" and "i < sub_slot_count ctx"
  shows "buf_load (sub_slots ctx) i = Some (sub_slots ctx ! i)" and "sl_used (sub_slots ctx ! i)"
  using assms by (auto simp: sub_good_def sub_inv_def buf_load_def)

lemma unused_conn_ok:
  assumes "conn_wf n c"
  shows "\<exists>nn. unused_conn c = Some \<lparr>pc_sock = - 1, pc_node_name = nn, pc_rx = [], pc_active = False, pc_sub_slot = - 1\<rparr>
    \<and> conn_wf n \<lparr>pc_sock = - 1, pc_node_name = nn, pc_rx = [], pc_active = False, pc_sub_slot = - 1\<rparr>"
  using assms by (cases c) (auto simp: unused_conn_def conn_wf_def buf_store_def)

lemma close_conn_ok:
  assumes "sub_good (ctx, io)"
  shows "\<exists>ctx' io'. ctx_close_conn idx (ctx, io) = Some (ctx', io') \<and> sub_good (ctx', io') \<and> sub_frame ctx ctx'
    \<and> master_sock ctx' = master_sock ctx"
proof (cases "idx < 512")
  case False
  then show ?thesis using assms by (simp add: ctx_close_conn_def CM_MAX_PUB_CONN_def)
next
  case True
  note c = good_conn [OF assms True]
  let ?c = "pub_conns ctx ! idx"
  obtain nn where u: "unused_conn ?c = Some \<lparr>pc_sock = - 1, pc_node_name = nn, pc_rx = [], pc_active = False, pc_sub_slot = - 1\<rparr>"
      "conn_wf (sub_slot_count ctx) \<lparr>pc_sock = - 1, pc_node_name = nn, pc_rx = [], pc_active = False, pc_sub_slot = - 1\<rparr>"
    using unused_conn_ok [OF c(2)] by blast
  let ?u = "\<lparr>pc_sock = - 1, pc_node_name = nn, pc_rx = [], pc_active = False, pc_sub_slot = - 1\<rparr>"
  let ?n = "if pc_active ?c then pub_count ctx - 1 else pub_count ctx"
  let ?io = "if pc_sock ?c \<ge> 0 then close_fd (pc_sock ?c) io else io"
  let ?ctx = "ctx\<lparr>pub_conns := (pub_conns ctx)[idx := ?u], pub_count := ?n\<rparr>"
  have len: "length (pub_conns ctx) = 512" using assms by (simp add: sub_good_def sub_inv_def)
  have "sub_good (?ctx, ?io)"
    by (rule good_update [OF assms True u(2), where X = "{#}"]) (auto simp: close_fd_def)
  moreover have "ctx_close_conn idx (ctx, io) = Some (?ctx, ?io)"
    using True c(1) u(1) len by (simp add: ctx_close_conn_def CM_MAX_PUB_CONN_def buf_store_def)
  ultimately show ?thesis by (simp add: sub_frame_def)
qed

lemma find_conn_total:
  assumes "length (pub_conns ctx) = 512"
  shows "\<exists>r. ctx_find_conn node s ctx = Some r"
proof -
  have "\<forall>i\<in>set [0..<512]. i < length (pub_conns ctx)" using assms by simp
  from conn_search_total [OF this] show ?thesis
    unfolding ctx_find_conn_def CM_MAX_PUB_CONN_def by blast
qed

lemma strncpy_total:
  assumes "n \<le> length dst"
  obtains d where "strncpy dst src n = Some d" and "length d = length dst"
proof -
  have "length (take n (cstr src) @ replicate (n - length (cstr src)) (CHR 0x00)) = n" by simp
  then obtain d where "strncpy dst src n = Some d"
    using assms by (metis strncpy_def buf_blit_def add_0)
  then show thesis using that buf_blit_length by (metis strncpy_def)
qed

lemma connect_tcp_balance:
  assumes "connect_tcp ip port io = (fd, io')"
  shows "\<exists>X. opened (io_fds io') = opened (io_fds io) + held [fd] + X \<and> closed (io_fds io') = closed (io_fds io) + X"
    and "fd < 0 \<longleftrightarrow> fd = - 1"
  using connect_tcp_cases [of ip port io] assms by (fastforce+)

lemma add_pub_ok:
  assumes "sub_good (ctx, io)" and "0 \<le> s" and "s < int (sub_slot_count ctx)"
  shows "\<exists>rc ctx' io'. ctx_add_pub s node ip port (ctx, io) = Some (rc, ctx', io') \<and> sub_good (ctx', io')
    \<and> sub_frame ctx ctx' \<and> master_sock ctx' = master_sock ctx"
proof (cases "node = None \<or> ip = None")
  case True
  then show ?thesis using assms(1) by (auto simp: ctx_add_pub_def split: option.splits)
next
  case False
  then obtain nd i where ni: "node = Some nd" "ip = Some i" by auto
  have len: "length (pub_conns ctx) = 512" using assms(1) by (simp add: sub_good_def sub_inv_def)
  obtain r where r: "ctx_find_conn nd s ctx = Some r" using find_conn_total [OF len] by blast
  show ?thesis
  proof (cases "r = None")
    case False
    then show ?thesis using ni r assms(1) by (simp add: ctx_add_pub_def)
  next
    case r0: True
    obtain fr where fr: "conn_search (\<lambda>c. \<not> pc_active c) (pub_conns ctx) [0..<512] = Some fr"
        "\<And>k. fr = Some k \<Longrightarrow> k < 512 \<and> \<not> pc_active (pub_conns ctx ! k)"
      using conn_search_total [of "[0..<512]" "pub_conns ctx" "\<lambda>c. \<not> pc_active c"] len by auto
    obtain sock io1 where cn: "connect_tcp i port io = (sock, io1)" by (metis surj_pair)
    obtain X where X: "opened (io_fds io1) = opened (io_fds io) + held [sock] + X"
        "closed (io_fds io1) = closed (io_fds io) + X"
      using connect_tcp_balance(1) [OF cn] by blast
    show ?thesis
    proof (cases fr)
      case None
      then show ?thesis using ni r r0 fr(1) assms(1) by (simp add: ctx_add_pub_def CM_MAX_PUB_CONN_def)
    next
      case (Some k)
      then have k: "k < 512" "\<not> pc_active (pub_conns ctx ! k)" using fr(2) by auto
      note c = good_conn [OF assms(1) k(1)]
      show ?thesis
      proof (cases "sock < 0")
        case True
        then have "sub_good (ctx, io1)" using good_io [OF assms(1)] X by auto
        then show ?thesis using ni r r0 fr(1) Some cn True by (simp add: ctx_add_pub_def CM_MAX_PUB_CONN_def)
      next
        case False
        have ln: "length (pc_node_name (pub_conns ctx ! k)) = 64" using c(2) by (simp add: conn_wf_def)
        then obtain nn where nn: "strncpy (pc_node_name (pub_conns ctx ! k)) nd 63 = Some nn" "length nn = 64"
          using strncpy_total [of 63 "pc_node_name (pub_conns ctx ! k)" nd] by auto
        let ?c = "\<lparr>pc_sock = sock, pc_node_name = nn[63 := CHR 0x00], pc_rx = [], pc_active = True, pc_sub_slot = s\<rparr>"
        let ?ctx = "ctx\<lparr>pub_conns := (pub_conns ctx)[k := ?c], pub_count := pub_count ctx + 1\<rparr>"
        have wf: "conn_wf (sub_slot_count ctx) ?c" using nn(2) False assms(2,3) by (simp add: conn_wf_def)
        have "pc_sock (pub_conns ctx ! k) = - 1" using c(2) k(2) by (simp add: conn_wf_def)
        then have "sub_good (?ctx, io1)"
          using k X by (intro good_update [OF assms(1) k(1) wf, where X = X]) simp_all
        moreover have "ctx_add_pub s node ip port (ctx, io) = Some (0, ?ctx, io1)"
          using ni r r0 fr(1) Some cn False c(1) nn k len
          by (simp add: ctx_add_pub_def CM_MAX_PUB_CONN_def buf_store_def)
        ultimately show ?thesis by (simp add: sub_frame_def)
      qed
    qed
  qed
qed

lemma set_master_ok:
  assumes "sub_good (ctx, io)" and "opened (io_fds io') = opened (io_fds io) + held [m] + X"
    and "closed (io_fds io') = closed (io_fds io) + held [master_sock ctx] + X"
  shows "sub_good (ctx\<lparr>master_sock := m\<rparr>, io')"
  using assms by (auto simp: sub_good_def sub_inv_def sub_fds_def add_ac)

lemma drop_master_ok:
  assumes "sub_good (ctx, io)"
  shows "sub_good (drop_master (ctx, io)) \<and> sub_frame ctx (fst (drop_master (ctx, io)))
    \<and> master_sock (fst (drop_master (ctx, io))) = - 1"
  using set_master_ok [OF assms, of "close_fd (master_sock ctx) io" "- 1" "{#}"]
  by (simp add: drop_master_def close_fd_def sub_frame_def)

lemma send_line_fds: "send_line fd l io = (n, io') \<Longrightarrow> io_fds io' = io_fds io"
  by (metis send_line_def send_text_simps(1) snd_conv)

lemma register_slots_ok:
  assumes "\<forall>i\<in>set is. i < length (sub_slots ctx)"
  shows "\<exists>ok io'. register_slots ctx is io = Some (ok, io') \<and> io_fds io' = io_fds io"
  using assms
proof (induction ctx "is" io rule: register_slots.induct)
  case (2 ctx i "is" io)
  let ?l = "snprintf_text 256 (''REGISTER_SUB '' @ cstr (sl_topic (sub_slots ctx ! i)) @ [CHR 0x0A])"
  obtain n io1 where s: "send_line (master_sock ctx) ?l io = (n, io1)" by (metis surj_pair)
  have ld: "buf_load (sub_slots ctx) i = Some (sub_slots ctx ! i)" using 2(3) by (simp add: buf_load_def)
  show ?case
  proof (cases "\<not> sl_used (sub_slots ctx ! i)")
    case True
    then show ?thesis using 2(1) [OF ld True] 2(3) ld by simp
  next
    case False
    show ?thesis
    proof (cases "n \<le> 0")
      case True
      then have "register_slots ctx (i # is) io = Some (False, io1)"
        using False ld s by (simp del: append.simps)
      then show ?thesis using send_line_fds [OF s] by blast
    next
      case pos: False
      have "\<exists>ok io'. register_slots ctx is io1 = Some (ok, io') \<and> io_fds io' = io_fds io1"
        using 2(2) [OF ld False s [symmetric] pos] 2(3) by simp
      then show ?thesis using False pos ld s send_line_fds [OF s] by (simp del: append.simps)
    qed
  qed
qed auto

lemma reconnect_master_ok:
  assumes "sub_good (ctx, io)"
  shows "\<exists>rc ctx' io'. ctx_reconnect_master (ctx, io) = Some (rc, ctx', io') \<and> sub_good (ctx', io') \<and> sub_frame ctx ctx'"
proof -
  obtain ctx0 io0 where z: "(if master_sock ctx \<ge> 0 then drop_master (ctx, io) else (ctx, io)) = (ctx0, io0)"
    by (metis surj_pair)
  have g0: "sub_good (ctx0, io0)" "sub_frame ctx ctx0" "master_sock ctx0 < 0"
    using z drop_master_ok [OF assms] assms by (auto split: if_splits simp: not_le)
  obtain m io1 where cn: "connect_tcp (master_ip ctx0) (master_port ctx0) io0 = (m, io1)" by (metis surj_pair)
  let ?ctx = "ctx0\<lparr>master_sock := m\<rparr>"
  obtain X where "opened (io_fds io1) = opened (io_fds io0) + held [m] + X" "closed (io_fds io1) = closed (io_fds io0) + X"
    using connect_tcp_balance(1) [OF cn] by blast
  then have g1: "sub_good (?ctx, io1)" using set_master_ok [OF g0(1), of io1 m X] g0(3) by simp
  have f1: "sub_frame ctx ?ctx" using g0(2) by (simp add: sub_frame_def)
  let ?l = "snprintf_text 256 (''NODE '' @ cstr (sub_node_name ctx0) @ [CHR 0x0A])"
  obtain n io2 where s: "send_line m ?l io1 = (n, io2)" by (metis surj_pair)
  have g2: "sub_good (?ctx, io2)" using good_same_fds [OF g1 send_line_fds [OF s]] .
  have "\<forall>i\<in>set [0..<sub_slot_count ?ctx]. i < length (sub_slots ?ctx)" using g1 by (auto simp: sub_good_def sub_inv_def)
  from register_slots_ok [OF this, of io2] obtain ok io3 where
    rs: "register_slots ?ctx [0..<sub_slot_count ?ctx] io2 = Some (ok, io3)" "io_fds io3 = io_fds io2"
    by blast
  have g3: "sub_good (?ctx, io3)" using good_same_fds [OF g2] rs by simp
  note d2 = drop_master_ok [OF g2] and d3 = drop_master_ok [OF g3]
  show ?thesis
    using z cn s rs(1) g1 g3 f1 d2 d3 sub_frame_trans [OF f1]
    by (cases "drop_master (?ctx, io2)"; cases "drop_master (?ctx, io3)") (auto simp: ctx_reconnect_master_def Let_def)
qed

section \<open>Lines\<close>

lemma split_none: "CHR 0x0A \<notin> set rx \<Longrightarrow> split_lines rx = ([], rx)"
  by (subst split_lines.simps) simp

lemma split_line:
  assumes "CHR 0x0A \<notin> set w"
  shows "split_lines (w @ CHR 0x0A # r) = (case split_lines r of (ls, rest) \<Rightarrow> ((w @ [CHR 0x0A]) # ls, rest))"
proof -
  have "takeWhile (\<lambda>c. c \<noteq> CHR 0x0A) (w @ CHR 0x0A # r) = w"
    using assms by (subst takeWhile_append2) auto
  moreover have "dropWhile (\<lambda>c. c \<noteq> CHR 0x0A) (w @ CHR 0x0A # r) = CHR 0x0A # r"
    using assms by (subst dropWhile_append2) auto
  ultimately show ?thesis by (subst split_lines.simps) simp
qed

lemma line_cases:
  obtains (none) "CHR 0x0A \<notin> set rx" | (line) w r where "rx = w @ CHR 0x0A # r" "CHR 0x0A \<notin> set w"
proof (cases "CHR 0x0A \<in> set rx")
  case True
  then show thesis using line by (metis split_list_first)
qed (use none in blast)

lemma split_append:
  "split_lines (a @ b) = (case split_lines a of (la, ra) \<Rightarrow> case split_lines (ra @ b) of (lb, rb) \<Rightarrow> (la @ lb, rb))"
proof (induction a rule: measure_induct_rule [of length])
  case (less a)
  show ?case
  proof (cases rule: line_cases [of a])
    case none
    then show ?thesis by (simp add: split_none)
  next
    case (line w r)
    then have "split_lines (r @ b) = (case split_lines r of (la, ra) \<Rightarrow> case split_lines (ra @ b) of (lb, rb) \<Rightarrow> (la @ lb, rb))"
      using less [of r] by simp
    then show ?thesis using line split_line [OF line(2), of "r @ b"] split_line [OF line(2), of r]
      by (auto split: prod.splits)
  qed
qed

lemma split_rest: "split_lines rx = (ls, rest) \<Longrightarrow> CHR 0x0A \<notin> set rest \<and> concat ls @ rest = rx"
proof (induction rx arbitrary: ls rest rule: measure_induct_rule [of length])
  case (less rx)
  show ?case
  proof (cases rule: line_cases [of rx])
    case none
    then show ?thesis using less(2) by (simp add: split_none)
  next
    case (line w r)
    obtain la ra where r: "split_lines r = (la, ra)" by (metis surj_pair)
    then have "CHR 0x0A \<notin> set ra \<and> concat la @ ra = r" using less(1) [OF _ r] line by simp
    then show ?thesis using less(2) split_line [OF line(2), of r] r line by auto
  qed
qed

section \<open>Every operation keeps the invariant\<close>

text \<open>What an operation on the subscriber preserves, seen from a state \<open>c0\<close>.\<close>

definition sub_ok :: "cmos_sub_ctx \<Rightarrow> cmos_sub_ctx \<times> cm_io \<Rightarrow> bool" where
  "sub_ok c0 s \<longleftrightarrow> sub_good s \<and> sub_frame c0 (fst s)"

lemma sub_okD: "sub_ok c0 (ctx, io) \<Longrightarrow> sub_good (ctx, io)" "sub_ok c0 (ctx, io) \<Longrightarrow> sub_frame c0 ctx"
    "sub_ok c0 s \<Longrightarrow> sub_slot_count (fst s) = sub_slot_count c0"
  by (simp_all add: sub_ok_def sub_frame_def)

lemma close_conn_sub_ok: "sub_ok c0 s \<Longrightarrow> \<exists>s'. ctx_close_conn i s = Some s' \<and> sub_ok c0 s'"
  using close_conn_ok [of "fst s" "snd s" i] sub_frame_trans by (fastforce simp: sub_ok_def)

lemma add_pub_sub_ok:
  assumes "sub_ok c0 s" and "0 \<le> k" and "k < int (sub_slot_count c0)"
  shows "\<exists>rc s'. ctx_add_pub k node ip port s = Some (rc, s') \<and> sub_ok c0 s'"
proof -
  obtain ctx io where s: "s = (ctx, io)" by (cases s)
  have "k < int (sub_slot_count ctx)" using assms s by (simp add: sub_ok_def sub_frame_def)
  from add_pub_ok [OF sub_okD(1) [OF assms(1) [unfolded s]] assms(2) this, of node ip port] show ?thesis
    using assms(1) s sub_frame_trans by (fastforce simp: sub_ok_def)
qed

lemma lookup_line_ok:
  assumes "sub_ok c0 c" and "k < sub_slot_count c0"
  shows "\<exists>r. lookup_line k line (found, c) = Some r \<and> (case r of Inl _ \<Rightarrow> True | Inr (f, c') \<Rightarrow> sub_ok c0 c')"
proof -
  have ad: "\<exists>rc s'. ctx_add_pub (int k) node ip port c = Some (rc, s') \<and> sub_ok c0 s'" for node ip port
    using assms by (intro add_pub_sub_ok) auto
  obtain c1 r0 where "strtok blank_crlf line = (c1, r0)" by (metis surj_pair)
  moreover obtain c2 r1 where "strtok blank_crlf r0 = (c2, r1)" by (metis surj_pair)
  moreover obtain ip r2 where "strtok blank_crlf r1 = (ip, r2)" by (metis surj_pair)
  moreover obtain port r3 where "strtok blank_crlf r2 = (port, r3)" by (metis surj_pair)
  moreover obtain node r4 where "strtok blank_crlf r3 = (node, r4)" by (metis surj_pair)
  moreover obtain rc s' where "ctx_add_pub (int k) (Some (the node)) (Some (the ip)) (atoi (the port)) c = Some (rc, s')"
      "sub_ok c0 s'"
    using ad by blast
  ultimately show ?thesis
    using assms(1) by (cases ip; cases port; cases node) (simp_all add: lookup_line_def)
qed

lemma lookup_lines_ok:
  assumes "sub_ok c0 c" and "k < sub_slot_count c0"
  shows "\<exists>r f c'. lookup_lines k ls (found, c) = Some (r, f, c') \<and> sub_ok c0 c'"
  using assms(1)
proof (induction ls arbitrary: found c)
  case Nil
  then show ?case by simp
next
  case (Cons l ls)
  obtain r where r: "lookup_line k (line_copy l) (found, c) = Some r" "case r of Inl _ \<Rightarrow> True | Inr (f, c') \<Rightarrow> sub_ok c0 c'"
    using lookup_line_ok [OF Cons(2) assms(2)] by blast
  show ?case
  proof (cases r)
    case (Inl rc)
    then show ?thesis using r(1) Cons(2) by simp
  next
    case (Inr st)
    obtain f c' where st: "st = (f, c')" by (cases st)
    then have "sub_ok c0 c'" using r(2) Inr by simp
    from Cons(1) [OF this, of f] show ?thesis using r(1) Inr st by simp
  qed
qed

lemma drop_master_sub_ok: "sub_ok c0 c \<Longrightarrow> sub_ok c0 (drop_master c)"
  using drop_master_ok [of "fst c" "snd c"] sub_frame_trans by (auto simp: sub_ok_def)

lemma lookup_recv_ok:
  assumes "sub_ok c0 c" and "k < sub_slot_count c0"
  shows "\<exists>rc evs' c'. lookup_recv k rx evs (found, c) = Some (rc, evs', c') \<and> sub_ok c0 c'"
  using assms
proof (induction k rx evs "(found, c)" arbitrary: found c rule: lookup_recv.induct)
  case (1 k rx evs found c)
  show ?case
  proof (cases evs)
    case Nil
    then show ?thesis using drop_master_sub_ok [OF 1(2)] by (subst lookup_recv.simps) simp
  next
    case (Cons e r)
    show ?thesis
    proof (cases e)
      case None
      then show ?thesis using Cons drop_master_sub_ok [OF 1(2)] by (subst lookup_recv.simps) simp
    next
      case (Some chunk)
      let ?room = "CM_RX_BUF - 1 - length rx"
      show ?thesis
      proof (cases "take ?room chunk = []")
        case True
        then show ?thesis
          using Cons Some drop_master_sub_ok [OF 1(2)] by (subst lookup_recv.simps) (simp add: Let_def del: take_eq_Nil)
      next
        case False
        obtain ls rest where sp: "split_lines (rx @ take ?room chunk) = (ls, rest)" by (metis surj_pair)
        obtain x f c' where l: "lookup_lines k ls (found, c) = Some (x, f, c')" "sub_ok c0 c'"
          using lookup_lines_ok [OF 1(2,3)] by blast
        let ?evs = "if length chunk \<le> ?room then r else Some (drop ?room chunk) # r"
        show ?thesis
        proof (cases x)
          case (Some rc)
          then show ?thesis using Cons \<open>e = Some chunk\<close> False sp l
            by (subst lookup_recv.simps) (simp add: Let_def del: take_eq_Nil)
        next
          case None
          have "\<exists>rc evs' c''. lookup_recv k (if length rest \<ge> CM_RX_BUF - 1 then [] else rest) ?evs (f, c') = Some (rc, evs', c'') \<and> sub_ok c0 c''"
            using 1(1) [OF refl refl Cons \<open>e = Some chunk\<close> False sp [symmetric] l(1) _ None l(2) 1(3)] by simp
          moreover have "lookup_recv k rx evs (found, c)
              = lookup_recv k (if length rest \<ge> CM_RX_BUF - 1 then [] else rest) ?evs (f, c')"
            using Cons \<open>e = Some chunk\<close> False sp l(1) None
            by (subst lookup_recv.simps) (simp add: Let_def del: take_eq_Nil)
          ultimately show ?thesis by (simp only:)
        qed
      qed
    qed
  qed
qed

lemma lookup_slot_ok:
  assumes "sub_ok c0 c" and "k < sub_slot_count c0"
  shows "\<exists>rc c'. ctx_lookup_slot k c = Some (rc, c') \<and> sub_ok c0 c'"
proof -
  obtain ctx io where c: "c = (ctx, io)" by (cases c)
  have k: "k < sub_slot_count ctx" using assms c by (simp add: sub_ok_def sub_frame_def)
  note sl = good_slot(1) [OF sub_okD(1) [OF assms(1) [unfolded c]] k]
  let ?l = "snprintf_text 256 (''LOOKUP_TOPIC '' @ cstr (sl_topic (sub_slots ctx ! k)) @ [CHR 0x0A])"
  obtain n io1 where s: "send_line (master_sock ctx) ?l io = (n, io1)" by (metis surj_pair)
  have ok1: "sub_ok c0 (ctx, io1)"
    using assms(1) c good_same_fds send_line_fds [OF s] by (auto simp: sub_ok_def)
  obtain rc evs ctx2 io2 where r: "lookup_recv k [] (io_master_rx io1) (False, ctx, io1) = Some (rc, evs, ctx2, io2)"
      "sub_ok c0 (ctx2, io2)"
    using lookup_recv_ok [OF ok1 assms(2)] by (metis surj_pair)
  have "sub_ok c0 (ctx2, io2\<lparr>io_master_rx := evs\<rparr>)"
    using r(2) good_same_fds [of ctx2 io2 "io2\<lparr>io_master_rx := evs\<rparr>"] by (simp add: sub_ok_def)
  then show ?thesis
    using c sl s r(1) drop_master_sub_ok [OF ok1] by (cases "n \<le> 0") (auto simp: ctx_lookup_slot_def)
qed

lemma good_update_same:
  assumes "sub_good (ctx, io)" and "i < 512" and "conn_wf (sub_slot_count ctx) c"
    and "n = pub_count ctx - of_bool (pc_active (pub_conns ctx ! i)) + of_bool (pc_active c)"
    and "pc_sock c = pc_sock (pub_conns ctx ! i)" and "io_fds io' = io_fds io"
  shows "sub_good (ctx\<lparr>pub_conns := (pub_conns ctx)[i := c], pub_count := n\<rparr>, io')"
proof -
  let ?io = "io\<lparr>io_fds := io_fds io @ [Fd_open (pc_sock c), Fd_close (pc_sock c)]\<rparr>"
  have "sub_good (ctx\<lparr>pub_conns := (pub_conns ctx)[i := c], pub_count := n\<rparr>, ?io)"
    by (rule good_update [OF assms(1-4), where X = "{#}"]) (use assms(5) in auto)
  then show ?thesis using assms(6) by (simp add: sub_good_def)
qed

lemma sub_ok_slot:
  assumes "sub_ok c0 s" and "i < sub_slot_count c0"
  shows "buf_load (sub_slots (fst s)) i = Some (sub_slots c0 ! i)" and "sl_used (sub_slots c0 ! i)"
  using good_slot [of "fst s" "snd s" i] assms by (simp_all add: sub_ok_def sub_frame_def)

lemma for_slots_ok:
  assumes "sub_ok c0 s" and "\<And>i s. i < sub_slot_count c0 \<Longrightarrow> sub_ok c0 s \<Longrightarrow> \<exists>s'. f i s = Some s' \<and> sub_ok c0 s'"
  shows "\<exists>s'. foldM f [0..<sub_slot_count (fst s)] s = Some s' \<and> sub_ok c0 s'"
proof (rule foldM_invariant [where P = "sub_ok c0", OF assms(1)])
  fix i s' assume "i \<in> set [0..<sub_slot_count (fst s)]" "sub_ok c0 s'"
  then show "\<exists>s''. f i s' = Some s'' \<and> sub_ok c0 s''"
    using assms by (simp add: sub_okD(3) [OF assms(1)])
qed

lemma lookup_used_ok:
  assumes "i < sub_slot_count c0" and "sub_ok c0 s"
  shows "\<exists>s'. map_option snd (ctx_lookup_slot i s) = Some s' \<and> sub_ok c0 s'"
  using lookup_slot_ok [OF assms(2,1)] by auto

lemma reconnect_master_sub_ok:
  assumes "sub_ok c0 s"
  shows "\<exists>rc s'. ctx_reconnect_master s = Some (rc, s') \<and> sub_ok c0 s'"
proof -
  obtain ctx io where s: "s = (ctx, io)" by (cases s)
  obtain rc ctx' io' where "ctx_reconnect_master (ctx, io) = Some (rc, ctx', io')" "sub_good (ctx', io')" "sub_frame ctx ctx'"
    using reconnect_master_ok [OF sub_okD(1) [OF assms [unfolded s]]] by blast
  then show ?thesis using s sub_frame_trans [OF sub_okD(2) [OF assms [unfolded s]]] by (simp add: sub_ok_def)
qed

lemma reconnect_all_ok:
  assumes "sub_ok c0 s"
  shows "\<exists>s'. ctx_reconnect_all_pubs s = Some s' \<and> sub_ok c0 s'"
proof -
  have "\<exists>rc s1. (if master_sock (fst s) < 0 then ctx_reconnect_master s else Some (0, s)) = Some (rc, s1) \<and> sub_ok c0 s1"
    using reconnect_master_sub_ok [OF assms] assms by (cases "master_sock (fst s) < 0") simp_all
  then obtain rc s1 where 1: "(if master_sock (fst s) < 0 then ctx_reconnect_master s else Some (0, s)) = Some (rc, s1)"
      "sub_ok c0 s1"
    by blast
  have "\<exists>s'. foldM (\<lambda>i s. buf_load (sub_slots (fst s)) i \<bind> (\<lambda>sl. if sl_used sl then map_option snd (ctx_lookup_slot i s) else Some s))
      [0..<sub_slot_count (fst s1)] s1 = Some s' \<and> sub_ok c0 s'"
  proof (rule for_slots_ok [OF 1(2)])
    fix i s assume i: "i < sub_slot_count c0" "sub_ok c0 s"
    show "\<exists>s'. buf_load (sub_slots (fst s)) i \<bind> (\<lambda>sl. if sl_used sl then map_option snd (ctx_lookup_slot i s) else Some s) = Some s' \<and> sub_ok c0 s'"
      using sub_ok_slot [OF i(2,1)] lookup_used_ok [OF i] by simp
  qed
  then show ?thesis using 1 by (cases s1; cases "rc = 0") (simp_all add: ctx_reconnect_all_pubs_def)
qed

lemma active_count_ok:
  assumes "sub_ok c0 s"
  shows "ctx_active_count (fst s) = Some (length (filter pc_active (pub_conns (fst s))))"
proof -
  let ?cs = "pub_conns (fst s)"
  have len: "length ?cs = 512" and wf: "\<forall>c\<in>set ?cs. conn_wf (sub_slot_count (fst s)) c"
    using assms by (auto simp: sub_ok_def sub_good_def sub_inv_def split: prod.splits)
  have "foldM (\<lambda>i n. buf_load ?cs i \<bind> (\<lambda>c. Some (if pc_active c \<and> pc_sock c \<ge> 0 then n + 1 else n))) [0..<k] 0
      = Some (length (filter pc_active (take k ?cs)))" if "k \<le> 512" for k
    using that
  proof (induction k)
    case (Suc k)
    then have "pc_active (?cs ! k) \<longrightarrow> 0 \<le> pc_sock (?cs ! k)" using wf len by (simp add: conn_wf_def)
    then show ?case using Suc len by (auto simp: foldM_append buf_load_def take_Suc_conv_app_nth)
  qed simp
  from this [of 512] show ?thesis using len by (simp add: ctx_active_count_def CM_MAX_PUB_CONN_def)
qed

lemma handle_line_ok:
  assumes "sub_good (ctx, io0)"
  shows "\<exists>io'. ctx_handle_line ctx s line io = Some io' \<and> io_fds io' = io_fds io \<and> io_wire io' = io_wire io"
proof -
  obtain cmd r0 where 1: "strtok blank_crlf line = (cmd, r0)" by (metis surj_pair)
  obtain topic r1 where 2: "strtok blank_crlf r0 = (topic, r1)" by (metis surj_pair)
  obtain data r2 where 3: "strtok crlf r1 = (data, r2)" by (metis surj_pair)
  show ?thesis
  proof (cases "cmd = Some ''MSG'' \<and> topic \<noteq> None \<and> data \<noteq> None \<and> 0 \<le> s \<and> s < int (sub_slot_count ctx)")
    case False
    then show ?thesis using 1 2 3 by (auto simp: ctx_handle_line_def split: option.splits)
  next
    case True
    then have "nat s < sub_slot_count ctx" by (auto simp: nat_less_iff)
    note sl = good_slot [OF assms this]
    show ?thesis using True 1 2 3 sl
      by (auto simp: ctx_handle_line_def call_cb_def Let_def split: option.splits)
  qed
qed

lemma handle_event_ok:
  assumes "sub_ok c0 s"
  shows "\<exists>s'. handle_event ev s = Some s' \<and> sub_ok c0 s'"
proof -
  obtain i got where ev: "ev = (i, got)" by (cases ev)
  obtain ctx io where s: "s = (ctx, io)" by (cases s)
  note good = sub_okD(1) [OF assms [unfolded s]]
  let ?c = "pub_conns ctx ! i"
  let ?data = "case got of None \<Rightarrow> [] | Some b \<Rightarrow> take (CM_RX_BUF - 1 - length (pc_rx ?c)) b"
  show ?thesis
  proof (cases "i < 512 \<and> pc_active ?c \<and> 0 \<le> pc_sock ?c \<and> ?data \<noteq> []")
    case False
    then show ?thesis
      using assms ev s good_conn(1) [OF good, of i] close_conn_sub_ok [OF assms, of i]
      by (cases "i < 512") (auto simp: handle_event_def CM_MAX_PUB_CONN_def Let_def)
  next
    case True
    note c = good_conn [OF good, of i]
    have len: "length (pub_conns ctx) = 512" using good by (simp add: sub_good_def sub_inv_def)
    obtain ls rest where sp: "split_lines (pc_rx ?c @ ?data) = (ls, rest)" by (metis surj_pair)
    have "\<exists>io'. foldM (\<lambda>l io. ctx_handle_line ctx (pc_sub_slot ?c) (line_copy l) io) ls io = Some io' \<and> io_fds io' = io_fds io"
    proof (rule foldM_invariant [where P = "\<lambda>io'. io_fds io' = io_fds io"])
      fix l and io' :: cm_io assume "io_fds io' = io_fds io"
      then show "\<exists>io2. ctx_handle_line ctx (pc_sub_slot ?c) (line_copy l) io' = Some io2 \<and> io_fds io2 = io_fds io"
        using handle_line_ok [OF good, of "pc_sub_slot ?c" "line_copy l" io'] by auto
    qed simp
    then obtain io' where h: "foldM (\<lambda>l io. ctx_handle_line ctx (pc_sub_slot ?c) (line_copy l) io) ls io = Some io'"
        "io_fds io' = io_fds io"
      by blast
    let ?rx = "if length rest \<ge> CM_RX_BUF - 1 then [] else rest"
    let ?c' = "?c\<lparr>pc_rx := ?rx\<rparr>"
    have nr: "CHR 0x0A \<notin> set rest" using split_rest [OF sp] by simp
    have wf: "conn_wf (sub_slot_count ctx) ?c'"
      using c(2) True nr by (auto simp: conn_wf_def CM_RX_BUF_def)
    have "sub_good (ctx\<lparr>pub_conns := (pub_conns ctx)[i := ?c'], pub_count := pub_count ctx\<rparr>, io')"
      by (rule good_update_same [OF good _ wf]) (use True h(2) in auto)
    then have "sub_good (ctx\<lparr>pub_conns := (pub_conns ctx)[i := ?c']\<rparr>, io')" by simp
    moreover have "handle_event ev s = Some (ctx\<lparr>pub_conns := (pub_conns ctx)[i := ?c']\<rparr>, io')"
      using True ev s c(1) h(1) sp len
      by (simp add: handle_event_def CM_MAX_PUB_CONN_def Let_def buf_store_def del: take_eq_Nil)
    ultimately show ?thesis using sub_okD(2) [OF assms [unfolded s]] by (simp add: sub_ok_def sub_frame_def)
  qed
qed

lemma lookup_missing_ok:
  assumes "sub_ok c0 s"
  shows "\<exists>s'. lookup_missing s = Some s' \<and> sub_ok c0 s'"
  unfolding lookup_missing_def
proof (rule for_slots_ok [OF assms])
  fix i s assume i: "i < sub_slot_count c0" "sub_ok c0 s"
  have "length (pub_conns (fst s)) = 512" using i(2) by (cases s) (simp add: sub_ok_def sub_good_def sub_inv_def)
  then have "\<forall>j\<in>set [0..<512]. j < length (pub_conns (fst s))" by simp
  from conn_search_total [OF this, of "\<lambda>c. pc_active c \<and> pc_sub_slot c = int i"]
  obtain r where "conn_search (\<lambda>c. pc_active c \<and> pc_sub_slot c = int i) (pub_conns (fst s)) [0..<512] = Some r" by blast
  then show "\<exists>s'. (do {
         sl \<leftarrow> buf_load (sub_slots (fst s)) i;
         if \<not> sl_used sl then Some s
         else do {
           has \<leftarrow> conn_search (\<lambda>c. pc_active c \<and> pc_sub_slot c = int i) (pub_conns (fst s)) [0..<CM_MAX_PUB_CONN];
           if has = None then map_option snd (ctx_lookup_slot i s) else Some s
         }
       }) = Some s' \<and> sub_ok c0 s'"
    using sub_ok_slot [OF i(2,1)] lookup_used_ok [OF i] i(2) by (cases s; cases r) (auto simp: CM_MAX_PUB_CONN_def)
qed

lemma spin_round_ok:
  assumes "sub_ok c0 s"
  shows "\<exists>t s'. spin_round now events (prev, s) = Some (t, s') \<and> sub_ok c0 s'"
proof -
  obtain s1 where 1: "(if length (filter pc_active (pub_conns (fst s))) = 0 then ctx_reconnect_all_pubs s else Some s) = Some s1"
      "sub_ok c0 s1"
    using reconnect_all_ok [OF assms] assms by (cases "length (filter pc_active (pub_conns (fst s))) = 0") auto
  obtain s2 where 2: "ctx_reconnect_all_pubs s1 = Some s2" "sub_ok c0 s2" using reconnect_all_ok [OF 1(2)] by blast
  obtain s3 where 3: "(if now - prev \<ge> 2 then lookup_missing s1 else Some s1) = Some s3" "sub_ok c0 s3"
    using lookup_missing_ok [OF 1(2)] 1(2) by (cases "now - prev \<ge> 2") auto
  obtain s4 where 4: "foldM handle_event events s3 = Some s4" "sub_ok c0 s4"
    using foldM_invariant [where P = "sub_ok c0", OF 3(2), of events handle_event] handle_event_ok by blast
  show ?thesis
    using 1 2 3 4 active_count_ok [OF assms] active_count_ok [OF 1(2)]
    by (cases "length (filter pc_active (pub_conns (fst s1))) = 0") (simp_all add: spin_round_def)
qed

section \<open>Creating, adding, destroying\<close>

lemma slot_string_ok:
  assumes "length dst = Suc n"
  shows "\<exists>d. slot_string src n dst = Some d \<and> length d = Suc n
    \<and> cstr d = take n (cstr (case src of None \<Rightarrow> [] | Some f \<Rightarrow> f))"
proof -
  let ?s = "case src of None \<Rightarrow> [] | Some f \<Rightarrow> f"
  let ?p = "take n (cstr ?s) @ replicate (n - length (cstr ?s)) (CHR 0x00)"
  have lp: "length ?p = n" by simp
  then have "strncpy dst ?s n = Some (?p @ drop n dst)"
    using assms by (simp only: strncpy_def buf_blit_def) simp
  moreover have "(?p @ drop n dst)[n := CHR 0x00] = ?p @ [CHR 0x00]"
  proof -
    obtain x where "drop n dst = [x]" using assms by (metis Cons_nth_drop_Suc drop_all lessI order_refl)
    then show ?thesis using lp by (simp only: list_update_append) simp
  qed
  moreover have "cstr (?p @ [CHR 0x00]) = take n (cstr ?s)"
  proof (cases "n - length (cstr ?s)")
    case 0
    have "CHR 0x00 \<notin> set (take n (cstr ?s))" using cstr_no_nul by (meson in_set_takeD)
    then show ?thesis using 0 by (simp add: cstr_append_nul)
  next
    case (Suc m)
    have "CHR 0x00 \<notin> set (take n (cstr ?s))" using cstr_no_nul by (meson in_set_takeD)
    then show ?thesis using Suc by (simp add: cstr_append_nul)
  qed
  ultimately show ?thesis
    using assms lp by (intro exI [of _ "?p @ [CHR 0x00]"]) (simp add: slot_string_def buf_store_def)
qed

lemma add_good:
  assumes "sub_good (ctx, io)"
  shows "\<exists>rc ctx' io'. cmos_sub_add topic fs ft fk cb (Some ctx, io) = Some (rc, Some ctx', io') \<and> sub_good (ctx', io')
    \<and> (topic \<noteq> None \<and> sub_slot_count ctx < 512 \<longrightarrow> rc = 0 \<and> sub_slot_count ctx' = sub_slot_count ctx + 1
        \<and> (\<forall>i < sub_slot_count ctx. sub_slots ctx' ! i = sub_slots ctx ! i)
        \<and> (let sl = sub_slots ctx' ! sub_slot_count ctx in
           cstr (sl_topic sl) = take 63 (cstr (the topic))
           \<and> cstr (filter_state sl) = take 31 (cstr (case fs of None \<Rightarrow> [] | Some f \<Rightarrow> f))
           \<and> cstr (filter_type sl) = take 31 (cstr (case ft of None \<Rightarrow> [] | Some f \<Rightarrow> f))
           \<and> cstr (filter_key sl) = take 31 (cstr (case fk of None \<Rightarrow> [] | Some f \<Rightarrow> f))
           \<and> sl_cb sl = cb))"
proof (cases "topic = None \<or> sub_slot_count ctx \<ge> 512")
  case True
  then show ?thesis using assms by (auto simp: cmos_sub_add_def CM_MAX_SUB_SLOTS_def split: option.splits)
next
  case False
  then obtain tp where tp: "topic = Some tp" by auto
  let ?s = "sub_slot_count ctx"
  let ?old = "sub_slots ctx ! ?s"
  have inv: "sub_inv ctx" using assms by (simp add: sub_good_def)
  have len: "length (sub_slots ctx) = 512" "?s < 512" using inv False by (auto simp: sub_inv_def)
  then have wf: "slot_wf ?old" using inv by (simp add: sub_inv_def)
  obtain t where t: "slot_string (Some tp) 63 (sl_topic ?old) = Some t" "length t = 64" "cstr t = take 63 (cstr tp)"
    using slot_string_ok [of "sl_topic ?old" 63 "Some tp"] wf by (auto simp: slot_wf_def)
  obtain s1 where s1: "slot_string fs 31 (filter_state ?old) = Some s1" "length s1 = 32"
      "cstr s1 = take 31 (cstr (case fs of None \<Rightarrow> [] | Some f \<Rightarrow> f))"
    using slot_string_ok [of "filter_state ?old" 31 fs] wf by (auto simp: slot_wf_def)
  obtain s2 where s2: "slot_string ft 31 (filter_type ?old) = Some s2" "length s2 = 32"
      "cstr s2 = take 31 (cstr (case ft of None \<Rightarrow> [] | Some f \<Rightarrow> f))"
    using slot_string_ok [of "filter_type ?old" 31 ft] wf by (auto simp: slot_wf_def)
  obtain s3 where s3: "slot_string fk 31 (filter_key ?old) = Some s3" "length s3 = 32"
      "cstr s3 = take 31 (cstr (case fk of None \<Rightarrow> [] | Some f \<Rightarrow> f))"
    using slot_string_ok [of "filter_key ?old" 31 fk] wf by (auto simp: slot_wf_def)
  let ?sl = "\<lparr>sl_topic = t, filter_state = s1, filter_type = s2, filter_key = s3, sl_cb = cb, sl_used = True\<rparr>"
  let ?ctx = "ctx\<lparr>sub_slots := (sub_slots ctx)[?s := ?sl], sub_slot_count := ?s + 1\<rparr>"
  have "slot_wf ?sl" using t s1 s2 s3 by (simp add: slot_wf_def)
  then have slots: "\<forall>sl\<in>set (sub_slots ?ctx). slot_wf sl"
    using inv set_update_subset_insert [of "sub_slots ctx" ?s ?sl] by (auto simp: sub_inv_def)
  have "\<forall>c\<in>set (pub_conns ctx). conn_wf (?s + 1) c" using inv by (auto simp: sub_inv_def conn_wf_def)
  moreover have "\<forall>i < ?s + 1. sl_used (sub_slots ?ctx ! i)"
    using inv len by (auto simp: sub_inv_def nth_list_update less_Suc_eq)
  ultimately have g: "sub_good (?ctx, io)"
    using assms slots len by (simp add: sub_good_def sub_inv_def sub_fds_def)
  let ?l = "snprintf_text 256 (''REGISTER_SUB '' @ cstr tp @ [CHR 0x0A])"
  obtain n io1 where sd: "send_line (master_sock ctx) ?l io = (n, io1)" by (metis surj_pair)
  have "sub_ok ?ctx (?ctx, io1)" using good_same_fds [OF g] send_line_fds [OF sd] by (simp add: sub_ok_def)
  from lookup_slot_ok [OF this, of ?s] obtain rc ctx2 io2 where l: "ctx_lookup_slot ?s (?ctx, io1) = Some (rc, ctx2, io2)"
      "sub_good (ctx2, io2)" "sub_frame ?ctx ctx2"
    by (auto simp: sub_ok_def)
  have "cmos_sub_add topic fs ft fk cb (Some ctx, io) = Some (0, Some ctx2, io2)"
    using tp False len t(1) s1(1) s2(1) s3(1) sd l(1)
    by (simp add: cmos_sub_add_def CM_MAX_SUB_SLOTS_def buf_load_def buf_store_def Let_def del: append.simps)
  then show ?thesis
    using l(2,3) tp False len t s1 s2 s3 by (intro exI conjI impI) (auto simp: sub_frame_def)
qed

lemma unused_conn_raw:
  assumes "length (pc_node_name c) = 64"
  shows "\<exists>u. unused_conn c = Some u \<and> conn_wf 0 u \<and> \<not> pc_active u"
proof -
  have "0 < length (pc_node_name c)" using assms by simp
  then have "unused_conn c = Some (c\<lparr>pc_sock := - 1, pc_node_name := (pc_node_name c)[0 := CHR 0x00],
      pc_rx := [], pc_active := False, pc_sub_slot := - 1\<rparr>)"
    by (simp add: unused_conn_def buf_store_def)
  then show ?thesis using assms by (simp add: conn_wf_def)
qed

lemma unused_all:
  assumes "n \<le> length cs" and "\<forall>c\<in>set cs. length (pc_node_name c) = 64"
  shows "\<exists>us. foldM (\<lambda>i cs. do { c \<leftarrow> buf_load cs i; c \<leftarrow> unused_conn c; buf_store i c cs }) [0..<n] cs = Some (us @ drop n cs)
    \<and> length us = n \<and> (\<forall>c\<in>set us. conn_wf 0 c \<and> \<not> pc_active c)"
  using assms(1)
proof (induction n)
  case 0
  then show ?case by simp
next
  case (Suc n)
  then obtain us where us: "foldM (\<lambda>i cs. do { c \<leftarrow> buf_load cs i; c \<leftarrow> unused_conn c; buf_store i c cs }) [0..<n] cs
      = Some (us @ drop n cs)" "length us = n" "\<forall>c\<in>set us. conn_wf 0 c \<and> \<not> pc_active c"
    by auto
  have d: "drop n cs = cs ! n # drop (Suc n) cs" using Suc(2) by (simp add: Cons_nth_drop_Suc)
  have "length (pc_node_name (cs ! n)) = 64" using Suc(2) assms(2) by simp
  then obtain u where u: "unused_conn (cs ! n) = Some u" "conn_wf 0 u" "\<not> pc_active u"
    using unused_conn_raw by blast
  have "buf_load (us @ drop n cs) n = Some (cs ! n)" "buf_store n u (us @ drop n cs) = Some ((us @ [u]) @ drop (Suc n) cs)"
    using us(2) Suc(2) d by (simp_all add: buf_load_def buf_store_def nth_append list_update_append)
  then show ?case
    using us u by (intro exI [of _ "us @ [u]"]) (simp add: foldM_append)
qed

lemma init_conns_ok:
  "\<exists>cs. ctx_init_conns (zero_sub_ctx\<lparr>epfd := - 1\<rparr>) = Some (zero_sub_ctx\<lparr>epfd := - 1, pub_conns := cs, pub_count := 0\<rparr>)
    \<and> length cs = 512 \<and> (\<forall>c\<in>set cs. conn_wf 0 c \<and> \<not> pc_active c)"
proof -
  have "\<forall>c\<in>set (replicate 512 zero_conn). length (pc_node_name c) = 64" by (simp add: zero_conn_def)
  from unused_all [OF _ this, of 512] show ?thesis
    by (auto simp: ctx_init_conns_def zero_sub_ctx_def CM_MAX_PUB_CONN_def)
qed

lemma create_good:
  assumes "opened (io_fds io) = closed (io_fds io)"
  shows "\<exists>r io'. cmos_sub_create env ip port node io = Some (r, io')
    \<and> (case r of Some ctx \<Rightarrow> sub_good (ctx, io') \<and> sub_slot_count ctx = 0 | None \<Rightarrow> True)
    \<and> (r = None \<and> e_calloc_ok env \<and> 0 \<le> e_epoll env \<longrightarrow> opened (io_fds io') = closed (io_fds io') + {#e_epoll env#})"
proof (cases "e_calloc_ok env \<and> 0 \<le> e_epoll env")
  case False
  obtain cs where "ctx_init_conns (zero_sub_ctx\<lparr>epfd := - 1\<rparr>) = Some (zero_sub_ctx\<lparr>epfd := - 1, pub_conns := cs, pub_count := 0\<rparr>)"
    using init_conns_ok by blast
  then show ?thesis using False by (auto simp: cmos_sub_create_def)
next
  case True
  obtain cs where cs: "ctx_init_conns (zero_sub_ctx\<lparr>epfd := - 1\<rparr>) = Some (zero_sub_ctx\<lparr>epfd := - 1, pub_conns := cs, pub_count := 0\<rparr>)"
      "length cs = 512" "\<forall>c\<in>set cs. conn_wf 0 c \<and> \<not> pc_active c"
    using init_conns_ok by blast
  obtain mip where mip: "strncpy (replicate 64 (CHR 0x00)) ip 63 = Some mip" using strncpy_total [of 63 "replicate 64 (CHR 0x00)" ip] by auto
  obtain nn where nn: "strncpy (replicate 64 (CHR 0x00)) node 63 = Some nn" using strncpy_total [of 63 "replicate 64 (CHR 0x00)" node] by auto
  let ?io = "open_fd (e_epoll env) io"
  obtain m io1 where cn: "connect_tcp ip port ?io = (m, io1)" by (metis surj_pair)
  obtain X where X: "opened (io_fds io1) = opened (io_fds ?io) + held [m] + X" "closed (io_fds io1) = closed (io_fds ?io) + X"
    using connect_tcp_balance(1) [OF cn] by blast
  let ?l = "snprintf_text 256 (''NODE '' @ cstr node @ [CHR 0x0A])"
  obtain n io2 where s: "send_line m ?l io1 = (n, io2)" by (metis surj_pair)
  let ?ctx = "zero_sub_ctx\<lparr>epfd := e_epoll env, pub_conns := cs, pub_count := 0, master_ip := mip,
      sub_node_name := nn, master_port := port, sub_slot_count := 0, master_sock := m\<rparr>"
  have socks: "held (map pc_sock cs) = {#}" using cs(3) by (induction cs) (auto simp: conn_wf_def)
  have act: "filter pc_active cs = []" using cs(3) by (simp add: filter_empty_conv)
  have run: "cmos_sub_create env ip port node io = Some (if m < 0 then (None, io1)
      else if n \<le> 0 then (None, close_fd m io2) else (Some ?ctx, io2))"
    using True cs(1) mip nn cn s by (simp add: cmos_sub_create_def zero_sub_ctx_def Let_def del: append.simps)
  have good: "sub_good (?ctx, io2)"
    using X assms True cs(2,3) socks act send_line_fds [OF s]
    by (auto simp: sub_good_def sub_inv_def sub_fds_def zero_sub_ctx_def zero_slot_def slot_wf_def CM_MAX_SUB_SLOTS_def
        open_fd_def)
  show ?thesis
    using run good X assms True send_line_fds [OF s] by (auto simp: open_fd_def close_fd_def zero_sub_ctx_def)
qed

lemma close_conn_clears:
  assumes "ctx_close_conn i (ctx, io) = Some (ctx', io')" and "i < 512" and "length (pub_conns ctx) = 512"
  shows "pc_sock (pub_conns ctx' ! i) = - 1" and "\<forall>j. j \<noteq> i \<longrightarrow> pub_conns ctx' ! j = pub_conns ctx ! j"
  using assms
  by (auto simp: ctx_close_conn_def CM_MAX_PUB_CONN_def unused_conn_def buf_store_def Let_def
      split: bind_splits if_splits)

lemma close_all_ok:
  assumes "sub_ok c0 s" and "n \<le> 512"
  shows "\<exists>s'. foldM ctx_close_conn [0..<n] s = Some s' \<and> sub_ok c0 s' \<and> master_sock (fst s') = master_sock (fst s)
    \<and> (\<forall>j<n. pc_sock (pub_conns (fst s') ! j) = - 1)"
  using assms(2)
proof (induction n)
  case 0
  then show ?case using assms(1) by simp
next
  case (Suc n)
  then obtain s1 where 1: "foldM ctx_close_conn [0..<n] s = Some s1" "sub_ok c0 s1"
      "master_sock (fst s1) = master_sock (fst s)" "\<forall>j<n. pc_sock (pub_conns (fst s1) ! j) = - 1"
    by auto
  obtain ctx io where s1: "s1 = (ctx, io)" by (cases s1)
  have len: "length (pub_conns ctx) = 512" using 1(2) s1 by (simp add: sub_ok_def sub_good_def sub_inv_def)
  obtain ctx' io' where c: "ctx_close_conn n (ctx, io) = Some (ctx', io')" "master_sock ctx' = master_sock ctx"
    using close_conn_ok [OF sub_okD(1) [OF 1(2) [unfolded s1]], of n] by blast
  have "sub_ok c0 (ctx', io')" using close_conn_sub_ok [OF 1(2), of n] s1 c(1) by simp
  moreover have "\<forall>j<Suc n. pc_sock (pub_conns ctx' ! j) = - 1"
    using close_conn_clears [OF c(1) _ len] 1(4) s1 Suc(2) by (auto simp: less_Suc_eq)
  ultimately show ?case using 1 s1 c by (simp add: foldM_append)
qed

lemma destroy_ok:
  assumes "sub_good (ctx, io)"
  shows "\<exists>io'. cmos_sub_destroy (Some ctx, io) = Some io' \<and> opened (io_fds io') = closed (io_fds io')"
proof -
  have ok: "sub_ok ctx (ctx, io)" using assms by (simp add: sub_ok_def)
  obtain ctx' io' where c: "foldM ctx_close_conn [0..<512] (ctx, io) = Some (ctx', io')" "sub_ok ctx (ctx', io')"
      "\<forall>j<512. pc_sock (pub_conns ctx' ! j) = - 1"
    using close_all_ok [OF ok, of 512] by auto
  have g: "sub_good (ctx', io')" using c(2) by (simp add: sub_ok_def)
  then have "length (pub_conns ctx') = 512" by (simp add: sub_good_def sub_inv_def)
  then have "\<forall>x\<in>set (pub_conns ctx'). pc_sock x = - 1" using c(3) by (auto simp: in_set_conv_nth)
  then have "held (map pc_sock (pub_conns ctx')) = {#}" by (simp add: held_def filter_empty_conv)
  then have "opened (io_fds io') = closed (io_fds io') + held [master_sock ctx', epfd ctx']"
    using g by (simp add: sub_good_def sub_fds_def)
  then show ?thesis
    using c(1) by (auto simp: cmos_sub_destroy_def ctx_close_all_conns_def CM_MAX_PUB_CONN_def close_fd_def)
qed

text \<open>The life of a subscriber: subscriptions added, rounds of the receive loop, in any order.\<close>

datatype sub_op =
    Sub_add "string option" "string option" "string option" "string option" "nat option"
  | Sub_round int "(nat \<times> string option) list"

definition sub_do :: "sub_op \<Rightarrow> int \<times> cmos_sub_ctx \<times> cm_io \<Rightarrow> (int \<times> cmos_sub_ctx \<times> cm_io) run" where
  "sub_do op s = (case s of (prev, ctx, io) \<Rightarrow>
     (case op of
        Sub_add topic fs ft fk cb \<Rightarrow> do {
          (rc, ctx, io) \<leftarrow> cmos_sub_add topic fs ft fk cb (Some ctx, io);
          ctx \<leftarrow> ctx;
          Some (prev, ctx, io)
        }
      | Sub_round now events \<Rightarrow> spin_round now events (prev, ctx, io)))"

lemma sub_do_ok:
  assumes "sub_good (ctx, io)"
  shows "\<exists>t ctx' io'. sub_do op (prev, ctx, io) = Some (t, ctx', io') \<and> sub_good (ctx', io')"
proof (cases op)
  case (Sub_add topic fs ft fk cb)
  then show ?thesis using add_good [OF assms, of topic fs ft fk cb] by (auto simp: sub_do_def)
next
  case (Sub_round now events)
  have "sub_ok ctx (ctx, io)" using assms by (simp add: sub_ok_def)
  from spin_round_ok [OF this, of now events prev] show ?thesis
    using Sub_round by (auto simp: sub_do_def sub_ok_def)
qed

interpretation subscriber: descriptor_owner "\<lambda>s. sub_inv (fst (snd s))" "\<lambda>s. io_fds (snd (snd s))"
  "\<lambda>s. sub_fds (fst (snd s))" sub_do "\<lambda>_. True" "\<lambda>s. cmos_sub_destroy (Some (fst (snd s)), snd (snd s))" io_fds
proof unfold_locales
  fix s :: "int \<times> cmos_sub_ctx \<times> cm_io" and op
  assume "sub_inv (fst (snd s))" "opened (io_fds (snd (snd s))) = closed (io_fds (snd (snd s))) + sub_fds (fst (snd s))"
  then show "\<exists>s'. sub_do op s = Some s' \<and> sub_inv (fst (snd s'))
      \<and> opened (io_fds (snd (snd s'))) = closed (io_fds (snd (snd s'))) + sub_fds (fst (snd s'))"
    using sub_do_ok [of "fst (snd s)" "snd (snd s)" op "fst s"] by (fastforce simp: sub_good_def)
next
  fix s :: "int \<times> cmos_sub_ctx \<times> cm_io"
  assume "sub_inv (fst (snd s))" "opened (io_fds (snd (snd s))) = closed (io_fds (snd (snd s))) + sub_fds (fst (snd s))"
  then show "\<exists>t. cmos_sub_destroy (Some (fst (snd s)), snd (snd s)) = Some t \<and> opened (io_fds t) = closed (io_fds t)"
    using destroy_ok [of "fst (snd s)" "snd (snd s)"] by (cases s) (auto simp: sub_good_def)
qed

text \<open>
  C24: the subscriber is safe and leaks no descriptor. After a successful creation, whatever
  subscriptions are added and whatever the master, the publishers and \<open>epoll\<close> deliver in any
  number of rounds, no operation leaves its arrays or buffers, a connection is in use exactly if it
  has a socket and a slot, no receive buffer is ever full, and destroying the subscriber has
  closed every descriptor that was opened, each as often as it was opened.
\<close>

theorem subscriber_safe:
  assumes "opened (io_fds io) = closed (io_fds io)" and "cmos_sub_create env ip port node io = Some (Some ctx, io1)"
  shows "\<exists>t ctx2 io2 io3. foldM sub_do ops (prev, ctx, io1) = Some (t, ctx2, io2)
    \<and> (\<forall>c\<in>set (pub_conns ctx2). length (pc_rx c) < 2047
        \<and> (if pc_active c then 0 \<le> pc_sock c \<and> 0 \<le> pc_sub_slot c \<and> pc_sub_slot c < int (sub_slot_count ctx2)
           else pc_sock c = - 1))
    \<and> pub_count ctx2 = int (length (filter pc_active (pub_conns ctx2))) \<and> pub_count ctx2 \<le> 512
    \<and> cmos_sub_destroy (Some ctx2, io2) = Some io3 \<and> opened (io_fds io3) = closed (io_fds io3)"
proof -
  have "sub_good (ctx, io1)" using create_good [OF assms(1), of env ip port node] assms(2) by auto
  then obtain t ctx2 io2 io3 where 1: "foldM sub_do ops (prev, ctx, io1) = Some (t, ctx2, io2)"
      and inv: "sub_inv ctx2" and 3: "cmos_sub_destroy (Some ctx2, io2) = Some io3" "opened (io_fds io3) = closed (io_fds io3)"
    using subscriber.life [of "(prev, ctx, io1)" ops] by (fastforce simp: sub_good_def)
  have "\<forall>c\<in>set (pub_conns ctx2). conn_wf (sub_slot_count ctx2) c" using inv by (simp add: sub_inv_def)
  then have c: "\<forall>c\<in>set (pub_conns ctx2). length (pc_rx c) < 2047
        \<and> (if pc_active c then 0 \<le> pc_sock c \<and> 0 \<le> pc_sub_slot c \<and> pc_sub_slot c < int (sub_slot_count ctx2)
           else pc_sock c = - 1)"
    by (auto simp: conn_wf_def)
  have n: "pub_count ctx2 = int (length (filter pc_active (pub_conns ctx2)))" "pub_count ctx2 \<le> 512"
    using inv length_filter_le [of pc_active "pub_conns ctx2"] by (simp_all add: sub_inv_def)
  show ?thesis using 1 c n 3 by blast
qed

text \<open>
  A failed creation leaks. If the event descriptor was created but the master cannot be
  reached, \<open>cmos_sub_create\<close> frees the context without closing that descriptor: it is open and
  nothing refers to it.
\<close>

theorem create_leaks_epoll:
  assumes "opened (io_fds io) = closed (io_fds io)" and "e_calloc_ok env" and "0 \<le> e_epoll env"
    and "fst (connect_tcp ip port (open_fd (e_epoll env) io)) < 0"
  shows "\<exists>io'. cmos_sub_create env ip port node io = Some (None, io')
    \<and> opened (io_fds io') = closed (io_fds io') + {#e_epoll env#}"
proof -
  obtain r io' where r: "cmos_sub_create env ip port node io = Some (r, io')"
      "r = None \<longrightarrow> opened (io_fds io') = closed (io_fds io') + {#e_epoll env#}"
    using create_good [OF assms(1), of env ip port node] assms(2,3) by auto
  obtain cs where cs: "ctx_init_conns (zero_sub_ctx\<lparr>epfd := - 1\<rparr>) = Some (zero_sub_ctx\<lparr>epfd := - 1, pub_conns := cs, pub_count := 0\<rparr>)"
    using init_conns_ok by blast
  have "r = None"
    using r(1) cs assms(2-4) by (auto simp: cmos_sub_create_def Let_def split: bind_splits prod.splits)
  with r show ?thesis by blast
qed

theorem create_leaks_epoll_witness:
  "\<exists>io'. cmos_sub_create \<lparr>e_calloc_ok = True, e_epoll = 7\<rparr> ''127.0.0.1'' 10000 ''ups_sub'' (demo_io []) = Some (None, io')
     \<and> opened (io_fds io') = closed (io_fds io') + {#7#}"
  using create_leaks_epoll [of "demo_io []" "\<lparr>e_calloc_ok = True, e_epoll = 7\<rparr>" "''127.0.0.1''" 10000 "''ups_sub''"]
  by (simp add: demo_io_def connect_tcp_def open_fd_def)


lemma create_some:
  assumes "opened (io_fds io) = closed (io_fds io)" and "e_calloc_ok env" and "0 \<le> e_epoll env"
    and "connect_tcp ip port (open_fd (e_epoll env) io) = (m, io1)" and "0 \<le> m"
    and "send_line m (snprintf_text 256 (''NODE '' @ cstr node @ [CHR 0x0A])) io1 = (n, io2)" and "0 < n"
  shows "\<exists>ctx. cmos_sub_create env ip port node io = Some (Some ctx, io2) \<and> sub_good (ctx, io2)
    \<and> sub_slot_count ctx = 0 \<and> master_sock ctx = m \<and> (\<forall>c\<in>set (pub_conns ctx). \<not> pc_active c)"
proof -
  obtain cs where cs: "ctx_init_conns (zero_sub_ctx\<lparr>epfd := - 1\<rparr>) = Some (zero_sub_ctx\<lparr>epfd := - 1, pub_conns := cs, pub_count := 0\<rparr>)"
      "\<forall>c\<in>set cs. \<not> pc_active c"
    using init_conns_ok by blast
  obtain mip where mip: "strncpy (replicate 64 (CHR 0x00)) ip 63 = Some mip" using strncpy_total [of 63 "replicate 64 (CHR 0x00)" ip] by auto
  obtain nn where nn: "strncpy (replicate 64 (CHR 0x00)) node 63 = Some nn" using strncpy_total [of 63 "replicate 64 (CHR 0x00)" node] by auto
  let ?ctx = "zero_sub_ctx\<lparr>epfd := e_epoll env, pub_conns := cs, pub_count := 0, master_ip := mip,
      sub_node_name := nn, master_port := port, sub_slot_count := 0, master_sock := m\<rparr>"
  have run: "cmos_sub_create env ip port node io = Some (Some ?ctx, io2)"
    using assms cs(1) mip nn by (simp add: cmos_sub_create_def zero_sub_ctx_def Let_def del: append.simps)
  moreover have "sub_good (?ctx, io2)" using create_good [OF assms(1), of env ip port node] run by auto
  ultimately show ?thesis using cs(2) by auto
qed

definition demo_sub_io :: cm_io where
  "demo_sub_io = (demo_io [])\<lparr>io_connects := [\<lparr>t_socket = 4, t_address_ok = True, t_connect_ok = True\<rparr>]\<rparr>"

lemma demo_create: "\<exists>ctx io1. cmos_sub_create \<lparr>e_calloc_ok = True, e_epoll = 3\<rparr> ''127.0.0.1'' 10000 ''ups_sub'' demo_sub_io
    = Some (Some ctx, io1) \<and> sub_good (ctx, io1)"
proof -
  have c: "cstr ''ups_sub'' = ''ups_sub''" by (simp add: cstr_def)
  obtain m io1 where cn: "connect_tcp ''127.0.0.1'' 10000 (open_fd 3 demo_sub_io) = (m, io1)" by (metis surj_pair)
  then have m: "m = 4" "io_send_rc io1 = []"
    by (auto simp: demo_sub_io_def demo_io_def connect_tcp_def open_fd_def Let_def)
  let ?l = "snprintf_text 256 (''NODE '' @ cstr ''ups_sub'' @ [CHR 0x0A])"
  obtain n io2 where s: "send_line m ?l io1 = (n, io2)" by (metis surj_pair)
  have "cstr ?l = ''NODE ups_sub'' @ [CHR 0x0A]" by (simp add: c snprintf_text_def cstr_def)
  then have "0 < n" using s m by (auto simp: send_line_def send_text_def Let_def)
  from create_some [of demo_sub_io "\<lparr>e_calloc_ok = True, e_epoll = 3\<rparr>" "''127.0.0.1''" 10000 m io1 "''ups_sub''" n io2]
  show ?thesis using cn m s \<open>0 < n\<close> by (auto simp: demo_sub_io_def demo_io_def)
qed

theorem subscriber_safe_witness:
  "\<exists>ctx io1 t ctx2 io2 io3.
      cmos_sub_create \<lparr>e_calloc_ok = True, e_epoll = 3\<rparr> ''127.0.0.1'' 10000 ''ups_sub'' demo_sub_io = Some (Some ctx, io1)
    \<and> foldM sub_do [Sub_add (Some ''hmi'') None None None (Some 1), Sub_round 5 [(3, None)]] (0, ctx, io1) = Some (t, ctx2, io2)
    \<and> cmos_sub_destroy (Some ctx2, io2) = Some io3 \<and> opened (io_fds io3) = closed (io_fds io3)"
proof -
  obtain ctx io1 where c: "cmos_sub_create \<lparr>e_calloc_ok = True, e_epoll = 3\<rparr> ''127.0.0.1'' 10000 ''ups_sub'' demo_sub_io = Some (Some ctx, io1)"
    using demo_create by blast
  have "opened (io_fds demo_sub_io) = closed (io_fds demo_sub_io)" by (simp add: demo_sub_io_def demo_io_def)
  from subscriber_safe [OF this c, of "[Sub_add (Some ''hmi'') None None None (Some 1), Sub_round 5 [(3, None)]]" 0]
  show ?thesis using c by blast
qed

section \<open>Messages\<close>

text \<open>Bytes that stay inside one token of a message: no blank, line end or NUL.\<close>

definition plain :: "string \<Rightarrow> bool" where
  "plain s \<longleftrightarrow> s \<noteq> [] \<and> (\<forall>c\<in>set s. c \<noteq> CHR 0x20 \<and> c \<noteq> CHR 0x0D \<and> c \<noteq> CHR 0x0A \<and> c \<noteq> CHR 0x00)"

lemma plain_tokens:
  assumes "plain w"
  shows "\<forall>c\<in>set w. \<not> blank_crlf c" "\<forall>c\<in>set w. \<not> crlf c" "\<forall>c\<in>set w. c \<noteq> CHR 0x20" "w \<noteq> []" "cstr w = w"
  using assms by (auto simp: plain_def blank_crlf_def crlf_def intro!: cstr_id)

text \<open>Parsing a joined list of tokens is folding over the tokens.\<close>

lemma parse_join:
  assumes "\<forall>t\<in>set ts. t \<noteq> [] \<and> CHR 0x20 \<notin> set t"
  shows "parse_fields (join_blank ts) f = fold msg_field ts f"
  using assms
proof (induction ts arbitrary: f rule: join_blank.induct)
  case 1
  then show ?case by (subst parse_fields.simps) (simp add: strtok_def)
next
  case (2 x)
  have "strtok (\<lambda>c. c = CHR 0x20) x = (Some x, [])" using 2 by (intro strtok_last) auto
  then show ?case by (subst parse_fields.simps) (simp add: parse_fields.simps [of "[]"] strtok_def [of _ "[]"])
next
  case (3 x y zs)
  have "strtok (\<lambda>c. c = CHR 0x20) (x @ CHR 0x20 # join_blank (y # zs)) = (Some x, join_blank (y # zs))"
    using 3(2) by (intro strtok_word) auto
  then show ?case using 3 by (subst parse_fields.simps) simp
qed

lemma msg_field_labels [simp]:
  "msg_field (CHR ''s'' # CHR ''t'' # CHR ''a'' # CHR ''t'' # CHR ''e'' # CHR ''='' # v) f = f\<lparr>p_state := Some v\<rparr>"
  "msg_field (CHR ''t'' # CHR ''y'' # CHR ''p'' # CHR ''e'' # CHR ''='' # v) f = f\<lparr>p_type := Some v\<rparr>"
  "msg_field (CHR ''k'' # CHR ''e'' # CHR ''y'' # CHR ''='' # v) f = f\<lparr>p_key := Some v\<rparr>"
  "msg_field (CHR ''v'' # CHR ''a'' # CHR ''l'' # CHR ''u'' # CHR ''e'' # CHR ''='' # v) f = f\<lparr>p_value := Some v\<rparr>"
  by (simp_all add: msg_field_def)

definition matches :: "string \<Rightarrow> string option \<Rightarrow> bool" where
  "matches filt p \<longleftrightarrow> filt = [] \<or> p = Some filt"

definition fields_plain :: "string option list \<Rightarrow> bool" where
  "fields_plain fs \<longleftrightarrow> (\<forall>f\<in>set fs. case f of None \<Rightarrow> True | Some t \<Rightarrow> plain t)"

lemma message_tokens:
  assumes "fields_plain [st, ty, key, v]" and "st \<noteq> None \<or> ty \<noteq> None \<or> key \<noteq> None"
  shows "message_text st ty key v
      = join_blank (labelled ''state='' st @ labelled ''type='' ty @ labelled ''key='' key @ labelled ''value='' v)"
proof -
  let ?ps = "labelled ''state='' st @ labelled ''type='' ty @ labelled ''key='' key"
  have "?ps \<noteq> []" using assms(2) by (cases st; cases ty; cases key) (simp_all add: labelled_def)
  then show ?thesis unfolding message_text_def Let_def by (simp only: if_False append_assoc)
qed

lemma fold_labelled:
  assumes "case p of None \<Rightarrow> True | Some t \<Rightarrow> plain t"
  shows "fold msg_field (labelled ''state='' p) f = (if p = None then f else f\<lparr>p_state := p\<rparr>)"
    and "fold msg_field (labelled ''type='' p) f = (if p = None then f else f\<lparr>p_type := p\<rparr>)"
    and "fold msg_field (labelled ''key='' p) f = (if p = None then f else f\<lparr>p_key := p\<rparr>)"
    and "fold msg_field (labelled ''value='' p) f = (if p = None then f else f\<lparr>p_value := p\<rparr>)"
  using assms plain_tokens(5) by (cases p; simp add: labelled_def)+

lemma labelled_plain:
  assumes "case f of None \<Rightarrow> True | Some t \<Rightarrow> plain t" and "plain label"
  shows "\<forall>t\<in>set (labelled label f). plain t"
proof (cases f)
  case (Some t)
  then have "plain t" "cstr t = t" using assms(1) plain_tokens(5) by simp_all
  then show ?thesis using Some assms(2) by (simp add: labelled_def plain_def ball_Un)
qed (simp add: labelled_def)

lemma labels_plain: "plain ''state=''" "plain ''type=''" "plain ''key=''" "plain ''value=''"
  by (simp_all add: plain_def)

lemma join_safe: "\<forall>t\<in>set xs. \<forall>c\<in>set t. P c \<Longrightarrow> P (CHR 0x20) \<Longrightarrow> \<forall>c\<in>set (join_blank xs). P c"
  by (induction xs rule: join_blank.induct) (simp_all add: ball_Un)

lemma message_parse:
  assumes "fields_plain [st, ty, key, v]" and "st \<noteq> None \<or> ty \<noteq> None \<or> key \<noteq> None"
  shows "parse_fields (message_text st ty key v) \<lparr>p_state = None, p_type = None, p_key = None, p_value = None\<rparr>
      = \<lparr>p_state = st, p_type = ty, p_key = key, p_value = v\<rparr>"
    and "message_text st ty key v \<noteq> []"
    and "\<forall>c\<in>set (message_text st ty key v). \<not> crlf c \<and> c \<noteq> CHR 0x00"
proof -
  let ?ts = "labelled ''state='' st @ labelled ''type='' ty @ labelled ''key='' key @ labelled ''value='' v"
  note eq = message_tokens [OF assms]
  have "\<forall>t\<in>set (labelled ''state='' st). plain t" "\<forall>t\<in>set (labelled ''type='' ty). plain t"
      "\<forall>t\<in>set (labelled ''key='' key). plain t" "\<forall>t\<in>set (labelled ''value='' v). plain t"
    using assms(1) unfolding fields_plain_def
    by (intro labelled_plain labels_plain; simp)+
  then have pl: "\<forall>t\<in>set ?ts. plain t" by (simp only: set_append ball_Un)
  then have tk: "\<forall>t\<in>set ?ts. t \<noteq> [] \<and> CHR 0x20 \<notin> set t" unfolding plain_def by blast
  have "fold msg_field ?ts \<lparr>p_state = None, p_type = None, p_key = None, p_value = None\<rparr>
      = \<lparr>p_state = st, p_type = ty, p_key = key, p_value = v\<rparr>"
    using assms(1) by (simp add: fields_plain_def fold_labelled)
  then show "parse_fields (message_text st ty key v) \<lparr>p_state = None, p_type = None, p_key = None, p_value = None\<rparr>
      = \<lparr>p_state = st, p_type = ty, p_key = key, p_value = v\<rparr>"
    using parse_join [OF tk] eq by simp
  have "?ts \<noteq> []" using assms(2) by (auto simp: labelled_def split: option.splits)
  moreover have "\<forall>x\<in>set ?ts. x \<noteq> []" using tk by (intro ballI) (drule (1) bspec, erule conjunct1)
  ultimately have "join_blank ?ts \<noteq> []" using join_empty by (metis (no_types))
  then show "message_text st ty key v \<noteq> []" unfolding eq .
  let ?P = "\<lambda>c. \<not> crlf c \<and> c \<noteq> CHR 0x00"
  have "\<forall>t\<in>set ?ts. \<forall>c\<in>set t. ?P c" using pl unfolding plain_def crlf_def by blast
  moreover have "?P (CHR 0x20)" by (simp add: crlf_def)
  ultimately show "\<forall>c\<in>set (message_text st ty key v). ?P c" unfolding eq by (rule join_safe)
qed

text \<open>The line a publisher sends, as the subscriber receives it.\<close>

definition wire_line :: "string \<Rightarrow> string \<Rightarrow> string" where
  "wire_line topic text = ''MSG '' @ topic @ '' '' @ text @ [CHR 0x0A]"

lemma wire_tokens:
  assumes "plain topic" and "text \<noteq> []" and "\<forall>c\<in>set text. \<not> crlf c"
  shows "strtok blank_crlf (wire_line topic text) = (Some ''MSG'', topic @ CHR 0x20 # text @ [CHR 0x0A])"
    and "strtok blank_crlf (topic @ CHR 0x20 # text @ [CHR 0x0A]) = (Some topic, text @ [CHR 0x0A])"
    and "strtok crlf (text @ [CHR 0x0A]) = (Some text, [])"
proof -
  have "strtok blank_crlf (''MSG'' @ CHR 0x20 # topic @ CHR 0x20 # text @ [CHR 0x0A])
      = (Some ''MSG'', topic @ CHR 0x20 # text @ [CHR 0x0A])"
    by (intro strtok_word) (auto simp: blank_crlf_def)
  then show "strtok blank_crlf (wire_line topic text) = (Some ''MSG'', topic @ CHR 0x20 # text @ [CHR 0x0A])"
    by (simp add: wire_line_def)
  show "strtok blank_crlf (topic @ CHR 0x20 # text @ [CHR 0x0A]) = (Some topic, text @ [CHR 0x0A])"
    using plain_tokens [OF assms(1)] by (intro strtok_word) (auto simp: blank_crlf_def)
  show "strtok crlf (text @ [CHR 0x0A]) = (Some text, [])"
    using assms by (intro strtok_word) (auto simp: crlf_def)
qed

lemma handle_line_matches:
  assumes "sub_good (ctx, io0)" and "s < sub_slot_count ctx" and "plain topic"
    and "fields_plain [st, ty, key, v]" and "st \<noteq> None \<or> ty \<noteq> None \<or> key \<noteq> None"
    and "length (wire_line topic (message_text st ty key v)) \<le> 511"
  shows "ctx_handle_line ctx (int s) (line_copy (wire_line topic (message_text st ty key v))) io
    = Some (let sl = sub_slots ctx ! s in
        case sl_cb sl of None \<Rightarrow> io
        | Some cb \<Rightarrow>
            if topic = cstr (sl_topic sl) \<and> matches (cstr (filter_state sl)) st
               \<and> matches (cstr (filter_type sl)) ty \<and> matches (cstr (filter_key sl)) key
            then io\<lparr>io_calls := io_calls io @ [(cb, topic,
              if cstr (filter_key sl) \<noteq> [] then (case v of None \<Rightarrow> [] | Some t \<Rightarrow> t) else message_text st ty key v)]\<rparr>
            else io)"
proof -
  let ?text = "message_text st ty key v" and ?sl = "sub_slots ctx ! s"
  note mp = message_parse [OF assms(4,5)]
  note wt = wire_tokens [OF assms(3) mp(2)]
  have "CHR 0x00 \<notin> set (wire_line topic ?text)"
    using assms(3) mp(3) by (auto simp: wire_line_def plain_def)
  then have lc: "line_copy (wire_line topic ?text) = wire_line topic ?text"
    using assms(6) by (simp add: line_copy_def cstr_id)
  have tk: "take 511 ?text = ?text" using assms(6) by (simp add: wire_line_def)
  note sl = good_slot [OF assms(1,2)]
  have rej: "filter_rejects (f sl) p \<longleftrightarrow> \<not> matches (cstr (f sl)) p" for f p and sl :: cm_sub_slot
    by (cases p) (auto simp: filter_rejects_def matches_def)
  show ?thesis
  proof (cases "sl_cb ?sl")
    case None
    then show ?thesis using lc wt sl assms(2) mp(3) by (auto simp: ctx_handle_line_def Let_def)
  next
    case (Some cb)
    show ?thesis
    proof (cases "cstr (filter_state ?sl) = [] \<and> cstr (filter_type ?sl) = [] \<and> cstr (filter_key ?sl) = []")
      case True
      then show ?thesis using lc wt sl assms(2) mp(3) Some
        by (auto simp: ctx_handle_line_def Let_def call_cb_def matches_def)
    next
      case False
      have "ctx_handle_line ctx (int s) (line_copy (wire_line topic ?text)) io
        = (if topic \<noteq> cstr (sl_topic ?sl) then Some io
           else if filter_rejects (filter_state ?sl) st \<or> filter_rejects (filter_type ?sl) ty
             \<or> filter_rejects (filter_key ?sl) key then Some io
           else if cstr (filter_key ?sl) \<noteq> [] then Some (call_cb cb topic (case v of None \<Rightarrow> [] | Some t \<Rightarrow> t) io)
           else Some (call_cb cb topic ?text io))"
        using lc wt sl assms(2) mp(1,3) Some False tk by (auto simp: ctx_handle_line_def Let_def)
      then show ?thesis using Some by (simp add: rej call_cb_def Let_def)
    qed
  qed
qed

text \<open>
  C16: filtering, for a slot that filters on the key (and perhaps on the state and the type) or
  on nothing. A line with the documented fields reaches the callback of its connection's slot
  exactly if the topic is the slot's and every filter of the slot is empty or equal to its field;
  as documented the callback gets the topic and, with a filter, the value (empty if the message
  has none), without one the whole text. Nothing else happens.
\<close>

theorem handle_line_dispatch:
  assumes "sub_good (ctx, io0)" and "s < sub_slot_count ctx" and "plain topic"
    and "fields_plain [st, ty, key, v]" and "st \<noteq> None \<or> ty \<noteq> None \<or> key \<noteq> None"
    and "length (wire_line topic (message_text st ty key v)) \<le> 511"
    and "cstr (filter_key (sub_slots ctx ! s)) = [] \<longrightarrow>
      cstr (filter_state (sub_slots ctx ! s)) = [] \<and> cstr (filter_type (sub_slots ctx ! s)) = []"
  shows "ctx_handle_line ctx (int s) (line_copy (wire_line topic (message_text st ty key v))) io
    = Some (let sl = sub_slots ctx ! s in
        case sl_cb sl of None \<Rightarrow> io
        | Some cb \<Rightarrow>
            if topic = cstr (sl_topic sl) \<and> matches (cstr (filter_state sl)) st
               \<and> matches (cstr (filter_type sl)) ty \<and> matches (cstr (filter_key sl)) key
            then io\<lparr>io_calls := io_calls io @ [(cb, topic,
              if cstr (filter_state sl) \<noteq> [] \<or> cstr (filter_type sl) \<noteq> [] \<or> cstr (filter_key sl) \<noteq> []
              then (case v of None \<Rightarrow> [] | Some t \<Rightarrow> t) else message_text st ty key v)]\<rparr>
            else io)"
proof -
  let ?sl = "sub_slots ctx ! s"
  have "cstr (filter_state ?sl) \<noteq> [] \<or> cstr (filter_type ?sl) \<noteq> [] \<or> cstr (filter_key ?sl) \<noteq> []
      \<longleftrightarrow> cstr (filter_key ?sl) \<noteq> []"
    using assms(7) by blast
  then show ?thesis using handle_line_matches [OF assms(1-6), of io] unfolding Let_def by (simp only:)
qed

text \<open>A subscriber with one slot, filtering as the bridge does, and one connection.\<close>

definition demo_slot :: cm_sub_slot where
  "demo_slot = \<lparr>sl_topic = ''hmi'' @ replicate 61 (CHR 0x00), filter_state = replicate 32 (CHR 0x00),
     filter_type = ''command'' @ replicate 25 (CHR 0x00), filter_key = ''go'' @ replicate 30 (CHR 0x00),
     sl_cb = Some 1, sl_used = True\<rparr>"

definition demo_conn :: cm_pub_conn where
  "demo_conn = \<lparr>pc_sock = 9, pc_node_name = ''pub'' @ replicate 61 (CHR 0x00), pc_rx = ''MSG h'', pc_active = True, pc_sub_slot = 0\<rparr>"

definition idle_conn :: cm_pub_conn where
  "idle_conn = zero_conn\<lparr>pc_sock := - 1, pc_sub_slot := - 1\<rparr>"

definition demo_sub :: cmos_sub_ctx where
  "demo_sub = zero_sub_ctx\<lparr>master_sock := - 1, epfd := - 1, sub_slots := demo_slot # replicate 511 zero_slot,
     sub_slot_count := 1, pub_conns := demo_conn # replicate 511 idle_conn, pub_count := 1\<rparr>"

definition demo_sub_fds :: cm_io where
  "demo_sub_fds = (demo_io [])\<lparr>io_fds := [Fd_open 9]\<rparr>"

lemma cstr_padded: "CHR 0x00 \<notin> set s \<Longrightarrow> 0 < n \<Longrightarrow> cstr (s @ replicate n (CHR 0x00)) = s"
  by (cases n) (simp_all add: cstr_append_nul)

lemma demo_strings:
  "cstr (sl_topic demo_slot) = ''hmi''" "cstr (filter_state demo_slot) = []"
  "cstr (filter_type demo_slot) = ''command''" "cstr (filter_key demo_slot) = ''go''" "sl_cb demo_slot = Some 1"
  using cstr_padded [of "[]" 32] cstr_padded [of "''hmi''" 61] cstr_padded [of "''command''" 25] cstr_padded [of "''go''" 30]
  by (simp_all add: demo_slot_def)

lemma demo_sub_with:
  assumes "slot_wf sl" and "sl_used sl"
  shows "sub_good (demo_sub\<lparr>sub_slots := sl # replicate 511 zero_slot\<rparr>, demo_sub_fds)"
proof -
  let ?sub = "demo_sub\<lparr>sub_slots := sl # replicate 511 zero_slot\<rparr>"
  have "held (replicate n (- 1 :: int)) = {#}" for n by (induction n) simp_all
  then have "held (map pc_sock (pub_conns demo_sub)) = {#9#}" by (simp add: demo_sub_def demo_conn_def idle_conn_def)
  moreover have "filter pc_active (pub_conns demo_sub) = [demo_conn]"
    by (simp add: demo_sub_def demo_conn_def idle_conn_def zero_conn_def)
  moreover have "conn_wf 1 demo_conn" "conn_wf 1 idle_conn"
    by (simp_all add: conn_wf_def demo_conn_def idle_conn_def zero_conn_def)
  moreover have "slot_wf zero_slot" by (simp add: slot_wf_def zero_slot_def)
  moreover have "length (sub_slots ?sub) = 512" "sub_slots ?sub ! 0 = sl" "sub_slot_count ?sub = 1"
      "length (pub_conns ?sub) = 512" "pub_count ?sub = 1" "set (sub_slots ?sub) = {sl, zero_slot}"
      "set (pub_conns ?sub) = {demo_conn, idle_conn}"
    by (auto simp: demo_sub_def)
  ultimately show ?thesis
    using assms by (simp add: sub_good_def sub_inv_def sub_fds_def demo_sub_fds_def demo_io_def)
      (simp add: demo_sub_def zero_sub_ctx_def)
qed

lemma demo_sub_good: "sub_good (demo_sub, demo_sub_fds)"
proof -
  have "demo_sub\<lparr>sub_slots := demo_slot # replicate 511 zero_slot\<rparr> = demo_sub" by (simp add: demo_sub_def)
  moreover have "slot_wf demo_slot" "sl_used demo_slot" by (simp_all add: slot_wf_def demo_slot_def)
  ultimately show ?thesis using demo_sub_with [of demo_slot] by (simp only:)
qed

lemma demo_sub_simps: "sub_slots demo_sub ! 0 = demo_slot" "sub_slot_count demo_sub = 1" "pub_conns demo_sub ! 0 = demo_conn"
  by (simp_all add: demo_sub_def)

theorem handle_line_dispatch_witness:
  "ctx_handle_line demo_sub 0 (line_copy (wire_line ''hmi'' (message_text None (Some ''command'') (Some ''go'') (Some ''7'')))) (demo_io [])
   = Some ((demo_io [])\<lparr>io_calls := [(1, ''hmi'', ''7'')]\<rparr>)"
proof -
  have p: "plain ''hmi''" "fields_plain [None, Some ''command'', Some ''go'', Some ''7'']"
    by (simp_all add: plain_def fields_plain_def)
  have t: "message_text None (Some ''command'') (Some ''go'') (Some ''7'') = ''type=command key=go value=7''"
    using plain_tokens(5) [of "''command''"] plain_tokens(5) [of "''go''"] plain_tokens(5) [of "''7''"] p(2)
    by (simp add: message_text_def labelled_def fields_plain_def)
  have l: "length (wire_line ''hmi'' (message_text None (Some ''command'') (Some ''go'') (Some ''7''))) \<le> 511"
    by (simp add: t wire_line_def)
  have "ctx_handle_line demo_sub (int 0) (line_copy (wire_line ''hmi'' (message_text None (Some ''command'') (Some ''go'') (Some ''7'')))) (demo_io [])
    = Some (let sl = sub_slots demo_sub ! 0 in
        case sl_cb sl of None \<Rightarrow> demo_io []
        | Some cb \<Rightarrow>
            if ''hmi'' = cstr (sl_topic sl) \<and> matches (cstr (filter_state sl)) None
               \<and> matches (cstr (filter_type sl)) (Some ''command'') \<and> matches (cstr (filter_key sl)) (Some ''go'')
            then (demo_io [])\<lparr>io_calls := io_calls (demo_io []) @ [(cb, ''hmi'',
              if cstr (filter_state sl) \<noteq> [] \<or> cstr (filter_type sl) \<noteq> [] \<or> cstr (filter_key sl) \<noteq> []
              then (case Some ''7'' of None \<Rightarrow> [] | Some t \<Rightarrow> t)
              else message_text None (Some ''command'') (Some ''go'') (Some ''7''))]\<rparr>
            else demo_io [])"
    by (rule handle_line_dispatch [OF demo_sub_good _ p(1) p(2) _ l]) (simp_all add: demo_sub_simps demo_strings)
  then show ?thesis by (simp add: demo_sub_simps demo_strings matches_def demo_io_def)
qed

lemma join_last: "length x \<le> length (join_blank (xs @ [x]))"
proof (induction xs)
  case (Cons y ys)
  then show ?case by (cases "ys @ [x]") simp_all
qed simp

lemma message_longer:
  assumes "fields_plain [st, ty, key, Some t]" and "st \<noteq> None \<or> ty \<noteq> None \<or> key \<noteq> None"
  shows "length t < length (message_text st ty key (Some t))"
proof -
  let ?xs = "labelled ''state='' st @ labelled ''type='' ty @ labelled ''key='' key"
  have "labelled ''value='' (Some t) = [''value='' @ t]"
    using assms(1) plain_tokens(5) [of t] by (simp add: labelled_def fields_plain_def)
  then have "message_text st ty key (Some t) = join_blank (?xs @ [''value='' @ t])"
    using message_tokens [OF assms] by simp
  then show ?thesis using join_last [of "''value='' @ t" ?xs] by simp
qed

text \<open>
  C38: a filter without a key. The documentation of \<open>cmos_sub_add\<close> (in \<open>cmos.h\<close> and in \<open>cmos_sub.c\<close>) says
  that with any filter the callback gets only the value. A slot that filters on the state or the type
  but not on the key passes on the whole text of every message it accepts, which is never the
  value alone.
\<close>

theorem unkeyed_filter_gets_data:
  assumes "sub_good (ctx, io0)" and "s < sub_slot_count ctx" and "plain topic"
    and "fields_plain [st, ty, key, v]" and "st \<noteq> None \<or> ty \<noteq> None \<or> key \<noteq> None"
    and "length (wire_line topic (message_text st ty key v)) \<le> 511"
    and "sl_cb (sub_slots ctx ! s) = Some cb" and "cstr (sl_topic (sub_slots ctx ! s)) = topic"
    and "cstr (filter_key (sub_slots ctx ! s)) = []"
    and "cstr (filter_state (sub_slots ctx ! s)) \<noteq> [] \<or> cstr (filter_type (sub_slots ctx ! s)) \<noteq> []"
    and "matches (cstr (filter_state (sub_slots ctx ! s))) st" and "matches (cstr (filter_type (sub_slots ctx ! s))) ty"
  shows "ctx_handle_line ctx (int s) (line_copy (wire_line topic (message_text st ty key v))) io
      = Some (io\<lparr>io_calls := io_calls io @ [(cb, topic, message_text st ty key v)]\<rparr>)
    \<and> message_text st ty key v \<noteq> (case v of None \<Rightarrow> [] | Some t \<Rightarrow> t)"
proof
  show "ctx_handle_line ctx (int s) (line_copy (wire_line topic (message_text st ty key v))) io
      = Some (io\<lparr>io_calls := io_calls io @ [(cb, topic, message_text st ty key v)]\<rparr>)"
    using handle_line_matches [OF assms(1-6), of io] assms(7-12) by (simp add: matches_def)
  show "message_text st ty key v \<noteq> (case v of None \<Rightarrow> [] | Some t \<Rightarrow> t)"
  proof (cases v)
    case (Some t)
    then show ?thesis using message_longer [of st ty key t] assms(4,5) by auto
  qed (use message_parse(2) [OF assms(4,5)] in simp)
qed

theorem unkeyed_filter_gets_data_witness:
  "ctx_handle_line (demo_sub\<lparr>sub_slots := demo_slot\<lparr>filter_key := replicate 32 (CHR 0x00)\<rparr> # replicate 511 zero_slot\<rparr>) 0
      (line_copy (wire_line ''hmi'' (message_text None (Some ''command'') (Some ''go'') (Some ''7'')))) (demo_io [])
    = Some ((demo_io [])\<lparr>io_calls := [(1, ''hmi'', ''type=command key=go value=7'')]\<rparr>)"
proof -
  let ?sl = "demo_slot\<lparr>filter_key := replicate 32 (CHR 0x00)\<rparr>"
  have g: "sub_good (demo_sub\<lparr>sub_slots := ?sl # replicate 511 zero_slot\<rparr>, demo_sub_fds)"
    by (rule demo_sub_with) (simp_all add: slot_wf_def demo_slot_def)
  have p: "plain ''hmi''" "fields_plain [None, Some ''command'', Some ''go'', Some ''7'']"
    by (simp_all add: plain_def fields_plain_def)
  have t: "message_text None (Some ''command'') (Some ''go'') (Some ''7'') = ''type=command key=go value=7''"
    using plain_tokens(5) [of "''command''"] plain_tokens(5) [of "''go''"] plain_tokens(5) [of "''7''"] p(2)
    by (simp add: message_text_def labelled_def fields_plain_def)
  have l: "length (wire_line ''hmi'' (message_text None (Some ''command'') (Some ''go'') (Some ''7''))) \<le> 511"
    by (simp add: t wire_line_def)
  have k: "cstr (filter_key ?sl) = []" using cstr_padded [of "[]" 32] by simp
  have "sub_slot_count (demo_sub\<lparr>sub_slots := ?sl # replicate 511 zero_slot\<rparr>) = 1" by (simp add: demo_sub_simps)
  then show ?thesis
    using unkeyed_filter_gets_data [OF g _ p(1) p(2) _ l, of 0 1 "demo_io []"] k demo_strings
    by (simp add: t matches_def demo_io_def)
qed

section \<open>Reassembly of the stream\<close>

text \<open>Chunks as \<open>recv\<close> can deliver them: not empty and no longer than the room it was given.\<close>

fun chunks_fit :: "string \<Rightarrow> string list \<Rightarrow> bool" where
  "chunks_fit rx [] \<longleftrightarrow> True"
| "chunks_fit rx (c # cs) \<longleftrightarrow> c \<noteq> [] \<and> length rx + length c \<le> 2047 \<and> chunks_fit (snd (split_lines (rx @ c))) cs"

lemma handle_line_ctx:
  assumes "sub_slots ctx' = sub_slots ctx" and "sub_slot_count ctx' = sub_slot_count ctx"
  shows "ctx_handle_line ctx' = ctx_handle_line ctx"
  by (intro ext) (simp only: ctx_handle_line_def assms)

lemma handle_chunk:
  assumes "sub_good (ctx, io)" and "i < 512" and "pc_active (pub_conns ctx ! i)" and "c \<noteq> []"
    and "length (pc_rx (pub_conns ctx ! i)) + length c \<le> 2047"
    and "split_lines (pc_rx (pub_conns ctx ! i) @ c) = (ls, rest)" and "length rest < 2047"
  shows "\<exists>io'. handle_event (i, Some c) (ctx, io)
      = Some (ctx\<lparr>pub_conns := (pub_conns ctx)[i := (pub_conns ctx ! i)\<lparr>pc_rx := rest\<rparr>]\<rparr>, io')
    \<and> foldM (\<lambda>l io. ctx_handle_line ctx (pc_sub_slot (pub_conns ctx ! i)) (line_copy l) io) ls io = Some io'"
proof -
  let ?c = "pub_conns ctx ! i"
  note cn = good_conn [OF assms(1,2)]
  have len: "length (pub_conns ctx) = 512" using assms(1) by (simp add: sub_good_def sub_inv_def)
  have tk: "take (CM_RX_BUF - 1 - length (pc_rx ?c)) c = c" using assms(5) by (simp add: CM_RX_BUF_def)
  have "\<exists>io'. foldM (\<lambda>l io. ctx_handle_line ctx (pc_sub_slot ?c) (line_copy l) io) ls io = Some io' \<and> True"
    by (rule foldM_invariant) (use handle_line_ok [OF assms(1)] in blast)+
  then obtain io' where io': "foldM (\<lambda>l io. ctx_handle_line ctx (pc_sub_slot ?c) (line_copy l) io) ls io = Some io'" by blast
  have "0 \<le> pc_sock ?c" using cn(2) assms(3) by (simp add: conn_wf_def)
  then have "handle_event (i, Some c) (ctx, io)
      = Some (ctx\<lparr>pub_conns := (pub_conns ctx)[i := ?c\<lparr>pc_rx := rest\<rparr>]\<rparr>, io')"
    using assms cn(1) len tk io'
    by (simp add: handle_event_def CM_MAX_PUB_CONN_def Let_def buf_store_def del: take_eq_Nil) (simp add: CM_RX_BUF_def)
  then show ?thesis using io' by blast
qed

lemma split_prefix_rest:
  assumes "split_lines (rx @ c @ d) = (ls, rest)" and "\<forall>l\<in>set ls. length l \<le> n" and "length rest < n"
  shows "length (snd (split_lines (rx @ c))) < n \<or> snd (split_lines (rx @ c)) = []"
proof -
  obtain l1 r1 where 1: "split_lines (rx @ c) = (l1, r1)" by (metis surj_pair)
  obtain l2 r2 where 2: "split_lines (r1 @ d) = (l2, r2)" by (metis surj_pair)
  have e: "ls = l1 @ l2" "rest = r2"
    using assms(1) split_append [of "rx @ c" d] 1 2 by simp_all
  have nl: "CHR 0x0A \<notin> set r1" using split_rest [OF 1] by simp
  show ?thesis
  proof (cases rule: line_cases [of d])
    case none
    then have "r2 = r1 @ d" using 2 nl split_none [of "r1 @ d"] by simp
    then show ?thesis using 1 e assms(3) by simp
  next
    case (line w r)
    obtain l3 r3 where "split_lines r = (l3, r3)" by (metis surj_pair)
    then have "l2 = ((r1 @ w) @ [CHR 0x0A]) # l3"
      using 2 line nl split_line [of "r1 @ w" r] by simp
    then have "length r1 < n" using e assms(2) by auto
    then show ?thesis using 1 by simp
  qed
qed

lemma chunks_loop:
  assumes "sub_good (ctx, io)" and "i < 512" and "pc_active (pub_conns ctx ! i)"
    and "pc_rx (pub_conns ctx ! i) = rx" and "chunks_fit rx chunks"
    and "split_lines (rx @ concat chunks) = (ls, rest)" and "\<forall>l\<in>set ls. length l \<le> 2047" and "length rest < 2047"
  shows "\<exists>io'. foldM handle_event (map (\<lambda>c. (i, Some c)) chunks) (ctx, io)
      = Some (ctx\<lparr>pub_conns := (pub_conns ctx)[i := (pub_conns ctx ! i)\<lparr>pc_rx := rest\<rparr>]\<rparr>, io')
    \<and> foldM (\<lambda>l io. ctx_handle_line ctx (pc_sub_slot (pub_conns ctx ! i)) (line_copy l) io) ls io = Some io'"
  using assms
proof (induction chunks arbitrary: ctx io rx ls)
  case Nil
  have "CHR 0x0A \<notin> set rx" using good_conn(2) [OF Nil(1,2)] Nil(4) by (simp add: conn_wf_def)
  then have "rest = rx" "ls = []" using Nil by (simp_all add: split_none)
  moreover have "(pub_conns ctx ! i)\<lparr>pc_rx := rx\<rparr> = pub_conns ctx ! i"
    using Nil(4) by (cases "pub_conns ctx ! i") simp
  ultimately show ?case by simp
next
  case (Cons c cs)
  obtain l1 r1 where 1: "split_lines (rx @ c) = (l1, r1)" by (metis surj_pair)
  obtain l2 r2 where 2: "split_lines (r1 @ concat cs) = (l2, r2)" by (metis surj_pair)
  have e: "ls = l1 @ l2" "rest = r2"
    using Cons(7) split_append [of "rx @ c" "concat cs"] 1 2 by simp_all
  have r1: "length r1 < 2047"
    using split_prefix_rest [of rx c "concat cs" ls rest 2047] Cons(7-9) 1 by auto
  let ?c = "pub_conns ctx ! i"
  let ?ctx = "ctx\<lparr>pub_conns := (pub_conns ctx)[i := ?c\<lparr>pc_rx := r1\<rparr>]\<rparr>"
  have len: "length (pub_conns ctx) = 512" using Cons(2) by (simp add: sub_good_def sub_inv_def)
  obtain io1 where h: "handle_event (i, Some c) (ctx, io) = Some (?ctx, io1)"
      "foldM (\<lambda>l io. ctx_handle_line ctx (pc_sub_slot ?c) (line_copy l) io) l1 io = Some io1"
    using handle_chunk [OF Cons(2-4), of c l1 r1] Cons(5,6) 1 r1 by auto
  have g: "sub_good (?ctx, io1)"
    using handle_event_ok [of ctx "(ctx, io)" "(i, Some c)"] h(1) Cons(2) by (auto simp: sub_ok_def)
  have new: "pub_conns ?ctx ! i = ?c\<lparr>pc_rx := r1\<rparr>" using len Cons(3) by simp
  have "\<exists>io'. foldM handle_event (map (\<lambda>c. (i, Some c)) cs) (?ctx, io1)
      = Some (?ctx\<lparr>pub_conns := (pub_conns ?ctx)[i := (pub_conns ?ctx ! i)\<lparr>pc_rx := r2\<rparr>]\<rparr>, io')
    \<and> foldM (\<lambda>l io. ctx_handle_line ?ctx (pc_sub_slot (pub_conns ?ctx ! i)) (line_copy l) io) l2 io1 = Some io'"
    using Cons(1) [OF g Cons(3), of r1 l2] Cons(4,6,8,9) new 1 2 e by simp
  then show ?case
    using h e new len Cons(3) handle_line_ctx [of ?ctx ctx] by (auto simp: foldM_append)
qed

text \<open>
  C15: reassembly. However the bytes of a publisher's connection are cut into chunks by \<open>recv\<close>,
  the lines handled, in order, are those of the whole stream, as if it had arrived at once; what
  follows the last newline stays in the buffer. The lines may be up to 2047 bytes.
\<close>

theorem stream_reassembly:
  assumes "sub_good (ctx, io)" and "i < 512" and "pc_active (pub_conns ctx ! i)"
    and "chunks_fit (pc_rx (pub_conns ctx ! i)) chunks"
    and "split_lines (pc_rx (pub_conns ctx ! i) @ concat chunks) = (ls, rest)"
    and "\<forall>l\<in>set ls. length l \<le> 2047" and "length rest < 2047"
  shows "foldM handle_event (map (\<lambda>c. (i, Some c)) chunks) (ctx, io)
    = foldM (\<lambda>l io. ctx_handle_line ctx (pc_sub_slot (pub_conns ctx ! i)) (line_copy l) io) ls io
        \<bind> (\<lambda>io'. Some (ctx\<lparr>pub_conns := (pub_conns ctx)[i := (pub_conns ctx ! i)\<lparr>pc_rx := rest\<rparr>]\<rparr>, io'))"
  using chunks_loop [OF assms(1-3) refl assms(4-7)] by auto

theorem stream_reassembly_witness:
  "foldM handle_event [(0, Some ''mi ''), (0, Some (''x'' @ [CHR 0x0A] @ ''MS''))] (demo_sub, demo_sub_fds)
   = ctx_handle_line demo_sub 0 (line_copy (''MSG hmi x'' @ [CHR 0x0A])) demo_sub_fds
        \<bind> (\<lambda>io'. Some (demo_sub\<lparr>pub_conns := (pub_conns demo_sub)[0 := demo_conn\<lparr>pc_rx := ''MS''\<rparr>]\<rparr>, io'))"
proof -
  have c: "pc_active demo_conn" "pc_rx demo_conn = ''MSG h''" "pc_sub_slot demo_conn = 0" by (simp_all add: demo_conn_def)
  have n: "split_lines ''MSG hmi '' = ([], ''MSG hmi '')" "split_lines ''MS'' = ([], ''MS'')" by (simp_all add: split_none)
  have s: "split_lines (''MSG h'' @ concat [''mi '', ''x'' @ [CHR 0x0A] @ ''MS'']) = ([''MSG hmi x'' @ [CHR 0x0A]], ''MS'')"
    using split_line [of "''MSG hmi x''" "''MS''"] n(2) by simp
  have f: "chunks_fit ''MSG h'' [''mi '', ''x'' @ [CHR 0x0A] @ ''MS'']" using n(1) by simp
  have "foldM handle_event (map (\<lambda>c. (0, Some c)) [''mi '', ''x'' @ [CHR 0x0A] @ ''MS'']) (demo_sub, demo_sub_fds)
    = foldM (\<lambda>l io. ctx_handle_line demo_sub (pc_sub_slot (pub_conns demo_sub ! 0)) (line_copy l) io)
        [''MSG hmi x'' @ [CHR 0x0A]] demo_sub_fds
        \<bind> (\<lambda>io'. Some (demo_sub\<lparr>pub_conns := (pub_conns demo_sub)[0 := (pub_conns demo_sub ! 0)\<lparr>pc_rx := ''MS''\<rparr>]\<rparr>, io'))"
    by (rule stream_reassembly [OF demo_sub_good]) (simp_all only: demo_sub_simps c f s, simp_all)
  then show ?thesis by (simp add: demo_sub_simps c comp_def bind_assoc)
qed

section \<open>Losing the master\<close>

definition no_master :: "cmos_sub_ctx \<Rightarrow> cm_io \<Rightarrow> cmos_sub_ctx \<times> cm_io \<Rightarrow> bool" where
  "no_master c0 io0 s \<longleftrightarrow> (case s of (ctx, io) \<Rightarrow> sub_ok c0 s \<and> master_sock ctx < 0 \<and> pub_conns ctx = pub_conns c0
     \<and> io_connects io = io_connects io0 \<and> io_dials io = io_dials io0 \<and> io_wire io = io_wire io0)"

lemma send_line_negative:
  assumes "send_line fd l io = (n, io1)" and "fd < 0"
  shows "n = - 1" "io_connects io1 = io_connects io" "io_dials io1 = io_dials io" "io_wire io1 = io_wire io"
    "io_fds io1 = io_fds io"
  using assms by (auto simp: send_line_def send_text_def Let_def)

lemma lookup_no_master:
  assumes "no_master c0 io0 s" and "i < sub_slot_count c0"
  shows "\<exists>s'. map_option snd (ctx_lookup_slot i s) = Some s' \<and> no_master c0 io0 s'"
proof -
  obtain ctx io where s: "s = (ctx, io)" by (cases s)
  have ok: "sub_ok c0 s" and m: "master_sock ctx < 0" using assms(1) s by (simp_all add: no_master_def)
  note sl = sub_ok_slot(1) [OF ok assms(2)]
  let ?l = "snprintf_text 256 (''LOOKUP_TOPIC '' @ cstr (sl_topic (sub_slots c0 ! i)) @ [CHR 0x0A])"
  obtain n io1 where sd0: "send_line (master_sock ctx) ?l io = (n, io1)" by (metis surj_pair)
  note sd = send_line_negative [OF sd0 m]
  have run: "ctx_lookup_slot i s = Some (- 1, drop_master (ctx, io1))"
    using s sl sd0 sd(1) by (simp add: ctx_lookup_slot_def del: append.simps)
  have "sub_ok c0 (ctx, io1)" using ok s good_same_fds sd(5) by (auto simp: sub_ok_def)
  then have "sub_ok c0 (drop_master (ctx, io1))" by (rule drop_master_sub_ok)
  then show ?thesis using assms(1) s sd run by (simp add: no_master_def drop_master_def close_fd_def)
qed

text \<open>
  A lost master is not replaced while a publisher is left. If the master's connection is gone
  and some publisher is still connected, a round that brings no event dials nobody and changes no
  connection, however long ago the last attempt was: subscriptions without a publisher stay
  without one.
\<close>

theorem lost_master_not_replaced:
  assumes "sub_good (ctx, io)" and "master_sock ctx < 0" and "c \<in> set (pub_conns ctx)" and "pc_active c"
  shows "\<exists>t ctx' io'. spin_round now [] (prev, ctx, io) = Some (t, ctx', io') \<and> master_sock ctx' < 0
    \<and> pub_conns ctx' = pub_conns ctx \<and> io_dials io' = io_dials io \<and> io_connects io' = io_connects io"
proof -
  have ok: "sub_ok ctx (ctx, io)" using assms(1) by (simp add: sub_ok_def)
  then have nm: "no_master ctx io (ctx, io)" using assms(2) by (simp add: no_master_def)
  have "filter pc_active (pub_conns ctx) \<noteq> []" using assms(3,4) by (auto simp: filter_empty_conv)
  then have n: "ctx_active_count ctx = Some (length (filter pc_active (pub_conns ctx)))"
      "length (filter pc_active (pub_conns ctx)) \<noteq> 0"
    using active_count_ok [OF ok] by simp_all
  have "\<exists>s'. lookup_missing (ctx, io) = Some s' \<and> no_master ctx io s'"
    unfolding lookup_missing_def
  proof (rule foldM_invariant [where P = "no_master ctx io", OF nm])
    fix i s assume "i \<in> set [0..<sub_slot_count (fst (ctx, io))]" and s: "no_master ctx io s"
    then have i: "i < sub_slot_count ctx" by simp
    have sok: "sub_ok ctx s" using s by (cases s) (simp add: no_master_def)
    have "length (pub_conns (fst s)) = 512" using sok by (cases s) (simp add: sub_ok_def sub_good_def sub_inv_def)
    then have "\<forall>j\<in>set [0..<512]. j < length (pub_conns (fst s))" by simp
    from conn_search_total [OF this, of "\<lambda>c. pc_active c \<and> pc_sub_slot c = int i"]
    obtain r where "conn_search (\<lambda>c. pc_active c \<and> pc_sub_slot c = int i) (pub_conns (fst s)) [0..<512] = Some r" by blast
    then show "\<exists>s'. (do {
         sl \<leftarrow> buf_load (sub_slots (fst s)) i;
         if \<not> sl_used sl then Some s
         else do {
           has \<leftarrow> conn_search (\<lambda>c. pc_active c \<and> pc_sub_slot c = int i) (pub_conns (fst s)) [0..<CM_MAX_PUB_CONN];
           if has = None then map_option snd (ctx_lookup_slot i s) else Some s
         }
       }) = Some s' \<and> no_master ctx io s'"
      using sub_ok_slot [OF sok i] lookup_no_master [OF s i] s by (cases s; cases r) (auto simp: CM_MAX_PUB_CONN_def)
  qed
  then obtain ctx' io' where "lookup_missing (ctx, io) = Some (ctx', io')" "no_master ctx io (ctx', io')" by auto
  then show ?thesis
    using n assms(2) by (cases "now - prev \<ge> 2") (auto simp: spin_round_def no_master_def)
qed

theorem lost_master_not_replaced_witness:
  "\<exists>t ctx' io'. spin_round 1000 [] (0, demo_sub, demo_sub_fds) = Some (t, ctx', io') \<and> master_sock ctx' < 0
    \<and> pub_conns ctx' = pub_conns demo_sub \<and> io_dials io' = io_dials demo_sub_fds \<and> io_connects io' = io_connects demo_sub_fds"
  by (rule lost_master_not_replaced [OF demo_sub_good, of demo_conn])
    (simp_all add: demo_sub_def demo_conn_def)

section \<open>One connection per publisher and slot\<close>

definition unique_conns :: "cmos_sub_ctx \<Rightarrow> bool" where
  "unique_conns ctx \<longleftrightarrow> (\<forall>i<512. \<forall>j<512. i \<noteq> j
     \<longrightarrow> pc_active (pub_conns ctx ! i) \<longrightarrow> pc_active (pub_conns ctx ! j)
     \<longrightarrow> pc_sub_slot (pub_conns ctx ! i) = pc_sub_slot (pub_conns ctx ! j)
     \<longrightarrow> cstr (pc_node_name (pub_conns ctx ! i)) \<noteq> cstr (pc_node_name (pub_conns ctx ! j)))"

definition connected_to :: "cmos_sub_ctx \<Rightarrow> string \<Rightarrow> int \<Rightarrow> bool" where
  "connected_to ctx node s \<longleftrightarrow> (\<exists>i<512. pc_active (pub_conns ctx ! i) \<and> pc_sub_slot (pub_conns ctx ! i) = s
     \<and> cstr (pc_node_name (pub_conns ctx ! i)) = node)"

lemma node_copy:
  assumes "length dst = 64" and "strncpy dst node 63 = Some nn"
  shows "cstr (nn[63 := CHR 0x00]) = take 63 (cstr node)"
  using slot_string_ok [of dst 63 "Some node"] assms buf_blit_length [of _ _ dst]
  by (auto simp: slot_string_def buf_store_def strncpy_def split: if_splits)

text \<open>
  Connecting to a publisher. A publisher already connected for the slot is left alone: nothing
  is dialled. Otherwise exactly one connection attempt is made while there is room, and if it
  succeeds the publisher is connected. For names of at most 63 bytes no publisher is ever connected
  twice for one slot.
\<close>

theorem add_pub_connects_once:
  assumes "sub_good (ctx, io)" and "0 \<le> s" and "s < int (sub_slot_count ctx)"
  shows "\<exists>rc ctx' io'. ctx_add_pub s (Some node) (Some ip) port (ctx, io) = Some (rc, ctx', io')
    \<and> (connected_to ctx (cstr node) s \<longrightarrow> rc = 0 \<and> ctx' = ctx \<and> io' = io)
    \<and> (\<not> connected_to ctx (cstr node) s \<and> pub_count ctx < 512 \<longrightarrow> io' = snd (connect_tcp ip port io)
        \<and> (rc = 0 \<longleftrightarrow> 0 \<le> fst (connect_tcp ip port io)) \<and> (rc = 0 \<longrightarrow> connected_to ctx' (take 63 (cstr node)) s))
    \<and> (unique_conns ctx \<and> length (cstr node) \<le> 63 \<longrightarrow> unique_conns ctx')"
proof -
  have len: "length (pub_conns ctx) = 512" using assms(1) by (simp add: sub_good_def sub_inv_def)
  then have idx: "\<forall>i\<in>set [0..<512]. i < length (pub_conns ctx)" by simp
  let ?P = "\<lambda>c. pc_active c \<and> pc_sub_slot c = s \<and> cstr (pc_node_name c) = cstr node"
  obtain r where r: "conn_search ?P (pub_conns ctx) [0..<512] = Some r" "\<forall>i. r = Some i \<longrightarrow> i \<in> set [0..<512] \<and> ?P (pub_conns ctx ! i)"
      "r = None \<longrightarrow> (\<forall>i\<in>set [0..<512]. \<not> ?P (pub_conns ctx ! i))"
    using conn_search_total [OF idx, of ?P] by blast
  have rc: "r \<noteq> None \<longleftrightarrow> connected_to ctx (cstr node) s"
    using r(2,3) by (cases r) (auto simp: connected_to_def)
  have find: "ctx_find_conn node s ctx = Some r" using r(1) by (simp add: ctx_find_conn_def CM_MAX_PUB_CONN_def)
  show ?thesis
  proof (cases "r = None")
    case False
    then show ?thesis using find rc by (auto simp: ctx_add_pub_def)
  next
    case True
    then have nc: "\<not> connected_to ctx (cstr node) s" using rc by simp
    obtain fr where fr: "conn_search (\<lambda>c. \<not> pc_active c) (pub_conns ctx) [0..<512] = Some fr"
        "\<forall>k. fr = Some k \<longrightarrow> k \<in> set [0..<512] \<and> \<not> pc_active (pub_conns ctx ! k)"
        "fr = None \<longrightarrow> (\<forall>k\<in>set [0..<512]. \<not> \<not> pc_active (pub_conns ctx ! k))"
      using conn_search_total [OF idx, of "\<lambda>c. \<not> pc_active c"] by blast
    obtain sock io1 where cn: "connect_tcp ip port io = (sock, io1)" by (metis surj_pair)
    show ?thesis
    proof (cases fr)
      case None
      then have "filter pc_active (pub_conns ctx) = pub_conns ctx"
        using fr(3) len by (auto simp: filter_id_conv in_set_conv_nth)
      then have "pub_count ctx = 512" using assms(1) len by (simp add: sub_good_def sub_inv_def)
      then show ?thesis using None find True fr(1) nc by (auto simp: ctx_add_pub_def CM_MAX_PUB_CONN_def)
    next
      case (Some k)
      then have k: "k < 512" "\<not> pc_active (pub_conns ctx ! k)" using fr(2) by auto
      note c = good_conn [OF assms(1) k(1)]
      show ?thesis
      proof (cases "sock < 0")
        case neg: True
        then show ?thesis using Some find True fr(1) nc cn by (auto simp: ctx_add_pub_def CM_MAX_PUB_CONN_def)
      next
        case False
        have ln: "length (pc_node_name (pub_conns ctx ! k)) = 64" using c(2) by (simp add: conn_wf_def)
        then obtain nn where nn: "strncpy (pc_node_name (pub_conns ctx ! k)) node 63 = Some nn" "length nn = 64"
          using strncpy_total [of 63 "pc_node_name (pub_conns ctx ! k)" node] by auto
        note nm = node_copy [OF ln nn(1)]
        let ?c = "\<lparr>pc_sock = sock, pc_node_name = nn[63 := CHR 0x00], pc_rx = [], pc_active = True, pc_sub_slot = s\<rparr>"
        let ?ctx = "ctx\<lparr>pub_conns := (pub_conns ctx)[k := ?c], pub_count := pub_count ctx + 1\<rparr>"
        have run: "ctx_add_pub s (Some node) (Some ip) port (ctx, io) = Some (0, ?ctx, io1)"
          using find True fr(1) Some cn False c(1) nn k len by (simp add: ctx_add_pub_def CM_MAX_PUB_CONN_def buf_store_def)
        have ct: "connected_to ?ctx (take 63 (cstr node)) s"
          using k(1) len nm by (auto simp: connected_to_def intro!: exI [of _ k])
        have "unique_conns ?ctx" if u: "unique_conns ctx" and l: "length (cstr node) \<le> 63"
          unfolding unique_conns_def
        proof (intro allI impI)
          fix i j assume ij: "i < 512" "j < 512" "i \<noteq> j" "pc_active (pub_conns ?ctx ! i)" "pc_active (pub_conns ?ctx ! j)"
            "pc_sub_slot (pub_conns ?ctx ! i) = pc_sub_slot (pub_conns ?ctx ! j)"
          have "cstr (nn[63 := CHR 0x00]) = cstr node" using nm l by simp
          then show "cstr (pc_node_name (pub_conns ?ctx ! i)) \<noteq> cstr (pc_node_name (pub_conns ?ctx ! j))"
            using ij u nc len k(1) unfolding unique_conns_def connected_to_def
            by (cases "i = k"; cases "j = k") (auto simp: nth_list_update)
        qed
        then show ?thesis using run ct cn False nc by auto
      qed
    qed
  qed
qed

theorem add_pub_connects_once_witness:
  "\<exists>rc ctx' io'. ctx_add_pub 0 (Some ''pub'') (Some ''10.0.0.1'') 6001 (demo_sub, demo_sub_fds) = Some (rc, ctx', io')
     \<and> rc = 0 \<and> ctx' = demo_sub \<and> io' = demo_sub_fds"
proof -
  have "cstr (pc_node_name demo_conn) = ''pub''" using cstr_padded [of "''pub''" 61] by (simp add: demo_conn_def)
  then have "connected_to demo_sub (cstr ''pub'') 0"
    by (auto simp: connected_to_def demo_sub_simps cstr_def demo_conn_def intro!: exI [of _ 0])
  then show ?thesis
    using add_pub_connects_once [OF demo_sub_good, of 0 "''pub''" "''10.0.0.1''" 6001] by (auto simp: demo_sub_simps)
qed

end
