(* ===== verification/Cmos_Util.thy ===== *)
theory Cmos_Util
  imports Cmos_Sub "HOL-Library.Sublist"
begin

text \<open>
  The helpers of \<open>cmos_util.h\<close> a subscriber reads a message with: one field by its name, and the whole
  message. (\<open>cmos_publish_batch\<close> is in Cmos_Pub.) Parsing inverts the publisher's text for fields
  without equals signs.
\<close>

section \<open>Finding a field\<close>

text \<open>\<open>strstr\<close>: the text from the first occurrence on.\<close>

fun strstr :: "string \<Rightarrow> string \<Rightarrow> string option" where
  "strstr needle [] = (if needle = [] then Some [] else None)"
| "strstr needle (c # s) = (if take (length needle) (c # s) = needle then Some (c # s) else strstr needle s)"

definition field_end :: "char \<Rightarrow> bool" where
  "field_end c \<longleftrightarrow> c = CHR 0x20 \<or> c = CHR 0x0D \<or> c = CHR 0x0A"

text \<open>\<open>search\<close> is the local array as found, \<open>out\<close> the caller's array.\<close>

definition cmos_get_field :: "string \<Rightarrow> string \<Rightarrow> string \<Rightarrow> string \<Rightarrow> int \<Rightarrow> (int \<times> string) run" where
  "cmos_get_field search text field out out_size = do {
     let needle = take 126 (cstr field) @ ''='';
     search \<leftarrow> buf_blit 0 (needle @ [CHR 0x00]) search;
     (case strstr (cstr search) (cstr text) of
        None \<Rightarrow> if 0 < out_size then do { out \<leftarrow> buf_store 0 (CHR 0x00) out; Some (- 1, out) } else Some (- 1, out)
      | Some p \<Rightarrow> do {
          out \<leftarrow> buf_blit 0 (take (nat (out_size - 1)) (takeWhile (\<lambda>c. \<not> field_end c) (drop (length needle) p)) @ [CHR 0x00]) out;
          Some (0, out)
        })
   }"

section \<open>Parsing a message\<close>

record 'f cmos_parsed =
  pm_type :: string
  pm_key :: string
  pm_value :: string
  pm_value_f :: 'f
  pm_value_i :: int

text \<open>\<open>zero_f\<close> and \<open>atof\<close> stand for the floating-point numbers of C: zero, and the value of a text.\<close>

definition cmos_parse :: "'f \<Rightarrow> (string \<Rightarrow> 'f) \<Rightarrow> string \<Rightarrow> string \<Rightarrow> (int \<times> 'f cmos_parsed) run" where
  "cmos_parse zero_f atof junk text = do {
     let zero = (\<lambda>n. replicate n (CHR 0x00));
     (rc, ty) \<leftarrow> cmos_get_field junk text ''type'' (zero 64) 64;
     (rc, key) \<leftarrow> cmos_get_field junk text ''key'' (zero 64) 64;
     (rc, v) \<leftarrow> cmos_get_field junk text ''value'' (zero 256) 256;
     let m = \<lparr>pm_type = ty, pm_key = key, pm_value = v, pm_value_f = zero_f, pm_value_i = 0\<rparr>;
     let m = (if cstr v \<noteq> [] then m\<lparr>pm_value_f := atof (cstr v), pm_value_i := atoi (cstr v)\<rparr> else m);
     Some (if cstr ty \<noteq> [] then 0 else - 1, m)
   }"

section \<open>Lemmas\<close>

lemma strstr_absent: "x \<in> set needle \<Longrightarrow> x \<notin> set s \<Longrightarrow> strstr needle s = None"
proof (induction s)
  case (Cons c s)
  have "take (length needle) (c # s) \<noteq> needle" using Cons.prems by (metis in_set_takeD)
  then show ?case using Cons by simp
qed auto

lemma split_unique: "x \<notin> set f \<Longrightarrow> x \<notin> set g \<Longrightarrow> f @ x # u = g @ x # v \<Longrightarrow> f = g"
proof (induction f arbitrary: g)
  case Nil
  then show ?case by (cases g) auto
next
  case (Cons c f)
  then show ?case by (cases g) auto
qed

text \<open>The first \<open>=\<close> decides: it ends the field's name or the search goes on behind it.\<close>

lemma strstr_next:
  assumes "f \<noteq> []" and "x \<notin> set f" and "x \<notin> set a"
  shows "strstr (f @ [x]) (a @ x # r) = (if suffix f a then Some (f @ x # r) else strstr (f @ [x]) r)"
  using assms(3)
proof (induction a)
  case Nil
  have "take (length (f @ [x])) (x # r) \<noteq> f @ [x]" using assms by (cases f) auto
  then show ?case using assms(1) by simp
next
  case (Cons c a)
  have hit: "take (length (f @ [x])) ((c # a) @ x # r) = f @ [x] \<longleftrightarrow> f = c # a"
  proof
    assume "take (length (f @ [x])) ((c # a) @ x # r) = f @ [x]"
    then have "f @ x # drop (length (f @ [x])) ((c # a) @ x # r) = (c # a) @ x # r"
      by (metis append.assoc append_Cons append_Nil append_take_drop_id)
    then show "f = c # a" by (rule split_unique [OF assms(2) Cons.prems])
  qed simp
  show ?case using Cons hit by (auto simp: suffix_Cons)
qed

text \<open>A joined list of labelled tokens: the search stops at the first token with the field's label.\<close>

definition token :: "string \<times> string \<Rightarrow> string" where
  "token p = fst p @ ''='' @ snd p"

lemma strstr_tokens:
  assumes "f \<noteq> []" and "CHR ''='' \<notin> set f" and "CHR 0x20 \<notin> set f"
    and "\<forall>(l, v)\<in>set ps. CHR ''='' \<notin> set l \<and> CHR ''='' \<notin> set v \<and> (suffix f l \<longrightarrow> l = f)"
    and "CHR ''='' \<notin> set a" and "a = [] \<or> last a = CHR 0x20"
  shows "strstr (f @ ''='') (a @ join_blank (map token ps))
    = (case dropWhile (\<lambda>(l, v). l \<noteq> f) ps of [] \<Rightarrow> None | q # qs \<Rightarrow> Some (join_blank (map token (q # qs))))"
  using assms(4-6)
proof (induction ps arbitrary: a)
  case Nil
  then show ?case using strstr_absent [of "CHR ''=''" "f @ ''=''" a] by simp
next
  case (Cons p ps)
  obtain l v where p: "p = (l, v)" by (cases p)
  define r where "r = (if ps = [] then v else v @ '' '' @ join_blank (map token ps))"
  have j: "join_blank (map token (p # ps)) = l @ CHR ''='' # r"
    by (cases ps) (simp_all add: r_def p token_def)
  have sub: "strstr (f @ ''='') (a @ join_blank (map token (p # ps)))
      = (if suffix f (a @ l) then Some (f @ CHR ''='' # r) else strstr (f @ ''='') r)"
    using strstr_next [of f "CHR ''=''" "a @ l" r] assms(1,2) Cons.prems unfolding j by (simp add: p)
  have suf: "suffix f (a @ l) \<longleftrightarrow> l = f"
  proof
    assume "suffix f (a @ l)"
    then consider "suffix f l" | b where "f = b @ l" "suffix b a" unfolding suffix_append by blast
    then show "l = f"
    proof cases
      case 2
      then have "b = [] \<or> last a = last b" "b = [] \<or> a \<noteq> []"
        by (cases "b = []"; auto simp: suffix_def)+
      then show ?thesis using Cons.prems(3) assms(3) 2(1) by (cases b rule: rev_cases) auto
    qed (use Cons.prems p in auto)
  qed (simp add: suffix_def)
  have rest: "strstr (f @ ''='') r = (case dropWhile (\<lambda>(l, v). l \<noteq> f) ps of [] \<Rightarrow> None | q # qs \<Rightarrow> Some (join_blank (map token (q # qs))))"
  proof (cases "ps = []")
    case True
    then show ?thesis using strstr_absent [of "CHR ''=''" "f @ ''=''" v] Cons.prems(1) by (simp add: r_def p)
  next
    case False
    then show ?thesis using Cons.IH [of "v @ '' ''"] Cons.prems(1) by (simp add: r_def p)
  qed
  show ?case unfolding sub suf rest using j [symmetric] by (auto simp: p)
qed

lemma first_token:
  "dropWhile (\<lambda>(l, v). l \<noteq> f) ps = [] \<Longrightarrow> map_of ps f = None"
  "dropWhile (\<lambda>(l, v). l \<noteq> f) ps = q # qs \<Longrightarrow> fst q = f \<and> map_of ps f = Some (snd q) \<and> q \<in> set ps"
proof -
  assume "dropWhile (\<lambda>(l, v). l \<noteq> f) ps = q # qs"
  then have q: "ps = takeWhile (\<lambda>(l, v). l \<noteq> f) ps @ q # qs" "fst q = f"
    by (auto simp: dropWhile_eq_Cons_conv split: prod.splits)
  have "map_of (takeWhile (\<lambda>(l, v). l \<noteq> f) ps) f = None"
    by (auto simp: map_of_eq_None_iff dest!: set_takeWhileD)
  then have "map_of ps f = Some (snd q)" using q(2) by (subst q(1)) (cases q, simp add: map_add_def)
  then show "fst q = f \<and> map_of ps f = Some (snd q) \<and> q \<in> set ps" using q by (metis in_set_conv_decomp)
qed (auto simp: map_of_eq_None_iff)

lemma field_of_tokens:
  assumes "f \<noteq> []" and "\<forall>c\<in>set f. c \<noteq> CHR ''='' \<and> c \<noteq> CHR 0x20 \<and> c \<noteq> CHR 0x00" and "length f \<le> 126"
    and "\<forall>(l, v)\<in>set ps. CHR ''='' \<notin> set l \<and> CHR ''='' \<notin> set v \<and> (suffix f l \<longrightarrow> l = f) \<and> plain v"
    and "cstr (join_blank (map token ps)) = join_blank (map token ps)" and "length junk = 128"
    and "0 < n" and "length out = n"
  shows "\<exists>out'. cmos_get_field junk (join_blank (map token ps)) f out (int n)
      = Some (if map_of ps f = None then - 1 else 0, out')
    \<and> cstr out' = take (n - 1) (case map_of ps f of None \<Rightarrow> [] | Some v \<Rightarrow> v)"
proof -
  let ?t = "join_blank (map token ps)" and ?v = "case map_of ps f of None \<Rightarrow> [] | Some v \<Rightarrow> v"
  have f: "cstr f = f" "take 126 f = f" using assms(2,3) by (auto intro: cstr_id)
  obtain s' where s': "buf_blit 0 (f @ ''='' @ [CHR 0x00]) junk = Some s'" "cstr s' = f @ ''=''"
    using assms(2,3,6) cstr_append_nul [of "f @ ''=''"] by (auto simp: buf_blit_def)
  have found: "strstr (f @ ''='') ?t
      = (case dropWhile (\<lambda>(l, v). l \<noteq> f) ps of [] \<Rightarrow> None | q # qs \<Rightarrow> Some (join_blank (map token (q # qs))))"
    using strstr_tokens [of f ps "[]"] assms(1,2,4) by fastforce
  have n1: "nat (int n - 1) = n - 1" by simp
  have eq: "cmos_get_field junk ?t f out (int n) = (case strstr (f @ ''='') ?t of
        None \<Rightarrow> buf_store 0 (CHR 0x00) out \<bind> (\<lambda>out. Some (- 1, out))
      | Some p \<Rightarrow> buf_blit 0 (take (n - 1) (takeWhile (\<lambda>c. \<not> field_end c) (drop (length (f @ ''='')) p)) @ [CHR 0x00]) out
          \<bind> (\<lambda>out. Some (0, out)))"
    using s' assms(7) by (simp add: cmos_get_field_def f assms(5) Let_def n1 split: option.split)
  show ?thesis
  proof (cases "dropWhile (\<lambda>(l, v). l \<noteq> f) ps")
    case Nil
    then have "strstr (f @ ''='') ?t = None" using found by (simp only: list.case)
    moreover have "cstr (out[0 := CHR 0x00]) = []" using assms(7,8) by (cases out) (simp_all add: cstr_def)
    ultimately show ?thesis using assms(7,8) first_token(1) [OF Nil] unfolding eq by (simp add: buf_store_def)
  next
    case (Cons q qs)
    note first = first_token(2) [OF Cons]
    then have q: "fst q = f" "map_of ps f = Some (snd q)" "q \<in> set ps" by blast+
    have pl: "plain (snd q)" using bspec [OF assms(4) q(3)] by (simp add: split_beta)
    then have no: "\<forall>c\<in>set (snd q). \<not> field_end c" "CHR 0x00 \<notin> set (snd q)" by (auto simp: plain_def field_end_def)
    have "takeWhile (\<lambda>c. \<not> field_end c) (drop (length (f @ ''='')) (join_blank (map token (q # qs)))) = snd q"
      using no(1) q(1) by (cases qs) (auto simp: token_def takeWhile_append field_end_def)
    moreover have "CHR 0x00 \<notin> set (take (n - 1) (snd q))" using no(2) by (meson in_set_takeD)
    ultimately show ?thesis using Cons q(2) assms(7,8)
      by (auto simp: eq found buf_blit_def cstr_append_nul)
  qed
qed

text \<open>\<open>message_text\<close> with a type is such a list of tokens.\<close>

definition tagged :: "string \<Rightarrow> string option \<Rightarrow> (string \<times> string) list" where
  "tagged l v = (case v of None \<Rightarrow> [] | Some t \<Rightarrow> [(l, t)])"

definition fields :: "string option \<Rightarrow> string option \<Rightarrow> string option \<Rightarrow> string option \<Rightarrow> (string \<times> string) list" where
  "fields st ty key v = tagged ''state'' st @ tagged ''type'' ty @ tagged ''key'' key @ tagged ''value'' v"

lemma in_tagged: "(l', w) \<in> set (tagged l v) \<longleftrightarrow> l' = l \<and> v = Some w"
  by (auto simp: tagged_def split: option.splits)

lemma message_fields:
  assumes "fields_plain [st, ty, key, v]" and "st \<noteq> None \<or> ty \<noteq> None \<or> key \<noteq> None"
  shows "message_text st ty key v = join_blank (map token (fields st ty key v))"
proof -
  have lab: "labelled (l @ ''='') f = map token (tagged l f)" if "fields_plain [f]" for l f
    using that plain_tokens(5) by (cases f) (auto simp: labelled_def tagged_def token_def fields_plain_def)
  show ?thesis using assms lab [of st "''state''"] lab [of ty "''type''"] lab [of key "''key''"] lab [of v "''value''"]
    unfolding message_tokens [OF assms] fields_def by (simp add: fields_plain_def)
qed

lemma join_no_nul:
  assumes "\<forall>x\<in>set xs. CHR 0x00 \<notin> set x" shows "cstr (join_blank xs) = join_blank xs"
proof (rule cstr_id)
  show "CHR 0x00 \<notin> set (join_blank xs)" using assms by (induction xs rule: join_blank.induct) auto
qed

lemma label_suffix:
  assumes "f \<in> {''type'', ''key'', ''value''}"
  shows "\<forall>l\<in>{''state'', ''type'', ''key'', ''value''}. CHR ''='' \<notin> set l \<and> (suffix f l \<longrightarrow> l = f)"
  using assms by (auto simp: suffix_to_prefix)

text \<open>
  C36: parsing what was published. For fields without blanks, line ends and equals signs and a given type,
  \<open>cmos_parse\<close> of what \<open>cmos_publish\<close> sends returns 0 and the type, key and value, cut to
  the 63, 63 and 255 characters of its arrays, empty where the field was not given, and the value also
  as a number: the \<open>int\<close> that \<open>atoi\<close> makes of it, which is the number itself for any printed \<open>int\<close>.
\<close>

theorem message_parse_roundtrip:
  assumes "fields_plain [st, Some ty, key, v]" and "\<forall>f\<in>set [st, Some ty, key, v]. \<forall>t\<in>set_option f. CHR ''='' \<notin> set t"
    and "length junk = 128"
  shows "\<exists>m. cmos_parse zero_f atof junk (message_text st (Some ty) key v) = Some (0, m)
    \<and> cstr (pm_type m) = take 63 ty \<and> cstr (pm_key m) = take 63 (case key of None \<Rightarrow> [] | Some k \<Rightarrow> k)
    \<and> cstr (pm_value m) = take 255 (case v of None \<Rightarrow> [] | Some t \<Rightarrow> t)
    \<and> pm_value_i m = (case v of None \<Rightarrow> 0 | Some t \<Rightarrow> atoi (take 255 t))
    \<and> - (2 ^ 31) \<le> pm_value_i m \<and> pm_value_i m < 2 ^ 31
    \<and> (\<forall>i. - (2 ^ 31) \<le> i \<and> i < 2 ^ 31 \<and> v = Some (show_int i) \<longrightarrow> pm_value_i m = i)
    \<and> pm_value_f m = (case v of None \<Rightarrow> zero_f | Some t \<Rightarrow> atof (take 255 t))"
proof -
  let ?ps = "fields st (Some ty) key v"
  have pl: "plain w \<and> CHR ''='' \<notin> set w" and la: "l \<in> {''state'', ''type'', ''key'', ''value''}"
    if "(l, w) \<in> set ?ps" for l w
  proof -
    have f: "Some w \<in> set [st, Some ty, key, v] \<and> l \<in> {''state'', ''type'', ''key'', ''value''}"
      using that unfolding fields_def set_append Un_iff in_tagged by auto
    have "plain w" using bspec [OF assms(1) [unfolded fields_plain_def] conjunct1 [OF f]] by simp
    moreover have "CHR ''='' \<notin> set w" using bspec [OF assms(2) conjunct1 [OF f]] by simp
    ultimately show "plain w \<and> CHR ''='' \<notin> set w" "l \<in> {''state'', ''type'', ''key'', ''value''}" using f by blast+
  qed
  have msg: "message_text st (Some ty) key v = join_blank (map token ?ps)"
    using assms(1) by (simp add: message_fields)
  have no: "cstr (join_blank (map token ?ps)) = join_blank (map token ?ps)"
  proof (rule join_no_nul, intro ballI notI)
    fix x assume "x \<in> set (map token ?ps)" and "CHR 0x00 \<in> set x"
    then obtain l w where m: "(l, w) \<in> set ?ps" and n: "CHR 0x00 \<in> set (token (l, w))" by auto
    have "CHR 0x00 \<notin> set w" using pl [OF m] unfolding plain_def by blast
    moreover have "CHR 0x00 \<notin> set l" using la [OF m] by (elim insertE emptyE) simp_all
    ultimately show False using n by (simp add: token_def)
  qed
  have get: "\<exists>out'. cmos_get_field junk (join_blank (map token ?ps)) f (replicate n (CHR 0x00)) (int n)
      = Some (if map_of ?ps f = None then - 1 else 0, out')
    \<and> cstr out' = take (n - 1) (case map_of ?ps f of None \<Rightarrow> [] | Some v \<Rightarrow> v)"
    if f: "f \<in> {''type'', ''key'', ''value''}" and n: "0 < n" for f n
  proof (rule field_of_tokens)
    have "CHR ''='' \<notin> set l \<and> CHR ''='' \<notin> set w \<and> (suffix f l \<longrightarrow> l = f) \<and> plain w" if "(l, w) \<in> set ?ps" for l w
      using pl [OF that] la [OF that] label_suffix [OF f] by blast
    then show "\<forall>(l, v)\<in>set ?ps. CHR ''='' \<notin> set l \<and> CHR ''='' \<notin> set v \<and> (suffix f l \<longrightarrow> l = f) \<and> plain v" by blast
  qed (use f n no assms(3) in auto)
  have m: "map_of ?ps ''type'' = Some ty" "map_of ?ps ''key'' = key" "map_of ?ps ''value'' = v"
    by (cases st; cases key; cases v; simp add: fields_def tagged_def)+
  obtain t where t: "cmos_get_field junk (join_blank (map token ?ps)) ''type'' (replicate 64 (CHR 0x00)) 64 = Some (0, t)"
      "cstr t = take 63 ty"
    using get [of "''type''" 64] by (auto simp: m)
  obtain k where k: "cmos_get_field junk (join_blank (map token ?ps)) ''key'' (replicate 64 (CHR 0x00)) 64
        = Some (if key = None then - 1 else 0, k)" "cstr k = take 63 (case key of None \<Rightarrow> [] | Some k \<Rightarrow> k)"
    using get [of "''key''" 64] by (auto simp: m)
  obtain x where x: "cmos_get_field junk (join_blank (map token ?ps)) ''value'' (replicate 256 (CHR 0x00)) 256
        = Some (if v = None then - 1 else 0, x)" "cstr x = take 255 (case v of None \<Rightarrow> [] | Some t \<Rightarrow> t)"
    using get [of "''value''" 256] by (auto simp: m)
  note fp = bspec [OF assms(1) [unfolded fields_plain_def]]
  have ne: "ty \<noteq> []" "v \<noteq> Some []" using fp [of "Some ty"] fp [of "Some []"] plain_tokens(4) by auto
  have short: "take 255 (show_int i) = show_int i" if "- (2 ^ 31) \<le> i \<and> i < 2 ^ 31" for i
    using show_int_length [of i] that by simp
  let ?i = "case v of None \<Rightarrow> 0 | Some t \<Rightarrow> atoi (take 255 t)"
  have i: "- (2 ^ 31) \<le> ?i \<and> ?i < 2 ^ 31
      \<and> (\<forall>i. - (2 ^ 31) \<le> i \<and> i < 2 ^ 31 \<and> v = Some (show_int i) \<longrightarrow> ?i = i)"
    using atoi_range atoi_show_int short by (cases v) simp_all
  have "\<exists>m. cmos_parse zero_f atof junk (message_text st (Some ty) key v) = Some (0, m)
    \<and> cstr (pm_type m) = take 63 ty \<and> cstr (pm_key m) = take 63 (case key of None \<Rightarrow> [] | Some k \<Rightarrow> k)
    \<and> cstr (pm_value m) = take 255 (case v of None \<Rightarrow> [] | Some t \<Rightarrow> t) \<and> pm_value_i m = ?i
    \<and> pm_value_f m = (case v of None \<Rightarrow> zero_f | Some t \<Rightarrow> atof (take 255 t))"
    unfolding msg cmos_parse_def Let_def using t k x ne by (cases v) auto
  then show ?thesis using i by (elim exE conjE, intro exI conjI) (assumption | simp only: refl)+
qed

theorem message_parse_roundtrip_witness:
  "\<exists>m. cmos_parse (0::int) decimal (replicate 128 (CHR 0x00)) (message_text (Some ''Alive'') (Some ''sensor'') (Some ''rpm'') (Some ''-42''))
      = Some (0, m) \<and> cstr (pm_key m) = ''rpm'' \<and> cstr (pm_value m) = ''-42'' \<and> pm_value_i m = - 42"
proof -
  have v: "show_int (- 42) = ''-42''" by code_simp
  have a: "fields_plain [Some ''Alive'', Some ''sensor'', Some ''rpm'', Some ''-42'']" by (simp add: fields_plain_def plain_def)
  have e: "\<forall>f\<in>set [Some ''Alive'', Some ''sensor'', Some ''rpm'', Some ''-42'']. \<forall>t\<in>set_option f. CHR ''='' \<notin> set t" by simp
  obtain m where "cmos_parse (0::int) decimal (replicate 128 (CHR 0x00)) (message_text (Some ''Alive'') (Some ''sensor'') (Some ''rpm'') (Some ''-42''))
      = Some (0, m)" "cstr (pm_key m) = take 63 ''rpm''" "cstr (pm_value m) = take 255 ''-42''"
      "\<forall>i. - (2 ^ 31) \<le> i \<and> i < 2 ^ 31 \<and> Some ''-42'' = Some (show_int i) \<longrightarrow> pm_value_i m = i"
    using message_parse_roundtrip [OF a e, of "replicate 128 (CHR 0x00)" 0 decimal] by auto
  moreover from this(4) have "pm_value_i m = - 42" using v by (auto dest: spec [of _ "- 42"])
  ultimately show ?thesis by simp
qed

text \<open>Fields are found by their text, not by their place: a type that ends in another field's label hides that field.\<close>

lemma parse_confuses_fields:
  "map_option (\<lambda>(rc, m). cstr (pm_key m)) (cmos_parse (0::int) decimal (replicate 128 (CHR 0x00))
      (message_text None (Some ''hotkey=7'') (Some ''rpm'') None)) = Some ''7''"
  by code_simp

text \<open>A field that is found is ended by a NUL even if the caller's array has no room for it.\<close>

lemma get_field_no_room:
  assumes "length search = 128"
  shows "cmos_get_field search ''key=1'' ''key'' [] 0 = None"
  using assms by (simp add: cmos_get_field_def buf_blit_def cstr_def)

end
