(* ===== verification/Ups_Cmos_Bridge.thy ===== *)
theory Ups_Cmos_Bridge
  imports Ups_Module Cmos_Sub
begin

text \<open>
  The bridge between CMOS and the UPS units (\<open>src/ups_cmos_bridge.c\<close>): commands of the HMI become
  queued writes, pool registers become status messages.

  The handlers run inside the subscriber's receive loop and touch neither its context nor its
  connections, so the calls a round records are carried out, in order, at its end. Callback numbers
  0 to 4 stand for the five \<open>on_xxx_cmd\<close> functions. \<open>unsigned long\<close> has 64 bits.
\<close>

section \<open>Numbers from text\<close>

definition ULONG_LIMIT :: nat where "ULONG_LIMIT = 2 ^ 64"

text \<open>The value of a digit in some base up to 16, if it is one.\<close>

definition digit_in :: "nat \<Rightarrow> char \<Rightarrow> nat option" where
  "digit_in base c = (let n = (of_char c :: nat);
      v = (if 48 \<le> n \<and> n \<le> 57 then n - 48 else if 97 \<le> n \<and> n \<le> 102 then n - 87
           else if 65 \<le> n \<and> n \<le> 70 then n - 55 else 99) in
    if v < base then Some v else None)"

definition value_in :: "nat \<Rightarrow> string \<Rightarrow> nat" where
  "value_in base ds = foldl (\<lambda>n c. base * n + the (digit_in base c)) 0 ds"

text \<open>\<open>strtoul(s, NULL, 0)\<close>: blanks, a sign, the base from the prefix, saturation.\<close>

definition strtoul0 :: "string \<Rightarrow> nat" where
  "strtoul0 s = (let t = dropWhile is_space s;
      (neg, t) = (case t of c # r \<Rightarrow> if c = CHR 0x2D then (True, r) else if c = CHR 0x2B then (False, r) else (False, t)
                  | [] \<Rightarrow> (False, []));
      (base, t) = (case t of
          a # b # d # r \<Rightarrow> if a = CHR ''0'' \<and> (b = CHR ''x'' \<or> b = CHR ''X'') \<and> digit_in 16 d \<noteq> None
                           then (16, d # r) else if a = CHR ''0'' then (8, t) else (10, t)
        | a # r \<Rightarrow> if a = CHR ''0'' then (8, t) else (10, t)
        | [] \<Rightarrow> (10, []));
      n = value_in base (takeWhile (\<lambda>c. digit_in base c \<noteq> None) t) in
    if n \<ge> ULONG_LIMIT then ULONG_LIMIT - 1
    else if neg then (ULONG_LIMIT - n) mod ULONG_LIMIT else n)"

section \<open>Register access\<close>

definition UPS_BRIDGE_DEFAULT_UID :: u8 where "UPS_BRIDGE_DEFAULT_UID = 1"

definition on_write :: "u8 \<Rightarrow> u16 \<Rightarrow> u16 \<Rightarrow> ups_world \<Rightarrow> (int \<times> ups_world) run" where
  "on_write uid addr val w =
     (case ups_find_profile_by_uid uid of
        None \<Rightarrow> Some (- 1, w)
      | Some pr \<Rightarrow> do {
          e \<leftarrow> device_find_slot (Some pr) addr;
          (case e of
             None \<Rightarrow> Some (- 1, w)
           | Some e \<Rightarrow>
               if access e = ACCESS_RO then Some (- 1, w)
               else do {
                 (rc, w) \<leftarrow> ups_cmd_push uid addr (Some [val]) 1 UPS_WRITE_MODE_AUTO w;
                 Some (if rc \<noteq> 0 then - 1 else 0, w)
               })
        })"

definition on_read :: "u8 \<Rightarrow> u16 \<Rightarrow> u16 \<Rightarrow> ups_world \<Rightarrow> (int \<times> u16) run" where
  "on_read uid addr out_val w =
     (case ups_find_profile_by_uid uid of
        None \<Rightarrow> Some (- 1, out_val)
      | Some pr \<Rightarrow> do {
          e \<leftarrow> device_find_slot (Some pr) addr;
          (case e of
             None \<Rightarrow> Some (- 1, out_val)
           | Some e \<Rightarrow>
               if access e = ACCESS_WO then Some (- 1, out_val)
               else do {
                 (ok, v) \<leftarrow> pool_read_register (uw_pool w) (pool_address e) (Some out_val);
                 v \<leftarrow> v;
                 Some (if ok then 0 else - 1, v)
               })
        })"

section \<open>Handlers\<close>

definition on_test_cmd :: "string \<Rightarrow> string \<Rightarrow> ups_world \<Rightarrow> ups_world run" where
  "on_test_cmd topic val w =
     map_option snd (on_write UPS_BRIDGE_DEFAULT_UID 0x0012 (word_of_nat (strtoul0 (cstr val))) w)"

definition on_shutdown_cmd :: "string \<Rightarrow> string \<Rightarrow> ups_world \<Rightarrow> ups_world run" where
  "on_shutdown_cmd topic val w =
     map_option snd (on_write UPS_BRIDGE_DEFAULT_UID 0x0013 (word_of_nat (strtoul0 (cstr val))) w)"

definition on_time_cmd :: "string \<Rightarrow> string \<Rightarrow> ups_world \<Rightarrow> ups_world run" where
  "on_time_cmd topic val w =
     map_option snd (on_write UPS_BRIDGE_DEFAULT_UID 0x0014 (word_of_nat (strtoul0 (cstr val))) w)"

definition on_off_time_cmd :: "string \<Rightarrow> string \<Rightarrow> ups_world \<Rightarrow> ups_world run" where
  "on_off_time_cmd topic val w =
     map_option snd (on_write UPS_BRIDGE_DEFAULT_UID 0x0015 (word_of_nat (strtoul0 (cstr val))) w)"

definition on_trigger_cmd :: "string \<Rightarrow> string \<Rightarrow> ups_world \<Rightarrow> ups_world run" where
  "on_trigger_cmd topic val w =
     map_option snd (on_write UPS_BRIDGE_DEFAULT_UID 0x0015 (word_of_nat (strtoul0 (cstr val))) w)"

text \<open>Calling a callback by its number.\<close>

definition call_handler :: "nat \<times> string \<times> string \<Rightarrow> ups_world \<Rightarrow> ups_world run" where
  "call_handler call w = (case call of (cb, topic, val) \<Rightarrow>
     if cb = 0 then on_test_cmd topic val w
     else if cb = 1 then on_shutdown_cmd topic val w
     else if cb = 2 then on_time_cmd topic val w
     else if cb = 3 then on_off_time_cmd topic val w
     else if cb = 4 then on_trigger_cmd topic val w
     else None)"

section \<open>The subscriber thread\<close>

definition BRIDGE_MASTER_IP :: string where "BRIDGE_MASTER_IP = ''127.0.0.1''"
definition BRIDGE_MASTER_PORT :: int where "BRIDGE_MASTER_PORT = 10000"
definition BRIDGE_PUB_PORT :: int where "BRIDGE_PUB_PORT = 12000"
definition BRIDGE_NODE_NAME :: string where "BRIDGE_NODE_NAME = ''ups_node''"
definition BRIDGE_SUB_HMI_TOPIC :: string where "BRIDGE_SUB_HMI_TOPIC = ''hmi_ups''"
definition BRIDGE_PUB_TOPIC :: string where "BRIDGE_PUB_TOPIC = ''ups''"

definition hmi_commands :: "(string \<times> nat) list" where
  "hmi_commands = [(''ups_test'', 0), (''ups_shutdown'', 1), (''on_time'', 2), (''off_time'', 3), (''trigger'', 4)]"

text \<open>Up to the receive loop; without a context the thread returns.\<close>

definition cmos_sub_thread :: "sub_env \<Rightarrow> cm_io \<Rightarrow> (cmos_sub_ctx option \<times> cm_io) run" where
  "cmos_sub_thread env io = do {
     (ctx, io) \<leftarrow> cmos_sub_create env BRIDGE_MASTER_IP BRIDGE_MASTER_PORT ''ups_sub'' io;
     (case ctx of
        None \<Rightarrow> Some (None, io)
      | Some ctx \<Rightarrow>
          foldM (\<lambda>(key, cb) (ctx, io). do {
              (rc, ctx, io) \<leftarrow> cmos_sub_add (Some BRIDGE_SUB_HMI_TOPIC) None (Some ''command'') (Some key) (Some cb) (ctx, io);
              Some (ctx, io)
            }) hmi_commands (Some ctx, io))
   }"

text \<open>One round of the receive loop with the handlers it calls.\<close>

definition bridge_round ::
  "int \<Rightarrow> (nat \<times> string option) list \<Rightarrow> (int \<times> cmos_sub_ctx \<times> cm_io) \<times> ups_world
     \<Rightarrow> ((int \<times> cmos_sub_ctx \<times> cm_io) \<times> ups_world) run" where
  "bridge_round now events s = (case s of ((prev, ctx, io), w) \<Rightarrow> do {
     (t, ctx, io) \<leftarrow> spin_round now events (prev, ctx, io\<lparr>io_calls := []\<rparr>);
     w \<leftarrow> foldM call_handler (io_calls io) w;
     Some ((t, ctx, io), w)
   })"

definition cleanup_sub_ctx :: "cmos_sub_ctx option \<times> cm_io \<Rightarrow> cm_io run" where
  "cleanup_sub_ctx c = cmos_sub_destroy c"

section \<open>The publisher thread\<close>

definition publish_pool_register ::
  "string \<Rightarrow> module_config \<Rightarrow> string option \<Rightarrow> string \<Rightarrow> u16 \<Rightarrow> pool \<Rightarrow> cmos_pub \<times> cm_io \<Rightarrow> (cmos_pub \<times> cm_io) run" where
  "publish_pool_register junk cfg type key addr p s = do {
     let state = (if connection_state cfg = CONNECTION_CONNECTED then ''Alive'' else ''Disconnect'');
     (ok, v) \<leftarrow> pool_read_register p addr (Some 0);
     v \<leftarrow> v;
     if \<not> ok then Some s
     else do {
       (rc, s) \<leftarrow> cmos_publish junk (Some state) type (Some key) (Some (snprintf_text 8 (show_nat (unat v)))) s;
       Some s
     }
   }"

definition status_registers :: "(string \<times> u16) list" where
  "status_registers = [(''ups_warning_1'', 0xBB00), (''ups_warning_2'', 0xBB01), (''ups_warning_3'', 0xBB02),
     (''ups_warning_4'', 0xBB03), (''ups_battery_voltage'', 0xBB04), (''ups_battery_discharging_current'', 0xBB05)]"

text \<open>
  One pass of the publisher thread: what \<open>epoll\<close> and \<open>accept\<close> answer, the configurations and
  their number; \<open>junk\<close> is what the uninitialised array holds.
\<close>

definition pub_poll_iter ::
  "string \<Rightarrow> int \<Rightarrow> int \<Rightarrow> module_config list \<Rightarrow> nat \<Rightarrow> pool \<Rightarrow> cmos_pub \<times> cm_io \<Rightarrow> (cmos_pub \<times> cm_io) run" where
  "pub_poll_iter junk ready c cfgs n_ups p s = do {
     s \<leftarrow> cmos_pub_poll ready c s;
     foldM (\<lambda>i s. do {
         conf \<leftarrow> buf_load cfgs i;
         foldM (\<lambda>(key, addr) s. publish_pool_register junk conf None key addr p s) status_registers s
       }) [0..<n_ups] s
   }"

section \<open>Start and stop\<close>

datatype thread_handle = Thread_Unset | Thread_Running | Thread_Joined

record bridge =
  g_sub_thread :: thread_handle
  g_pub_poll_thread :: thread_handle
  g_bridge_running :: bool
  br_pub :: "cmos_pub \<times> cm_io"

text \<open>Cancelling or joining a handle that names no running thread is undefined.\<close>

definition join_thread :: "thread_handle \<Rightarrow> thread_handle run" where
  "join_thread h = (if h = Thread_Running then Some Thread_Joined else None)"

definition cancel_thread :: "thread_handle \<Rightarrow> unit run" where
  "cancel_thread h = (if h = Thread_Running then Some () else None)"

text \<open>\<open>ok1\<close> and \<open>ok2\<close>: whether the two threads can be created.\<close>

definition ups_cmos_bridge_start :: "pub_env \<Rightarrow> bool \<Rightarrow> bool \<Rightarrow> bridge \<Rightarrow> (int \<times> bridge) run" where
  "ups_cmos_bridge_start env ok1 ok2 b = do {
     (rc, s) \<leftarrow> cmos_pub_init env BRIDGE_MASTER_IP BRIDGE_MASTER_PORT BRIDGE_NODE_NAME BRIDGE_PUB_TOPIC BRIDGE_PUB_PORT (br_pub b);
     let b = b\<lparr>br_pub := s\<rparr>;
     if rc \<noteq> 0 then Some (- 1, b)
     else (let b = b\<lparr>g_bridge_running := True\<rparr> in
       if \<not> ok1 then do {
         s \<leftarrow> cmos_pub_close (br_pub b);
         Some (- 1, b\<lparr>g_bridge_running := False, br_pub := s\<rparr>)
       }
       else (let b = b\<lparr>g_pub_poll_thread := Thread_Running\<rparr> in
         if \<not> ok2 then do {
           h \<leftarrow> join_thread (g_pub_poll_thread b);
           s \<leftarrow> cmos_pub_close (br_pub b);
           Some (- 1, b\<lparr>g_bridge_running := False, g_pub_poll_thread := h, br_pub := s\<rparr>)
         }
         else Some (0, b\<lparr>g_sub_thread := Thread_Running\<rparr>)))
   }"

definition ups_cmos_bridge_stop :: "bridge \<Rightarrow> bridge run" where
  "ups_cmos_bridge_stop b = do {
     let b = b\<lparr>g_bridge_running := False\<rparr>;
     _ \<leftarrow> cancel_thread (g_sub_thread b);
     h1 \<leftarrow> join_thread (g_sub_thread b);
     h2 \<leftarrow> join_thread (g_pub_poll_thread b);
     s \<leftarrow> cmos_pub_close (br_pub b);
     Some (b\<lparr>g_sub_thread := h1, g_pub_poll_thread := h2, br_pub := s\<rparr>)
   }"

section \<open>Decimal values\<close>

lemma digit_in_ten: "d < 10 \<Longrightarrow> digit_in 10 (digit d) = Some d"
  by (simp add: digit_in_def digit_def)

lemma show_nat_plain: "plain (show_nat n)"
proof -
  have "show_nat n \<noteq> []" by (subst show_nat.simps) simp
  then show ?thesis using show_nat_digits digit_facts by (fastforce simp: plain_def)
qed

lemma show_nat_value: "value_in 10 (show_nat n) = n"
proof (induction n rule: show_nat.induct)
  case (1 n)
  have "value_in 10 (show_nat n) = (if n < 10 then n else 10 * value_in 10 (show_nat (n div 10)) + n mod 10)"
    by (subst show_nat.simps) (simp add: value_in_def digit_in_ten)
  then show ?case using 1 by simp
qed

text \<open>Reading back what was printed.\<close>

lemma strtoul_show:
  assumes "n < ULONG_LIMIT"
  shows "strtoul0 (show_nat n) = n"
proof (cases "n = 0")
  case True
  have "digit 0 = CHR ''0''" using digit_facts(4) [of 0] by simp
  then show ?thesis using True by (simp add: strtoul0_def show_nat.simps [of 0] is_space_def value_in_def digit_in_def ULONG_LIMIT_def)
next
  case False
  then obtain d r where d: "show_nat n = digit d # r" "0 < d" "d < 10" using show_nat_head [of n] by blast
  let ?t = "digit d # r"
  have "\<forall>c\<in>set ?t. digit_in 10 c \<noteq> None"
    using show_nat_digits [of n] d(1) digit_in_ten by fastforce
  then have tk: "takeWhile (\<lambda>c. digit_in 10 c \<noteq> None) ?t = ?t" by (simp only: takeWhile_eq_all_conv)
  have sk: "dropWhile is_space ?t = ?t" using digit_facts(1) [OF d(3)] by simp
  have base: "(case r of [] \<Rightarrow> (10, ?t) | [b] \<Rightarrow> (10, ?t) | b # _ \<Rightarrow> (10, ?t)) = (10 :: nat, ?t)"
    by (simp split: list.splits)
  show ?thesis
    using assms show_nat_value [of n] d digit_facts(2-4) [OF d(3)]
    unfolding strtoul0_def d(1) sk by (simp add: tk base Let_def cong: list.case_cong del: takeWhile.simps not_None_eq)
qed

section \<open>The write guard\<close>

lemma ups1_access:
  assumes "i < 22"
  shows "access (ups1_mapping_table ! i) = (if i < 18 then ACCESS_RO else ACCESS_RW)"
proof -
  have "map access ups1_mapping_table = replicate 18 ACCESS_RO @ replicate 4 ACCESS_RW"
    by (simp add: ups1_mapping_table_def numeral_eq_Suc)
  from arg_cong [OF this, of "\<lambda>l. l ! i"] show ?thesis using assms by (simp add: nth_append)
qed

lemma on_write_eq:
  "on_write uid addr v w = (if uid = 1 \<and> 0x12 \<le> addr \<and> addr \<le> 0x15
     then ups_cmd_push 1 addr (Some [v]) 1 UPS_WRITE_MODE_AUTO w
            \<bind> (\<lambda>(rc, w'). Some (if rc \<noteq> 0 then - 1 else 0, w'))
     else Some (- 1, w))"
proof (cases "uid = 1")
  case True
  have s: "device_find_slot (Some ups1_profile) addr = Some (slot_of ups1_mapping_table addr)"
    using ups1_wf by (rule device_find_slot_wf)
  have a: "(0x12 \<le> addr \<and> addr \<le> 0x15) \<longleftrightarrow> (addr < 22 \<and> \<not> unat addr < 18)"
    by (simp add: word_le_nat_alt word_less_nat_alt) linarith
  show ?thesis
    using True ups1_access [of "unat addr"] a
    by (cases "addr < 22") (auto simp: on_write_def ups_find_profile s ups1_slot word_less_nat_alt)
qed (simp add: on_write_def ups_find_profile)

section \<open>Commands\<close>

definition hmi_address :: "nat \<Rightarrow> u16" where
  "hmi_address j = [0x12, 0x13, 0x14, 0x15, 0x15] ! j"

lemma call_handler_eq:
  assumes "j < 5"
  shows "call_handler (j, topic, v) w
    = map_option snd (ups_cmd_push 1 (hmi_address j) (Some [word_of_nat (strtoul0 (cstr v))]) 1 UPS_WRITE_MODE_AUTO w)"
proof -
  have "j \<in> {0, 1, 2, 3, 4}" using assms by auto
  then show ?thesis
    by (auto simp: call_handler_def on_test_cmd_def on_shutdown_cmd_def on_time_cmd_def on_off_time_cmd_def
        on_trigger_cmd_def UPS_BRIDGE_DEFAULT_UID_def on_write_eq hmi_address_def option.map_comp comp_def
        map_conv_bind_option split: prod.splits intro!: arg_cong2 [of _ _ _ _ Option.bind])
qed

text \<open>
  Unit \<open>k\<close>, of configuration \<open>c\<close>, is the first running unit with identifier \<open>uid\<close>.
\<close>

definition unit_of_uid :: "ups_world \<Rightarrow> u8 \<Rightarrow> nat \<Rightarrow> nat \<Rightarrow> bool" where
  "unit_of_uid w uid k c \<longleftrightarrow> unit_wf w k c ups1_profile ups1_mapping_table
     \<and> word_of_int (modbus_uid (uw_cfgs w ! c)) = uid
     \<and> (\<forall>i<ups_unit_count w. \<exists>c'<length (uw_cfgs w). u_cfg (ups_units w ! i) = Some c'
          \<and> (i < k \<longrightarrow> word_of_int (modbus_uid (uw_cfgs w ! c')) \<noteq> uid))"

text \<open>The waiting commands of unit \<open>k\<close>, and what a world looks like after one more.\<close>

definition waiting :: "ups_world \<Rightarrow> nat \<Rightarrow> command list" where
  "waiting w k = queue_abs (cmd_queue (ups_units w ! k))"

definition queued_in :: "nat \<Rightarrow> command list \<Rightarrow> ups_world \<Rightarrow> ups_world \<Rightarrow> bool" where
  "queued_in k cmds w w' \<longleftrightarrow> waiting w' k = cmds
     \<and> (\<exists>q. w' = w\<lparr>ups_units := (ups_units w)[k := (ups_units w ! k)\<lparr>cmd_queue := q\<rparr>]\<rparr>)"

lemma queued_in_same: "queued_in k (waiting w k) w w"
proof -
  have "w = w\<lparr>ups_units := (ups_units w)[k := (ups_units w ! k)\<lparr>cmd_queue := cmd_queue (ups_units w ! k)\<rparr>]\<rparr>"
    by simp
  then show ?thesis unfolding queued_in_def by blast
qed

lemma unit_of_uid_push:
  assumes "unit_of_uid w 1 k c"
  shows "\<exists>rc w'. ups_cmd_push 1 a (Some [v]) 1 UPS_WRITE_MODE_AUTO w = Some (rc, w') \<and> unit_of_uid w' 1 k c
    \<and> (if length (waiting w k) = 16 then rc = - 1 \<and> w' = w
       else rc = 0 \<and> queued_in k (waiting w k @ [(a, [v], UPS_WRITE_MODE_AUTO)]) w w')"
proof -
  have u: "unit_wf w k c ups1_profile ups1_mapping_table" "word_of_int (modbus_uid (uw_cfgs w ! c)) = (1 :: u8)"
      "\<forall>i<ups_unit_count w. \<exists>c'<length (uw_cfgs w). u_cfg (ups_units w ! i) = Some c'
          \<and> (i < k \<longrightarrow> word_of_int (modbus_uid (uw_cfgs w ! c')) \<noteq> (1 :: u8))"
    using assms by (auto simp: unit_of_uid_def)
  have k: "k < length (ups_units w)" using u(1) by (simp add: unit_wf_def)
  have one: "0 < (1 :: u16)" "(1 :: u16) \<le> 123" "unat (1 :: u16) \<le> length [v]" by simp_all
  from cmd_push_ok [OF u one, of a UPS_WRITE_MODE_AUTO]
  show ?thesis
  proof (elim disjE exE conjE)
    fix q' let ?w = "upd_unit k (\<lambda>u. u\<lparr>cmd_queue := q'\<rparr>) w"
    assume q: "ups_cmd_push 1 a (Some [v]) 1 UPS_WRITE_MODE_AUTO w = Some (0, ?w)"
      "length (queue_abs (cmd_queue (ups_units w ! k))) < 16"
      "queue_abs q' = queue_abs (cmd_queue (ups_units w ! k)) @ [(a, take (unat (1 :: u16)) [v], UPS_WRITE_MODE_AUTO)]"
      "unit_wf ?w k c ups1_profile ups1_mapping_table"
    have "queued_in k (waiting w k @ [(a, [v], UPS_WRITE_MODE_AUTO)]) w ?w"
      using q(3) k by (auto simp: queued_in_def waiting_def)
    moreover have "unit_of_uid ?w 1 k c"
    proof -
      have "u_cfg ((ups_units w)[k := (ups_units w ! k)\<lparr>cmd_queue := q'\<rparr>] ! i) = u_cfg (ups_units w ! i)" for i
        using k by (cases "i = k") simp_all
      then show ?thesis using q(4) u(2,3) by (simp add: unit_of_uid_def)
    qed
    ultimately show ?thesis using q(1,2) by (auto simp: waiting_def)
  qed (use assms in \<open>auto simp: waiting_def\<close>)
qed

text \<open>What a full queue does to a further command.\<close>

definition accept_cmd :: "command \<Rightarrow> command list \<Rightarrow> command list" where
  "accept_cmd x cmds = (if length cmds = 16 then cmds else cmds @ [x])"

definition hmi_cmd :: "nat \<Rightarrow> nat \<Rightarrow> command" where
  "hmi_cmd j n = (hmi_address j, [word_of_nat n], UPS_WRITE_MODE_AUTO)"

lemma queued_in_trans:
  assumes "k < length (ups_units w)" and "queued_in k xs w w'" and "queued_in k ys w' w''"
  shows "queued_in k ys w w''"
  using assms by (auto simp: queued_in_def)

lemma call_handler_ok:
  assumes "unit_of_uid w 1 k c" and "j < 5" and "n < ULONG_LIMIT"
  shows "\<exists>w'. call_handler (j, topic, show_nat n) w = Some w' \<and> unit_of_uid w' 1 k c
    \<and> queued_in k (accept_cmd (hmi_cmd j n) (waiting w k)) w w'"
proof -
  have v: "strtoul0 (cstr (show_nat n)) = n"
    using strtoul_show [OF assms(3)] plain_tokens(5) [OF show_nat_plain] by simp
  from unit_of_uid_push [OF assms(1), of "hmi_address j" "word_of_nat n"] obtain rc w' where
    "ups_cmd_push 1 (hmi_address j) (Some [word_of_nat n]) 1 UPS_WRITE_MODE_AUTO w = Some (rc, w')"
    "unit_of_uid w' 1 k c" "if length (waiting w k) = 16 then rc = - 1 \<and> w' = w
       else rc = 0 \<and> queued_in k (waiting w k @ [(hmi_address j, [word_of_nat n], UPS_WRITE_MODE_AUTO)]) w w'"
    by blast
  then show ?thesis
    using call_handler_eq [OF assms(2), of topic "show_nat n" w] v queued_in_same [of k w]
    by (auto simp: accept_cmd_def hmi_cmd_def split: if_splits)
qed

lemma call_handlers_ok:
  assumes "unit_of_uid w 1 k c" and "\<forall>(j, n)\<in>set ms. j < 5 \<and> n < ULONG_LIMIT"
  shows "\<exists>w'. foldM call_handler (map (\<lambda>(j, n). (j, topic, show_nat n)) ms) w = Some w' \<and> unit_of_uid w' 1 k c
    \<and> queued_in k (fold (\<lambda>(j, n). accept_cmd (hmi_cmd j n)) ms (waiting w k)) w w'"
  using assms
proof (induction ms arbitrary: w)
  case Nil
  then show ?case using queued_in_same by simp
next
  case (Cons m ms)
  obtain j n where m: "m = (j, n)" by (cases m)
  have k: "k < length (ups_units w)" using Cons(2) by (simp add: unit_of_uid_def unit_wf_def)
  obtain w1 where 1: "call_handler (j, topic, show_nat n) w = Some w1" "unit_of_uid w1 1 k c"
      "queued_in k (accept_cmd (hmi_cmd j n) (waiting w k)) w w1"
    using call_handler_ok [OF Cons(2), of j n topic] Cons(3) m by auto
  have q: "waiting w1 k = accept_cmd (hmi_cmd j n) (waiting w k)" using 1(3) by (simp add: queued_in_def)
  from Cons(1) [OF 1(2)] Cons(3) obtain w2 where 2:
      "foldM call_handler (map (\<lambda>(j, n). (j, topic, show_nat n)) ms) w1 = Some w2" "unit_of_uid w2 1 k c"
      "queued_in k (fold (\<lambda>(j, n). accept_cmd (hmi_cmd j n)) ms (waiting w1 k)) w1 w2"
    by auto
  show ?case using 1(1) 2 q m queued_in_trans [OF k 1(3) 2(3)] by simp
qed

section \<open>Command lines\<close>

text \<open>The five subscriptions of the bridge.\<close>

definition hmi_slot :: "nat \<Rightarrow> cm_sub_slot \<Rightarrow> bool" where
  "hmi_slot j sl \<longleftrightarrow> cstr (sl_topic sl) = BRIDGE_SUB_HMI_TOPIC \<and> cstr (filter_state sl) = []
     \<and> cstr (filter_type sl) = ''command'' \<and> cstr (filter_key sl) = fst (hmi_commands ! j) \<and> sl_cb sl = Some j"

definition hmi_subscribed :: "cmos_sub_ctx \<Rightarrow> bool" where
  "hmi_subscribed ctx \<longleftrightarrow> sub_slot_count ctx = 5 \<and> (\<forall>j<5. hmi_slot j (sub_slots ctx ! j))"

text \<open>The message of command \<open>j\<close> with a number, as published.\<close>

definition hmi_text :: "nat \<Rightarrow> nat \<Rightarrow> string" where
  "hmi_text j n = message_text None (Some ''command'') (Some (fst (hmi_commands ! j))) (Some (show_nat n))"

definition hmi_line :: "nat \<times> nat \<Rightarrow> string" where
  "hmi_line m = wire_line BRIDGE_SUB_HMI_TOPIC (hmi_text (fst m) (snd m))"

lemma hmi_keys:
  assumes "j < 5"
  shows "plain (fst (hmi_commands ! j))" "length (fst (hmi_commands ! j)) \<le> 12" "snd (hmi_commands ! j) = j"
    and "j' < 5 \<Longrightarrow> fst (hmi_commands ! j) = fst (hmi_commands ! j') \<longleftrightarrow> j = j'"
proof -
  have k: "fst (hmi_commands ! j) = [''ups_test'', ''ups_shutdown'', ''on_time'', ''off_time'', ''trigger''] ! j"
    if "j < 5" for j
  proof -
    have "j \<in> {0, 1, 2, 3, 4}" using that by auto
    then show ?thesis by (auto simp: hmi_commands_def)
  qed
  have "j \<in> {0, 1, 2, 3, 4}" using assms by auto
  then show "plain (fst (hmi_commands ! j))" "length (fst (hmi_commands ! j)) \<le> 12" "snd (hmi_commands ! j) = j"
    by (auto simp: hmi_commands_def plain_def)
  let ?l = "[''ups_test'', ''ups_shutdown'', ''on_time'', ''off_time'', ''trigger'']"
  have "distinct ?l" "length ?l = 5" by simp_all
  from nth_eq_iff_index_eq [OF this(1), of j j'] this(2) show "fst (hmi_commands ! j) = fst (hmi_commands ! j') \<longleftrightarrow> j = j'" if "j' < 5"
    using assms that by (simp only: k)
qed

lemma hmi_fields:
  assumes "j < 5"
  shows "fields_plain [None, Some ''command'', Some (fst (hmi_commands ! j)), Some (show_nat n)]"
  using hmi_keys(1) [OF assms] show_nat_plain by (simp add: fields_plain_def) (simp add: plain_def)

lemma hmi_text_eq:
  assumes "j < 5"
  shows "hmi_text j n = ''type=command key='' @ fst (hmi_commands ! j) @ '' value='' @ show_nat n"
  using plain_tokens(5) [OF hmi_keys(1) [OF assms]] plain_tokens(5) [OF show_nat_plain [of n]]
  by (simp add: hmi_text_def message_text_def labelled_def cstr_def [of "''command''"])

lemma hmi_topic: "plain BRIDGE_SUB_HMI_TOPIC" "length BRIDGE_SUB_HMI_TOPIC = 7" "cstr BRIDGE_SUB_HMI_TOPIC = BRIDGE_SUB_HMI_TOPIC"
  by (simp_all add: BRIDGE_SUB_HMI_TOPIC_def plain_def cstr_def)

lemma hmi_line_facts:
  assumes "j < 5" and "n < ULONG_LIMIT"
  shows "length (hmi_line (j, n)) \<le> 90"
    and "\<exists>l. hmi_line (j, n) = l @ [CHR 0x0A] \<and> CHR 0x0A \<notin> set l"
proof -
  have "length (show_nat n) \<le> 20" using assms(2) by (intro show_nat_length) (simp_all add: ULONG_LIMIT_def)
  then show "length (hmi_line (j, n)) \<le> 90"
    using hmi_keys(2) [OF assms(1)] hmi_topic(2) by (simp add: hmi_line_def wire_line_def hmi_text_eq [OF assms(1)])
  have key: "CHR 0x0A \<notin> set (fst (hmi_commands ! j))" "CHR 0x0A \<notin> set (show_nat n)"
    using hmi_keys(1) [OF assms(1)] show_nat_plain [of n] unfolding plain_def by blast+
  have b: "CHR 0x0A \<notin> set (hmi_text j n)" unfolding hmi_text_eq [OF assms(1)] using key by simp
  have t: "CHR 0x0A \<notin> set BRIDGE_SUB_HMI_TOPIC" using hmi_topic(1) by (auto simp: plain_def)
  let ?l = "''MSG '' @ BRIDGE_SUB_HMI_TOPIC @ '' '' @ hmi_text j n"
  have "CHR 0x0A \<notin> set ?l" using b t by simp
  moreover have "hmi_line (j, n) = ?l @ [CHR 0x0A]"
    unfolding hmi_line_def wire_line_def fst_conv snd_conv by (simp only: append_assoc)
  ultimately show "\<exists>l. hmi_line (j, n) = l @ [CHR 0x0A] \<and> CHR 0x0A \<notin> set l" by blast
qed

text \<open>The calls a list of commands makes on the connection of slot \<open>j\<close>.\<close>

definition hmi_calls :: "nat \<Rightarrow> (nat \<times> nat) list \<Rightarrow> (nat \<times> string \<times> string) list" where
  "hmi_calls j ms = map (\<lambda>(i, n). (i, BRIDGE_SUB_HMI_TOPIC, show_nat n)) (filter (\<lambda>m. fst m = j) ms)"

lemma hmi_line_handled:
  assumes "sub_good (ctx, io0)" and "hmi_subscribed ctx" and "j < 5" and "i < 5" and "n < ULONG_LIMIT"
  shows "ctx_handle_line ctx (int j) (line_copy (hmi_line (i, n))) io
    = Some (io\<lparr>io_calls := io_calls io @ hmi_calls j [(i, n)]\<rparr>)"
proof -
  let ?sl = "sub_slots ctx ! j"
  have sl: "cstr (sl_topic ?sl) = BRIDGE_SUB_HMI_TOPIC" "cstr (filter_state ?sl) = []" "cstr (filter_type ?sl) = ''command''"
      "cstr (filter_key ?sl) = fst (hmi_commands ! j)" "sl_cb ?sl = Some j" "j < sub_slot_count ctx"
    using assms(2,3) by (auto simp: hmi_subscribed_def hmi_slot_def)
  have len: "length (wire_line BRIDGE_SUB_HMI_TOPIC (hmi_text i n)) \<le> 511"
    using hmi_line_facts(1) [OF assms(4,5)] by (simp add: hmi_line_def)
  have k: "fst (hmi_commands ! i) = fst (hmi_commands ! j) \<longleftrightarrow> i = j" using hmi_keys(4) assms(3,4) by blast
  have "plain (fst (hmi_commands ! j))" using hmi_keys(1) [OF assms(3)] .
  then have ne: "fst (hmi_commands ! j) \<noteq> []" by (simp add: plain_def)
  have io: "io\<lparr>io_calls := io_calls io\<rparr> = io" by simp
  show ?thesis
    unfolding hmi_line_def fst_conv snd_conv
    using handle_line_matches [OF assms(1) sl(6) hmi_topic(1) hmi_fields [OF assms(4)] _ len [unfolded hmi_text_def]] sl k ne
    by (auto simp: hmi_text_def [symmetric] matches_def hmi_calls_def Let_def)
qed

lemma hmi_lines_handled:
  assumes "sub_good (ctx, io0)" and "hmi_subscribed ctx" and "j < 5" and "\<forall>(i, n)\<in>set ms. i < 5 \<and> n < ULONG_LIMIT"
  shows "foldM (\<lambda>l io. ctx_handle_line ctx (int j) (line_copy l) io) (map hmi_line ms) io
    = Some (io\<lparr>io_calls := io_calls io @ hmi_calls j ms\<rparr>)"
  using assms(4)
proof (induction ms arbitrary: io)
  case (Cons m ms)
  obtain i n where m: "m = (i, n)" by (cases m)
  then show ?case
    using Cons hmi_line_handled [OF assms(1-3), of i n io] by (simp add: hmi_calls_def)
qed (simp add: hmi_calls_def)

lemma split_whole_lines:
  "\<forall>l\<in>set ls. \<exists>w. l = w @ [CHR 0x0A] \<and> CHR 0x0A \<notin> set w \<Longrightarrow> split_lines (concat ls) = (ls, [])"
proof (induction ls)
  case (Cons l ls)
  then obtain w where w: "l = w @ [CHR 0x0A]" "CHR 0x0A \<notin> set w" by auto
  have "split_lines (concat ls) = (ls, [])" using Cons by simp
  then show ?case using split_line [OF w(2), of "concat ls"] w(1) by simp
qed (simp add: split_none)

lemma split_hmi_lines:
  assumes "\<forall>(i, n)\<in>set ms. i < 5 \<and> n < ULONG_LIMIT"
  shows "split_lines (concat (map hmi_line ms)) = (map hmi_line ms, [])"
  using assms hmi_line_facts(2) by (intro split_whole_lines) fastforce

lemma chunks_fit_short:
  assumes "\<forall>c\<in>set cs. c \<noteq> []" and "length (rx @ concat cs) \<le> 2047"
  shows "chunks_fit rx cs"
  using assms
proof (induction cs arbitrary: rx)
  case (Cons c cs)
  obtain ls rest where s: "split_lines (rx @ c) = (ls, rest)" by (metis surj_pair)
  then have "length rest \<le> length (rx @ c)" using split_rest [OF s] by (metis length_append le_add2)
  then show ?case using Cons s by simp
qed simp

text \<open>
  One round of the bridge's receive loop on the connection of slot \<open>j\<close>: the lines of the
  commands \<open>ms\<close>, cut anyhow, push the commands for this slot, in order.
\<close>

lemma bridge_round_ok:
  assumes "sub_good (ctx, io)" and "hmi_subscribed ctx" and "i < 512" and "pc_active (pub_conns ctx ! i)"
    and "pc_sub_slot (pub_conns ctx ! i) = int j" and "j < 5" and "pc_rx (pub_conns ctx ! i) = []"
    and "\<forall>(i, n)\<in>set ms. i < 5 \<and> n < ULONG_LIMIT" and "concat chunks = concat (map hmi_line ms)"
    and "chunks_fit [] chunks" and "now - prev < 2" and "unit_of_uid w 1 k c"
  shows "\<exists>io' w'. bridge_round now (map (\<lambda>c. (i, Some c)) chunks) ((prev, ctx, io), w) = Some ((prev, ctx, io'), w')
    \<and> unit_of_uid w' 1 k c
    \<and> queued_in k (fold (\<lambda>(j, n). accept_cmd (hmi_cmd j n)) (filter (\<lambda>m. fst m = j) ms) (waiting w k)) w w'"
proof -
  let ?io = "io\<lparr>io_calls := []\<rparr>"
  have good: "sub_good (ctx, ?io)" using good_same_fds [OF assms(1), of ?io] by simp
  have len: "length (pub_conns ctx) = 512" using assms(1) by (simp add: sub_good_def sub_inv_def)
  have "pub_conns ctx ! i \<in> set (filter pc_active (pub_conns ctx))" using assms(3,4) len by simp
  then have "0 < length (filter pc_active (pub_conns ctx))" by (rule length_pos_if_in_set)
  then have act: "\<exists>n>0. ctx_active_count ctx = Some n"
    using active_count_ok [of ctx "(ctx, ?io)"] good by (simp add: sub_ok_def)
  have ll: "\<forall>l\<in>set (map hmi_line ms). length l \<le> 2047"
    using assms(8) hmi_line_facts(1) by fastforce
  have sp: "split_lines ([] @ concat chunks) = (map hmi_line ms, [])"
    using split_hmi_lines [OF assms(8)] assms(9) by simp
  let ?io1 = "?io\<lparr>io_calls := hmi_calls j ms\<rparr>"
  have same: "(pub_conns ctx)[i := (pub_conns ctx ! i)\<lparr>pc_rx := []\<rparr>] = pub_conns ctx"
    using assms(7) by (metis list_update_id cm_pub_conn.surjective cm_pub_conn.update_convs(3))
  have ev: "foldM handle_event (map (\<lambda>c. (i, Some c)) chunks) (ctx, ?io) = Some (ctx, ?io1)"
    using chunks_loop [OF good assms(3,4,7,10) sp ll] hmi_lines_handled [OF good assms(2,6,8), of ?io] assms(5) same
    by simp
  have sr: "spin_round now (map (\<lambda>c. (i, Some c)) chunks) (prev, ctx, ?io) = Some (prev, ctx, ?io1)"
    using act ev assms(11) by (auto simp: spin_round_def)
  have ms: "\<forall>(j, n)\<in>set (filter (\<lambda>m. fst m = j) ms). j < 5 \<and> n < ULONG_LIMIT" using assms(8) by auto
  from call_handlers_ok [OF assms(12) ms, of BRIDGE_SUB_HMI_TOPIC] sr show ?thesis
    by (auto simp: bridge_round_def hmi_calls_def)
qed

lemma add_hmi:
  assumes "sub_good (ctx, io)" and "sub_slot_count ctx = j" and "j < 5" and "\<forall>i<j. hmi_slot i (sub_slots ctx ! i)"
  shows "\<exists>rc ctx' io'. cmos_sub_add (Some BRIDGE_SUB_HMI_TOPIC) None (Some ''command'') (Some (fst (hmi_commands ! j)))
      (Some (snd (hmi_commands ! j))) (Some ctx, io) = Some (rc, Some ctx', io')
    \<and> sub_good (ctx', io') \<and> sub_slot_count ctx' = Suc j \<and> (\<forall>i<Suc j. hmi_slot i (sub_slots ctx' ! i))"
proof -
  let ?key = "fst (hmi_commands ! j)"
  have c: "cstr ?key = ?key" "length ?key \<le> 12" "snd (hmi_commands ! j) = j"
    using hmi_keys [OF assms(3)] plain_tokens(5) by auto
  then have tk: "take 31 (cstr ?key) = ?key" "take 31 (cstr ''command'') = ''command''"
      "take 63 (cstr BRIDGE_SUB_HMI_TOPIC) = BRIDGE_SUB_HMI_TOPIC"
    using hmi_topic(2,3) by (simp_all add: cstr_def [of "''command''"])
  from add_good [OF assms(1), of "Some BRIDGE_SUB_HMI_TOPIC" None "Some ''command''" "Some ?key" "Some (snd (hmi_commands ! j))"]
  obtain rc ctx' io' where a: "cmos_sub_add (Some BRIDGE_SUB_HMI_TOPIC) None (Some ''command'') (Some ?key)
      (Some (snd (hmi_commands ! j))) (Some ctx, io) = Some (rc, Some ctx', io')" "sub_good (ctx', io')"
    "sub_slot_count ctx' = Suc j" "\<forall>i<j. sub_slots ctx' ! i = sub_slots ctx ! i"
    "hmi_slot j (sub_slots ctx' ! j)"
    using assms(2,3) tk c(3) by (auto simp: hmi_slot_def Let_def cstr_def [of "[]"])
  have "\<forall>i<Suc j. hmi_slot i (sub_slots ctx' ! i)" using a(4,5) assms(4) less_Suc_eq by auto
  with a(1-3) show ?thesis by blast
qed

lemma sub_thread_some:
  assumes "opened (io_fds io) = closed (io_fds io)"
    and "cmos_sub_create env BRIDGE_MASTER_IP BRIDGE_MASTER_PORT ''ups_sub'' io = Some (Some ctx0, io0)"
  shows "\<exists>ctx io1. cmos_sub_thread env io = Some (Some ctx, io1) \<and> sub_good (ctx, io1) \<and> hmi_subscribed ctx"
proof -
  have g0: "sub_good (ctx0, io0)" "sub_slot_count ctx0 = 0"
    using create_good [OF assms(1), of env BRIDGE_MASTER_IP BRIDGE_MASTER_PORT "''ups_sub''"] assms(2) by auto
  let ?f = "\<lambda>(key, cb) (ctx, io). cmos_sub_add (Some BRIDGE_SUB_HMI_TOPIC) None (Some ''command'') (Some key) (Some cb) (ctx, io)
      \<bind> (\<lambda>(rc, ctx, io). Some (ctx, io))"
  have len: "length hmi_commands = 5" by (simp add: hmi_commands_def)
  have "\<exists>ctx io1. foldM ?f (take n hmi_commands) (Some ctx0, io0) = Some (Some ctx, io1) \<and> sub_good (ctx, io1)
      \<and> sub_slot_count ctx = n \<and> (\<forall>i<n. hmi_slot i (sub_slots ctx ! i))" if "n \<le> 5" for n
    using that
  proof (induction n)
    case 0
    then show ?case using g0 by simp
  next
    case (Suc n)
    then have "n \<le> 5" by simp
    from Suc(1) [OF this] obtain ctx io1 where 1: "foldM ?f (take n hmi_commands) (Some ctx0, io0) = Some (Some ctx, io1)"
        "sub_good (ctx, io1)" "sub_slot_count ctx = n" "\<forall>i<n. hmi_slot i (sub_slots ctx ! i)"
      by blast
    have tk: "take (Suc n) hmi_commands = take n hmi_commands @ [hmi_commands ! n]"
      using Suc(2) len by (simp add: take_Suc_conv_app_nth)
    have "n < 5" using Suc(2) by simp
    from add_hmi [OF 1(2,3) this 1(4)] obtain rc ctx' io' where a:
        "cmos_sub_add (Some BRIDGE_SUB_HMI_TOPIC) None (Some ''command'') (Some (fst (hmi_commands ! n)))
          (Some (snd (hmi_commands ! n))) (Some ctx, io1) = Some (rc, Some ctx', io')"
        "sub_good (ctx', io')" "sub_slot_count ctx' = Suc n" "\<forall>i<Suc n. hmi_slot i (sub_slots ctx' ! i)"
      by blast
    then have "?f (hmi_commands ! n) (Some ctx, io1) = Some (Some ctx', io')" by (simp add: case_prod_unfold)
    then show ?case using a(2-4) 1(1) unfolding tk foldM_append by simp
  qed
  from this [of 5] len obtain ctx io1 where 2: "foldM ?f hmi_commands (Some ctx0, io0) = Some (Some ctx, io1)"
      "sub_good (ctx, io1)" "hmi_subscribed ctx"
    by (auto simp: hmi_subscribed_def)
  then have "cmos_sub_thread env io = Some (Some ctx, io1)"
    using assms(2) by (simp add: cmos_sub_thread_def)
  then show ?thesis using 2 by blast
qed

lemma sub_thread_total:
  assumes "opened (io_fds io) = closed (io_fds io)"
  shows "\<exists>r io1. cmos_sub_thread env io = Some (r, io1)
    \<and> (\<forall>ctx. r = Some ctx \<longrightarrow> sub_good (ctx, io1) \<and> hmi_subscribed ctx)"
proof -
  obtain r io0 where r: "cmos_sub_create env BRIDGE_MASTER_IP BRIDGE_MASTER_PORT ''ups_sub'' io = Some (r, io0)"
    using create_good [OF assms] by blast
  show ?thesis
  proof (cases r)
    case None
    then show ?thesis using r by (simp add: cmos_sub_thread_def)
  next
    case (Some ctx0)
    then show ?thesis using sub_thread_some [OF assms] r by fastforce
  qed
qed

lemma cleanup_ok:
  "sub_good (ctx, io) \<Longrightarrow> \<exists>io'. cleanup_sub_ctx (Some ctx, io) = Some io' \<and> opened (io_fds io') = closed (io_fds io')"
  using destroy_ok by (fastforce simp: cleanup_sub_ctx_def)

text \<open>
  C26: the bridge's subscriptions. Once the subscriber is created, the thread enters its receive
  loop with exactly the five subscriptions of the HMI commands, each with its own callback, in a
  well-formed context, whatever the master answers; the clean-up handler then closes every
  descriptor that was opened.
\<close>

theorem bridge_subscribes:
  assumes "opened (io_fds io) = closed (io_fds io)"
    and "cmos_sub_create env BRIDGE_MASTER_IP BRIDGE_MASTER_PORT ''ups_sub'' io = Some (Some ctx0, io0)"
  shows "\<exists>ctx io1 io2. cmos_sub_thread env io = Some (Some ctx, io1) \<and> sub_good (ctx, io1) \<and> hmi_subscribed ctx
    \<and> cleanup_sub_ctx (Some ctx, io1) = Some io2 \<and> opened (io_fds io2) = closed (io_fds io2)"
  using sub_thread_some [OF assms] cleanup_ok by blast

theorem bridge_subscribes_witness:
  "\<exists>ctx io1 io2. cmos_sub_thread \<lparr>e_calloc_ok = True, e_epoll = 3\<rparr> demo_sub_io = Some (Some ctx, io1)
    \<and> sub_good (ctx, io1) \<and> hmi_subscribed ctx
    \<and> cleanup_sub_ctx (Some ctx, io1) = Some io2 \<and> opened (io_fds io2) = closed (io_fds io2)"
proof -
  obtain ctx io1 where c: "cmos_sub_create \<lparr>e_calloc_ok = True, e_epoll = 3\<rparr> BRIDGE_MASTER_IP BRIDGE_MASTER_PORT ''ups_sub'' demo_sub_io
      = Some (Some ctx, io1)"
    using demo_create by (auto simp: BRIDGE_MASTER_IP_def BRIDGE_MASTER_PORT_def)
  have "opened (io_fds demo_sub_io) = closed (io_fds demo_sub_io)" by (simp add: demo_sub_io_def demo_io_def)
  then show ?thesis by (rule bridge_subscribes [OF _ c])
qed

section \<open>Status messages\<close>

text \<open>Sending several lines one after the other.\<close>

fun deliver_lines :: "string list \<Rightarrow> int list \<Rightarrow> int list \<Rightarrow> int list \<times> (int \<times> string) list \<times> int list" where
  "deliver_lines [] fds rcs = (fds, [], rcs)"
| "deliver_lines (l # ls) fds rcs =
     (case deliver l fds rcs of (live, wire, cls, rest) \<Rightarrow>
      case deliver_lines ls live rest of (live', wire', rest') \<Rightarrow> (live', wire @ wire', rest'))"

lemma deliver_lines_append:
  "deliver_lines (ls @ ms) fds rcs =
     (case deliver_lines ls fds rcs of (live, wire, rest) \<Rightarrow>
      case deliver_lines ms live rest of (live', wire', rest') \<Rightarrow> (live', wire @ wire', rest'))"
  by (induction ls arbitrary: fds rcs) (simp_all split: prod.splits)

definition pub_sent :: "string list \<Rightarrow> cmos_pub \<times> cm_io \<Rightarrow> cmos_pub \<times> cm_io \<Rightarrow> bool" where
  "pub_sent lines s s' \<longleftrightarrow> pub_inv (fst s') \<and> same_pub (fst s) (fst s')
     \<and> (\<exists>wire. deliver_lines lines (subs (fst s)) (io_send_rc (snd s)) = (subs (fst s'), wire, io_send_rc (snd s'))
          \<and> io_wire (snd s') = io_wire (snd s) @ wire)"

lemma pub_sent_append: "pub_sent ls s s' \<Longrightarrow> pub_sent ms s' s'' \<Longrightarrow> pub_sent (ls @ ms) s s''"
  by (auto simp: pub_sent_def deliver_lines_append same_pub_def)

lemma pub_sent_fold:
  assumes "\<And>x s. x \<in> set xs \<Longrightarrow> pub_inv (fst s) \<Longrightarrow> cstr (pub_topic (fst s)) = t \<Longrightarrow> \<exists>s'. f x s = Some s' \<and> pub_sent (g x) s s'"
    and "pub_inv (fst s)" and "cstr (pub_topic (fst s)) = t"
  shows "\<exists>s'. foldM f xs s = Some s' \<and> pub_sent (concat (map g xs)) s s'"
  using assms
proof (induction xs arbitrary: s)
  case Nil
  then show ?case by (simp add: pub_sent_def)
next
  case (Cons x xs)
  obtain s1 where 1: "f x s = Some s1" "pub_sent (g x) s s1" using Cons(2) [of x s] Cons(3,4) by auto
  then have "pub_inv (fst s1)" "cstr (pub_topic (fst s1)) = t" using Cons(4) by (auto simp: pub_sent_def same_pub_def)
  from Cons(1) [OF _ this] Cons(2) obtain s2 where "foldM f xs s1 = Some s2" "pub_sent (concat (map g xs)) s1 s2" by auto
  then show ?case using 1 pub_sent_append by auto
qed

definition status_text :: "module_config \<Rightarrow> string \<Rightarrow> u16 \<Rightarrow> string" where
  "status_text cfg key v = message_text
     (Some (if connection_state cfg = CONNECTION_CONNECTED then ''Alive'' else ''Disconnect'')) None
     (Some key) (Some (show_nat (unat v)))"

lemma show_u16_length: "length (show_nat (unat (v :: u16))) \<le> 5"
proof -
  have "unat v < 2 ^ 16" using unsigned_less [of v] by simp
  then show ?thesis by (intro show_nat_length) simp_all
qed

lemma status_text_length: "length key \<le> 31 \<Longrightarrow> length (status_text cfg key v) < 896"
proof -
  assume k: "length key \<le> 31"
  have "length (cstr key) \<le> 31" using k length_takeWhile_le [of _ key] le_trans unfolding cstr_def by blast
  moreover have "length (cstr (show_nat (unat v))) \<le> 5"
    using show_u16_length [of v] length_takeWhile_le [of _ "show_nat (unat v)"] le_trans unfolding cstr_def by blast
  moreover have "length (cstr ''Alive'') = 5" "length (cstr ''Disconnect'') = 10" by (simp_all add: cstr_def)
  ultimately show ?thesis by (auto simp: status_text_def message_text_def labelled_def)
qed

lemma publish_pool_register_ok:
  assumes "pub_inv (fst s)" and "length junk = 896" and "unat addr < 65535" and "length key \<le> 31"
  shows "\<exists>s'. publish_pool_register junk cfg None key addr p s = Some s'
    \<and> pub_sent [wire_line (cstr (pub_topic (fst s))) (status_text cfg key (p (unat addr)))] s s'"
proof -
  obtain q io where s: "s = (q, io)" by (cases s)
  let ?st = "if connection_state cfg = CONNECTION_CONNECTED then ''Alive'' else ''Disconnect''" and ?v = "p (unat addr)"
  have sn: "snprintf_text 8 (show_nat (unat ?v)) = show_nat (unat ?v)"
    using show_u16_length [of ?v] by (simp add: snprintf_text_def)
  let ?buf = "''MSG '' @ cstr (pub_topic q) @ '' '' @ message_text (Some ?st) None (Some key) (Some (show_nat (unat ?v))) @ [CHR 0x0A]"
  have wl: "?buf = wire_line (cstr (pub_topic q)) (status_text cfg key ?v)" by (simp add: wire_line_def status_text_def)
  obtain live wire cls rest where d: "deliver ?buf (subs q) (io_send_rc io) = (live, wire, cls, rest)"
    by (cases "deliver ?buf (subs q) (io_send_rc io)")
  let ?io = "io\<lparr>io_wire := io_wire io @ wire, io_fds := io_fds io @ cls, io_send_rc := rest\<rparr>"
  obtain q' where q': "cmos_publish junk (Some ?st) None (Some key) (Some (show_nat (unat ?v))) (q, io) = Some (0, q', ?io)"
      "pub_inv q'" "subs q' = live" "same_pub q q'"
    using publish_ok [OF _ assms(2) _ _ d] assms(1) s status_text_length [OF assms(4), of cfg ?v]
    by (auto simp: status_text_def)
  have "publish_pool_register junk cfg None key addr p s = Some (q', ?io)"
    using assms(3) q'(1) sn s
    by (simp add: publish_pool_register_def pool_read_register_def pool_load_def INTERNAL_POOL_SIZE_def)
  moreover have "pub_sent [wire_line (cstr (pub_topic q)) (status_text cfg key ?v)] s (q', ?io)"
    using q'(2-4) d s unfolding wl by (simp add: pub_sent_def)
  ultimately show ?thesis using s by simp
qed

text \<open>A pass of the publisher thread is defined and keeps the publisher and its sockets in order.\<close>

lemma publish_pool_register_keeps:
  assumes "pub_inv (fst s)" and "balanced s" and "length junk = 896" and "length key \<le> 31"
  shows "\<exists>s'. publish_pool_register junk cfg None key addr p s = Some s' \<and> pub_inv (fst s') \<and> balanced s'"
proof -
  let ?st = "if connection_state cfg = CONNECTION_CONNECTED then ''Alive'' else ''Disconnect''" and ?v = "p (unat addr)"
  have sn: "snprintf_text 8 (show_nat (unat ?v)) = show_nat (unat ?v)"
    using show_u16_length [of ?v] by (simp add: snprintf_text_def)
  obtain q' io' where "cmos_publish junk (Some ?st) None (Some key) (Some (show_nat (unat ?v))) s = Some (0, q', io')"
      "pub_inv q'" "balanced (q', io')"
    using publish_balanced [of "fst s" "snd s" junk "Some ?st" None "Some key" "Some (show_nat (unat ?v))"]
      status_text_length [OF assms(4), of cfg ?v] assms(1-3)
    by (auto simp: status_text_def)
  then show ?thesis
    using assms(1,2) sn
    by (cases s) (simp add: publish_pool_register_def pool_read_register_def pool_load_def INTERNAL_POOL_SIZE_def)
qed

lemma pub_poll_iter_keeps:
  assumes "pub_inv (fst s)" and "balanced s" and "length junk = 896" and "n \<le> length cfgs"
  shows "\<exists>s'. pub_poll_iter junk ready c cfgs n p s = Some s' \<and> pub_inv (fst s') \<and> balanced s'"
proof -
  let ?P = "\<lambda>s. pub_inv (fst s) \<and> balanced s"
  obtain s0 where 0: "cmos_pub_poll ready c s = Some s0" "?P s0"
    using poll_ok [of "fst s" "snd s" ready c] assms(1,2) by auto
  have reg: "length (fst x) \<le> 31" if "x \<in> set status_registers" for x
    using that by (auto simp: status_registers_def)
  have "\<exists>s'. foldM (\<lambda>i s. buf_load cfgs i \<bind> (\<lambda>conf. foldM (\<lambda>(key, addr) s.
        publish_pool_register junk conf None key addr p s) status_registers s)) [0..<n] s0 = Some s' \<and> ?P s'"
  proof (rule foldM_invariant [where P = ?P, OF 0(2)])
    fix i s assume i: "i \<in> set [0..<n]" and s: "?P s"
    have "\<exists>s'. foldM (\<lambda>(key, addr) s. publish_pool_register junk (cfgs ! i) None key addr p s) status_registers s = Some s' \<and> ?P s'"
    proof (rule foldM_invariant [where P = ?P, OF s])
      fix x s assume "x \<in> set status_registers" "?P s"
      then show "\<exists>s'. (case x of (key, addr) \<Rightarrow> \<lambda>s. publish_pool_register junk (cfgs ! i) None key addr p s) s = Some s' \<and> ?P s'"
        using publish_pool_register_keeps [of s junk "fst x" "cfgs ! i" "snd x" p] reg [of x] assms(3)
        by (simp add: split_beta)
    qed
    then show "\<exists>s'. buf_load cfgs i \<bind> (\<lambda>conf. foldM (\<lambda>(key, addr) s.
        publish_pool_register junk conf None key addr p s) status_registers s) = Some s' \<and> ?P s'"
      using i assms(4) by (simp add: buf_load_def)
  qed
  then show ?thesis using 0(1) by (simp add: pub_poll_iter_def)
qed

text \<open>The six lines of every configured module.\<close>

definition status_lines :: "string \<Rightarrow> module_config list \<Rightarrow> nat \<Rightarrow> pool \<Rightarrow> string list" where
  "status_lines topic cfgs n p = concat (map (\<lambda>i. map (\<lambda>(key, addr).
     wire_line topic (status_text (cfgs ! i) key (p (unat addr)))) status_registers) [0..<n])"

lemma pub_poll_iter_sends:
  assumes "pub_inv p" and "balanced (p, io)" and "length junk = 896" and "n_ups \<le> length cfgs"
  shows "\<exists>p0 io0 s'. cmos_pub_poll ready c (p, io) = Some (p0, io0)
    \<and> pub_poll_iter junk ready c cfgs n_ups pl (p, io) = Some s'
    \<and> pub_sent (status_lines (cstr (pub_topic p)) cfgs n_ups pl) (p0, io0) s'"
proof -
  obtain p0 io0 where p0: "cmos_pub_poll ready c (p, io) = Some (p0, io0)" "pub_inv p0" "same_pub p p0"
    using poll_ok [OF assms(1,2), of ready c] by blast
  let ?t = "cstr (pub_topic p)"
  let ?l = "\<lambda>i (key, addr). [wire_line ?t (status_text (cfgs ! i) key (pl (unat addr)))]"
  let ?f = "\<lambda>i (key, addr) s. publish_pool_register junk (cfgs ! i) None key addr pl s"
  have reg: "unat addr < 65535 \<and> length key \<le> 31" if "(key, addr) \<in> set status_registers" for key addr
    using that by (auto simp: status_registers_def)
  have inner: "\<exists>s'. foldM (?f i) status_registers s = Some s' \<and> pub_sent (concat (map (?l i) status_registers)) s s'"
    if "pub_inv (fst s)" "cstr (pub_topic (fst s)) = ?t" for i s
    using that
  proof (rule pub_sent_fold [rotated])
    fix x :: "string \<times> u16" and s :: "cmos_pub \<times> cm_io"
    obtain key addr where x: "x = (key, addr)" by (cases x)
    assume "x \<in> set status_registers" "pub_inv (fst s)" "cstr (pub_topic (fst s)) = ?t"
    then show "\<exists>s'. ?f i x s = Some s' \<and> pub_sent (?l i x) s s'"
      using publish_pool_register_ok [of s junk addr key "cfgs ! i" pl] reg x assms(3) by auto
  qed
  have outer: "\<exists>s'. foldM (\<lambda>i s. buf_load cfgs i \<bind> (\<lambda>conf. foldM (\<lambda>(key, addr) s.
        publish_pool_register junk conf None key addr pl s) status_registers s)) [0..<n_ups] (p0, io0) = Some s'
      \<and> pub_sent (concat (map (\<lambda>i. concat (map (?l i) status_registers)) [0..<n_ups])) (p0, io0) s'"
  proof (rule pub_sent_fold)
    fix i and s :: "cmos_pub \<times> cm_io" assume "i \<in> set [0..<n_ups]" "pub_inv (fst s)" "cstr (pub_topic (fst s)) = ?t"
    then show "\<exists>s'. buf_load cfgs i \<bind> (\<lambda>conf. foldM (\<lambda>(key, addr) s.
        publish_pool_register junk conf None key addr pl s) status_registers s) = Some s'
      \<and> pub_sent (concat (map (?l i) status_registers)) s s'"
      using inner [of s i] assms(4) by (simp add: buf_load_def)
  qed (use p0 in \<open>simp_all add: same_pub_def\<close>)
  have l: "concat (map (?l i) xs) = map (\<lambda>(key, addr). wire_line ?t (status_text (cfgs ! i) key (pl (unat addr)))) xs" for i xs
    by (induction xs) auto
  show ?thesis
    using outer p0(1) unfolding l status_lines_def by (auto simp: pub_poll_iter_def)
qed

text \<open>
  C25: status messages. One pass of the publisher thread accepts a waiting subscriber and then sends
  every subscriber, for each configured module, the six status lines in their fixed order, each with
  the connection state of the module and the current value of its pool register in decimal; a
  subscriber whose \<open>send\<close> fails is dropped at that line and the rest is not disturbed.
\<close>

theorem bridge_publishes_status:
  assumes "pub_inv p" and "balanced (p, io)" and "length junk = 896" and "n_ups \<le> length cfgs"
  shows "\<exists>p0 io0 s'. cmos_pub_poll ready c (p, io) = Some (p0, io0)
    \<and> pub_poll_iter junk ready c cfgs n_ups pl (p, io) = Some s'
    \<and> pub_sent (status_lines (cstr (pub_topic p)) cfgs n_ups pl) (p0, io0) s'"
  using assms by (rule pub_poll_iter_sends)

theorem bridge_publishes_status_witness:
  "\<exists>p0 io0 s'. cmos_pub_poll 1 10 (demo_pub, (demo_io [])\<lparr>io_fds := map Fd_open [4, 5, 6, 7, 8, 9]\<rparr>) = Some (p0, io0)
    \<and> pub_poll_iter (replicate 896 (CHR 0x00)) 1 10 [zero_module_config] 1 (\<lambda>_. 7)
        (demo_pub, (demo_io [])\<lparr>io_fds := map Fd_open [4, 5, 6, 7, 8, 9]\<rparr>) = Some s'
    \<and> pub_sent (status_lines (cstr (pub_topic demo_pub)) [zero_module_config] 1 (\<lambda>_. 7)) (p0, io0) s'"
proof (rule bridge_publishes_status [OF demo_pub_ok(1)])
  show "balanced (demo_pub, (demo_io [])\<lparr>io_fds := map Fd_open [4, 5, 6, 7, 8, 9]\<rparr>)"
    using demo_pub_ok(2) by (simp add: balanced_def pub_fds_def) (simp add: demo_pub_def)
qed simp_all

section \<open>Life cycle\<close>

text \<open>The bridge before its first start.\<close>

definition bridge_idle :: "cm_io \<Rightarrow> bridge" where
  "bridge_idle io = \<lparr>g_sub_thread = Thread_Unset, g_pub_poll_thread = Thread_Unset,
     g_bridge_running = False, br_pub = (static_pub, io)\<rparr>"

definition bridge_up :: "bridge \<Rightarrow> bool" where
  "bridge_up b \<longleftrightarrow> g_bridge_running b \<and> g_sub_thread b = Thread_Running \<and> g_pub_poll_thread b = Thread_Running
     \<and> pub_inv (fst (br_pub b)) \<and> balanced (br_pub b)"

lemma bridge_start_ok:
  assumes "opened (io_fds io) = closed (io_fds io)"
  shows "\<exists>rc b1. ups_cmos_bridge_start env ok1 ok2 (bridge_idle io) = Some (rc, b1)
    \<and> (rc = 0 \<and> bridge_up b1 \<or> rc = - 1 \<and> \<not> g_bridge_running b1 \<and> g_sub_thread b1 = Thread_Unset)"
proof -
  have st: "length (sub_socks static_pub) = 512" "length (pub_topic static_pub) = 64" "pub_topic static_pub ! 63 = CHR 0x00"
      "held [pub_master_sock static_pub, listen_sock static_pub, pub_epfd static_pub] = {#}"
    by (simp_all add: static_pub_def CM_MAX_SUB_CLIENT_def)
  let ?init = "cmos_pub_init env BRIDGE_MASTER_IP BRIDGE_MASTER_PORT BRIDGE_NODE_NAME BRIDGE_PUB_TOPIC BRIDGE_PUB_PORT (static_pub, io)"
  obtain rc p1 io1 where 1: "?init = Some (rc, p1, io1)" "pub_inv p1" "balanced (p1, io1)"
    using init_ok [OF st assms] by blast
  obtain p2 io2 where 2: "cmos_pub_close (p1, io1) = Some (p2, io2)"
    using close_ok [OF 1(2,3)] by blast
  show ?thesis
    using 1 2 by (simp add: bridge_idle_def ups_cmos_bridge_start_def join_thread_def Let_def bridge_up_def)
qed

lemma bridge_stop_ok:
  assumes "bridge_up b"
  shows "\<exists>b2. ups_cmos_bridge_stop b = Some b2 \<and> \<not> g_bridge_running b2 \<and> g_sub_thread b2 = Thread_Joined
    \<and> g_pub_poll_thread b2 = Thread_Joined \<and> opened (io_fds (snd (br_pub b2))) = closed (io_fds (snd (br_pub b2)))"
proof -
  obtain p io where b: "br_pub b = (p, io)" by (cases "br_pub b")
  obtain p2 io2 where "cmos_pub_close (p, io) = Some (p2, io2)" "opened (io_fds io2) = closed (io_fds io2)"
    using close_ok [of p io] assms b by (auto simp: bridge_up_def)
  then show ?thesis
    using assms b by (simp add: ups_cmos_bridge_stop_def join_thread_def cancel_thread_def Let_def bridge_up_def)
qed

lemma bridge_stop_undefined: "g_sub_thread b = Thread_Unset \<Longrightarrow> ups_cmos_bridge_stop b = None"
  by (simp add: ups_cmos_bridge_stop_def cancel_thread_def)

text \<open>
  Starting and stopping the bridge. The start either returns 0 with both threads running, and
  then stopping joins both and has closed every descriptor that was opened; or it returns -1 with
  the running flag cleared, and then a later stop is undefined behaviour, because it cancels and
  joins a thread that was never created.
\<close>

theorem bridge_start_stop:
  assumes "opened (io_fds io) = closed (io_fds io)"
  shows "\<exists>rc b1. ups_cmos_bridge_start env ok1 ok2 (bridge_idle io) = Some (rc, b1)
    \<and> (case ups_cmos_bridge_stop b1 of
        None \<Rightarrow> rc = - 1 \<and> \<not> g_bridge_running b1
      | Some b2 \<Rightarrow> rc = 0 \<and> g_bridge_running b1 \<and> g_sub_thread b1 = Thread_Running \<and> g_pub_poll_thread b1 = Thread_Running
          \<and> \<not> g_bridge_running b2 \<and> g_sub_thread b2 = Thread_Joined \<and> g_pub_poll_thread b2 = Thread_Joined
          \<and> opened (io_fds (snd (br_pub b2))) = closed (io_fds (snd (br_pub b2))))"
proof -
  obtain rc b1 where 1: "ups_cmos_bridge_start env ok1 ok2 (bridge_idle io) = Some (rc, b1)"
      "rc = 0 \<and> bridge_up b1 \<or> rc = - 1 \<and> \<not> g_bridge_running b1 \<and> g_sub_thread b1 = Thread_Unset"
    using bridge_start_ok [OF assms] by blast
  from 1(2) show ?thesis
  proof (elim disjE conjE)
    assume "rc = 0" "bridge_up b1"
    with bridge_stop_ok [of b1] 1(1) show ?thesis by (auto simp: bridge_up_def)
  next
    assume "rc = - 1" "\<not> g_bridge_running b1" "g_sub_thread b1 = Thread_Unset"
    then show ?thesis using 1(1) bridge_stop_undefined [of b1] by simp
  qed
qed

theorem bridge_start_stop_witness:
  "\<exists>rc b1. ups_cmos_bridge_start \<lparr>e_listen_socket = 5, e_bind = 0, e_listen = 0, e_epoll_create = 6\<rparr> True True
      (bridge_idle ((demo_io [])\<lparr>io_connects := [\<lparr>t_socket = 4, t_address_ok = True, t_connect_ok = True\<rparr>]\<rparr>)) = Some (rc, b1)
    \<and> (case ups_cmos_bridge_stop b1 of
        None \<Rightarrow> rc = - 1 \<and> \<not> g_bridge_running b1
      | Some b2 \<Rightarrow> rc = 0 \<and> g_bridge_running b1 \<and> g_sub_thread b1 = Thread_Running \<and> g_pub_poll_thread b1 = Thread_Running
          \<and> \<not> g_bridge_running b2 \<and> g_sub_thread b2 = Thread_Joined \<and> g_pub_poll_thread b2 = Thread_Joined
          \<and> opened (io_fds (snd (br_pub b2))) = closed (io_fds (snd (br_pub b2))))"
  by (rule bridge_start_stop) (simp add: demo_io_def)

text \<open>
  The handlers. Each of the five HMI handlers takes its argument as a C number of any base,
  cuts it to 16 bits and pushes a single write of unit 1 to its own register; \<open>trigger\<close> has the
  register of \<open>off_time\<close>, so the two commands are indistinguishable to the device. A write to any
  other register than 0x12 to 0x15, or to any other unit, is refused without touching the queue.
\<close>

theorem bridge_handlers:
  "on_write uid addr v w = (if uid = 1 \<and> 0x12 \<le> addr \<and> addr \<le> 0x15
      then ups_cmd_push 1 addr (Some [v]) 1 UPS_WRITE_MODE_AUTO w \<bind> (\<lambda>(rc, w'). Some (if rc \<noteq> 0 then - 1 else 0, w'))
      else Some (- 1, w))
   \<and> call_handler (0, t, s) w = map_option snd (on_write 1 0x12 (word_of_nat (strtoul0 (cstr s))) w)
   \<and> call_handler (1, t, s) w = map_option snd (on_write 1 0x13 (word_of_nat (strtoul0 (cstr s))) w)
   \<and> call_handler (2, t, s) w = map_option snd (on_write 1 0x14 (word_of_nat (strtoul0 (cstr s))) w)
   \<and> call_handler (3, t, s) w = map_option snd (on_write 1 0x15 (word_of_nat (strtoul0 (cstr s))) w)
   \<and> call_handler (4, t, s) w = call_handler (3, t, s) w"
  using on_write_eq [of uid addr v w]
  by (simp add: call_handler_def on_test_cmd_def on_shutdown_cmd_def on_time_cmd_def on_off_time_cmd_def
      on_trigger_cmd_def UPS_BRIDGE_DEFAULT_UID_def)

text \<open>What the HMI's publisher puts on the wire for a command.\<close>

lemma hmi_published:
  assumes "pub_inv p" and "cstr (pub_topic p) = BRIDGE_SUB_HMI_TOPIC" and "length junk = 896" and "j < 5" and "n < ULONG_LIMIT"
  shows "publish_line junk p None (Some ''command'') (Some (fst (hmi_commands ! j))) (Some (show_nat n)) = Some (hmi_line (j, n))"
proof -
  let ?t = "message_text None (Some ''command'') (Some (fst (hmi_commands ! j))) (Some (show_nat n))"
  have "length (hmi_line (j, n)) \<le> 90" by (rule hmi_line_facts(1) [OF assms(4,5)])
  then have "length ?t < 896" by (simp add: hmi_line_def wire_line_def hmi_text_def)
  from publish_line_ok [OF assms(1,3) _ this] show ?thesis
    by (simp add: assms(2) hmi_line_def wire_line_def hmi_text_def)
qed

text \<open>A subscriber with the five subscriptions and one connection, for \<open>off_time\<close>.\<close>

definition demo_hmi_slot :: "nat \<Rightarrow> cm_sub_slot" where
  "demo_hmi_slot j = \<lparr>sl_topic = ''hmi_ups'' @ replicate 57 (CHR 0x00), filter_state = replicate 32 (CHR 0x00),
     filter_type = ''command'' @ replicate 25 (CHR 0x00),
     filter_key = fst (hmi_commands ! j) @ replicate (32 - length (fst (hmi_commands ! j))) (CHR 0x00),
     sl_cb = Some j, sl_used = True\<rparr>"

definition demo_hmi_conn :: cm_pub_conn where
  "demo_hmi_conn = \<lparr>pc_sock = 9, pc_node_name = ''hmi'' @ replicate 61 (CHR 0x00), pc_rx = [], pc_active = True, pc_sub_slot = 3\<rparr>"

definition demo_hmi_sub :: cmos_sub_ctx where
  "demo_hmi_sub = zero_sub_ctx\<lparr>master_sock := - 1, epfd := - 1, sub_slots := map demo_hmi_slot [0..<5] @ replicate 507 zero_slot,
     sub_slot_count := 5, pub_conns := demo_hmi_conn # replicate 511 idle_conn, pub_count := 1\<rparr>"

lemma demo_hmi_slots: "i < 5 \<Longrightarrow> sub_slots demo_hmi_sub ! i = demo_hmi_slot i"
  by (simp add: demo_hmi_sub_def nth_append del: upt_Suc)

lemma demo_hmi_slot_ok:
  assumes "j < 5"
  shows "hmi_slot j (demo_hmi_slot j)" "slot_wf (demo_hmi_slot j)" "sl_used (demo_hmi_slot j)"
proof -
  note k = hmi_keys(1,2) [OF assms]
  have nul: "CHR 0x00 \<notin> set (fst (hmi_commands ! j))" using k(1) by (auto simp: plain_def)
  have "cstr (replicate 32 (CHR 0x00)) = []" by (simp add: cstr_def)
  then show "hmi_slot j (demo_hmi_slot j)"
    using cstr_padded [OF nul, of "32 - length (fst (hmi_commands ! j))"] k(2) cstr_padded [of "''hmi_ups''" 57]
      cstr_padded [of "''command''" 25]
    by (simp add: hmi_slot_def demo_hmi_slot_def BRIDGE_SUB_HMI_TOPIC_def)
  show "slot_wf (demo_hmi_slot j)" "sl_used (demo_hmi_slot j)" using k(2) by (simp_all add: slot_wf_def demo_hmi_slot_def)
qed

lemma demo_hmi_ok: "sub_good (demo_hmi_sub, demo_sub_fds)" "hmi_subscribed demo_hmi_sub"
proof -
  have "held (replicate n (- 1 :: int)) = {#}" for n by (induction n) simp_all
  then have h: "held (map pc_sock (pub_conns demo_hmi_sub)) = {#9#}" by (simp add: demo_hmi_sub_def demo_hmi_conn_def idle_conn_def)
  have f: "filter pc_active (pub_conns demo_hmi_sub) = [demo_hmi_conn]"
    by (simp add: demo_hmi_sub_def demo_hmi_conn_def idle_conn_def zero_conn_def)
  have c: "conn_wf 5 demo_hmi_conn" "conn_wf 5 idle_conn"
    by (simp_all add: conn_wf_def demo_hmi_conn_def idle_conn_def zero_conn_def)
  have z: "slot_wf zero_slot" by (simp add: slot_wf_def zero_slot_def)
  have e: "length (sub_slots demo_hmi_sub) = 512" "sub_slot_count demo_hmi_sub = 5" "length (pub_conns demo_hmi_sub) = 512"
      "pub_count demo_hmi_sub = 1" "set (sub_slots demo_hmi_sub) \<subseteq> insert zero_slot (demo_hmi_slot ` {0..<5})"
      "set (pub_conns demo_hmi_sub) = {demo_hmi_conn, idle_conn}"
    by (auto simp: demo_hmi_sub_def simp del: upt_Suc)
  have "\<forall>sl\<in>set (sub_slots demo_hmi_sub). slot_wf sl" using e(5) z demo_hmi_slot_ok(2) by auto
  moreover have "\<forall>i<5. sl_used (sub_slots demo_hmi_sub ! i)" using demo_hmi_slots demo_hmi_slot_ok(3) by simp
  ultimately show "sub_good (demo_hmi_sub, demo_sub_fds)"
    using h f c e
    by (simp add: sub_good_def sub_inv_def sub_fds_def demo_sub_fds_def demo_io_def) (simp add: demo_hmi_sub_def zero_sub_ctx_def)
  show "hmi_subscribed demo_hmi_sub"
    using e(2) demo_hmi_slots demo_hmi_slot_ok(1) by (simp add: hmi_subscribed_def)
qed

lemma demo_hmi_conn_facts: "pub_conns demo_hmi_sub ! 0 = demo_hmi_conn" "pc_active demo_hmi_conn" "pc_sub_slot demo_hmi_conn = int 3"
    "pc_rx demo_hmi_conn = []"
  by (simp_all add: demo_hmi_sub_def demo_hmi_conn_def)

definition demo_hmi_pub :: cmos_pub where
  "demo_hmi_pub = demo_pub\<lparr>pub_topic := ''hmi_ups'' @ replicate 57 (CHR 0x00)\<rparr>"

lemma demo_hmi_pub_ok: "pub_inv demo_hmi_pub" "cstr (pub_topic demo_hmi_pub) = BRIDGE_SUB_HMI_TOPIC"
proof -
  have "(''hmi_ups'' @ replicate 57 (CHR 0x00)) ! 63 = CHR 0x00" by (simp add: nth_append nth_Cons')
  moreover have "subs demo_hmi_pub = subs demo_pub" by (simp add: demo_hmi_pub_def subs_def)
  ultimately show "pub_inv demo_hmi_pub" using demo_pub_ok(1) unfolding pub_inv_def by (simp add: demo_hmi_pub_def)
  show "cstr (pub_topic demo_hmi_pub) = BRIDGE_SUB_HMI_TOPIC"
    using cstr_padded [of "''hmi_ups''" 57] by (simp add: demo_hmi_pub_def BRIDGE_SUB_HMI_TOPIC_def)
qed

end
