(* ===== verification/Log.thy ===== *)
theory Log
  imports Cmos_Pub
begin

text \<open>
  The logger (\<open>lib/log/log.c\<close>): the level threshold and the line a message becomes. The time stamp
  and the expanded message are inputs. \<open>log_level_t\<close> is an enumeration without negative values,
  kept by the compiler in 32 unsigned bits, so any value can reach it through the cast in
  \<open>main.c\<close>.
\<close>

type_synonym log_level = u32

definition LOG_LEVEL_VERBOSE :: log_level where "LOG_LEVEL_VERBOSE = 0"
definition LOG_LEVEL_DEBUG :: log_level where "LOG_LEVEL_DEBUG = 1"
definition LOG_LEVEL_INFO :: log_level where "LOG_LEVEL_INFO = 2"
definition LOG_LEVEL_WARNING :: log_level where "LOG_LEVEL_WARNING = 3"
definition LOG_LEVEL_ERROR :: log_level where "LOG_LEVEL_ERROR = 4"
definition LOG_LEVEL_ASSERT :: log_level where "LOG_LEVEL_ASSERT = 5"

lemmas log_levels = LOG_LEVEL_VERBOSE_def LOG_LEVEL_DEBUG_def LOG_LEVEL_INFO_def LOG_LEVEL_WARNING_def
  LOG_LEVEL_ERROR_def LOG_LEVEL_ASSERT_def

datatype stream = Stdout | Stderr

text \<open>The logger's state is the current level.\<close>

definition set_log_level :: "log_level \<Rightarrow> log_level \<Rightarrow> log_level" where
  "set_log_level level current = level"

definition log_message :: "string \<Rightarrow> log_level \<Rightarrow> string \<Rightarrow> log_level \<Rightarrow> (stream \<times> string) option" where
  "log_message time level msg current =
     (if level < current \<and> level < LOG_LEVEL_ERROR then None
      else (let (level_str, out) =
          (if level = LOG_LEVEL_VERBOSE then (''VERBOSE'', Stdout)
           else if level = LOG_LEVEL_DEBUG then (''DEBUG'', Stdout)
           else if level = LOG_LEVEL_INFO then (''INFO'', Stdout)
           else if level = LOG_LEVEL_WARNING then (''WARNING'', Stdout)
           else if level = LOG_LEVEL_ERROR then (''ERROR'', Stderr)
           else if level = LOG_LEVEL_ASSERT then (''ASSERT'', Stderr)
           else (''UNKNOWN'', Stdout)) in
        Some (out, ''['' @ time @ ''] ['' @ ''CM_MODBUS'' @ ''] ['' @ level_str @ '']: '' @ msg @ [CHR 0x0A])))"

text \<open>Errors are never filtered; anything else appears exactly from the threshold on.\<close>

lemma log_filter:
  "log_message time level msg current \<noteq> None \<longleftrightarrow> current \<le> level \<or> LOG_LEVEL_ERROR \<le> level"
  by (auto simp: log_message_def split: prod.splits)

lemma log_stream:
  assumes "log_message time level msg current = Some (out, txt)"
  shows "out = Stderr \<longleftrightarrow> level = LOG_LEVEL_ERROR \<or> level = LOG_LEVEL_ASSERT"
  using assms by (auto simp: log_message_def log_levels split: if_splits)

end
