(* ===== verification/Daemon.thy ===== *)
theory Daemon
  imports Ups_Cmos_Bridge Ups_Alarm Log
begin

text \<open>
  The entry point (\<open>src/main.c\<close>): arguments, the order in which the subsystems are brought up and
  down, and the wait for a signal. The state is that of all subsystems; the threads they start are
  the step relations and rounds of their own theories. \<open>getopt\<close> is an input: the options it
  returns, in order, with their arguments.
\<close>

section \<open>Arguments\<close>

text \<open>Any other option, \<open>-h\<close> included, prints the usage and exits with status 1.\<close>

fun parse_arguments :: "(char \<times> string) list \<Rightarrow> string \<times> log_level \<Rightarrow> (string \<times> log_level) outcome" where
  "parse_arguments [] s = Returned s"
| "parse_arguments ((opt, arg) # opts) (path, level) =
     (if opt = CHR ''c'' then parse_arguments opts (arg, level)
      else if opt = CHR ''l'' then parse_arguments opts (path, word_of_int (atoi arg))
      else Exited 1)"

section \<open>Start-up\<close>

record daemon =
  dm_level :: log_level
  dm_path :: string
  dm_config :: system_config
  dm_world :: ups_world
  dm_bridge :: bridge
  dm_alarms :: ups_bridge
  dm_manager :: alarm_world

text \<open>What the system answers during start-up.\<close>

record start_env =
  se_created :: "nat \<Rightarrow> bool"
  se_pub :: pub_env
  se_pub_thread :: bool
  se_sub_thread :: bool
  se_now :: timespec
  se_monitor_thread :: bool

text \<open>
  \<open>start_ups_modules\<close> starts the bridge itself, after the units; the two touch different state, so
  the bridge's result is computed first and handed over.
\<close>

definition main_init ::
  "'j json_lib \<Rightarrow> (string \<Rightarrow> 'j option) \<Rightarrow> (char \<times> string) list \<Rightarrow> start_env \<Rightarrow> daemon \<Rightarrow> daemon outcome run" where
  "main_init J from_file opts env d =
     (case parse_arguments opts (''./config/config.json'', LOG_LEVEL_INFO) of
        Exited c \<Rightarrow> Some (Exited c)
      | Returned (path, level) \<Rightarrow> do {
          let d = d\<lparr>dm_level := set_log_level level (dm_level d)\<rparr>;
          loaded \<leftarrow> load_json_config J from_file path (dm_path d, dm_config d);
          (case loaded of
             Exited c \<Rightarrow> Some (Exited c)
           | Returned (p, g) \<Rightarrow> do {
               let w = (dm_world d)\<lparr>uw_cfgs := ups g, uw_pool := device_register_map_init\<rparr>;
               (bridge_rc, b) \<leftarrow> ups_cmos_bridge_start (se_pub env) (se_pub_thread env) (se_sub_thread env) (dm_bridge d);
               (status, w) \<leftarrow> start_ups_modules (se_created env) bridge_rc (nat (ups_count g)) w;
               (n, a) \<leftarrow> ups_alarm_register_all g (dm_alarms d);
               let (rc, a) = alarm_bridge_start (se_now env) (se_monitor_thread env) a;
               Some (Returned (d\<lparr>dm_path := p, dm_config := g, dm_world := w, dm_bridge := b, dm_alarms := a\<rparr>))
             })
        })"

section \<open>Waiting\<close>

text \<open>
  \<open>while (g_running) pause();\<close> and the signal handler: where the main thread is, and the flag. The
  handler may run at any point and clears the flag; \<open>pause\<close> may return at any time, for this signal
  or for any other reason, and nothing says that it does.
\<close>

datatype wait_phase = At_test | Before_pause | In_pause | Shutting_down

inductive wait_step :: "wait_phase \<times> bool \<Rightarrow> wait_phase \<times> bool \<Rightarrow> bool" where
  test_running: "wait_step (At_test, True) (Before_pause, True)"
| test_stopped: "wait_step (At_test, False) (Shutting_down, False)"
| enter_pause: "wait_step (Before_pause, r) (In_pause, r)"
| pause_returns: "wait_step (In_pause, r) (At_test, r)"
| signal_handled: "wait_step (ph, r) (ph, False)"

section \<open>Shutdown\<close>

definition main_shutdown :: "daemon \<Rightarrow> (int \<times> daemon) run" where
  "main_shutdown d = do {
     let (joined, a) = alarm_bridge_stop (dm_alarms d);
     b \<leftarrow> ups_cmos_bridge_stop (dm_bridge d);
     (rc, w) \<leftarrow> stop_ups_modules (dm_world d);
     Some (0, d\<lparr>dm_alarms := a, dm_bridge := b, dm_world := w, dm_manager := ups_alarm_manager_close (dm_manager d)\<rparr>)
   }"

section \<open>Lemmas\<close>

text \<open>The daemon before \<open>main\<close>: static storage.\<close>

definition static_daemon :: "daemon \<Rightarrow> bool" where
  "static_daemon d \<longleftrightarrow> (\<exists>io. dm_bridge d = bridge_idle io \<and> opened (io_fds io) = closed (io_fds io))
     \<and> dm_alarms d = alarm_bridge_init (\<lambda>_. None) \<and> length (ups_units (dm_world d)) = MAX_UPS_COUNT"

text \<open>The daemon while it runs, as far as its shutdown depends on it.\<close>

definition daemon_up :: "daemon \<Rightarrow> bool" where
  "daemon_up d \<longleftrightarrow> bridge_up (dm_bridge d) \<and> ups_unit_count (dm_world d) \<le> length (ups_units (dm_world d))
     \<and> (\<forall>k<ups_unit_count (dm_world d). queue_inv (cmd_queue (ups_units (dm_world d) ! k)))"

lemma start_modules:
  assumes "cnt \<le> length (uw_cfgs w)" and "cnt \<le> length (ups_units w)"
  shows "\<exists>st w'. start_ups_modules created bridge_rc cnt w = Some (st, w') \<and> ups_unit_count w' \<le> length (ups_units w')
    \<and> uw_cfgs w' = uw_cfgs w
    \<and> (let started = filter (\<lambda>i. startable w i \<and> created i) [0..<cnt] in
        ups_unit_count w' = length started
        \<and> (\<forall>k<length started. unit_wf w' k (started ! k) ups1_profile ups1_mapping_table
            \<and> fresh_unit (started ! k) (ups_units w' ! k)))"
proof -
  let ?is = "filter (\<lambda>i. startable w i \<and> created i) [0..<cnt]"
  obtain st w' where h: "foldM (start_one_module created) [0..<cnt] (0, w\<lparr>ups_unit_count := 0\<rparr>) = Some (st, w')"
      "uw_cfgs w' = uw_cfgs w" "length (ups_units w') = length (ups_units w)" "ups_unit_count w' \<le> cnt"
      "list_all2 fresh_unit ?is (take (ups_unit_count w') (ups_units w'))"
    using start_loop [OF assms] by blast
  have "ups_unit_count w' = length ?is
    \<and> (\<forall>k<length ?is. unit_wf w' k (?is ! k) ups1_profile ups1_mapping_table
        \<and> fresh_unit (?is ! k) (ups_units w' ! k))"
    by (rule started_units_wf [OF h(5)]) (use h assms in auto)
  moreover have "start_ups_modules created bridge_rc cnt w = Some (if bridge_rc \<noteq> 0 then - 1 else st, w')"
    using h(1) by (simp add: start_ups_modules_def)
  ultimately show ?thesis using h(2-4) assms(2) by (auto simp: Let_def)
qed

text \<open>The bridge's start in terms of the publisher's.\<close>

lemma bridge_start_pub:
  assumes "opened (io_fds io) = closed (io_fds io)"
  shows "\<exists>rc s rc1 b. cmos_pub_init env BRIDGE_MASTER_IP BRIDGE_MASTER_PORT BRIDGE_NODE_NAME BRIDGE_PUB_TOPIC BRIDGE_PUB_PORT
        (static_pub, io) = Some (rc, s)
    \<and> ups_cmos_bridge_start env ok1 ok2 (bridge_idle io) = Some (rc1, b)
    \<and> (if rc = 0 \<and> ok1 \<and> ok2 then rc1 = 0 \<and> bridge_up b \<and> br_pub b = s
        else rc1 = - 1 \<and> \<not> g_bridge_running b \<and> g_sub_thread b = Thread_Unset)"
proof -
  obtain rc1 b where b: "ups_cmos_bridge_start env ok1 ok2 (bridge_idle io) = Some (rc1, b)"
      "rc1 = 0 \<and> bridge_up b \<or> rc1 = - 1 \<and> \<not> g_bridge_running b \<and> g_sub_thread b = Thread_Unset"
    using bridge_start_ok [OF assms] by blast
  obtain rc s where s: "cmos_pub_init env BRIDGE_MASTER_IP BRIDGE_MASTER_PORT BRIDGE_NODE_NAME BRIDGE_PUB_TOPIC BRIDGE_PUB_PORT
      (static_pub, io) = Some (rc, s)"
    using b(1) by (auto simp: ups_cmos_bridge_start_def bridge_idle_def split: bind_splits)
  have "rc1 = (if rc = 0 \<and> ok1 \<and> ok2 then 0 else - 1) \<and> (rc1 = 0 \<longrightarrow> br_pub b = s)"
    using b(1) s by (auto simp: ups_cmos_bridge_start_def bridge_idle_def Let_def split: bind_splits if_splits)
  then show ?thesis using b s by (auto split: if_splits)
qed

lemma registered_fields [simp]:
  "registered (b\<lparr>g_last_beat_ms := t\<rparr>) = registered b" "registered (b\<lparr>g_running := r\<rparr>) = registered b"
  by (simp_all add: registered_def)

section \<open>The life of the daemon\<close>

text \<open>The configuration file parses, and the strings of its enabled entries are not null.\<close>

definition good_file :: "'j json_lib \<Rightarrow> (string \<Rightarrow> 'j option) \<Rightarrow> string \<Rightarrow> bool" where
  "good_file J from_file path \<longleftrightarrow> (case from_file path of None \<Rightarrow> False
     | Some json_root \<Rightarrow> (case json_get_ex J (Some json_root) ''UPS'' of
         Some (Some arr) \<Rightarrow> json_is_array J (Some arr)
           \<and> (\<forall>o'\<in>set (enabled_entries J (Some arr) [0..<json_array_length J (Some arr)]). o' \<noteq> None \<and> json_strings J o')
       | _ \<Rightarrow> False))"

lemma good_file_loads:
  assumes "good_file J from_file path" and "length old = 256"
  shows "\<exists>p g. load_json_config J from_file path (old, g0) = Some (Returned (p, g)) \<and> length (ups g) = 10
    \<and> 0 \<le> ups_count g \<and> ups_count g \<le> 10"
proof -
  obtain json_root arr where h: "from_file path = Some json_root" "json_get_ex J (Some json_root) ''UPS'' = Some (Some arr)"
      "json_is_array J (Some arr)"
      "\<forall>o'\<in>set (enabled_entries J (Some arr) [0..<json_array_length J (Some arr)]). o' \<noteq> None \<and> json_strings J o'"
    using assms(1) by (auto simp: good_file_def split: option.splits)
  show ?thesis using load_config [where from_file = from_file and path = path and ?g0.0 = g0, OF h(1-3) assms(2)] h(4) by blast
qed

lemma main_init_ok:
  assumes "static_daemon d" and "length (dm_path d) = 256"
    and "parse_arguments opts (''./config/config.json'', LOG_LEVEL_INFO) = Returned (path, level)"
    and "good_file J from_file path"
  shows "\<exists>p g d'. load_json_config J from_file path (dm_path d, dm_config d) = Some (Returned (p, g))
    \<and> main_init J from_file opts env d = Some (Returned d')
    \<and> dm_level d' = level \<and> dm_config d' = g \<and> g_running (dm_alarms d') = se_monitor_thread env
    \<and> (let w = (dm_world d)\<lparr>uw_cfgs := ups g\<rparr>;
           started = filter (\<lambda>i. startable w i \<and> se_created env i) [0..<nat (ups_count g)] in
        ups_unit_count (dm_world d') = length started
        \<and> (\<forall>k<length started. unit_wf (dm_world d') k (started ! k) ups1_profile ups1_mapping_table
            \<and> fresh_unit (started ! k) (ups_units (dm_world d') ! k)))
    \<and> ups_unit_count (dm_world d') \<le> length (ups_units (dm_world d'))
    \<and> (\<exists>rc s. cmos_pub_init (se_pub env) BRIDGE_MASTER_IP BRIDGE_MASTER_PORT BRIDGE_NODE_NAME BRIDGE_PUB_TOPIC BRIDGE_PUB_PORT
          (br_pub (dm_bridge d)) = Some (rc, s)
        \<and> (if rc = 0 \<and> se_pub_thread env \<and> se_sub_thread env then bridge_up (dm_bridge d') \<and> br_pub (dm_bridge d') = s
            else \<not> g_bridge_running (dm_bridge d') \<and> g_sub_thread (dm_bridge d') = Thread_Unset))
    \<and> (case find (\<lambda>j. word_of_int (modbus_uid (ups g ! j)) = (1 :: u8)) [0..<nat (ups_count g)] of
         None \<Rightarrow> registered (dm_alarms d') = []
       | Some j \<Rightarrow> registered (dm_alarms d') = [0] \<and> b_heap (dm_alarms d') 0
           = Some (ups_alarm_ctx \<lparr>reg_uid = 1, reg_states = ups1_alarm_states, reg_count = 6\<rparr> ups1_profile j))
    \<and> nat (ups_count g) \<le> length (uw_cfgs (dm_world d')) \<and> alarms_ok (dm_alarms d')"
proof -
  obtain p g where g: "load_json_config J from_file path (dm_path d, dm_config d) = Some (Returned (p, g))"
      "length (ups g) = 10" "0 \<le> ups_count g" "ups_count g \<le> 10"
    using good_file_loads [OF assms(4,2)] by blast
  obtain io where io: "dm_bridge d = bridge_idle io" "opened (io_fds io) = closed (io_fds io)"
    using assms(1) by (auto simp: static_daemon_def)
  obtain prc s brc b where b: "ups_cmos_bridge_start (se_pub env) (se_pub_thread env) (se_sub_thread env) (dm_bridge d) = Some (brc, b)"
      "cmos_pub_init (se_pub env) BRIDGE_MASTER_IP BRIDGE_MASTER_PORT BRIDGE_NODE_NAME BRIDGE_PUB_TOPIC BRIDGE_PUB_PORT
        (br_pub (dm_bridge d)) = Some (prc, s)"
      "if prc = 0 \<and> se_pub_thread env \<and> se_sub_thread env then brc = 0 \<and> bridge_up b \<and> br_pub b = s
        else brc = - 1 \<and> \<not> g_bridge_running b \<and> g_sub_thread b = Thread_Unset"
    using bridge_start_pub [OF io(2), of "se_pub env" "se_pub_thread env" "se_sub_thread env"] io(1)
    by (auto simp: bridge_idle_def)
  let ?w = "(dm_world d)\<lparr>uw_cfgs := ups g, uw_pool := device_register_map_init\<rparr>"
  have st: "startable ?w = startable ((dm_world d)\<lparr>uw_cfgs := ups g\<rparr>)" by (intro ext) (simp add: startable_def)
  have "nat (ups_count g) \<le> length (uw_cfgs ?w)" "nat (ups_count g) \<le> length (ups_units ?w)"
    using g assms(1) by (simp_all add: static_daemon_def MAX_UPS_COUNT_def)
  from start_modules [OF this, of "se_created env" brc, unfolded st] obtain st' w' where
    w': "start_ups_modules (se_created env) brc (nat (ups_count g)) ?w = Some (st', w')"
      "ups_unit_count w' \<le> length (ups_units w')" "uw_cfgs w' = ups g"
      "let started = filter (\<lambda>i. startable ((dm_world d)\<lparr>uw_cfgs := ups g\<rparr>) i \<and> se_created env i) [0..<nat (ups_count g)] in
        ups_unit_count w' = length started
        \<and> (\<forall>k<length started. unit_wf w' k (started ! k) ups1_profile ups1_mapping_table
            \<and> fresh_unit (started ! k) (ups_units w' ! k))"
    by auto
  have "ups_count g \<le> int (length (ups g))" using g by simp
  from alarm_registration [OF this] obtain n a where a: "ups_alarm_register_all g (dm_alarms d) = Some (n, a)"
      "case find (\<lambda>j. word_of_int (modbus_uid (ups g ! j)) = (1 :: u8)) [0..<nat (ups_count g)] of
         None \<Rightarrow> n = 0 \<and> registered a = []
       | Some j \<Rightarrow> n = 1 \<and> registered a = [0]
           \<and> b_heap a 0 = Some (ups_alarm_ctx \<lparr>reg_uid = 1, reg_states = ups1_alarm_states, reg_count = 6\<rparr> ups1_profile j)"
    using assms(1) by (auto simp: static_daemon_def)
  have al: "snd (alarm_bridge_start (se_now env) (se_monitor_thread env) a)
      = a\<lparr>g_last_beat_ms := get_monotonic_ms (se_now env), g_running := se_monitor_thread env\<rparr>"
    by (simp add: alarm_bridge_start_def Let_def)
  have ok: "alarms_ok a"
    using a(1) assms(1) by (intro register_all_alarms) (simp add: static_daemon_def)
  let ?d = "d\<lparr>dm_level := level, dm_path := p, dm_config := g, dm_world := w', dm_bridge := b,
      dm_alarms := snd (alarm_bridge_start (se_now env) (se_monitor_thread env) a)\<rparr>"
  have "main_init J from_file opts env d = Some (Returned ?d)"
    using assms(3) g(1) b(1) w'(1) a(1) by (simp add: main_init_def set_log_level_def case_prod_unfold Let_def)
  moreover have "\<exists>rc s. cmos_pub_init (se_pub env) BRIDGE_MASTER_IP BRIDGE_MASTER_PORT BRIDGE_NODE_NAME BRIDGE_PUB_TOPIC BRIDGE_PUB_PORT
          (br_pub (dm_bridge d)) = Some (rc, s)
        \<and> (if rc = 0 \<and> se_pub_thread env \<and> se_sub_thread env then bridge_up b \<and> br_pub b = s
            else \<not> g_bridge_running b \<and> g_sub_thread b = Thread_Unset)"
    using b(2,3) by (intro exI [of _ prc] exI [of _ s]) (simp split: if_splits)
  moreover have "case find (\<lambda>j. word_of_int (modbus_uid (ups g ! j)) = (1 :: u8)) [0..<nat (ups_count g)] of
         None \<Rightarrow> registered a = []
       | Some j \<Rightarrow> registered a = [0] \<and> b_heap a 0
           = Some (ups_alarm_ctx \<lparr>reg_uid = 1, reg_states = ups1_alarm_states, reg_count = 6\<rparr> ups1_profile j)"
    using a(2) by (simp split: option.splits)
  ultimately show ?thesis
    using g(1,2,4) w'(2-4) al ok by (intro exI [of _ p] exI [of _ g] exI [of _ ?d]) (simp split del: if_split cong: if_cong option.case_cong)
qed

text \<open>
  C29: start-up. From a daemon that has not run, with a readable configuration file, \<open>main\<close> always
  reaches its waiting loop: the level and the configuration are the ones given, every enabled module with
  a known identifier whose thread could be created has a well-formed fresh unit, in the order of the file,
  the alarm monitor runs if its thread could be created, with one context registered for the first
  module whose identifier is 1 in 8 bits, none without such a module; and the bridge is up, with the
  publisher as its initialisation left it, exactly if that initialisation returned 0 and both threads could be
  created; otherwise it does not run and its subscriber was not started.
\<close>

theorem daemon_starts:
  assumes "static_daemon d" and "length (dm_path d) = 256"
    and "parse_arguments opts (''./config/config.json'', LOG_LEVEL_INFO) = Returned (path, level)"
    and "good_file J from_file path"
  shows "\<exists>p g d'. load_json_config J from_file path (dm_path d, dm_config d) = Some (Returned (p, g))
    \<and> main_init J from_file opts env d = Some (Returned d')
    \<and> dm_level d' = level \<and> dm_config d' = g \<and> g_running (dm_alarms d') = se_monitor_thread env
    \<and> (let w = (dm_world d)\<lparr>uw_cfgs := ups g\<rparr>;
           started = filter (\<lambda>i. startable w i \<and> se_created env i) [0..<nat (ups_count g)] in
        ups_unit_count (dm_world d') = length started
        \<and> (\<forall>k<length started. unit_wf (dm_world d') k (started ! k) ups1_profile ups1_mapping_table
            \<and> fresh_unit (started ! k) (ups_units (dm_world d') ! k)))
    \<and> (\<exists>rc s. cmos_pub_init (se_pub env) BRIDGE_MASTER_IP BRIDGE_MASTER_PORT BRIDGE_NODE_NAME BRIDGE_PUB_TOPIC BRIDGE_PUB_PORT
          (br_pub (dm_bridge d)) = Some (rc, s)
        \<and> (if rc = 0 \<and> se_pub_thread env \<and> se_sub_thread env then bridge_up (dm_bridge d') \<and> br_pub (dm_bridge d') = s
            else \<not> g_bridge_running (dm_bridge d') \<and> g_sub_thread (dm_bridge d') = Thread_Unset))
    \<and> (case find (\<lambda>j. word_of_int (modbus_uid (ups g ! j)) = (1 :: u8)) [0..<nat (ups_count g)] of
         None \<Rightarrow> registered (dm_alarms d') = []
       | Some j \<Rightarrow> registered (dm_alarms d') = [0] \<and> b_heap (dm_alarms d') 0
           = Some (ups_alarm_ctx \<lparr>reg_uid = 1, reg_states = ups1_alarm_states, reg_count = 6\<rparr> ups1_profile j))"
  using main_init_ok [OF assms, of env] by blast

definition demo_daemon :: daemon where
  "demo_daemon = \<lparr>dm_level = 0, dm_path = replicate 256 (CHR 0x00), dm_config = zero_system_config,
     dm_world = demo_world\<lparr>ups_units := replicate 10 zero_unit, ups_unit_count := 0\<rparr>, dm_bridge = bridge_idle (demo_io []),
     dm_alarms = alarm_bridge_init (\<lambda>_. None),
     dm_manager = \<lparr>aw_pool = (\<lambda>_. 0), g_db = True, g_db_open_failed = False, db_rows = [], db_calls = 0, db_env = \<lambda>_. undefined\<rparr>\<rparr>"

definition demo_start_env :: start_env where
  "demo_start_env = \<lparr>se_created = \<lambda>_. True,
     se_pub = \<lparr>e_listen_socket = 5, e_bind = 0, e_listen = 0, e_epoll_create = 6\<rparr>, se_pub_thread = True,
     se_sub_thread = True, se_now = \<lparr>tv_sec = 1, tv_nsec = 0\<rparr>, se_monitor_thread = True\<rparr>"

lemma demo_daemon_ok: "static_daemon demo_daemon" "length (dm_path demo_daemon) = 256"
    "good_file demo_json (\<lambda>_. Some demo_file) path"
proof -
  show "static_daemon demo_daemon" by (auto simp: static_daemon_def demo_daemon_def MAX_UPS_COUNT_def demo_io_def)
  show "length (dm_path demo_daemon) = 256" by (simp add: demo_daemon_def)
  obtain arr o' where "json_get_ex demo_json (Some demo_file) ''UPS'' = Some (Some arr)" "json_is_array demo_json (Some arr)"
    "enabled_entries demo_json (Some arr) [0..<json_array_length demo_json (Some arr)] = [Some o']" "json_strings demo_json (Some o')"
    by (rule demo_file_loads)
  then show "good_file demo_json (\<lambda>_. Some demo_file) path" by (simp add: good_file_def)
qed

lemma demo_arguments: "parse_arguments [(CHR ''l'', ''4''), (CHR ''c'', ''x.json'')] (''./config/config.json'', LOG_LEVEL_INFO)
    = Returned (''x.json'', LOG_LEVEL_ERROR)"
  by (simp add: atoi_def decimal_def is_space_def digits_value_def is_digit_def LOG_LEVEL_ERROR_def)

text \<open>A CMOS master that accepts the connection.\<close>

definition demo_master :: cm_io where
  "demo_master = (demo_io [])\<lparr>io_connects := [\<lparr>t_socket = 4, t_address_ok = True, t_connect_ok = True\<rparr>]\<rparr>"

definition demo_boot :: daemon where
  "demo_boot = demo_daemon\<lparr>dm_bridge := bridge_idle demo_master\<rparr>"

lemma demo_bridge_starts:
  "\<exists>b. ups_cmos_bridge_start (se_pub demo_start_env) True True (bridge_idle demo_master) = Some (0, b) \<and> bridge_up b"
proof -
  have "opened (io_fds demo_master) = closed (io_fds demo_master)" by (simp add: demo_master_def demo_io_def)
  from bridge_start_ok [OF this, of "se_pub demo_start_env" True True] obtain rc b where
    b: "ups_cmos_bridge_start (se_pub demo_start_env) True True (bridge_idle demo_master) = Some (rc, b)"
      "rc = 0 \<and> bridge_up b \<or> rc = - 1"
    by blast
  have "rc = 0"
    using b(1)
    by (auto simp: ups_cmos_bridge_start_def cmos_pub_init_def bridge_idle_def demo_master_def demo_io_def demo_start_env_def
        connect_tcp_def send_line_def send_text_def open_fd_def snprintf_text_def cstr_def Let_def split: bind_splits if_splits)
  then show ?thesis using b by auto
qed

lemma demo_boot_ok: "static_daemon demo_boot" "length (dm_path demo_boot) = 256"
proof -
  have "opened (io_fds demo_master) = closed (io_fds demo_master)" by (simp add: demo_master_def demo_io_def)
  then show "static_daemon demo_boot" using demo_daemon_ok(1) by (auto simp: static_daemon_def demo_boot_def)
  show "length (dm_path demo_boot) = 256" using demo_daemon_ok(2) by (simp add: demo_boot_def)
qed

lemma demo_pub_inits:
  "\<exists>s. cmos_pub_init (se_pub demo_start_env) BRIDGE_MASTER_IP BRIDGE_MASTER_PORT BRIDGE_NODE_NAME BRIDGE_PUB_TOPIC BRIDGE_PUB_PORT
    (br_pub (dm_bridge demo_boot)) = Some (0, s)"
  using demo_bridge_starts by (auto simp: ups_cmos_bridge_start_def demo_boot_def Let_def split: bind_splits if_splits)

lemma demo_config:
  assumes "load_json_config demo_json (\<lambda>_. Some demo_file) path (old, g0) = Some (Returned (p, g))" and "length old = 256"
  shows "ups_count g = 1" and "modbus_uid (ups g ! 0) = 1"
proof -
  obtain arr o' where d: "json_get_ex demo_json (Some demo_file) ''UPS'' = Some (Some arr)" "json_is_array demo_json (Some arr)"
    "enabled_entries demo_json (Some arr) [0..<json_array_length demo_json (Some arr)] = [Some o']" "json_strings demo_json (Some o')"
    "o' = JObj [(''name'', JStr ''A''), (''enabled'', JBool True), (''modbus_uid'', JInt 1),
       (''modbus_format'', JStr ''TCP''), (''ip'', JStr ''10.0.0.9''), (''port'', JInt 502)]"
    by (rule demo_file_loads)
  have g: "length (ups g) = 10" "0 \<le> ups_count g" "ups_count g \<le> 10"
      "loaded_modules demo_json [Some o'] (take (nat (ups_count g)) (ups g))"
    using load_config [where from_file = "\<lambda>_. Some demo_file" and path = path and ?g0.0 = g0, OF refl d(1,2) assms(2)] d(3,4) assms(1)
    by auto
  have "length (take (nat (ups_count g)) (ups g)) = 1"
    using g(4) by (simp add: loaded_modules_def list_all2_lengthD [symmetric] del: length_take)
  then show n: "ups_count g = 1" using g(1-3) by simp
  then have "loaded_from demo_json (Some o') (ups g ! 0)"
    using g(1,4) by (cases "ups g") (simp_all add: loaded_modules_def)
  then show "modbus_uid (ups g ! 0) = 1"
    unfolding d(5) by (simp add: loaded_from_def demo_json_def unnull_def int_field_def)
qed

theorem daemon_starts_witness:
  "\<exists>p g d'. load_json_config demo_json (\<lambda>_. Some demo_file) ''x.json'' (dm_path demo_boot, dm_config demo_boot) = Some (Returned (p, g))
    \<and> main_init demo_json (\<lambda>_. Some demo_file) [(CHR ''l'', ''4''), (CHR ''c'', ''x.json'')] demo_start_env demo_boot = Some (Returned d')
    \<and> dm_level d' = LOG_LEVEL_ERROR \<and> dm_config d' = g \<and> g_running (dm_alarms d') \<and> registered (dm_alarms d') = [0]
    \<and> bridge_up (dm_bridge d')"
proof -
  have env: "se_monitor_thread demo_start_env" "se_pub_thread demo_start_env" "se_sub_thread demo_start_env"
    by (simp_all add: demo_start_env_def)
  obtain s where s: "cmos_pub_init (se_pub demo_start_env) BRIDGE_MASTER_IP BRIDGE_MASTER_PORT BRIDGE_NODE_NAME BRIDGE_PUB_TOPIC
      BRIDGE_PUB_PORT (br_pub (dm_bridge demo_boot)) = Some (0, s)"
    using demo_pub_inits by blast
  obtain p g d' where h: "load_json_config demo_json (\<lambda>_. Some demo_file) ''x.json'' (dm_path demo_boot, dm_config demo_boot)
        = Some (Returned (p, g))"
      "main_init demo_json (\<lambda>_. Some demo_file) [(CHR ''l'', ''4''), (CHR ''c'', ''x.json'')] demo_start_env demo_boot
        = Some (Returned d')"
      "dm_level d' = LOG_LEVEL_ERROR" "dm_config d' = g" "g_running (dm_alarms d')" "bridge_up (dm_bridge d')"
      "find (\<lambda>j. word_of_int (modbus_uid (ups g ! j)) = (1 :: u8)) [0..<nat (ups_count g)] = Some 0 \<longrightarrow> registered (dm_alarms d') = [0]"
    using daemon_starts [OF demo_boot_ok demo_arguments demo_daemon_ok(3), of demo_start_env] env s
    by (elim exE conjE) (simp split: option.splits)
  have "find (\<lambda>j. word_of_int (modbus_uid (ups g ! j)) = (1 :: u8)) [0..<nat (ups_count g)] = Some 0"
    using demo_config [OF h(1) demo_boot_ok(2)] by simp
  then show ?thesis using h by blast
qed

lemma main_shutdown_ok:
  assumes "daemon_up d"
  shows "\<exists>d'. main_shutdown d = Some (0, d') \<and> \<not> g_running (dm_alarms d')
    \<and> g_sub_thread (dm_bridge d') = Thread_Joined \<and> g_pub_poll_thread (dm_bridge d') = Thread_Joined
    \<and> opened (io_fds (snd (br_pub (dm_bridge d')))) = closed (io_fds (snd (br_pub (dm_bridge d'))))
    \<and> ups_unit_count (dm_world d') = 0
    \<and> (\<forall>k<ups_unit_count (dm_world d). \<not> u_running (ups_units (dm_world d') ! k)
        \<and> q_lock (cmd_queue (ups_units (dm_world d') ! k)) = Mutex_Destroyed)
    \<and> (\<forall>uid addr vs cnt mode. ups_cmd_push uid addr vs cnt mode (dm_world d') = Some (- 1, dm_world d'))
    \<and> \<not> g_db (dm_manager d')"
proof -
  obtain b where b: "ups_cmos_bridge_stop (dm_bridge d) = Some b" "g_sub_thread b = Thread_Joined" "g_pub_poll_thread b = Thread_Joined"
      "opened (io_fds (snd (br_pub b))) = closed (io_fds (snd (br_pub b)))"
    using bridge_stop_ok [of "dm_bridge d"] assms by (auto simp: daemon_up_def)
  obtain w where w: "stop_ups_modules (dm_world d) = Some (0, w)" "ups_unit_count w = 0"
      "\<forall>k<ups_unit_count (dm_world d). \<not> u_running (ups_units w ! k) \<and> q_lock (cmd_queue (ups_units w ! k)) = Mutex_Destroyed"
      "\<forall>uid addr vs cnt mode. ups_cmd_push uid addr vs cnt mode w = Some (- 1, w)"
    using stop_ups_modules_ok [of "dm_world d"] assms by (auto simp: daemon_up_def)
  have "\<not> g_running (snd (alarm_bridge_stop (dm_alarms d)))" by (simp add: alarm_bridge_stop_def)
  then show ?thesis
    using b w by (simp add: main_shutdown_def case_prod_unfold Let_def ups_alarm_manager_close_def)
qed

text \<open>
  Shutdown. A daemon whose bridge is up shuts down cleanly from any state its threads have
  left: the call returns 0, the alarm monitor and both bridge threads are stopped, every descriptor
  of the publisher is closed, every unit is stopped with its queue destroyed, later commands are refused,
  and the alarm database is closed.
\<close>

theorem daemon_stops:
  assumes "daemon_up d"
  shows "\<exists>d'. main_shutdown d = Some (0, d') \<and> \<not> g_running (dm_alarms d')
    \<and> g_sub_thread (dm_bridge d') = Thread_Joined \<and> g_pub_poll_thread (dm_bridge d') = Thread_Joined
    \<and> opened (io_fds (snd (br_pub (dm_bridge d')))) = closed (io_fds (snd (br_pub (dm_bridge d'))))
    \<and> ups_unit_count (dm_world d') = 0
    \<and> (\<forall>k<ups_unit_count (dm_world d). \<not> u_running (ups_units (dm_world d') ! k)
        \<and> q_lock (cmd_queue (ups_units (dm_world d') ! k)) = Mutex_Destroyed)
    \<and> (\<forall>uid addr vs cnt mode. ups_cmd_push uid addr vs cnt mode (dm_world d') = Some (- 1, dm_world d'))
    \<and> \<not> g_db (dm_manager d')"
  by (rule main_shutdown_ok [OF assms])

definition demo_up :: daemon where
  "demo_up = demo_daemon\<lparr>dm_world := demo_world, dm_bridge := \<lparr>g_sub_thread = Thread_Running,
     g_pub_poll_thread = Thread_Running, g_bridge_running = True,
     br_pub = (demo_pub, (demo_io [])\<lparr>io_fds := map Fd_open [4, 5, 6, 7, 8, 9]\<rparr>)\<rparr>\<rparr>"

theorem daemon_stops_witness:
  "\<exists>d'. main_shutdown demo_up = Some (0, d') \<and> ups_unit_count (dm_world d') = 0
    \<and> q_lock (cmd_queue (ups_units (dm_world d') ! 0)) = Mutex_Destroyed \<and> \<not> g_db (dm_manager d')"
proof -
  have "balanced (demo_pub, (demo_io [])\<lparr>io_fds := map Fd_open [4, 5, 6, 7, 8, 9]\<rparr>)"
    using demo_pub_ok(2) by (simp add: balanced_def pub_fds_def) (simp add: demo_pub_def)
  then have "daemon_up demo_up"
    using demo_pub_ok(1) queue_init_ok(1) by (simp add: daemon_up_def bridge_up_def demo_up_def)
  moreover have "ups_unit_count (dm_world demo_up) = 1" by (simp add: demo_up_def)
  ultimately show ?thesis using daemon_stops [of demo_up] by auto
qed

text \<open>
  A daemon started without its CMOS master cannot stop. If the bridge fails to start, \<open>main\<close> only
  logs an error and waits; whatever the threads do then, as long as nothing starts the bridge, the
  shutdown is undefined behaviour: \<open>ups_cmos_bridge_stop\<close> cancels and joins a thread that does not
  exist.
\<close>

theorem daemon_stop_undefined:
  assumes "static_daemon d" and "length (dm_path d) = 256"
    and "parse_arguments opts (''./config/config.json'', LOG_LEVEL_INFO) = Returned (path, level)"
    and "good_file J from_file path"
    and "fst (the (ups_cmos_bridge_start (se_pub env) (se_pub_thread env) (se_sub_thread env) (dm_bridge d))) \<noteq> 0"
  shows "\<exists>d1. main_init J from_file opts env d = Some (Returned d1)
    \<and> main_shutdown (d1\<lparr>dm_world := w, dm_alarms := a, dm_manager := m\<rparr>) = None"
proof -
  obtain io where io: "dm_bridge d = bridge_idle io" "opened (io_fds io) = closed (io_fds io)"
    using assms(1) by (auto simp: static_daemon_def)
  obtain rc b where b: "ups_cmos_bridge_start (se_pub env) (se_pub_thread env) (se_sub_thread env) (dm_bridge d) = Some (rc, b)"
      "rc \<noteq> 0 \<longrightarrow> g_sub_thread b = Thread_Unset"
    using bridge_start_ok [OF io(2), of "se_pub env" "se_pub_thread env" "se_sub_thread env"] io(1) by auto
  from main_init_ok [OF assms(1-4), of env] obtain d1 where d1: "main_init J from_file opts env d = Some (Returned d1)"
    by blast
  have "dm_bridge d1 = b"
    using d1 b(1) assms(3) by (auto simp: main_init_def set_log_level_def Let_def split: bind_splits outcome.splits prod.splits)
  moreover have "g_sub_thread b = Thread_Unset" using b assms(5) by simp
  ultimately show ?thesis using d1 bridge_stop_undefined [of b] by (simp add: main_shutdown_def case_prod_unfold Let_def)
qed

theorem daemon_stop_undefined_witness:
  "\<exists>d1. main_init demo_json (\<lambda>_. Some demo_file) [(CHR ''l'', ''4''), (CHR ''c'', ''x.json'')]
      (demo_start_env\<lparr>se_sub_thread := False\<rparr>) demo_daemon = Some (Returned d1)
    \<and> main_shutdown (d1\<lparr>dm_world := demo_world, dm_alarms := alarm_bridge_init (\<lambda>_. None), dm_manager := dm_manager demo_daemon\<rparr>) = None"
proof (rule daemon_stop_undefined [OF demo_daemon_ok(1,2) demo_arguments demo_daemon_ok(3)])
  let ?e = "demo_start_env\<lparr>se_sub_thread := False\<rparr>"
  obtain rc b where b: "ups_cmos_bridge_start (se_pub ?e) (se_pub_thread ?e) (se_sub_thread ?e) (bridge_idle (demo_io [])) = Some (rc, b)"
    using bridge_start_ok [of "demo_io []" "se_pub ?e" "se_pub_thread ?e" "se_sub_thread ?e"] by (auto simp: demo_io_def)
  then have "rc \<noteq> 0"
    by (auto simp: ups_cmos_bridge_start_def Let_def split: bind_splits if_splits)
  then show "fst (the (ups_cmos_bridge_start (se_pub ?e) (se_pub_thread ?e) (se_sub_thread ?e) (dm_bridge demo_daemon))) \<noteq> 0"
    using b by (simp add: demo_daemon_def)
qed

end
