(* ===== verification/Cmos_Calls.thy ===== *)
theory Cmos_Calls
  imports Cmos_Sub
begin

text \<open>
  Which callbacks a round of the subscriber (\<open>lib/cmos/cmos_sub.c\<close>) can make: only those of its
  subscriptions. Connecting, looking up and closing call nothing.
\<close>

section \<open>Nothing else calls back\<close>

text \<open>The calls an operation on a context has recorded.\<close>

abbreviation calls :: "cmos_sub_ctx \<times> cm_io \<Rightarrow> (nat \<times> string \<times> string) list" where
  "calls s \<equiv> io_calls (snd s)"

lemma calls_send [simp]: "send_line fd l io = (n, io') \<Longrightarrow> io_calls io' = io_calls io"
  by (auto simp: send_line_def send_text_def Let_def)

lemma calls_drop [simp]: "calls (drop_master s) = calls s"
  by (simp add: drop_master_def close_fd_def split: prod.split)

lemma calls_connect: "connect_tcp ip port io = (fd, io') \<Longrightarrow> io_calls io' = io_calls io"
  by (auto simp: connect_tcp_def open_fd_def close_fd_def Let_def split: list.splits if_splits)

lemma calls_close: "ctx_close_conn i s = Some s' \<Longrightarrow> calls s' = calls s"
  by (auto simp: ctx_close_conn_def close_fd_def Let_def split: prod.splits if_splits bind_splits)

lemma calls_add_pub: "ctx_add_pub k node ip port s = Some (rc, s') \<Longrightarrow> calls s' = calls s"
  by (auto simp: ctx_add_pub_def dest: calls_connect split: prod.splits option.splits if_splits bind_splits)

lemma calls_lookup_line:
  "lookup_line k line (found, c) = Some r \<Longrightarrow> (case r of Inl _ \<Rightarrow> True | Inr (f, c') \<Rightarrow> calls c' = calls c)"
  by (auto simp: lookup_line_def split: prod.splits option.splits if_splits bind_splits dest: calls_add_pub)

lemma calls_lookup_lines: "lookup_lines k ls st = Some (r, st') \<Longrightarrow> calls (snd st') = calls (snd st)"
proof (induction k ls st arbitrary: r st' rule: lookup_lines.induct)
  case (2 k l ls st)
  obtain r1 where r1: "lookup_line k (line_copy l) st = Some r1"
    "(case r1 of Inl rc \<Rightarrow> Some (Some rc, st) | Inr st' \<Rightarrow> lookup_lines k ls st') = Some (r, st')"
    using 2(2) by (auto split: bind_splits)
  show ?case
  proof (cases r1)
    case (Inl rc)
    then show ?thesis using r1(2) by simp
  next
    case (Inr st1)
    then have "calls (snd st1) = calls (snd st)"
      using calls_lookup_line [of k "line_copy l" "fst st" "snd st" r1] r1(1) by (simp split: prod.splits)
    then show ?thesis using 2(1) [OF r1(1) Inr, of r st'] r1(2) Inr by simp
  qed
qed simp

lemma calls_lookup_recv: "lookup_recv k rx evs st = Some (rc, evs', c') \<Longrightarrow> calls c' = calls (snd st)"
proof (induction k rx evs st arbitrary: rc evs' c' rule: lookup_recv.induct)
  case (1 k rx evs st)
  let ?room = "CM_RX_BUF - 1 - length rx"
  show ?case
  proof (cases "\<exists>chunk r. evs = Some chunk # r \<and> take ?room chunk \<noteq> []")
    case False
    then show ?thesis using 1(2)
      by (subst (asm) lookup_recv.simps) (auto simp: Let_def split: list.splits option.splits)
  next
    case True
    then obtain chunk r where e: "evs = Some chunk # r" "take ?room chunk \<noteq> []" by blast
    obtain ls rest where sp: "split_lines (rx @ take ?room chunk) = (ls, rest)" by (metis surj_pair)
    let ?evs = "if length chunk \<le> ?room then r else Some (drop ?room chunk) # r"
    have eq: "lookup_recv k rx evs st = (case lookup_lines k ls st of
               None \<Rightarrow> None
             | Some (Some rc, st') \<Rightarrow> Some (rc, ?evs, snd st')
             | Some (None, st') \<Rightarrow> lookup_recv k (if length rest \<ge> CM_RX_BUF - 1 then [] else rest) ?evs st')"
      using e sp by (subst lookup_recv.simps) (simp add: Let_def del: take_eq_Nil One_nat_def split: option.split)
    obtain x st1 where l: "lookup_lines k ls st = Some (x, st1)"
      using 1(2) unfolding eq by (cases "lookup_lines k ls st") auto
    show ?thesis
    proof (cases x)
      case (Some rc')
      then show ?thesis using 1(2) calls_lookup_lines [OF l] unfolding eq by (auto simp: l)
    next
      case None
      then have "lookup_recv k (if length rest \<ge> CM_RX_BUF - 1 then [] else rest) ?evs st1 = Some (rc, evs', c')"
        using 1(2) unfolding eq by (simp add: l)
      then show ?thesis
        using 1(1) [OF refl refl e(1) refl e(2) sp [symmetric] l refl None] calls_lookup_lines [OF l] by simp
    qed
  qed
qed

lemma calls_lookup_slot: "ctx_lookup_slot k c = Some (rc, c') \<Longrightarrow> calls c' = calls c"
  by (cases c) (fastforce simp: ctx_lookup_slot_def dest: calls_lookup_recv split: bind_splits prod.splits if_splits)

lemma calls_register: "register_slots ctx is io = Some (ok, io') \<Longrightarrow> io_calls io' = io_calls io"
  by (induction ctx "is" io arbitrary: ok io' rule: register_slots.induct)
    (fastforce split: bind_splits prod.splits if_splits)+

lemma calls_reconnect_master: "ctx_reconnect_master s = Some (rc, s') \<Longrightarrow> calls s' = calls s"
  by (cases s) (auto simp: ctx_reconnect_master_def drop_master_def close_fd_def Let_def
      dest!: calls_connect calls_register split: bind_splits prod.splits if_splits)

lemma calls_reconnect_all:
  assumes "ctx_reconnect_all_pubs s = Some s'"
  shows "calls s' = calls s"
proof -
  let ?f = "\<lambda>i s. buf_load (sub_slots (fst s)) i \<bind> (\<lambda>sl. if sl_used sl then map_option snd (ctx_lookup_slot i s) else Some s)"
  obtain rc s1 where 1: "(if master_sock (fst s) < 0 then ctx_reconnect_master s else Some (0, s)) = Some (rc, s1)"
    "(if rc \<noteq> 0 then Some s1 else foldM ?f [0..<sub_slot_count (fst s1)] s1) = Some s'"
    using assms by (auto simp: ctx_reconnect_all_pubs_def split: bind_splits)
  have c1: "calls s1 = calls s" using 1(1) by (auto dest: calls_reconnect_master split: if_splits)
  show ?thesis
  proof (cases "rc = 0")
    case True
    then have "foldM ?f [0..<sub_slot_count (fst s1)] s1 = Some s'" using 1(2) by simp
    then have "calls s' = calls s1"
      by (rule foldM_preserves) (auto dest!: calls_lookup_slot split: bind_splits if_splits)
    then show ?thesis using c1 by simp
  qed (use 1(2) c1 in simp)
qed

lemma calls_lookup_missing:
  assumes "lookup_missing s = Some s'"
  shows "calls s' = calls s"
  using assms unfolding lookup_missing_def
  by (rule foldM_preserves) (auto dest!: calls_lookup_slot split: bind_splits if_splits)

section \<open>Callbacks come from subscriptions\<close>

definition calls_subscribed :: "cmos_sub_ctx \<Rightarrow> cm_io \<Rightarrow> bool" where
  "calls_subscribed ctx io \<longleftrightarrow>
     (\<forall>(cb, topic, arg)\<in>set (io_calls io). \<exists>j < sub_slot_count ctx. sl_cb (sub_slots ctx ! j) = Some cb)"

lemma handle_line_subscribed:
  assumes "ctx_handle_line ctx s line io = Some io'" and "calls_subscribed ctx io"
  shows "calls_subscribed ctx io'"
proof -
  have "io' = io \<or> (\<exists>cb topic arg. io' = call_cb cb topic arg io \<and> \<not> (s < 0 \<or> s \<ge> int (sub_slot_count ctx))
      \<and> sl_cb (sub_slots ctx ! nat s) = Some cb)"
    using assms(1)
    by (auto simp: ctx_handle_line_def Let_def buf_load_def split: prod.splits option.splits if_splits bind_splits)
  then show ?thesis
  proof (elim disjE exE conjE)
    fix cb topic arg
    assume h: "io' = call_cb cb topic arg io" "\<not> (s < 0 \<or> s \<ge> int (sub_slot_count ctx))"
      "sl_cb (sub_slots ctx ! nat s) = Some cb"
    then have "nat s < sub_slot_count ctx" by (simp add: nat_less_iff)
    then show ?thesis using assms(2) h(1,3) by (auto simp: calls_subscribed_def call_cb_def)
  qed (use assms(2) in simp)
qed

lemma handle_event_subscribed:
  assumes "handle_event ev (ctx, io) = Some (ctx', io')" and "calls_subscribed ctx io"
  shows "calls_subscribed ctx io'"
proof -
  have "calls (ctx', io') = calls (ctx, io) \<or> (\<exists>ls k. foldM (\<lambda>l io. ctx_handle_line ctx k (line_copy l) io) ls io = Some io')"
    using assms(1)
    by (auto simp: handle_event_def Let_def dest: calls_close split: prod.splits if_splits bind_splits)
  then show ?thesis
  proof
    assume "\<exists>ls k. foldM (\<lambda>l io. ctx_handle_line ctx k (line_copy l) io) ls io = Some io'"
    then obtain ls k where "foldM (\<lambda>l io. ctx_handle_line ctx k (line_copy l) io) ls io = Some io'" by blast
    then show ?thesis by (rule foldM_preserves) (use assms(2) handle_line_subscribed in auto)
  qed (use assms(2) in \<open>simp add: calls_subscribed_def\<close>)
qed

lemma spin_round_subscribed:
  assumes "sub_ok c0 s" and "calls s = []" and "spin_round now events (prev, s) = Some (t, s')"
  shows "sub_ok c0 s' \<and> calls_subscribed c0 (snd s')"
proof -
  have none: "calls_subscribed c0 (snd x)" if "calls x = []" for x using that by (simp add: calls_subscribed_def)
  have re: "sub_ok c0 x' \<and> calls x' = []" if "ctx_reconnect_all_pubs x = Some x'" "sub_ok c0 x" "calls x = []" for x x'
    using reconnect_all_ok [OF that(2)] calls_reconnect_all [OF that(1)] that by simp
  have mi: "sub_ok c0 x' \<and> calls x' = []" if "lookup_missing x = Some x'" "sub_ok c0 x" "calls x = []" for x x'
    using lookup_missing_ok [OF that(2)] calls_lookup_missing [OF that(1)] that by simp
  have ev: "sub_ok c0 x' \<and> calls_subscribed c0 (snd x')"
    if f: "foldM handle_event events x = Some x'" and x: "sub_ok c0 x" "calls x = []" for x x'
  proof (rule foldM_preserves [OF f])
    show "sub_ok c0 x \<and> calls_subscribed c0 (snd x)" using x none by blast
  next
    fix e y y' assume h: "handle_event e y = Some y'" "sub_ok c0 y \<and> calls_subscribed c0 (snd y)"
    have fr: "calls_subscribed (fst y) io = calls_subscribed c0 io" for io
      using h(2) by (simp add: sub_ok_def sub_frame_def calls_subscribed_def)
    show "sub_ok c0 y' \<and> calls_subscribed c0 (snd y')"
      using handle_event_ok [of c0 y e] handle_event_subscribed [of e "fst y" "snd y" "fst y'" "snd y'"] h fr by simp
  qed
  obtain s1 where 1: "(if length (filter pc_active (pub_conns (fst s))) = 0 then ctx_reconnect_all_pubs s else Some s) = Some s1"
      "sub_ok c0 s1" "calls s1 = []"
    using reconnect_all_ok [OF assms(1)] re [of s] assms(1,2)
    by (cases "length (filter pc_active (pub_conns (fst s))) = 0") auto
  show ?thesis
  proof (cases "length (filter pc_active (pub_conns (fst s1))) = 0")
    case True
    then have "ctx_reconnect_all_pubs s1 = Some s'"
      using assms(3) 1 active_count_ok [OF assms(1)] active_count_ok [OF 1(2)]
      by (auto simp: spin_round_def split: bind_splits)
    from re [OF this 1(2,3)] show ?thesis using none by blast
  next
    case False
    then have "(if now - prev \<ge> 2 then lookup_missing s1 else Some s1) \<bind> foldM handle_event events = Some s'"
      using assms(3) 1 active_count_ok [OF assms(1)] active_count_ok [OF 1(2)]
      by (auto simp: spin_round_def split: bind_splits if_splits)
    then obtain s3 where 3: "(if now - prev \<ge> 2 then lookup_missing s1 else Some s1) = Some s3"
        "foldM handle_event events s3 = Some s'"
      by (auto split: bind_splits)
    have "sub_ok c0 s3 \<and> calls s3 = []" using 3(1) 1(2,3) mi [of s1] by (auto split: if_splits)
    then show ?thesis using ev [OF 3(2)] by blast
  qed
qed

end
