(* ===== verification/Status_Flow.thy ===== *)
theory Status_Flow
  imports Ups_Cmos_Bridge
begin

text \<open>
  The status messages of the publisher thread (\<open>ups_cmos_bridge.c\<close>, \<open>cmos_pub.c\<close>) as another node's
  subscriber (\<open>cmos_sub.c\<close>) receives them: what one descriptor gets when every \<open>send\<close> completes, and
  the callbacks that the lines of a pass make at a subscription of one key.
\<close>

section \<open>Lines that every subscriber gets\<close>

text \<open>What went to one descriptor.\<close>

definition sent_to :: "int \<Rightarrow> (int \<times> string) list \<Rightarrow> string" where
  "sent_to fd wire = concat (map snd (filter (\<lambda>x. fst x = fd) wire))"

lemma sent_to_append [simp]: "sent_to fd (xs @ ys) = sent_to fd xs @ sent_to fd ys"
  by (simp add: sent_to_def)

lemma deliver_complete:
  "l \<noteq> [] \<Longrightarrow> deliver l fds [] = (fds, map (\<lambda>fd. (fd, l)) fds, [], [])"
  by (induction fds) (simp_all add: Let_def)

lemma deliver_lines_complete:
  "\<forall>l\<in>set ls. l \<noteq> [] \<Longrightarrow> deliver_lines ls fds [] = (fds, concat (map (\<lambda>l. map (\<lambda>fd. (fd, l)) fds) ls), [])"
  by (induction ls) (simp_all add: deliver_complete)

lemma sent_to_one:
  assumes "fd \<in> set fds" and "distinct fds"
  shows "sent_to fd (concat (map (\<lambda>l. map (\<lambda>fd. (fd, l)) fds) ls)) = concat ls"
proof -
  have "filter (\<lambda>x. fst x = fd) (map (\<lambda>fd. (fd, l)) fds) = [(fd, l)]" for l :: string
    using assms by (induction fds) (auto simp: filter_empty_conv comp_def)
  then show ?thesis by (induction ls) (simp_all add: sent_to_def)
qed

lemma pub_sent_complete:
  assumes "pub_sent ls (p, io) s'" and "io_send_rc io = []" and "\<forall>l\<in>set ls. l \<noteq> []"
    and "fd \<in> set (subs p)" and "distinct (subs p)"
  shows "\<exists>wire. io_wire (snd s') = io_wire io @ wire \<and> sent_to fd wire = concat ls \<and> subs (fst s') = subs p"
  using assms deliver_lines_complete [OF assms(3), of "subs p"] sent_to_one [OF assms(4,5), of ls]
  by (auto simp: pub_sent_def)

section \<open>Status lines at a subscriber\<close>

text \<open>
  A slot subscribes to one status key of a topic, of modules in any state (\<open>[]\<close>) or in the given
  one, whatever type the message has.
\<close>

definition status_slot :: "string \<Rightarrow> string \<Rightarrow> string \<Rightarrow> nat \<Rightarrow> cm_sub_slot \<Rightarrow> bool" where
  "status_slot topic state key cb sl \<longleftrightarrow> cstr (sl_topic sl) = topic \<and> cstr (filter_state sl) = state
     \<and> cstr (filter_type sl) = [] \<and> cstr (filter_key sl) = key \<and> sl_cb sl = Some cb"

text \<open>How a module's state is published, and the modules that a state filter lets through.\<close>

definition state_word :: "module_config \<Rightarrow> string" where
  "state_word cfg = (if connection_state cfg = CONNECTION_CONNECTED then ''Alive'' else ''Disconnect'')"

definition in_state :: "string \<Rightarrow> module_config list \<Rightarrow> nat \<Rightarrow> nat" where
  "in_state state cfgs n = length (filter (\<lambda>i. matches state (Some (state_word (cfgs ! i)))) [0..<n])"

lemma in_any_state: "in_state [] cfgs n = n"
  by (simp add: in_state_def matches_def)

definition status_key :: "nat \<Rightarrow> string" where
  "status_key r = fst (status_registers ! r)"

lemma status_registers_facts:
  assumes "(key, addr) \<in> set status_registers"
  shows "plain key" "length key \<le> 31" "unat addr < 65535"
  using assms by (auto simp: status_registers_def plain_def)

lemma status_key_filter:
  assumes "r < 6"
  shows "filter (\<lambda>x. fst x = status_key r) status_registers = [status_registers ! r]"
    and "snd (status_registers ! r) = 0xBB00 + word_of_nat r" and "status_key r \<noteq> []"
proof -
  have r: "r \<in> {0, 1, 2, 3, 4, 5}" using assms by auto
  show "filter (\<lambda>x. fst x = status_key r) status_registers = [status_registers ! r]"
    using r by (auto simp: status_key_def status_registers_def)
  show "snd (status_registers ! r) = 0xBB00 + word_of_nat r" using r by (auto simp: status_registers_def)
  show "status_key r \<noteq> []" using r by (auto simp: status_key_def status_registers_def)
qed

lemma status_fields:
  assumes "plain key"
  shows "fields_plain [Some (if connection_state cfg = CONNECTION_CONNECTED then ''Alive'' else ''Disconnect''), None, Some key,
    Some (show_nat n)]"
  using assms show_nat_plain [of n] by (simp add: fields_plain_def) (simp add: plain_def)

lemma status_text_short:
  assumes "length key \<le> 31"
  shows "length (status_text cfg key v) \<le> 100"
proof -
  have "length (cstr key) \<le> 31" using assms length_takeWhile_le [of _ key] le_trans unfolding cstr_def by blast
  moreover have "length (cstr (show_nat (unat v))) \<le> 5"
    using show_u16_length [of v] length_takeWhile_le [of _ "show_nat (unat v)"] le_trans unfolding cstr_def by blast
  moreover have "length (cstr ''Alive'') = 5" "length (cstr ''Disconnect'') = 10" by (simp_all add: cstr_def)
  ultimately show ?thesis by (auto simp: status_text_def message_text_def labelled_def)
qed

lemma status_line_whole:
  assumes "plain topic" and "plain key"
  shows "\<exists>w. wire_line topic (status_text cfg key v) = w @ [CHR 0x0A] \<and> CHR 0x0A \<notin> set w"
proof -
  have "\<forall>c\<in>set (status_text cfg key v). \<not> crlf c \<and> c \<noteq> CHR 0x00"
    unfolding status_text_def using message_parse(3) [OF status_fields [OF assms(2), of cfg "unat v"]] by simp
  then have b: "CHR 0x0A \<notin> set (status_text cfg key v)" by (auto simp: crlf_def)
  have t: "CHR 0x0A \<notin> set topic" using assms(1) by (auto simp: plain_def)
  let ?w = "''MSG '' @ topic @ '' '' @ status_text cfg key v"
  have "CHR 0x0A \<notin> set ?w" using b t by simp
  moreover have "wire_line topic (status_text cfg key v) = ?w @ [CHR 0x0A]"
    unfolding wire_line_def by (simp only: append_assoc)
  ultimately show ?thesis by blast
qed

lemma status_line_handled:
  assumes "sub_good (ctx, io0)" and "j < sub_slot_count ctx" and "status_slot topic state key cb (sub_slots ctx ! j)"
    and "plain topic" and "length topic \<le> 63" and "plain key'" and "length key' \<le> 31" and "key \<noteq> []"
  shows "ctx_handle_line ctx (int j) (line_copy (wire_line topic (status_text cfg key' v))) io
    = Some (io\<lparr>io_calls := io_calls io @ (if key' = key \<and> matches state (Some (state_word cfg)) then [(cb, topic, show_nat (unat v))] else [])\<rparr>)"
proof -
  have len: "length (wire_line topic (status_text cfg key' v)) \<le> 511"
    using status_text_short [OF assms(7), of cfg v] assms(5) by (simp add: wire_line_def)
  have io: "io\<lparr>io_calls := io_calls io\<rparr> = io" by simp
  show ?thesis
    using handle_line_matches [OF assms(1,2,4) status_fields [OF assms(6), of cfg "unat v"] _ len [unfolded status_text_def], of io]
      assms(3,8)
    by (auto simp: status_text_def status_slot_def state_word_def matches_def Let_def)
qed

text \<open>The calls of the status lines: one per module the filter lets through, with the register's value.\<close>

lemma status_lines_handled:
  assumes "sub_good (ctx, io0)" and "j < sub_slot_count ctx" and "status_slot topic state (status_key r) cb (sub_slots ctx ! j)"
    and "plain topic" and "length topic \<le> 63" and "r < 6"
  shows "foldM (\<lambda>l io. ctx_handle_line ctx (int j) (line_copy l) io) (status_lines topic cfgs n p) io
    = Some (io\<lparr>io_calls := io_calls io @ replicate (in_state state cfgs n) (cb, topic, show_nat (unat (p (0xBB00 + r))))\<rparr>)"
proof -
  let ?h = "\<lambda>l io. ctx_handle_line ctx (int j) (line_copy l) io"
  let ?line = "\<lambda>i (key, addr). wire_line topic (status_text (cfgs ! i) key (p (unat addr)))"
  let ?call = "\<lambda>x. (cb, topic, show_nat (unat (p (unat (snd x)))))"
  have inner: "foldM ?h (map (?line i) xs) io
      = Some (io\<lparr>io_calls := io_calls io @ (if matches state (Some (state_word (cfgs ! i)))
          then map ?call (filter (\<lambda>x. fst x = status_key r) xs) else [])\<rparr>)"
    if "set xs \<subseteq> set status_registers" for i xs io
    using that
  proof (induction xs arbitrary: io)
    case (Cons x xs)
    obtain key addr where x: "x = (key, addr)" by (cases x)
    then have "plain key" "length key \<le> 31" using status_registers_facts [of key addr] Cons(2) by simp_all
    from status_line_handled [OF assms(1-5) this status_key_filter(3) [OF assms(6)], of "cfgs ! i" "p (unat addr)" io]
    show ?case using Cons x by simp
  qed simp
  have un: "unat (0xBB00 + word_of_nat r :: u16) = 0xBB00 + r"
    using assms(6) by (subst unat_add_lem [THEN iffD1]) (simp_all add: unat_of_nat_small)
  have one: "foldM ?h (map (?line i) status_registers) io
      = Some (io\<lparr>io_calls := io_calls io @ (if matches state (Some (state_word (cfgs ! i)))
          then [(cb, topic, show_nat (unat (p (0xBB00 + r))))] else [])\<rparr>)" for i io
    using inner [of status_registers i io] status_key_filter(1,2) [OF assms(6)] un by simp
  have "foldM ?h (concat (map (\<lambda>i. map (?line i) status_registers) is)) io
      = Some (io\<lparr>io_calls := io_calls io @ replicate (length (filter (\<lambda>i. matches state (Some (state_word (cfgs ! i)))) is))
          (cb, topic, show_nat (unat (p (0xBB00 + r))))\<rparr>)" for "is"
    by (induction "is" arbitrary: io) (simp_all add: foldM_append one)
  from this [of "[0..<n]"] show ?thesis by (simp add: status_lines_def in_state_def)
qed

lemma status_lines_split:
  assumes "plain topic" and "length topic \<le> 63"
  shows "split_lines (concat (status_lines topic cfgs n p)) = (status_lines topic cfgs n p, [])"
    and "\<forall>l\<in>set (status_lines topic cfgs n p). l \<noteq> [] \<and> length l \<le> 2047"
proof -
  have l: "\<exists>cfg key v. l = wire_line topic (status_text cfg key v) \<and> plain key \<and> length key \<le> 31"
    if "l \<in> set (status_lines topic cfgs n p)" for l
    using that status_registers_facts by (fastforce simp: status_lines_def)
  show "split_lines (concat (status_lines topic cfgs n p)) = (status_lines topic cfgs n p, [])"
    using l status_line_whole [OF assms(1)] by (intro split_whole_lines) blast
  show "\<forall>l\<in>set (status_lines topic cfgs n p). l \<noteq> [] \<and> length l \<le> 2047"
  proof
    fix l assume "l \<in> set (status_lines topic cfgs n p)"
    from l [OF this] obtain cfg key v where w: "l = wire_line topic (status_text cfg key v)" "length key \<le> 31" by blast
    then show "l \<noteq> [] \<and> length l \<le> 2047" using status_text_short [OF w(2), of cfg v] assms(2) by (simp add: wire_line_def)
  qed
qed

lemma status_received:
  assumes "sub_good (ctx, io)" and "i < 512" and "pc_active (pub_conns ctx ! i)" and "pc_rx (pub_conns ctx ! i) = []"
    and "pc_sub_slot (pub_conns ctx ! i) = int j" and "j < sub_slot_count ctx"
    and "status_slot topic state (status_key r) cb (sub_slots ctx ! j)" and "plain topic" and "length topic \<le> 63" and "r < 6"
    and "concat chunks = concat (status_lines topic cfgs n p)" and "chunks_fit [] chunks"
  shows "foldM handle_event (map (\<lambda>c. (i, Some c)) chunks) (ctx, io)
    = Some (ctx, io\<lparr>io_calls := io_calls io @ replicate (in_state state cfgs n) (cb, topic, show_nat (unat (p (0xBB00 + r))))\<rparr>)"
proof -
  note sp = status_lines_split [OF assms(8,9), of cfgs n p]
  have same: "(pub_conns ctx)[i := (pub_conns ctx ! i)\<lparr>pc_rx := []\<rparr>] = pub_conns ctx"
    using assms(4) by (metis list_update_id cm_pub_conn.surjective cm_pub_conn.update_convs(3))
  have sp1: "split_lines ([] @ concat chunks) = (status_lines topic cfgs n p, [])" using sp(1) assms(11) by simp
  have ll: "\<forall>l\<in>set (status_lines topic cfgs n p). length l \<le> 2047" using sp(2) by blast
  show ?thesis
    using chunks_loop [OF assms(1-4,12) sp1 ll] status_lines_handled [OF assms(1,6-10), of cfgs n p io] assms(5) same
    by simp
qed

lemma in_state_pos: "i < n \<Longrightarrow> matches state (Some (state_word (cfgs ! i))) \<Longrightarrow> 0 < in_state state cfgs n"
  unfolding in_state_def by (rule length_pos_if_in_set [of i]) simp

text \<open>A publisher pass, from the pool to the callbacks of one subscription.\<close>

lemma status_pass_received:
  assumes "pub_inv p" and "balanced (p, io)" and "length msg_junk = 896" and "n_ups \<le> length cfgs"
    and "cmos_pub_poll ready a (p, io) = Some (p0, io0)" and "io_send_rc io0 = []"
    and "fd \<in> set (subs p0)" and "distinct (subs p0)" and "plain (cstr (pub_topic p))"
    and "sub_good (ctx, sub_io)" and "i < 512" and "pc_active (pub_conns ctx ! i)" and "pc_rx (pub_conns ctx ! i) = []"
    and "pc_sub_slot (pub_conns ctx ! i) = int j" and "j < sub_slot_count ctx" and "r < 6"
    and "status_slot (cstr (pub_topic p)) state (status_key r) cb (sub_slots ctx ! j)"
  shows "\<exists>s' wire arg. pub_poll_iter msg_junk ready a cfgs n_ups pool (p, io) = Some s'
    \<and> io_wire (snd s') = io_wire io0 @ wire
    \<and> (\<forall>pieces. concat pieces = sent_to fd wire \<and> chunks_fit [] pieces \<longrightarrow>
        foldM handle_event (map (\<lambda>x. (i, Some x)) pieces) (ctx, sub_io)
          = Some (ctx, sub_io\<lparr>io_calls := io_calls sub_io @ replicate (in_state state cfgs n_ups) (cb, cstr (pub_topic p), arg)\<rparr>))
    \<and> strtoul0 arg = unat (pool (0xBB00 + r))"
proof -
  let ?t = "cstr (pub_topic p)"
  let ?ls = "status_lines ?t cfgs n_ups pool"
  have len: "length ?t \<le> 63" by (rule topic_string(2) [OF assms(1)])
  from pub_poll_iter_sends [OF assms(1-4), of ready a pool] assms(5) obtain s' where
    s': "pub_poll_iter msg_junk ready a cfgs n_ups pool (p, io) = Some s'" "pub_sent ?ls (p0, io0) s'"
    by auto
  have ne: "\<forall>l\<in>set ?ls. l \<noteq> []" using status_lines_split(2) [OF assms(9) len] by blast
  from pub_sent_complete [OF s'(2) assms(6) ne assms(7,8)] obtain wire where
    wire: "io_wire (snd s') = io_wire io0 @ wire" "sent_to fd wire = concat ?ls"
    by blast
  let ?arg = "show_nat (unat (pool (0xBB00 + r)))"
  have "unat (pool (0xBB00 + r)) < 2 ^ 16" using unsigned_less [of "pool (0xBB00 + r)"] by simp
  then have "strtoul0 ?arg = unat (pool (0xBB00 + r))" by (intro strtoul_show) (simp add: ULONG_LIMIT_def)
  then show ?thesis
    using s'(1) wire status_received [OF assms(10-15,17,9) len assms(16), of _ cfgs n_ups pool]
    by (intro exI [of _ s'] exI [of _ wire] exI [of _ ?arg]) auto
qed

section \<open>An example\<close>

text \<open>Subscribers of one slot, to the battery voltage of topic \<open>ups\<close>, with one idle connection.\<close>

definition demo_status_slot :: "string \<Rightarrow> cm_sub_slot" where
  "demo_status_slot state = \<lparr>sl_topic = ''ups'' @ replicate 61 (CHR 0x00),
     filter_state = state @ replicate (32 - length state) (CHR 0x00),
     filter_type = replicate 32 (CHR 0x00), filter_key = ''ups_battery_voltage'' @ replicate 13 (CHR 0x00),
     sl_cb = Some 9, sl_used = True\<rparr>"

definition demo_status_sub :: "string \<Rightarrow> cmos_sub_ctx" where
  "demo_status_sub state = demo_sub\<lparr>sub_slots := demo_status_slot state # replicate 511 zero_slot,
     pub_conns := demo_conn\<lparr>pc_rx := []\<rparr> # replicate 511 idle_conn\<rparr>"

lemma demo_status_good:
  assumes "length state < 32" and "CHR 0x00 \<notin> set state"
  shows "sub_good (demo_status_sub state, demo_sub_fds)"
proof -
  let ?sub = "demo_status_sub state"
  have "held (replicate n (- 1 :: int)) = {#}" for n by (induction n) simp_all
  then have "held (map pc_sock (pub_conns ?sub)) = {#9#}" by (simp add: demo_status_sub_def demo_conn_def idle_conn_def)
  moreover have "filter pc_active (pub_conns ?sub) = [demo_conn\<lparr>pc_rx := []\<rparr>]"
    by (simp add: demo_status_sub_def demo_conn_def idle_conn_def zero_conn_def)
  moreover have "conn_wf 1 (demo_conn\<lparr>pc_rx := []\<rparr>)" "conn_wf 1 idle_conn"
    by (simp_all add: conn_wf_def demo_conn_def idle_conn_def zero_conn_def)
  moreover have "slot_wf (demo_status_slot state)" "slot_wf zero_slot"
    using assms by (simp_all add: slot_wf_def demo_status_slot_def zero_slot_def)
  moreover have "sl_used (demo_status_slot state)" by (simp add: demo_status_slot_def)
  moreover have "length (sub_slots ?sub) = 512" "sub_slots ?sub ! 0 = demo_status_slot state"
      "sub_slot_count ?sub = 1" "length (pub_conns ?sub) = 512" "pub_count ?sub = 1"
      "set (sub_slots ?sub) = {demo_status_slot state, zero_slot}"
      "set (pub_conns ?sub) = {demo_conn\<lparr>pc_rx := []\<rparr>, idle_conn}"
    by (auto simp: demo_status_sub_def demo_sub_def)
  ultimately show ?thesis
    by (simp add: sub_good_def sub_inv_def sub_fds_def demo_sub_fds_def demo_io_def)
      (simp add: demo_status_sub_def demo_sub_def zero_sub_ctx_def)
qed

lemma demo_status_slot_ok:
  assumes "length state < 32" and "CHR 0x00 \<notin> set state"
  shows "status_slot ''ups'' state (status_key 4) 9 (sub_slots (demo_status_sub state) ! 0)"
  using cstr_padded [of "[]" 32] cstr_padded [of "''ups''" 61] cstr_padded [of "''ups_battery_voltage''" 13]
    cstr_padded [OF assms(2), of "32 - length state"] assms(1)
  by (simp add: status_slot_def demo_status_slot_def demo_status_sub_def status_key_def status_registers_def)

lemma demo_status_conn:
  "pub_conns (demo_status_sub state) ! 0 = demo_conn\<lparr>pc_rx := []\<rparr>" "sub_slot_count (demo_status_sub state) = 1"
  by (simp_all add: demo_status_sub_def demo_sub_def)

end
