(* ===== verification/Daemon_Run.thy ===== *)
theory Daemon_Run
  imports Daemon Cmos_Calls
begin

text \<open>
  The running daemon: its threads interleaved. \<open>main\<close> starts one poll thread per configured unit
  (\<open>ups_module.c\<close>), the alarm monitor (\<open>alarm_bridge.c\<close>) and the bridge's publisher and subscriber
  threads (\<open>ups_cmos_bridge.c\<close>); they share the units and their queues, the configurations and the
  register pool. A step of the daemon is one pass of one of its threads. The invariant of all of
  them shows that no order of the passes makes one fail.
\<close>

section \<open>What a poll thread leaves alone\<close>

text \<open>A step of the thread of unit \<open>k\<close>: no other unit changes, and no unit changes its configuration.\<close>

definition unit_frame :: "nat \<Rightarrow> ups_world \<Rightarrow> ups_world \<Rightarrow> bool" where
  "unit_frame k w w' \<longleftrightarrow> ups_unit_count w' = ups_unit_count w \<and> length (ups_units w') = length (ups_units w)
     \<and> length (uw_cfgs w') = length (uw_cfgs w) \<and> (\<forall>i. u_cfg (ups_units w' ! i) = u_cfg (ups_units w ! i))
     \<and> (\<forall>i. i \<noteq> k \<longrightarrow> ups_units w' ! i = ups_units w ! i)"

lemma unit_frame_refl [simp]: "unit_frame k w w"
  by (simp add: unit_frame_def)

lemma unit_frame_trans: "unit_frame k w w1 \<Longrightarrow> unit_frame k w1 w2 \<Longrightarrow> unit_frame k w w2"
  by (simp add: unit_frame_def)

lemma unit_frame_upd:
  assumes "k < length (ups_units w)" and "u_cfg u = u_cfg (ups_units w ! k)"
    and "ups_unit_count w' = ups_unit_count w" and "length (uw_cfgs w') = length (uw_cfgs w)"
  shows "unit_frame k w (w'\<lparr>ups_units := (ups_units w)[k := u]\<rparr>)"
proof -
  have "u_cfg ((ups_units w)[k := u] ! i) = u_cfg (ups_units w ! i)" for i
    using assms by (cases "i = k") simp_all
  then show ?thesis using assms(3,4) by (simp add: unit_frame_def)
qed

lemma unit_frame_fields [simp]:
  "unit_frame k w (w'\<lparr>uw_fds := x\<rparr>) = unit_frame k w w'" "unit_frame k w (w'\<lparr>uw_net := n\<rparr>) = unit_frame k w w'"
  "unit_frame k w (w'\<lparr>uw_pool := p\<rparr>) = unit_frame k w w'"
  "length cs = length (uw_cfgs w') \<Longrightarrow> unit_frame k w (w'\<lparr>uw_cfgs := cs\<rparr>) = unit_frame k w w'"
  by (simp_all add: unit_frame_def)

lemma init_callback_frame:
  assumes "unit_wf w k c pr tab" and "ups_tcp_init_callback env m fresh (Some c) w = Some (rc, w')"
  shows "unit_frame k w w'"
proof -
  have k: "k < length (ups_units w)" using assms(1) by (simp add: unit_wf_def)
  show ?thesis
    using assms(2) k
    by (auto simp: ups_tcp_init_callback_def unit_wf_lookup [OF assms(1)] Let_def
      intro!: unit_frame_upd split: bind_splits if_splits)
qed

lemma process_callback_frame:
  assumes "unit_wf w k c pr tab" and "ups_tcp_process_callback junk pushes (Some c) w = Some (rc, w')"
  shows "unit_frame k w w'"
proof -
  have k: "k < length (ups_units w)" using assms(1) by (simp add: unit_wf_def)
  show ?thesis
    using assms(2) k
    by (auto simp: ups_tcp_process_callback_def unit_wf_lookup [OF assms(1)] Let_def
      intro!: unit_frame_upd split: bind_splits if_splits)
qed

lemma error_callback_frame:
  assumes "unit_wf w k c pr tab" and "ups_tcp_error_callback (Some c) st w = Some (rc, w')"
  shows "unit_frame k w w'"
proof -
  have k: "k < length (ups_units w)" using assms(1) by (simp add: unit_wf_def)
  show ?thesis
    using assms(2) k
    by (auto simp: ups_tcp_error_callback_def unit_wf_lookup [OF assms(1)] Let_def
      intro!: unit_frame_upd split: bind_splits if_splits)
qed

lemma thread_step_frame:
  assumes "ups_thread_step nofile k s s'" and "thread_inv k c pr tab s"
  shows "unit_frame k (snd s) (snd s')"
proof -
  have wf: "unit_wf (snd s) k c pr tab" "u_cfg (ups_units (snd s) ! k) = Some c" "k < length (ups_units (snd s))"
    using assms(2) by (auto simp: thread_inv_def unit_wf_def split: prod.splits)
  show ?thesis
    using assms(1)
  proof (cases rule: ups_thread_step.cases)
    case (process_failed w junk pushes r w1 e w')
    have c: "client_ready (u_tcp (ups_units w ! k))" using assms(2) process_failed(1) by (simp add: thread_inv_def)
    have p: "ups_tcp_process_callback junk pushes (Some c) w = Some (r, w1)" using process_failed wf(2) by simp
    have w1: "unit_wf w1 k c pr tab"
      using process_callback_ok [of w k c pr tab junk pushes] wf(1) c process_failed p by auto
    then have "u_cfg (ups_units w1 ! k) = Some c" by (simp add: unit_wf_def)
    then have "unit_frame k w1 w'" using error_callback_frame [OF w1] process_failed by auto
    moreover have "unit_frame k w w1" using process_callback_frame [OF _ p] wf(1) process_failed by simp
    ultimately show ?thesis using process_failed unit_frame_trans by auto
  qed (use wf in \<open>auto intro!: unit_frame_upd intro: init_callback_frame process_callback_frame\<close>)
qed

lemma thread_inv_frame:
  assumes "thread_inv j c pr tab (ph, w)" and "unit_frame k w w'" and "j \<noteq> k"
  shows "thread_inv j c pr tab (ph, w')"
  using assms by (simp add: thread_inv_def unit_wf_def unit_frame_def)

lemma thread_inv_fields [simp]:
  "thread_inv k c pr tab (ph, w\<lparr>uw_net := n\<rparr>) = thread_inv k c pr tab (ph, w)"
  by (simp add: thread_inv_def unit_wf_def)

section \<open>Sockets of the poll threads\<close>

lemma other_events [simp]:
  "opened (Fd_timeout fd t # tr) = opened tr" "opened (Fd_rcvtimeo_ms fd t # tr) = opened tr" "opened (Fd_shutdown fd # tr) = opened tr"
  "closed (Fd_timeout fd t # tr) = closed tr" "closed (Fd_rcvtimeo_ms fd t # tr) = closed tr" "closed (Fd_shutdown fd # tr) = closed tr"
  by (simp_all add: opened_def closed_def)

text \<open>A change of the events that accounts for the sockets held before and after.\<close>

definition fds_change :: "int multiset \<Rightarrow> int multiset \<Rightarrow> fd_ev list \<Rightarrow> fd_ev list \<Rightarrow> bool" where
  "fds_change h h' tr tr' \<longleftrightarrow> opened tr' + closed tr + h = opened tr + closed tr' + h'"

lemma fds_change_sum:
  assumes "fds_change {#} s tr0 tr" and "fds_change h h' tr tr'" and "s + h' = s' + h"
  shows "fds_change {#} s' tr0 tr'"
  unfolding fds_change_def multiset_eq_iff count_union
proof
  fix x
  have "count (opened tr) x + count (closed tr0) x = count (opened tr0) x + count (closed tr) x + count s x"
    "count (opened tr') x + count (closed tr) x + count h x = count (opened tr) x + count (closed tr') x + count h' x"
    "count s x + count h' x = count s' x + count h x"
    using assms unfolding fds_change_def multiset_eq_iff count_union by auto
  then show "count (opened tr') x + count (closed tr0) x + count {#} x
      = count (opened tr0) x + count (closed tr') x + count s' x"
    by simp
qed

lemma client_connect_fds:
  assumes "mb_tcp_client_connect env m (Some c0) (Some cf) tr = Some (rc, Some c, tr')"
  shows "fds_change {#} (if rc = 0 then {#cl_sock c#} else {#}) tr tr'"
  using assms
  by (auto simp: mb_tcp_client_connect_def mb_tcp_connect_def connect_fail_def EINVAL_def Let_def fds_change_def
      split: option.splits if_splits bind_splits)

text \<open>The socket of unit \<open>k\<close> while its thread is connected.\<close>

definition poll_holds :: "nat \<Rightarrow> ups_phase \<times> ups_world \<Rightarrow> int multiset" where
  "poll_holds k s = (if fst s = At_inner then {#cl_sock (u_tcp (ups_units (snd s) ! k))#} else {#})"

lemma init_callback_fds:
  assumes "unit_wf w k c pr tab" and "ups_tcp_init_callback env m fresh (Some c) w = Some (rc, w')"
  shows "fds_change {#} (if rc = 0 then {#cl_sock (u_tcp (ups_units w' ! k))#} else {#}) (uw_fds w) (uw_fds w')"
proof -
  have k: "k < length (ups_units w)" using assms(1) by (simp add: unit_wf_def)
  show ?thesis
    using assms(2) k
    by (auto simp: ups_tcp_init_callback_def unit_wf_lookup [OF assms(1)] Let_def
      dest!: client_connect_fds split: bind_splits if_splits)
qed

lemma thread_step_fds:
  assumes "ups_thread_step nofile k s s'" and "thread_inv k c pr tab s" and "fst s = At_outer \<or> fst s = At_inner"
    and "u_running (ups_units (snd s') ! k)"
  shows "fds_change (poll_holds k s) (poll_holds k s') (uw_fds (snd s)) (uw_fds (snd s'))"
proof -
  have wf: "unit_wf (snd s) k c pr tab" "u_cfg (ups_units (snd s) ! k) = Some c" "k < length (ups_units (snd s))"
    using assms(2) by (auto simp: thread_inv_def unit_wf_def split: prod.splits)
  have ready: "client_ready (u_tcp (ups_units (snd s) ! k))" if "fst s = At_inner"
    using assms(2) that by (auto simp: thread_inv_def split: prod.splits)
  have no: "fds_change h h tr tr" for h tr by (simp add: fds_change_def)
  show ?thesis
    using assms(1)
  proof (cases rule: ups_thread_step.cases)
    case (init_failed w env rc fresh r w')
    then show ?thesis using init_callback_fds [of w k c pr tab env rc fresh r w'] wf by (simp add: poll_holds_def)
  next
    case (init_done w env rc fresh w')
    then show ?thesis using init_callback_fds [of w k c pr tab env rc fresh 0 w'] wf by (simp add: poll_holds_def)
  next
    case (process_done w junk pushes w')
    then show ?thesis
      using process_callback_ok [of w k c pr tab junk pushes] wf ready no by (auto simp: poll_holds_def)
  next
    case (process_failed w junk pushes r w1 e w')
    then obtain w1': "unit_wf w1 k c pr tab" "client_ready (u_tcp (ups_units w1 ! k))" "uw_fds w1 = uw_fds w"
        "cl_sock (u_tcp (ups_units w1 ! k)) = cl_sock (u_tcp (ups_units w ! k))"
      using process_callback_ok [of w k c pr tab junk pushes] wf ready by auto
    then have cfg: "u_cfg (ups_units w1 ! k) = Some c" by (simp add: unit_wf_def)
    have "0 \<le> cl_sock (u_tcp (ups_units w1 ! k))" using w1'(2) by (simp add: client_ready_def)
    then show ?thesis
      using error_callback_ok [OF w1'(1,2), of CONNECTION_DISCONNECTED] process_failed cfg w1'(3,4)
      by (auto simp: poll_holds_def fds_change_def)
  next
    case (init_undefined w env rc fresh)
    then show ?thesis using no by (simp add: poll_holds_def)
  next
    case (process_undefined w junk pushes)
    then obtain r w1 where "ups_tcp_process_callback junk pushes (Some c) w = Some (r, w1)" "unit_wf w1 k c pr tab"
        "client_ready (u_tcp (ups_units w1 ! k))"
      using process_callback_ok [of w k c pr tab junk pushes] wf ready by auto
    moreover from this have "u_cfg (ups_units w1 ! k) = Some c" by (simp add: unit_wf_def)
    ultimately show ?thesis
      using error_callback_ok [of w1 k c pr tab CONNECTION_DISCONNECTED] process_undefined wf by auto
  qed (use wf assms(3,4) no in \<open>auto simp: poll_holds_def\<close>)
qed

text \<open>All sockets of connected units.\<close>

definition polls_hold :: "nat \<Rightarrow> (nat \<Rightarrow> ups_phase) \<Rightarrow> ups_world \<Rightarrow> int multiset" where
  "polls_hold n ph w = (\<Sum>k<n. poll_holds k (ph k, w))"

lemma polls_hold_cong:
  assumes "\<And>k. k < n \<Longrightarrow> u_tcp (ups_units w' ! k) = u_tcp (ups_units w ! k)"
  shows "polls_hold n ph w' = polls_hold n ph w"
  unfolding polls_hold_def poll_holds_def using assms by (intro sum.cong) simp_all

lemma polls_hold_step:
  assumes "k < n" and "unit_frame k w w'"
  shows "polls_hold n ph w + poll_holds k (ph', w') = polls_hold n (ph(k := ph')) w' + poll_holds k (ph k, w)"
proof -
  have "poll_holds j ((ph(k := ph')) j, w') = poll_holds j (ph j, w)" if "j \<noteq> k" for j
    using that assms(2) by (simp add: poll_holds_def unit_frame_def)
  then have "(\<Sum>j\<in>{..<n} - {k}. poll_holds j ((ph(k := ph')) j, w')) = (\<Sum>j\<in>{..<n} - {k}. poll_holds j (ph j, w))"
    by (intro sum.cong) auto
  then show ?thesis using assms(1) unfolding polls_hold_def by (simp add: sum.remove [of "{..<n}" k])
qed

section \<open>All units of a running daemon\<close>

text \<open>
  The units run those configurations, in order; each thread is in one of its loops and keeps its
  invariant; the sockets opened and not closed since \<open>tr0\<close> are those of the connected units.
\<close>

definition units_run :: "fd_ev list \<Rightarrow> nat list \<Rightarrow> (nat \<Rightarrow> ups_phase) \<Rightarrow> ups_world \<Rightarrow> bool" where
  "units_run tr0 cs ph w \<longleftrightarrow> ups_unit_count w = length cs
     \<and> fds_change {#} (polls_hold (length cs) ph w) tr0 (uw_fds w)
     \<and> (\<forall>k<length cs. thread_inv k (cs ! k) ups1_profile ups1_mapping_table (ph k, w)
          \<and> u_running (ups_units w ! k) \<and> (ph k = At_outer \<or> ph k = At_inner))"

lemma running_phase:
  assumes "thread_inv k c pr tab (ph, w)" and "ups_thread_step nofile k (ph, w) (ph', w')" and "u_running (ups_units w' ! k)"
    and "ph = At_outer \<or> ph = At_inner" and "u_running (ups_units w ! k)" and "ph' \<noteq> Undefined_behaviour"
  shows "ph' = At_outer \<or> ph' = At_inner"
proof -
  have "ph' \<noteq> Returned_thread" using assms(2,4,5) by (auto elim: ups_thread_step.cases)
  then show ?thesis using assms(6) by (cases ph') auto
qed

text \<open>With descriptors that fit \<open>select\<close> a pass of a running unit is defined.\<close>

lemma running_defined:
  assumes "thread_inv k c pr tab (ph, w)" and "ups_thread_step nofile k (ph, w) (ph', w')" and "u_running (ups_units w' ! k)"
    and "ph = At_outer \<or> ph = At_inner" and "nofile \<le> FD_SETSIZE"
  shows "ph' \<noteq> Undefined_behaviour"
  using undefined_step [OF assms(2,1)] assms(3-5) by auto

lemma units_run_step:
  assumes "units_run tr0 cs ph w" and "k < length cs" and "ups_thread_step nofile k (ph k, w\<lparr>uw_net := n\<rparr>) (ph', w')"
    and "u_running (ups_units w' ! k)"
  shows "ph' \<noteq> Undefined_behaviour \<Longrightarrow> units_run tr0 cs (ph(k := ph')) w'" and "length (uw_cfgs w') = length (uw_cfgs w)"
    and "nofile \<le> FD_SETSIZE \<Longrightarrow> ph' \<noteq> Undefined_behaviour"
proof -
  let ?w = "w\<lparr>uw_net := n\<rparr>"
  have k: "thread_inv k (cs ! k) ups1_profile ups1_mapping_table (ph k, ?w)" "ph k = At_outer \<or> ph k = At_inner"
      "u_running (ups_units ?w ! k)"
    using assms(1,2) by (simp_all add: units_run_def)
  have f: "unit_frame k ?w w'" using thread_step_frame [OF assms(3) k(1)] by simp
  have k': "thread_inv k (cs ! k) ups1_profile ups1_mapping_table (ph', w')" by (rule thread_inv_step [OF assms(3) k(1)])
  show "ph' \<noteq> Undefined_behaviour" if "nofile \<le> FD_SETSIZE" by (rule running_defined [OF k(1) assms(3,4) k(2) that])
  show "length (uw_cfgs w') = length (uw_cfgs w)" using f by (simp add: unit_frame_def)
  assume "ph' \<noteq> Undefined_behaviour"
  then have ph: "ph' = At_outer \<or> ph' = At_inner" by (rule running_phase [OF k(1) assms(3,4) k(2,3)])
  have "thread_inv j (cs ! j) ups1_profile ups1_mapping_table ((ph(k := ph')) j, w') \<and> u_running (ups_units w' ! j)
      \<and> ((ph(k := ph')) j = At_outer \<or> (ph(k := ph')) j = At_inner)" if j: "j < length cs" for j
  proof (cases "j = k")
    case False
    have "thread_inv j (cs ! j) ups1_profile ups1_mapping_table (ph j, ?w)" using assms(1) j by (simp add: units_run_def)
    from thread_inv_frame [OF this f False] show ?thesis
      using assms(1) f j False by (simp add: units_run_def unit_frame_def)
  qed (use k' ph assms(4) in simp)
  moreover have "fds_change {#} (polls_hold (length cs) (ph(k := ph')) w') tr0 (uw_fds w')"
  proof (rule fds_change_sum)
    show "fds_change {#} (polls_hold (length cs) ph ?w) tr0 (uw_fds ?w)"
      using assms(1) polls_hold_cong [of "length cs" ?w w ph] by (simp add: units_run_def)
    show "fds_change (poll_holds k (ph k, ?w)) (poll_holds k (ph', w')) (uw_fds ?w) (uw_fds w')"
      using thread_step_fds [OF assms(3) k(1)] k(2) assms(4) by simp
    show "polls_hold (length cs) ph ?w + poll_holds k (ph', w')
        = polls_hold (length cs) (ph(k := ph')) w' + poll_holds k (ph k, ?w)"
      by (rule polls_hold_step [OF assms(2) f])
  qed
  ultimately show "units_run tr0 cs (ph(k := ph')) w'" using f assms(1) by (simp add: units_run_def unit_frame_def)
qed

section \<open>Handlers never fail\<close>

lemma unit_loop_none:
  assumes "n \<le> length us" and "\<forall>i<n. P (us ! i) = Some False"
  shows "unit_loop P us [0..<n] = Some None"
proof -
  have "unit_loop P us is = Some None" if "\<forall>i\<in>set is. i < n" for "is"
    using that by (induction "is") (use assms in \<open>auto simp: buf_load_def\<close>)
  then show ?thesis by simp
qed

lemma push_run:
  assumes "units_run tr0 cs ph w"
  shows "\<exists>rc w'. ups_cmd_push uid addr (Some [v]) 1 mode w = Some (rc, w') \<and> units_run tr0 cs ph w'
    \<and> length (uw_cfgs w') = length (uw_cfgs w)"
proof -
  let ?Q = "\<lambda>i. word_of_int (modbus_uid (uw_cfgs w ! (cs ! i))) = uid"
  have u: "unit_wf w i (cs ! i) ups1_profile ups1_mapping_table" if "i < length cs" for i
    using assms that by (simp add: units_run_def thread_inv_def)
  have n: "ups_unit_count w = length cs" using assms by (simp add: units_run_def)
  have cfg: "u_cfg (ups_units w ! i) = Some (cs ! i)" "cs ! i < length (uw_cfgs w)" if "i < length cs" for i
    using u [OF that] by (simp_all add: unit_wf_def)
  show ?thesis
  proof (cases "\<exists>i<length cs. ?Q i")
    case False
    have "ups_unit_from_uid uid w = Some None"
      unfolding ups_unit_from_uid_def
    proof (rule unit_loop_none)
      show "ups_unit_count w \<le> length (ups_units w)"
        using u n by (cases "cs = []") (auto simp: unit_wf_def)
    qed (use False n cfg in \<open>auto simp: buf_load_def\<close>)
    then show ?thesis using assms by (simp add: ups_cmd_push_def MODBUS_MAX_WRITE_REGISTERS_def)
  next
    case True
    define k where "k = (LEAST i. i < length cs \<and> ?Q i)"
    have k: "k < length cs" "?Q k" using LeastI_ex [of "\<lambda>i. i < length cs \<and> ?Q i"] True by (auto simp: k_def)
    have least: "\<not> ?Q i" if "i < k" for i
      using not_less_Least [of i "\<lambda>i. i < length cs \<and> ?Q i"] that k(1) by (auto simp: k_def)
    have all: "\<forall>i<ups_unit_count w. \<exists>c'<length (uw_cfgs w). u_cfg (ups_units w ! i) = Some c'
        \<and> (i < k \<longrightarrow> word_of_int (modbus_uid (uw_cfgs w ! c')) \<noteq> uid)"
      using cfg n least by auto
    have one: "0 < (1 :: u16)" "(1 :: u16) \<le> 123" "unat (1 :: u16) \<le> length [v]" by simp_all
    from cmd_push_ok [OF u [OF k(1)] k(2) all one, of addr mode]
    show ?thesis
    proof (elim disjE exE conjE)
      fix q' let ?w = "upd_unit k (\<lambda>u. u\<lparr>cmd_queue := q'\<rparr>) w"
      assume q: "ups_cmd_push uid addr (Some [v]) 1 mode w = Some (0, ?w)"
        "unit_wf ?w k (cs ! k) ups1_profile ups1_mapping_table"
      have kl: "k < length (ups_units w)" using u [OF k(1)] by (simp add: unit_wf_def)
      have f: "unit_frame k w ?w" by (rule unit_frame_upd [OF kl]) simp_all
      have "thread_inv j (cs ! j) ups1_profile ups1_mapping_table (ph j, ?w) \<and> u_running (ups_units ?w ! j)"
        if j: "j < length cs" for j
      proof (cases "j = k")
        case True
        then show ?thesis using assms q(2) j kl by (simp add: units_run_def thread_inv_def)
      next
        case False
        have "thread_inv j (cs ! j) ups1_profile ups1_mapping_table (ph j, w)" "u_running (ups_units w ! j)"
          using assms j by (simp_all add: units_run_def)
        then show ?thesis using thread_inv_frame [OF _ f False] f False by (simp add: unit_frame_def)
      qed
      moreover have "polls_hold (length cs) ph ?w = polls_hold (length cs) ph w"
      proof (rule polls_hold_cong)
        show "u_tcp (ups_units ?w ! j) = u_tcp (ups_units w ! j)" for j using kl by (cases "j = k") simp_all
      qed
      ultimately show ?thesis using q(1) assms by (simp add: units_run_def)
    qed (use assms in simp)
  qed
qed

lemma handlers_run:
  assumes "units_run tr0 cs ph w" and "\<forall>(cb, topic, arg)\<in>set cbs. cb < 5"
  shows "\<exists>w'. foldM call_handler cbs w = Some w' \<and> units_run tr0 cs ph w' \<and> length (uw_cfgs w') = length (uw_cfgs w)"
proof (rule foldM_invariant [where P = "\<lambda>w'. units_run tr0 cs ph w' \<and> length (uw_cfgs w') = length (uw_cfgs w)"])
  fix x w1 assume x: "x \<in> set cbs" and w1: "units_run tr0 cs ph w1 \<and> length (uw_cfgs w1) = length (uw_cfgs w)"
  obtain cb topic arg where c: "x = (cb, topic, arg)" by (cases x)
  have cb: "cb < 5" using assms(2) x c by auto
  show "\<exists>w'. call_handler x w1 = Some w' \<and> units_run tr0 cs ph w' \<and> length (uw_cfgs w') = length (uw_cfgs w)"
    using push_run [of tr0 cs ph w1 1 "hmi_address cb" "word_of_nat (strtoul0 (cstr arg))" UPS_WRITE_MODE_AUTO] w1
    by (auto simp: c call_handler_eq [OF cb])
qed (use assms in simp)

section \<open>The threads together\<close>

text \<open>
  The subscriber thread: before its context is made, in its receive loop, or returned because it
  has no context.
\<close>

datatype sub_thread_state = Sub_starting cm_io | Sub_spinning "int \<times> cmos_sub_ctx \<times> cm_io" | Sub_returned

text \<open>
  The daemon with its threads: where each poll thread is and its connection, whether the alarm
  monitor still waits for its start-up delay, and the subscriber.
\<close>

record running =
  ru_daemon :: daemon
  ru_phase :: "nat \<Rightarrow> ups_phase"
  ru_net :: "nat \<Rightarrow> net"
  ru_warming :: bool
  ru_sub :: sub_thread_state

abbreviation ru_world :: "running \<Rightarrow> ups_world" where
  "ru_world s \<equiv> dm_world (ru_daemon s)"

abbreviation upd_daemon :: "(daemon \<Rightarrow> daemon) \<Rightarrow> running \<Rightarrow> running" where
  "upd_daemon f s \<equiv> s\<lparr>ru_daemon := f (ru_daemon s)\<rparr>"

text \<open>
  One pass of one thread. The result is \<open>None\<close> if the pass is undefined behaviour. \<open>start\<close> is when
  the alarm monitor started, \<open>nofile\<close> the limit of the process on its descriptors. The units run throughout: a pass that ends with the flag cleared
  belongs to the shutdown.
\<close>

inductive system_step :: "int \<Rightarrow> u64 \<Rightarrow> running \<Rightarrow> running option \<Rightarrow> bool" for nofile start where
  poll_pass: "k < ups_unit_count (ru_world s)
     \<Longrightarrow> ups_thread_step nofile k (ru_phase s k, (ru_world s)\<lparr>uw_net := ru_net s k\<rparr>) (ph, w)
     \<Longrightarrow> u_running (ups_units w ! k)
     \<Longrightarrow> system_step nofile start s (if ph = Undefined_behaviour then None
           else Some (upd_daemon (\<lambda>d. d\<lparr>dm_world := w\<rparr>)
             (s\<lparr>ru_phase := (ru_phase s)(k := ph), ru_net := (ru_net s)(k := uw_net w)\<rparr>)))"
| monitor_pass: "g_running (dm_alarms (ru_daemon s))
     \<Longrightarrow> system_step nofile start s
       (alarm_monitor_iter start now (ru_warming s, dm_alarms (ru_daemon s),
            (dm_manager (ru_daemon s))\<lparr>aw_pool := uw_pool (ru_world s)\<rparr>)
          \<bind> (\<lambda>(warming, a, m). Some (upd_daemon (\<lambda>d. d\<lparr>dm_alarms := a, dm_manager := m\<rparr>) (s\<lparr>ru_warming := warming\<rparr>))))"
| publisher_pass: "g_bridge_running (dm_bridge (ru_daemon s)) \<Longrightarrow> length junk = 896
     \<Longrightarrow> system_step nofile start s
       (pub_poll_iter junk ready c (uw_cfgs (ru_world s)) (nat (ups_count (dm_config (ru_daemon s))))
            (uw_pool (ru_world s)) (br_pub (dm_bridge (ru_daemon s)))
          \<bind> (\<lambda>p. Some (upd_daemon (\<lambda>d. d\<lparr>dm_bridge := (dm_bridge d)\<lparr>br_pub := p\<rparr>\<rparr>) s)))"
| subscriber_start: "ru_sub s = Sub_starting io
     \<Longrightarrow> system_step nofile start s
       (cmos_sub_thread env io
          \<bind> (\<lambda>(ctx, io). Some (s\<lparr>ru_sub := (case ctx of None \<Rightarrow> Sub_returned | Some ctx \<Rightarrow> Sub_spinning (0, ctx, io))\<rparr>)))"
| subscriber_pass: "ru_sub s = Sub_spinning st
     \<Longrightarrow> system_step nofile start s
       (bridge_round now events (st, ru_world s)
          \<bind> (\<lambda>(st, w). Some (upd_daemon (\<lambda>d. d\<lparr>dm_world := w\<rparr>) (s\<lparr>ru_sub := Sub_spinning st\<rparr>))))"

inductive system_reach :: "int \<Rightarrow> u64 \<Rightarrow> running \<Rightarrow> running \<Rightarrow> bool" for nofile start where
  system_here: "system_reach nofile start s s"
| system_next: "system_reach nofile start s s1 \<Longrightarrow> system_step nofile start s1 (Some s2) \<Longrightarrow> system_reach nofile start s s2"

text \<open>The threads as \<open>main\<close> has started them; \<open>io\<close> is what the subscriber's system calls will answer.\<close>

definition boot :: "daemon \<Rightarrow> (nat \<Rightarrow> net) \<Rightarrow> cm_io \<Rightarrow> running" where
  "boot d nets io = \<lparr>ru_daemon = d, ru_phase = \<lambda>_. At_outer, ru_net = nets, ru_warming = True,
     ru_sub = (if g_bridge_running (dm_bridge d) then Sub_starting io else Sub_returned)\<rparr>"

section \<open>The invariant\<close>

definition sub_run :: "sub_thread_state \<Rightarrow> bool" where
  "sub_run st \<longleftrightarrow> (case st of Sub_starting io \<Rightarrow> opened (io_fds io) = closed (io_fds io)
     | Sub_spinning (t, s) \<Rightarrow> sub_good s \<and> hmi_subscribed (fst s) | Sub_returned \<Rightarrow> True)"

definition daemon_run :: "fd_ev list \<Rightarrow> nat list \<Rightarrow> running \<Rightarrow> bool" where
  "daemon_run tr0 cs s \<longleftrightarrow> units_run tr0 cs (ru_phase s) (ru_world s)
     \<and> (let b = dm_bridge (ru_daemon s) in bridge_up b \<or> \<not> g_bridge_running b \<and> g_sub_thread b = Thread_Unset)
     \<and> nat (ups_count (dm_config (ru_daemon s))) \<le> length (uw_cfgs (ru_world s))
     \<and> alarms_ok (dm_alarms (ru_daemon s)) \<and> sub_run (ru_sub s)"

lemma bridge_round_run:
  assumes "sub_good (ctx, io)" and "hmi_subscribed ctx" and "units_run tr0 cs ph w"
  shows "\<exists>t ctx' io' w'. bridge_round now events ((prev, ctx, io), w) = Some ((t, ctx', io'), w')
    \<and> sub_good (ctx', io') \<and> hmi_subscribed ctx' \<and> units_run tr0 cs ph w' \<and> length (uw_cfgs w') = length (uw_cfgs w)"
proof -
  let ?s = "(ctx, io\<lparr>io_calls := []\<rparr>)"
  have ok: "sub_ok ctx ?s" using good_same_fds [OF assms(1), of "io\<lparr>io_calls := []\<rparr>"] by (simp add: sub_ok_def)
  obtain t ctx' io' where r: "spin_round now events (prev, ?s) = Some (t, ctx', io')"
    using spin_round_ok [OF ok] by fastforce
  have k: "sub_ok ctx (ctx', io')" "calls_subscribed ctx io'"
    using spin_round_subscribed [OF ok _ r] by simp_all
  have hs: "hmi_subscribed ctx'" using k(1) assms(2) by (simp add: sub_ok_def sub_frame_def hmi_subscribed_def)
  have "\<forall>(cb, topic, arg)\<in>set (io_calls io'). cb < 5"
    using k(2) assms(2) by (auto simp: calls_subscribed_def hmi_subscribed_def hmi_slot_def)
  from handlers_run [OF assms(3) this] obtain w' where w: "foldM call_handler (io_calls io') w = Some w'"
      "units_run tr0 cs ph w'" "length (uw_cfgs w') = length (uw_cfgs w)"
    by blast
  show ?thesis using r w k(1) hs by (simp add: bridge_round_def sub_ok_def)
qed

lemma daemon_run_step:
  assumes "daemon_run tr0 cs s" and "system_step nofile start s r"
  shows "if r = None then FD_SETSIZE < nofile else daemon_run tr0 cs (the r)
    \<and> g_bridge_running (dm_bridge (ru_daemon (the r))) = g_bridge_running (dm_bridge (ru_daemon s))"
  using assms(2)
proof (cases rule: system_step.cases)
  case (poll_pass k ph w)
  have "units_run tr0 cs (ru_phase s) (ru_world s)" "k < length cs" using assms(1) poll_pass(2) by (auto simp: daemon_run_def units_run_def)
  from units_run_step [OF this poll_pass(3,4)] show ?thesis
    using poll_pass(1) assms(1) by (cases "nofile \<le> FD_SETSIZE") (auto simp: daemon_run_def Let_def)
next
  case (monitor_pass now)
  have "alarms_ok (dm_alarms (ru_daemon s))" using assms(1) by (simp add: daemon_run_def)
  from monitor_iter_ok [OF this, of start now "ru_warming s" "(dm_manager (ru_daemon s))\<lparr>aw_pool := uw_pool (ru_world s)\<rparr>"]
  show ?thesis using monitor_pass(1) assms(1) by (auto simp: daemon_run_def Let_def)
next
  case (publisher_pass junk ready c)
  have b: "bridge_up (dm_bridge (ru_daemon s))" using assms(1) publisher_pass(2) by (auto simp: daemon_run_def Let_def)
  then have "pub_inv (fst (br_pub (dm_bridge (ru_daemon s))))" "balanced (br_pub (dm_bridge (ru_daemon s)))"
    by (simp_all add: bridge_up_def)
  from pub_poll_iter_keeps [OF this publisher_pass(3)] obtain p where
      "pub_poll_iter junk ready c (uw_cfgs (ru_world s)) (nat (ups_count (dm_config (ru_daemon s))))
        (uw_pool (ru_world s)) (br_pub (dm_bridge (ru_daemon s))) = Some p" "pub_inv (fst p)" "balanced p"
    using assms(1) by (fastforce simp: daemon_run_def Let_def)
  then show ?thesis using publisher_pass(1) assms(1) b by (simp add: daemon_run_def Let_def bridge_up_def)
next
  case (subscriber_start io env)
  then have "opened (io_fds io) = closed (io_fds io)" using assms(1) by (simp add: daemon_run_def sub_run_def)
  from sub_thread_total [OF this, of env] obtain c io1 where "cmos_sub_thread env io = Some (c, io1)"
      "\<forall>ctx. c = Some ctx \<longrightarrow> sub_good (ctx, io1) \<and> hmi_subscribed ctx"
    by blast
  then show ?thesis using subscriber_start(1) assms(1)
    by (simp add: daemon_run_def Let_def sub_run_def split: option.split)
next
  case (subscriber_pass st now events)
  obtain prev ctx io where st: "st = (prev, ctx, io)" by (cases st)
  have h: "sub_good (ctx, io)" "hmi_subscribed ctx" "units_run tr0 cs (ru_phase s) (ru_world s)"
    using assms(1) subscriber_pass(2) st by (simp_all add: daemon_run_def sub_run_def)
  from bridge_round_run [OF h, of now events prev] show ?thesis
    using subscriber_pass(1) assms(1) st by (auto simp: daemon_run_def Let_def sub_run_def)
qed

lemma daemon_run_some:
  assumes "daemon_run tr0 cs s" and "system_step nofile start s (Some s')"
  shows "daemon_run tr0 cs s'" and "g_bridge_running (dm_bridge (ru_daemon s')) = g_bridge_running (dm_bridge (ru_daemon s))"
  using daemon_run_step [OF assms] by simp_all

lemma daemon_run_reach:
  "system_reach nofile start s s' \<Longrightarrow> daemon_run tr0 cs s
    \<Longrightarrow> daemon_run tr0 cs s' \<and> g_bridge_running (dm_bridge (ru_daemon s')) = g_bridge_running (dm_bridge (ru_daemon s))"
proof (induction rule: system_reach.induct)
  case (system_next s s1 s2)
  then have run: "daemon_run tr0 cs s1" by simp
  show ?case using daemon_run_some [OF run system_next(2)] system_next by simp
qed simp

lemma daemon_run_boot:
  assumes "static_daemon d" and "length (dm_path d) = 256"
    and "parse_arguments opts (''./config/config.json'', LOG_LEVEL_INFO) = Returned (path, level)"
    and "good_file J from_file path" and "main_init J from_file opts env d = Some (Returned d1)"
    and "opened (io_fds io) = closed (io_fds io)"
  shows "\<exists>cs. daemon_run (uw_fds (dm_world d1)) cs (boot d1 nets io)"
proof -
  let ?tr = "uw_fds (dm_world d1)"
  let ?w = "(dm_world d)\<lparr>uw_cfgs := ups (dm_config d1)\<rparr>"
  let ?cs = "filter (\<lambda>i. startable ?w i \<and> se_created env i) [0..<nat (ups_count (dm_config d1))]"
  have m: "ups_unit_count (dm_world d1) = length ?cs"
      "\<forall>k<length ?cs. unit_wf (dm_world d1) k (?cs ! k) ups1_profile ups1_mapping_table
         \<and> fresh_unit (?cs ! k) (ups_units (dm_world d1) ! k)"
      "bridge_up (dm_bridge d1) \<or> \<not> g_bridge_running (dm_bridge d1) \<and> g_sub_thread (dm_bridge d1) = Thread_Unset"
      "nat (ups_count (dm_config d1)) \<le> length (uw_cfgs (dm_world d1))" "alarms_ok (dm_alarms d1)"
    using main_init_ok [OF assms(1-4), of env] assms(5) by (auto simp: Let_def split: if_splits)
  have "units_run ?tr ?cs (\<lambda>_. At_outer) (dm_world d1)"
    using m(1,2) by (simp add: units_run_def thread_inv_def fresh_unit_def fds_change_def polls_hold_def poll_holds_def)
  then have "daemon_run ?tr ?cs (boot d1 nets io)"
    using m(3-5) assms(6) by (auto simp: daemon_run_def boot_def sub_run_def)
  then show ?thesis by blast
qed

lemma daemon_run_stops:
  assumes "daemon_run tr0 cs s"
  shows "if g_bridge_running (dm_bridge (ru_daemon s)) then daemon_up (ru_daemon s) else main_shutdown (ru_daemon s) = None"
proof -
  have q: "\<forall>k<ups_unit_count (ru_world s). queue_inv (cmd_queue (ups_units (ru_world s) ! k))"
    using assms by (simp add: daemon_run_def units_run_def thread_inv_def unit_wf_def)
  have n: "ups_unit_count (ru_world s) \<le> length (ups_units (ru_world s))"
    using assms by (cases "cs = []") (auto simp: daemon_run_def units_run_def thread_inv_def unit_wf_def)
  show ?thesis
    using assms q n bridge_stop_undefined [of "dm_bridge (ru_daemon s)"]
    by (auto simp: daemon_run_def Let_def daemon_up_def bridge_up_def main_shutdown_def case_prod_unfold)
qed

section \<open>Commands in the running daemon\<close>

text \<open>
  Unit \<open>k\<close> is the one the bridge's commands go to: the first whose module has identifier 1 in 8 bits.
\<close>

definition command_unit :: "ups_world \<Rightarrow> nat \<Rightarrow> bool" where
  "command_unit w k \<longleftrightarrow> k < ups_unit_count w
     \<and> (\<forall>i\<le>k. word_of_int (modbus_uid (uw_cfgs w ! the (u_cfg (ups_units w ! i)))) = (1 :: u8) \<longleftrightarrow> i = k)"

lemma command_unit_uid:
  assumes "units_run tr0 cs ph w" and "command_unit w k"
  shows "unit_of_uid (w\<lparr>uw_net := n\<rparr>) 1 k (cs ! k)" and "u_cfg (ups_units w ! k) = Some (cs ! k)"
    and "ph k = At_inner \<Longrightarrow> client_ready (u_tcp (ups_units w ! k))"
proof -
  have n: "ups_unit_count w = length cs" using assms(1) by (simp add: units_run_def)
  have wf: "unit_wf w i (cs ! i) ups1_profile ups1_mapping_table" if "i < length cs" for i
    using assms(1) that by (simp add: units_run_def thread_inv_def)
  have cfg: "u_cfg (ups_units w ! i) = Some (cs ! i)" "cs ! i < length (uw_cfgs w)" if "i < length cs" for i
    using wf [OF that] by (simp_all add: unit_wf_def)
  have k: "k < length cs" using assms(2) n by (simp add: command_unit_def)
  then show "u_cfg (ups_units w ! k) = Some (cs ! k)" by (rule cfg(1))
  have u: "word_of_int (modbus_uid (uw_cfgs w ! (cs ! i))) = (1 :: u8) \<longleftrightarrow> i = k" if "i \<le> k" for i
    using assms(2) that k cfg(1) [of i] by (auto simp: command_unit_def)
  have "unit_wf (w\<lparr>uw_net := n\<rparr>) k (cs ! k) ups1_profile ups1_mapping_table"
    using wf [OF k] by (simp add: unit_wf_def)
  then show "unit_of_uid (w\<lparr>uw_net := n\<rparr>) 1 k (cs ! k)"
    using u [of k] u cfg n by (auto simp: unit_of_uid_def)
  show "client_ready (u_tcp (ups_units w ! k))" if "ph k = At_inner"
    using assms(1) k that by (simp add: units_run_def thread_inv_def)
qed

lemma running_unit:
  assumes "units_run tr0 cs ph w" and "k < length cs"
  shows "unit_wf w k (cs ! k) ups1_profile ups1_mapping_table" and "u_running (ups_units w ! k)"
    and "ph k = At_inner \<Longrightarrow> client_ready (u_tcp (ups_units w ! k))"
  using assms by (simp_all add: units_run_def thread_inv_def)

text \<open>A pass of a connected poll thread, whatever its process callback returns.\<close>

lemma process_pass:
  assumes "units_run tr0 cs (ru_phase s) (ru_world s)" and "k < length cs" and "ru_phase s k = At_inner" and "length junk = 260"
    and "ups_tcp_process_callback junk [] (u_cfg (ups_units (ru_world s) ! k)) ((ru_world s)\<lparr>uw_net := ru_net s k\<rparr>) = Some (rc, w')"
  shows "\<exists>s'. system_step nofile start s (Some s') \<and> ru_net s' k = uw_net w'"
proof -
  let ?w = "(ru_world s)\<lparr>uw_net := ru_net s k\<rparr>" and ?c = "cs ! k"
  have u: "unit_wf ?w k ?c ups1_profile ups1_mapping_table" "client_ready (u_tcp (ups_units ?w ! k))" "u_running (ups_units ?w ! k)"
    using running_unit [OF assms(1,2)] assms(3) by (simp_all add: unit_wf_def)
  have c: "u_cfg (ups_units ?w ! k) = Some ?c" using u(1) by (simp add: unit_wf_def)
  have n: "k < ups_unit_count (ru_world s)" using assms(1,2) by (simp add: units_run_def)
  have none: "\<forall>x\<in>set (concat []). command_ok x" by simp
  have p: "ups_tcp_process_callback junk [] (Some ?c) ?w = Some (rc, w')" using assms(5) c by simp
  have w': "unit_wf w' k ?c ups1_profile ups1_mapping_table" "client_ready (u_tcp (ups_units w' ! k))" "u_running (ups_units w' ! k)"
    using process_callback_ok [OF u(1,2) assms(4) none] p u(3) by auto
  show ?thesis
  proof (cases "rc = 0")
    case True
    then have st: "ups_thread_step nofile k (ru_phase s k, ?w) (At_inner, w')"
      using process_done [OF u(3) assms(4) none, of w'] p c assms(3) by simp
    from poll_pass [OF n this w'(3), of start] show ?thesis by fastforce
  next
    case False
    obtain w2 where e: "ups_tcp_error_callback (Some ?c) CONNECTION_DISCONNECTED w' = Some (0, w2)" "u_running (ups_units w2 ! k)"
      using error_callback_ok [OF w'(1,2), of CONNECTION_DISCONNECTED] w'(3) by auto
    have net: "uw_net w2 = uw_net w'"
      using e(1) by (auto simp: ups_tcp_error_callback_def unit_wf_lookup [OF w'(1)] Let_def split: bind_splits)
    have "u_cfg (ups_units w' ! k) = Some ?c" using w'(1) by (simp add: unit_wf_def)
    then have "ups_thread_step nofile k (ru_phase s k, ?w) (At_outer, w2)"
      using process_failed [OF u(3) assms(4) none, of rc w'] p c False e(1) assms(3) by simp
    from poll_pass [OF n this e(2), of start] net show ?thesis by fastforce
  qed
qed

section \<open>The running daemon is safe\<close>

text \<open>
  C3: the running daemon is safe. From a start of \<open>main\<close>, the passes of the poll threads, of the
  alarm monitor and of the bridge's publisher and subscriber, in any order and number, with any
  devices, masters, peers and clocks, are never undefined behaviour if the process may hold at most
  1024 descriptors (\<open>nofile\<close>, its limit), so that every socket of a poll thread fits the \<open>fd_set\<close> it
  is put in. After any of them the
  sockets that the poll threads have opened and not closed are exactly those of the connected
  units, and the subscriber's clean-up handler closes every descriptor the subscriber opened. If the bridge
  started, \<open>main\<close>'s own calls of the shutdown then run through with 0: the alarm monitor and the bridge's threads are stopped, no
  descriptor of the publisher is left, the database is closed, every unit is stopped with its queue
  destroyed and later commands are refused; if it did not start, the shutdown is undefined behaviour.
\<close>

theorem daemon_safe:
  assumes "static_daemon d" and "length (dm_path d) = 256"
    and "parse_arguments opts (''./config/config.json'', LOG_LEVEL_INFO) = Returned (path, level)"
    and "good_file J from_file path" and "main_init J from_file opts env d = Some (Returned d1)"
    and "opened (io_fds io) = closed (io_fds io)" and "nofile \<le> 1024" and "system_reach nofile start (boot d1 nets io) s"
  shows "(\<forall>r. system_step nofile start s r \<longrightarrow> r \<noteq> None)
    \<and> fds_change {#} (polls_hold (ups_unit_count (ru_world s)) (ru_phase s) (ru_world s))
        (uw_fds (dm_world d1)) (uw_fds (ru_world s))
    \<and> (\<forall>t ctx io1. ru_sub s = Sub_spinning (t, ctx, io1) \<longrightarrow> (\<exists>io2. cleanup_sub_ctx (Some ctx, io1) = Some io2
          \<and> opened (io_fds io2) = closed (io_fds io2)))
    \<and> (if g_bridge_running (dm_bridge d1)
       then \<exists>d2. main_shutdown (ru_daemon s) = Some (0, d2)
          \<and> g_sub_thread (dm_bridge d2) = Thread_Joined \<and> g_pub_poll_thread (dm_bridge d2) = Thread_Joined
          \<and> opened (io_fds (snd (br_pub (dm_bridge d2)))) = closed (io_fds (snd (br_pub (dm_bridge d2))))
          \<and> \<not> g_running (dm_alarms d2) \<and> \<not> g_db (dm_manager d2) \<and> ups_unit_count (dm_world d2) = 0
          \<and> (\<forall>k<ups_unit_count (ru_world s). \<not> u_running (ups_units (dm_world d2) ! k)
              \<and> q_lock (cmd_queue (ups_units (dm_world d2) ! k)) = Mutex_Destroyed)
          \<and> (\<forall>uid addr vs cnt mode. ups_cmd_push uid addr vs cnt mode (dm_world d2) = Some (- 1, dm_world d2))
       else main_shutdown (ru_daemon s) = None)"
proof -
  let ?tr = "uw_fds (dm_world d1)"
  obtain cs where "daemon_run ?tr cs (boot d1 nets io)" using daemon_run_boot [OF assms(1-6)] by blast
  from daemon_run_reach [OF assms(8) this] have run: "daemon_run ?tr cs s"
      "g_bridge_running (dm_bridge (ru_daemon s)) = g_bridge_running (dm_bridge d1)"
    by (simp_all add: boot_def)
  have "r \<noteq> None" if "system_step nofile start s r" for r
    using daemon_run_step [OF run(1) that] assms(7) by (cases r) (simp_all add: FD_SETSIZE_def)
  moreover have "\<exists>io2. cleanup_sub_ctx (Some ctx, io1) = Some io2 \<and> opened (io_fds io2) = closed (io_fds io2)"
    if "ru_sub s = Sub_spinning (t, ctx, io1)" for t ctx io1
    using run(1) that cleanup_ok [of ctx io1] by (simp add: daemon_run_def sub_run_def)
  moreover have "fds_change {#} (polls_hold (ups_unit_count (ru_world s)) (ru_phase s) (ru_world s)) ?tr (uw_fds (ru_world s))"
    using run(1) by (simp add: daemon_run_def units_run_def)
  ultimately show ?thesis
    using daemon_run_stops [OF run(1)] run(2) main_shutdown_ok [of "ru_daemon s"] by (simp split: if_splits) blast
qed

section \<open>An example\<close>

lemma demo_boot_inits:
  "\<exists>d1. main_init demo_json (\<lambda>_. Some demo_file) [(CHR ''l'', ''4''), (CHR ''c'', ''x.json'')] demo_start_env demo_boot = Some (Returned d1)
    \<and> g_bridge_running (dm_bridge d1)"
proof -
  obtain d1 where d1: "main_init demo_json (\<lambda>_. Some demo_file) [(CHR ''l'', ''4''), (CHR ''c'', ''x.json'')] demo_start_env demo_boot
      = Some (Returned d1)"
    using main_init_ok [OF demo_boot_ok demo_arguments demo_daemon_ok(3), of demo_start_env] by blast
  obtain b where b: "ups_cmos_bridge_start (se_pub demo_start_env) True True (dm_bridge demo_boot) = Some (0, b)" "bridge_up b"
    using demo_bridge_starts by (auto simp: demo_boot_def)
  have "se_pub_thread demo_start_env" "se_sub_thread demo_start_env" by (simp_all add: demo_start_env_def)
  then have "dm_bridge d1 = b"
    using d1 b(1) demo_arguments by (auto simp: main_init_def Let_def split: bind_splits outcome.splits prod.splits)
  then show ?thesis using d1 b(2) by (auto simp: bridge_up_def)
qed

theorem daemon_safe_witness:
  "\<exists>d1 d2. main_init demo_json (\<lambda>_. Some demo_file) [(CHR ''l'', ''4''), (CHR ''c'', ''x.json'')] demo_start_env demo_boot = Some (Returned d1)
    \<and> (\<forall>r. system_step 1024 0 (boot d1 (\<lambda>_. demo_net []) demo_master) r \<longrightarrow> r \<noteq> None)
    \<and> main_shutdown d1 = Some (0, d2) \<and> g_sub_thread (dm_bridge d2) = Thread_Joined"
proof -
  obtain d1 where d1: "main_init demo_json (\<lambda>_. Some demo_file) [(CHR ''l'', ''4''), (CHR ''c'', ''x.json'')] demo_start_env demo_boot
      = Some (Returned d1)" "g_bridge_running (dm_bridge d1)"
    using demo_boot_inits by blast
  have io: "opened (io_fds demo_master) = closed (io_fds demo_master)" by (simp add: demo_master_def demo_io_def)
  have "ru_daemon (boot d1 (\<lambda>_. demo_net []) demo_master) = d1" by (simp add: boot_def)
  then show ?thesis
    using daemon_safe [OF demo_boot_ok demo_arguments demo_daemon_ok(3) d1(1) io _ system_here, of 1024 0 "\<lambda>_. demo_net []"] d1
    by (simp only: if_True) blast
qed

text \<open>A daemon that runs, with its unit connected and its subscriber in the receive loop.\<close>

definition demo_running :: running where
  "demo_running = \<lparr>ru_daemon = demo_up\<lparr>dm_world := demo_connected (demo_net [])\<rparr>, ru_phase = \<lambda>_. At_inner, ru_net = \<lambda>_. demo_net [],
     ru_warming = False, ru_sub = Sub_spinning (0, demo_hmi_sub, demo_sub_fds)\<rparr>"

lemma demo_running_ok: "daemon_run [Fd_close (cl_sock demo_client)] [0] demo_running" "command_unit (ru_world demo_running) 0"
proof -
  let ?w = "demo_connected (demo_net [])"
  have w: "unit_wf ?w 0 0 ups1_profile ups1_mapping_table" "client_ready (u_tcp (ups_units ?w ! 0))" "u_running (ups_units ?w ! 0)"
      "ups_unit_count ?w = 1" "uw_fds ?w = []" "u_tcp (ups_units ?w ! 0) = demo_client"
    using demo_connected_wf by (simp_all add: demo_client_def client_ready_def demo_connected_def demo_world_def demo_unit_def)
  have "0 \<le> cl_sock demo_client" by (simp add: demo_client_def)
  then have "units_run [Fd_close (cl_sock demo_client)] [0] (\<lambda>_. At_inner) ?w"
    using w by (simp add: units_run_def thread_inv_def fds_change_def polls_hold_def poll_holds_def)
  moreover have "balanced (demo_pub, (demo_io [])\<lparr>io_fds := map Fd_open [4, 5, 6, 7, 8, 9]\<rparr>)"
    using demo_pub_ok(2) by (simp add: balanced_def pub_fds_def) (simp add: demo_pub_def)
  ultimately show "daemon_run [Fd_close (cl_sock demo_client)] [0] demo_running"
    using demo_pub_ok(1) demo_hmi_ok
    by (simp add: daemon_run_def demo_running_def demo_up_def demo_daemon_def bridge_up_def sub_run_def alarms_ok_def
        alarm_bridge_init_def zero_system_config_def)
  show "command_unit (ru_world demo_running) 0"
    by (simp add: command_unit_def demo_running_def demo_connected_def demo_world_def demo_unit_def)
qed

end
