(* ===== verification/Daemon_Stop.thy ===== *)
theory Daemon_Stop
  imports Daemon_Run
begin

text \<open>
  The whole life of the daemon: its threads run (\<open>Daemon_Run\<close>), a signal takes \<open>main\<close> out of its
  waiting loop, and \<open>main\<close> stops them while they go on running: the alarm monitor, the bridge, the
  running flags of the units, and the joins of their poll threads (\<open>main.c\<close>, \<open>stop_ups_modules\<close> of
  \<open>ups_module.c\<close>). \<open>main_shutdown\<close> is \<open>main\<close>'s own part of this; here each of its steps may come
  between the passes of the threads, and a join waits for its thread to return.
\<close>

section \<open>The steps of the daemon's life\<close>

text \<open>
  Where \<open>main\<close> is: in its waiting loop (with the flag the signal handler clears), about to stop the
  bridge, about to clear the flag of a unit, about to join the thread of a unit, or past its last step.
\<close>

datatype main_pc = Main_waiting "wait_phase \<times> bool" | Main_stop_bridge | Main_clear nat | Main_join nat | Main_done

text \<open>
  Cancelling the subscriber runs its clean-up handler once it has a context; the cancellation takes
  effect between two of its passes, in \<open>epoll_wait\<close>.
\<close>

definition cancel_subscriber :: "sub_thread_state \<Rightarrow> sub_thread_state run" where
  "cancel_subscriber st = (case st of
       Sub_spinning (t, ctx, io) \<Rightarrow> cleanup_sub_ctx (Some ctx, io) \<bind> (\<lambda>io'. Some Sub_returned)
     | _ \<Rightarrow> Some Sub_returned)"

text \<open>
  One step: a pass of a thread; the next test of a poll thread whose flag is cleared, which leaves
  its loops and at last disconnects; or a step of \<open>main\<close>. Stopping the alarm monitor and the bridge
  waits for threads that return at the end of their current pass, so each is one step. \<open>None\<close> is
  undefined behaviour.
\<close>

inductive life_step :: "int \<Rightarrow> u64 \<Rightarrow> main_pc \<times> running \<Rightarrow> (main_pc \<times> running) option \<Rightarrow> bool" for nofile start where
  thread_pass: "system_step nofile start s r \<Longrightarrow> life_step nofile start (pc, s) (map_option (Pair pc) r)"
| poll_exit: "k < ups_unit_count (ru_world s) \<Longrightarrow> \<not> u_running (ups_units (ru_world s) ! k)
     \<Longrightarrow> ups_thread_step nofile k (ru_phase s k, ru_world s) (ph, w) \<Longrightarrow> ph \<noteq> ru_phase s k
     \<Longrightarrow> life_step nofile start (pc, s) (if ph = Undefined_behaviour then None
           else Some (pc, upd_daemon (\<lambda>d. d\<lparr>dm_world := w\<rparr>) (s\<lparr>ru_phase := (ru_phase s)(k := ph)\<rparr>)))"
| main_waits: "wait_step p p' \<Longrightarrow> life_step nofile start (Main_waiting p, s) (Some (Main_waiting p', s))"
| stop_monitor: "life_step nofile start (Main_waiting (Shutting_down, flag), s)
     (Some (Main_stop_bridge, upd_daemon (\<lambda>d. d\<lparr>dm_alarms := snd (alarm_bridge_stop (dm_alarms d))\<rparr>) s))"
| stop_bridge: "life_step nofile start (Main_stop_bridge, s)
     (ups_cmos_bridge_stop (dm_bridge (ru_daemon s)) \<bind> (\<lambda>b. cancel_subscriber (ru_sub s)
        \<bind> (\<lambda>st. Some (Main_clear 0, upd_daemon (\<lambda>d. d\<lparr>dm_bridge := b\<rparr>) (s\<lparr>ru_sub := st\<rparr>)))))"
| clear_flag: "i < ups_unit_count (ru_world s) \<Longrightarrow> life_step nofile start (Main_clear i, s)
     (clear_running i (ups_units (ru_world s))
        \<bind> (\<lambda>us. Some (Main_clear (Suc i), upd_daemon (\<lambda>d. d\<lparr>dm_world := (dm_world d)\<lparr>ups_units := us\<rparr>\<rparr>) s)))"
| flags_cleared: "\<not> i < ups_unit_count (ru_world s) \<Longrightarrow> life_step nofile start (Main_clear i, s) (Some (Main_join 0, s))"
| join_unit: "i < ups_unit_count (ru_world s) \<Longrightarrow> ru_phase s i = Returned_thread
     \<Longrightarrow> life_step nofile start (Main_join i, s)
     (release_queue i (ups_units (ru_world s))
        \<bind> (\<lambda>us. Some (Main_join (Suc i), upd_daemon (\<lambda>d. d\<lparr>dm_world := (dm_world d)\<lparr>ups_units := us\<rparr>\<rparr>) s)))"
| all_joined: "\<not> i < ups_unit_count (ru_world s) \<Longrightarrow> life_step nofile start (Main_join i, s)
     (Some (Main_done, upd_daemon (\<lambda>d. d\<lparr>dm_world := (dm_world d)\<lparr>ups_unit_count := 0\<rparr>,
        dm_manager := ups_alarm_manager_close (dm_manager d)\<rparr>) s))"

text \<open>A run of \<open>n\<close> steps.\<close>

inductive life_run :: "int \<Rightarrow> u64 \<Rightarrow> main_pc \<times> running \<Rightarrow> nat \<Rightarrow> (main_pc \<times> running) option \<Rightarrow> bool" for nofile start x where
  life_here: "life_run nofile start x 0 (Some x)"
| life_next: "life_run nofile start x n (Some y) \<Longrightarrow> life_step nofile start y r \<Longrightarrow> life_run nofile start x (Suc n) r"

inductive_cases waiting_step: "life_step nofile start (Main_waiting p, s) r"
inductive_cases bridge_step: "life_step nofile start (Main_stop_bridge, s) r"
inductive_cases clear_step: "life_step nofile start (Main_clear i, s) r"
inductive_cases join_step: "life_step nofile start (Main_join i, s) r"
inductive_cases done_step: "life_step nofile start (Main_done, s) r"

section \<open>Sockets of the clients\<close>

definition client_socket :: "mb_tcp_client_ctx \<Rightarrow> int multiset" where
  "client_socket c = (if cl_lock c = Mutex_Ready then {#cl_sock c#} else {#})"

definition sockets :: "nat \<Rightarrow> ups_world \<Rightarrow> int multiset" where
  "sockets n w = (\<Sum>k<n. client_socket (u_tcp (ups_units w ! k)))"

lemma polls_hold_sockets:
  assumes "units_run tr0 cs ph w"
  shows "polls_hold (length cs) ph w = sockets (length cs) w"
  unfolding polls_hold_def sockets_def
proof (rule sum.cong)
  fix k assume "k \<in> {..<length cs}"
  then have "thread_inv k (cs ! k) ups1_profile ups1_mapping_table (ph k, w)" "u_running (ups_units w ! k)"
      "ph k = At_outer \<or> ph k = At_inner"
    using assms by (simp_all add: units_run_def)
  then show "poll_holds k (ph k, w) = client_socket (u_tcp (ups_units w ! k))"
    by (auto simp: poll_holds_def client_socket_def thread_inv_def client_ready_def)
qed simp

lemma sockets_step:
  assumes "k < n" and "unit_frame k w w'"
  shows "sockets n w + client_socket (u_tcp (ups_units w' ! k)) = sockets n w' + client_socket (u_tcp (ups_units w ! k))"
proof -
  have "(\<Sum>j\<in>{..<n} - {k}. client_socket (u_tcp (ups_units w' ! j))) = (\<Sum>j\<in>{..<n} - {k}. client_socket (u_tcp (ups_units w ! j)))"
    using assms(2) by (intro sum.cong) (auto simp: unit_frame_def)
  then show ?thesis using assms(1) unfolding sockets_def by (simp add: sum.remove [of "{..<n}" k])
qed

lemma sockets_none: "\<forall>k<n. cl_lock (u_tcp (ups_units w ! k)) \<noteq> Mutex_Ready \<Longrightarrow> sockets n w = {#}"
  by (simp add: sockets_def client_socket_def)

section \<open>The units while they are stopped\<close>

text \<open>
  A unit whose flag may be cleared and whose thread may be joined: until it is joined its
  thread keeps its invariant, and a thread whose flag is cleared may have returned, with its client
  disconnected; then its queue is destroyed too.
\<close>

definition stop_unit :: "bool \<Rightarrow> bool \<Rightarrow> nat \<Rightarrow> nat \<Rightarrow> ups_phase \<Rightarrow> ups_world \<Rightarrow> bool" where
  "stop_unit cleared joined k c ph w \<longleftrightarrow> (let u = ups_units w ! k in
     if joined then ph = Returned_thread \<and> \<not> u_running u \<and> cl_lock (u_tcp u) \<noteq> Mutex_Ready
       \<and> q_lock (cmd_queue u) = Mutex_Destroyed
     else thread_inv k c ups1_profile ups1_mapping_table (ph, w) \<and> u_running u = (\<not> cleared)
       \<and> (ph = At_outer \<or> ph = At_inner
          \<or> ph = Returned_thread \<and> cleared \<and> cl_lock (u_tcp u) \<noteq> Mutex_Ready))"

lemma stop_unit_frame:
  "stop_unit c j k cf ph w \<Longrightarrow> unit_frame i w w' \<Longrightarrow> k \<noteq> i \<Longrightarrow> stop_unit c j k cf ph w'"
  using thread_inv_frame [of k cf ups1_profile ups1_mapping_table ph w i w']
  by (auto simp: stop_unit_def unit_frame_def Let_def)

text \<open>The flags of the first \<open>i\<close> units are cleared and the first \<open>j\<close> threads are joined.\<close>

definition stop_inv :: "fd_ev list \<Rightarrow> nat list \<Rightarrow> nat \<Rightarrow> nat \<Rightarrow> (nat \<Rightarrow> ups_phase) \<Rightarrow> ups_world \<Rightarrow> bool" where
  "stop_inv tr0 cs i j ph w \<longleftrightarrow> ups_unit_count w = length cs \<and> length cs \<le> length (ups_units w)
     \<and> fds_change {#} (sockets (length cs) w) tr0 (uw_fds w)
     \<and> (\<forall>k<length cs. stop_unit (k < i) (k < j) k (cs ! k) (ph k) w)"

lemma stop_inv_unit:
  assumes "stop_inv tr0 cs i j ph w" and "k < length cs"
  shows "stop_unit (k < i) (k < j) k (cs ! k) (ph k) w" and "k < length (ups_units w)"
  using assms by (simp_all add: stop_inv_def)

lemma stop_inv_update:
  assumes "stop_inv tr0 cs i j ph w" and "k < length cs" and "unit_frame k w w'"
    and "fds_change (client_socket (u_tcp (ups_units w ! k))) (client_socket (u_tcp (ups_units w' ! k))) (uw_fds w) (uw_fds w')"
    and "stop_unit (k < i') (k < j') k (cs ! k) ph' w'" and "\<forall>l. l \<noteq> k \<longrightarrow> (l < i' \<longleftrightarrow> l < i) \<and> (l < j' \<longleftrightarrow> l < j)"
  shows "stop_inv tr0 cs i' j' (ph(k := ph')) w'"
proof -
  have "stop_unit (l < i') (l < j') l (cs ! l) ((ph(k := ph')) l) w'" if "l < length cs" for l
  proof (cases "l = k")
    case False
    have "stop_unit (l < i) (l < j) l (cs ! l) (ph l) w" using assms(1) that by (simp add: stop_inv_def)
    from stop_unit_frame [OF this assms(3) False] show ?thesis using assms(6) False by simp
  qed (use assms(5) in simp)
  moreover have "fds_change {#} (sockets (length cs) w') tr0 (uw_fds w')"
    using fds_change_sum [OF _ assms(4) sockets_step [OF assms(2,3)]] assms(1) by (simp add: stop_inv_def)
  ultimately show ?thesis using assms(1,3) by (simp add: stop_inv_def unit_frame_def)
qed

lemma units_run_stop:
  assumes "units_run tr0 cs ph w"
  shows "stop_inv tr0 cs 0 0 ph w"
proof -
  have "length cs \<le> length (ups_units w)"
    using assms by (cases "cs = []") (auto simp: units_run_def thread_inv_def unit_wf_def)
  then show ?thesis
    using assms polls_hold_sockets [OF assms] by (simp add: units_run_def stop_inv_def stop_unit_def Let_def)
qed

section \<open>The invariant of the daemon's life\<close>

lemma step_not_started: "ups_thread_step nofile k (ph, w) (ph', w') \<Longrightarrow> thread_inv k c pr tab (ph, w)
    \<Longrightarrow> u_running (ups_units w' ! k) \<Longrightarrow> u_running (ups_units w ! k)"
  by (cases "k < length (ups_units w)")
    (auto elim!: ups_thread_step.cases simp: thread_inv_def unit_wf_def)

text \<open>A pass of a poll thread whose flag is not yet cleared.\<close>

lemma stop_poll_pass:
  assumes "stop_inv tr0 cs i 0 ph w" and "k < length cs" and "ups_thread_step nofile k (ph k, w\<lparr>uw_net := n\<rparr>) (ph', w')"
    and "u_running (ups_units w' ! k)"
  shows "ph' \<noteq> Undefined_behaviour \<Longrightarrow> stop_inv tr0 cs i 0 (ph(k := ph')) w'"
    and "nofile \<le> FD_SETSIZE \<Longrightarrow> ph' \<noteq> Undefined_behaviour" and "\<not> k < i"
proof -
  let ?w = "w\<lparr>uw_net := n\<rparr>"
  have u: "stop_unit (k < i) False k (cs ! k) (ph k) w" using stop_inv_unit [OF assms(1,2)] by simp
  then have inv: "thread_inv k (cs ! k) ups1_profile ups1_mapping_table (ph k, ?w)" by (simp add: stop_unit_def Let_def)
  have run: "u_running (ups_units ?w ! k)" by (rule step_not_started [OF assms(3) inv assms(4)])
  then show i: "\<not> k < i" using u by (simp add: stop_unit_def Let_def)
  then have ph: "ph k = At_outer \<or> ph k = At_inner" using u by (simp add: stop_unit_def Let_def)
  show "ph' \<noteq> Undefined_behaviour" if "nofile \<le> FD_SETSIZE" by (rule running_defined [OF inv assms(3,4) ph that])
  assume "ph' \<noteq> Undefined_behaviour"
  then have ph': "ph' = At_outer \<or> ph' = At_inner" by (rule running_phase [OF inv assms(3,4) ph run])
  have inv': "thread_inv k (cs ! k) ups1_profile ups1_mapping_table (ph', w')" by (rule thread_inv_step [OF assms(3) inv])
  have hold: "poll_holds k (p, v) = client_socket (u_tcp (ups_units v ! k))"
    if "thread_inv k (cs ! k) ups1_profile ups1_mapping_table (p, v)" "u_running (ups_units v ! k)" "p = At_outer \<or> p = At_inner" for p v
    using that by (auto simp: poll_holds_def client_socket_def thread_inv_def client_ready_def)
  have "fds_change (poll_holds k (ph k, ?w)) (poll_holds k (ph', w')) (uw_fds ?w) (uw_fds w')"
    using thread_step_fds [OF assms(3) inv] ph assms(4) by simp
  then have fds: "fds_change (client_socket (u_tcp (ups_units ?w ! k))) (client_socket (u_tcp (ups_units w' ! k))) (uw_fds ?w) (uw_fds w')"
    unfolding hold [OF inv run ph] hold [OF inv' assms(4) ph'] .
  have "unit_frame k ?w w'" using thread_step_frame [OF assms(3) inv] by simp
  then have frame: "unit_frame k w w'" by (simp add: unit_frame_def)
  have "stop_unit (k < i) (k < 0) k (cs ! k) ph' w'"
    using inv' assms(4) ph' i by (auto simp: stop_unit_def Let_def)
  then show "stop_inv tr0 cs i 0 (ph(k := ph')) w'"
    using stop_inv_update [OF assms(1,2) frame] fds by simp
qed

text \<open>The next test of a poll thread whose flag is cleared.\<close>

lemma stop_poll_exit:
  assumes "stop_inv tr0 cs i j ph w" and "k < length cs" and "\<not> u_running (ups_units w ! k)"
    and "ups_thread_step nofile k (ph k, w) (ph', w')" and "ph' \<noteq> ph k"
  shows "if ph' = Undefined_behaviour then ph k = At_outer \<and> cl_lock (u_tcp (ups_units w ! k)) \<noteq> Mutex_Ready
    else stop_inv tr0 cs i j (ph(k := ph')) w' \<and> (ph k = At_inner \<and> ph' = At_outer \<and> w' = w
      \<or> ph k = At_outer \<and> ph' = Returned_thread \<and> cl_lock (u_tcp (ups_units w ! k)) = Mutex_Ready)"
proof -
  have u: "stop_unit (k < i) (k < j) k (cs ! k) (ph k) w" by (rule stop_inv_unit [OF assms(1,2)])
  have "ph k \<noteq> Returned_thread" using assms(4,5) by (auto elim: ups_thread_step.cases)
  then have j: "\<not> k < j" and i: "k < i" and ph: "ph k = At_outer \<or> ph k = At_inner"
      and inv: "thread_inv k (cs ! k) ups1_profile ups1_mapping_table (ph k, w)"
    using u assms(3) by (auto simp: stop_unit_def Let_def split: if_splits)
  have k: "k < length (ups_units w)" using inv by (simp add: thread_inv_def unit_wf_def)
  have ready: "client_ready (u_tcp (ups_units w ! k))" if "cl_lock (u_tcp (ups_units w ! k)) = Mutex_Ready"
    using inv ph that by (auto simp: thread_inv_def)
  let ?t = "u_tcp (ups_units w ! k)"
  have frame: "unit_frame k w w'" using thread_step_frame [OF assms(4) inv] by simp
  have inv': "thread_inv k (cs ! k) ups1_profile ups1_mapping_table (ph', w')" by (rule thread_inv_step [OF assms(4) inv])
  from ph show ?thesis
  proof
    assume o: "ph k = At_outer"
    show ?thesis
    proof (cases "cl_lock ?t = Mutex_Ready")
      case True
      have d: "mb_tcp_client_disconnect (Some ?t) (uw_fds w) = Some (Some (?t\<lparr>cl_sock := -1, cl_lock := Mutex_Destroyed\<rparr>),
          uw_fds w @ [Fd_shutdown (cl_sock ?t), Fd_close (cl_sock ?t)])"
        by (rule disconnect_ready [OF ready [OF True]])
      have w': "ph' = Returned_thread" "w' = (upd_unit k (\<lambda>u. u\<lparr>u_tcp := ?t\<lparr>cl_sock := -1, cl_lock := Mutex_Destroyed\<rparr>\<rparr>) w)
          \<lparr>uw_fds := uw_fds w @ [Fd_shutdown (cl_sock ?t), Fd_close (cl_sock ?t)]\<rparr>"
        using assms(3,4,5) d unfolding o by (auto elim!: step_from_outer)
      have un: "ups_units w' ! k = (ups_units w ! k)\<lparr>u_tcp := ?t\<lparr>cl_sock := -1, cl_lock := Mutex_Destroyed\<rparr>\<rparr>"
          "uw_fds w' = uw_fds w @ [Fd_shutdown (cl_sock ?t), Fd_close (cl_sock ?t)]"
        using w'(2) k by simp_all
      have "0 \<le> cl_sock ?t" using ready [OF True] by (simp add: client_ready_def)
      then have "fds_change (client_socket ?t) (client_socket (u_tcp (ups_units w' ! k))) (uw_fds w) (uw_fds w')"
        using True by (simp add: un fds_change_def client_socket_def)
      moreover have "stop_unit (k < i) (k < j) k (cs ! k) ph' w'"
        using inv' i j assms(3) w'(1) by (simp add: stop_unit_def un Let_def)
      ultimately have "stop_inv tr0 cs i j (ph(k := ph')) w'" using stop_inv_update [OF assms(1,2) frame] by simp
      then show ?thesis using w'(1) o True by simp
    next
      case False
      then have "ph' = Undefined_behaviour"
        using assms(3,4,5) disconnect_not_ready [OF False, of "uw_fds w"] unfolding o by (auto elim!: step_from_outer)
      then show ?thesis using o False by simp
    qed
  next
    assume n: "ph k = At_inner"
    then have w': "ph' = At_outer" "w' = w" using assms(3,4,5) by (auto elim!: step_from_inner)
    have "stop_unit (k < i) (k < j) k (cs ! k) ph' w'"
      using inv' i j assms(3) w' by (simp add: stop_unit_def Let_def)
    moreover have "fds_change (client_socket ?t) (client_socket (u_tcp (ups_units w' ! k))) (uw_fds w) (uw_fds w')"
      by (simp add: w' fds_change_def)
    ultimately have "stop_inv tr0 cs i j (ph(k := ph')) w'" using stop_inv_update [OF assms(1,2) frame] by simp
    then show ?thesis using w' n by simp
  qed
qed

lemma stop_clear_flag:
  assumes "stop_inv tr0 cs i 0 ph w" and "i < length cs"
  shows "\<exists>us. clear_running i (ups_units w) = Some us \<and> stop_inv tr0 cs (Suc i) 0 ph (w\<lparr>ups_units := us\<rparr>)
    \<and> (\<forall>k. u_tcp (us ! k) = u_tcp (ups_units w ! k))"
proof -
  let ?w = "upd_unit i (\<lambda>u. u\<lparr>u_running := False\<rparr>) w"
  have i: "i < length (ups_units w)" using assms by (simp add: stop_inv_def)
  have u: "stop_unit False False i (cs ! i) (ph i) w" using stop_inv_unit [OF assms] by simp
  then have inv: "thread_inv i (cs ! i) ups1_profile ups1_mapping_table (ph i, w)" by (simp add: stop_unit_def Let_def)
  have inv': "thread_inv i (cs ! i) ups1_profile ups1_mapping_table (ph i, ?w)"
    by (rule thread_inv_step [OF stop_signal inv])
  have "stop_unit (i < Suc i) (i < 0) i (cs ! i) (ph i) ?w"
    using u inv' i by (auto simp: stop_unit_def Let_def)
  moreover have "unit_frame i w ?w" using i by (intro unit_frame_upd) simp_all
  ultimately have "stop_inv tr0 cs (Suc i) 0 (ph(i := ph i)) ?w"
    using i by (intro stop_inv_update [OF assms]) (auto simp: fds_change_def)
  moreover have "clear_running i (ups_units w) = Some (ups_units ?w)"
    using i by (simp add: clear_running_def buf_load_def buf_store_def)
  moreover have "u_tcp (ups_units ?w ! k) = u_tcp (ups_units w ! k)" for k using i by (cases "k = i") simp_all
  ultimately show ?thesis by simp
qed

lemma stop_join_unit:
  assumes "stop_inv tr0 cs (length cs) j ph w" and "j < length cs" and "ph j = Returned_thread"
  shows "\<exists>us. release_queue j (ups_units w) = Some us \<and> stop_inv tr0 cs (length cs) (Suc j) ph (w\<lparr>ups_units := us\<rparr>)
    \<and> (\<forall>k. u_tcp (us ! k) = u_tcp (ups_units w ! k))"
proof -
  let ?f = "\<lambda>u. u\<lparr>cmd_queue := (cmd_queue u)\<lparr>q_lock := Mutex_Destroyed\<rparr>\<rparr>"
  let ?w = "upd_unit j ?f w"
  have j: "j < length (ups_units w)" using assms by (simp add: stop_inv_def)
  have u: "stop_unit True False j (cs ! j) (ph j) w" using stop_inv_unit [OF assms(1,2)] assms(2) by simp
  then have q: "q_lock (cmd_queue (ups_units w ! j)) = Mutex_Ready"
    by (simp add: stop_unit_def Let_def thread_inv_def unit_wf_def queue_inv_def)
  have "stop_unit (j < length cs) (j < Suc j) j (cs ! j) (ph j) ?w"
    using u assms(3) j by (simp add: stop_unit_def Let_def)
  moreover have "unit_frame j w ?w" using j by (intro unit_frame_upd) simp_all
  ultimately have "stop_inv tr0 cs (length cs) (Suc j) (ph(j := ph j)) ?w"
    using j by (intro stop_inv_update [OF assms(1,2)]) (auto simp: fds_change_def)
  moreover have "release_queue j (ups_units w) = Some (ups_units ?w)"
    using j q by (simp add: release_queue_def buf_load_def buf_store_def queue_destroy_def mutex_destroy_def)
  moreover have "u_tcp (ups_units ?w ! k) = u_tcp (ups_units w ! k)" for k using j by (cases "k = j") simp_all
  ultimately show ?thesis by simp
qed

text \<open>The monitor and the bridge are stopped, with every descriptor of the publisher closed.\<close>

definition threads_down :: "running \<Rightarrow> bool" where
  "threads_down s \<longleftrightarrow> \<not> g_running (dm_alarms (ru_daemon s)) \<and> ru_sub s = Sub_returned
     \<and> (let b = dm_bridge (ru_daemon s) in \<not> g_bridge_running b \<and> g_sub_thread b = Thread_Joined
          \<and> g_pub_poll_thread b = Thread_Joined \<and> opened (io_fds (snd (br_pub b))) = closed (io_fds (snd (br_pub b))))"

text \<open>\<open>up\<close>: the bridge had started.\<close>

definition life_inv :: "fd_ev list \<Rightarrow> nat list \<Rightarrow> bool \<Rightarrow> main_pc \<times> running \<Rightarrow> bool" where
  "life_inv tr0 cs up x \<longleftrightarrow> (let s = snd x in case fst x of
       Main_waiting p \<Rightarrow> daemon_run tr0 cs s \<and> g_bridge_running (dm_bridge (ru_daemon s)) = up
     | Main_stop_bridge \<Rightarrow> daemon_run tr0 cs s \<and> g_bridge_running (dm_bridge (ru_daemon s)) = up
         \<and> \<not> g_running (dm_alarms (ru_daemon s))
     | Main_clear i \<Rightarrow> up \<and> i \<le> length cs \<and> stop_inv tr0 cs i 0 (ru_phase s) (ru_world s) \<and> threads_down s
     | Main_join j \<Rightarrow> up \<and> j \<le> length cs \<and> stop_inv tr0 cs (length cs) j (ru_phase s) (ru_world s) \<and> threads_down s
     | Main_done \<Rightarrow> up \<and> ups_unit_count (ru_world s) = 0 \<and> fds_change {#} {#} tr0 (uw_fds (ru_world s))
         \<and> (\<forall>k<length cs. stop_unit True True k (cs ! k) (ru_phase s k) (ru_world s))
         \<and> threads_down s \<and> \<not> g_db (dm_manager (ru_daemon s)))"

text \<open>A unit whose thread can return: it is connected, or has returned already.\<close>

definition can_return :: "running \<Rightarrow> nat \<Rightarrow> bool" where
  "can_return s k \<longleftrightarrow> ru_phase s k = Returned_thread \<or> cl_lock (u_tcp (ups_units (ru_world s) ! k)) = Mutex_Ready"

lemma cancel_subscriber_ok: "sub_run st \<Longrightarrow> cancel_subscriber st = Some Sub_returned"
  using cleanup_ok by (fastforce simp: cancel_subscriber_def sub_run_def split: sub_thread_state.splits)

lemma no_thread_passes:
  assumes "threads_down s" and "system_step nofile start s r"
    and "\<And>k n ph w. k < ups_unit_count (ru_world s) \<Longrightarrow> ups_thread_step nofile k (ru_phase s k, (ru_world s)\<lparr>uw_net := n\<rparr>) (ph, w)
      \<Longrightarrow> u_running (ups_units w ! k) \<Longrightarrow> r = (if ph = Undefined_behaviour then None
           else Some (upd_daemon (\<lambda>d. d\<lparr>dm_world := w\<rparr>)
             (s\<lparr>ru_phase := (ru_phase s)(k := ph), ru_net := (ru_net s)(k := uw_net w)\<rparr>))) \<Longrightarrow> P"
  shows P
  using assms(2)
proof (cases rule: system_step.cases)
  case (poll_pass k ph w)
  then show ?thesis using assms(3) by blast
qed (use assms(1) in \<open>auto simp: threads_down_def Let_def\<close>)

lemma returned_step: "ups_thread_step nofile k (Returned_thread, w) (ph', w') \<Longrightarrow> k < length (ups_units w)
    \<Longrightarrow> u_running (ups_units w' ! k) \<Longrightarrow> u_running (ups_units w ! k)"
  by (auto elim!: ups_thread_step.cases)

lemma join_no_pass:
  assumes "stop_inv tr0 cs (length cs) j (ru_phase s) (ru_world s)" and "threads_down s" and "system_step nofile start s r"
  shows False
proof (rule no_thread_passes [OF assms(2,3)])
  fix k n ph w
  let ?w = "(ru_world s)\<lparr>uw_net := n\<rparr>"
  assume h: "k < ups_unit_count (ru_world s)" "ups_thread_step nofile k (ru_phase s k, ?w) (ph, w)"
      "u_running (ups_units w ! k)"
  have k: "k < length cs" using h(1) assms(1) by (simp add: stop_inv_def)
  have u: "stop_unit True (k < j) k (cs ! k) (ru_phase s k) (ru_world s)" "k < length (ups_units (ru_world s))"
    using stop_inv_unit [OF assms(1) k] k by simp_all
  have "u_running (ups_units ?w ! k)"
  proof (cases "k < j")
    case True
    then have "ru_phase s k = Returned_thread" using u(1) by (simp add: stop_unit_def Let_def)
    then show ?thesis using returned_step [of nofile k ?w ph w] h(2,3) u(2) by simp
  next
    case False
    then have "thread_inv k (cs ! k) ups1_profile ups1_mapping_table (ru_phase s k, ?w)"
      using u(1) by (simp add: stop_unit_def Let_def)
    from step_not_started [OF h(2) this h(3)] show ?thesis .
  qed
  then show False using u(1) by (auto simp: stop_unit_def Let_def split: if_splits)
qed

lemma join_all:
  assumes "stop_inv tr0 cs (length cs) (length cs) ph w"
  shows "fds_change {#} {#} tr0 (uw_fds w)" and "\<forall>k<length cs. stop_unit True True k (cs ! k) (ph k) w"
proof -
  show u: "\<forall>k<length cs. stop_unit True True k (cs ! k) (ph k) w"
    using stop_inv_unit(1) [OF assms] by fastforce
  then have "sockets (length cs) w = {#}" by (intro sockets_none) (simp add: stop_unit_def Let_def)
  then show "fds_change {#} {#} tr0 (uw_fds w)" using assms by (simp add: stop_inv_def)
qed

lemma stop_unit_world [simp]: "stop_unit True True k c ph (w\<lparr>ups_unit_count := n\<rparr>) = stop_unit True True k c ph w"
  by (simp add: stop_unit_def)

text \<open>What a step of the daemon's life does, by where \<open>main\<close> is.\<close>

lemma waiting_life:
  assumes "life_inv tr0 cs up (Main_waiting p, s)" and "life_step nofile start (Main_waiting p, s) r"
  shows "if r = None then FD_SETSIZE < nofile else life_inv tr0 cs up (the r)"
  using assms(2)
proof (cases rule: waiting_step [consumes 1, case_names pass exit wait stop])
  case (pass r')
  have "daemon_run tr0 cs s" using assms(1) by (simp add: life_inv_def)
  from daemon_run_step [OF this pass(2)] show ?thesis
    using pass(1) assms(1) by (cases r') (simp_all add: life_inv_def)
next
  case (exit k ph w)
  then show ?thesis using assms(1) by (auto simp: life_inv_def daemon_run_def units_run_def)
next
  case wait
  then show ?thesis using assms(1) by (simp add: life_inv_def)
next
  case stop
  then show ?thesis using assms(1) by (auto simp: life_inv_def daemon_run_def Let_def alarm_bridge_stop_def)
qed

lemma no_monitor_step: "system_step nofile start s (Some s') \<Longrightarrow> \<not> g_running (dm_alarms (ru_daemon s)) \<Longrightarrow> dm_alarms (ru_daemon s') = dm_alarms (ru_daemon s)"
  by (auto elim!: system_step.cases split: if_splits bind_splits prod.splits)

lemma bridge_life:
  assumes "life_inv tr0 cs up (Main_stop_bridge, s)" and "life_step nofile start (Main_stop_bridge, s) r"
  shows "if r = None then \<not> up \<or> FD_SETSIZE < nofile else life_inv tr0 cs up (the r)"
  using assms(2)
proof (cases rule: bridge_step [consumes 1, case_names pass exit stop])
  case (pass r')
  have run: "daemon_run tr0 cs s" using assms(1) by (simp add: life_inv_def)
  show ?thesis
  proof (cases r')
    case None
    then show ?thesis using daemon_run_step [OF run pass(2)] pass(1) by simp
  next
    case (Some s')
    have "dm_alarms (ru_daemon s') = dm_alarms (ru_daemon s)"
      using no_monitor_step pass(2) Some assms(1) by (simp add: life_inv_def)
    then show ?thesis using daemon_run_step [OF run pass(2)] Some pass(1) assms(1) by (simp add: life_inv_def)
  qed
next
  case (exit k ph w)
  then show ?thesis using assms(1) by (auto simp: life_inv_def daemon_run_def units_run_def)
next
  case stop
  have h: "daemon_run tr0 cs s" "g_bridge_running (dm_bridge (ru_daemon s)) = up" "\<not> g_running (dm_alarms (ru_daemon s))"
    using assms(1) by (simp_all add: life_inv_def)
  have c: "cancel_subscriber (ru_sub s) = Some Sub_returned"
    using h(1) by (intro cancel_subscriber_ok) (simp add: daemon_run_def)
  show ?thesis
  proof (cases up)
    case True
    then have "bridge_up (dm_bridge (ru_daemon s))" using h by (auto simp: daemon_run_def Let_def)
    from bridge_stop_ok [OF this] obtain b where b: "ups_cmos_bridge_stop (dm_bridge (ru_daemon s)) = Some b"
        "\<not> g_bridge_running b" "g_sub_thread b = Thread_Joined" "g_pub_poll_thread b = Thread_Joined"
        "opened (io_fds (snd (br_pub b))) = closed (io_fds (snd (br_pub b)))" by blast
    have "stop_inv tr0 cs 0 0 (ru_phase s) (ru_world s)" using h(1) units_run_stop by (simp add: daemon_run_def)
    then show ?thesis using stop b c h True by (simp add: life_inv_def threads_down_def Let_def)
  next
    case False
    then have "g_sub_thread (dm_bridge (ru_daemon s)) = Thread_Unset"
      using h by (auto simp: daemon_run_def Let_def bridge_up_def)
    then show ?thesis using stop False bridge_stop_undefined by simp
  qed
qed

text \<open>An undefined step after the bridge: a unit whose flag is cleared and that is not connected.\<close>

definition stuck_unit :: "nat list \<Rightarrow> running \<Rightarrow> bool" where
  "stuck_unit cs s \<longleftrightarrow> (\<exists>k<length cs. \<not> u_running (ups_units (ru_world s) ! k) \<and> ru_phase s k = At_outer
     \<and> cl_lock (u_tcp (ups_units (ru_world s) ! k)) \<noteq> Mutex_Ready)"

text \<open>The test of a stopped thread, in either stage.\<close>

lemma exit_life:
  assumes "stop_inv tr0 cs i j (ru_phase s) (ru_world s)" and "k < ups_unit_count (ru_world s)"
    and "\<not> u_running (ups_units (ru_world s) ! k)" and "ups_thread_step nofile k (ru_phase s k, ru_world s) (ph, w)"
    and "ph \<noteq> ru_phase s k"
  shows "if ph = Undefined_behaviour then stuck_unit cs s else stop_inv tr0 cs i j ((ru_phase s)(k := ph)) w"
proof -
  have k: "k < length cs" using assms(1,2) by (simp add: stop_inv_def)
  from stop_poll_exit [OF assms(1) k assms(3-5)] show ?thesis using k assms(3) by (auto simp: stuck_unit_def)
qed

lemma threads_down_world [simp]:
  "threads_down (s\<lparr>ru_phase := ph, ru_daemon := (ru_daemon s)\<lparr>dm_world := w\<rparr>\<rparr>) = threads_down s"
  "threads_down (s\<lparr>ru_phase := ph, ru_net := n, ru_daemon := (ru_daemon s)\<lparr>dm_world := w\<rparr>\<rparr>) = threads_down s"
  "threads_down (upd_daemon (\<lambda>d. d\<lparr>dm_world := w\<rparr>) s) = threads_down s"
  "threads_down (upd_daemon (\<lambda>d. d\<lparr>dm_world := w, dm_manager := m\<rparr>) s) = threads_down s"
  by (simp_all add: threads_down_def)

lemma clear_life:
  assumes "life_inv tr0 cs up (Main_clear i, s)" and "life_step nofile start (Main_clear i, s) r"
  shows "if r = None then stuck_unit cs s \<or> FD_SETSIZE < nofile else life_inv tr0 cs up (the r)"
proof -
  have h: "up" "i \<le> length cs" "stop_inv tr0 cs i 0 (ru_phase s) (ru_world s)" "threads_down s"
      "ups_unit_count (ru_world s) = length cs"
    using assms(1) by (simp_all add: life_inv_def stop_inv_def)
  show ?thesis
    using assms(2)
  proof (cases rule: clear_step [consumes 1, case_names pass exit clear cleared])
    case (pass r')
    show ?thesis
    proof (rule no_thread_passes [OF h(4) pass(2)])
      fix k n ph w
      assume p: "k < ups_unit_count (ru_world s)" "ups_thread_step nofile k (ru_phase s k, (ru_world s)\<lparr>uw_net := n\<rparr>) (ph, w)"
        "u_running (ups_units w ! k)" and r': "r' = (if ph = Undefined_behaviour then None
           else Some (upd_daemon (\<lambda>d. d\<lparr>dm_world := w\<rparr>)
             (s\<lparr>ru_phase := (ru_phase s)(k := ph), ru_net := (ru_net s)(k := uw_net w)\<rparr>)))"
      have "k < length cs" using p(1) h(5) by simp
      from stop_poll_pass [OF h(3) this p(2,3)] show ?thesis
        using r' pass(1) h by (cases "nofile \<le> FD_SETSIZE") (simp_all add: life_inv_def)
    qed
  next
    case (exit k ph w)
    from exit_life [OF h(3) exit(2-5)] show ?thesis using exit(1) h by (simp add: life_inv_def)
  next
    case clear
    then have i: "i < length cs" using h(5) by simp
    from stop_clear_flag [OF h(3) i] show ?thesis using clear(1) h i by (auto simp: life_inv_def)
  next
    case cleared
    then show ?thesis using h by (simp add: life_inv_def)
  qed
qed

lemma join_life:
  assumes "life_inv tr0 cs up (Main_join j, s)" and "life_step nofile start (Main_join j, s) r"
  shows "if r = None then stuck_unit cs s else life_inv tr0 cs up (the r)"
proof -
  have h: "up" "j \<le> length cs" "stop_inv tr0 cs (length cs) j (ru_phase s) (ru_world s)" "threads_down s"
      "ups_unit_count (ru_world s) = length cs"
    using assms(1) by (simp_all add: life_inv_def stop_inv_def)
  show ?thesis
    using assms(2)
  proof (cases rule: join_step [consumes 1, case_names pass exit join joined])
    case (pass r')
    then show ?thesis using join_no_pass [OF h(3,4)] by blast
  next
    case (exit k ph w)
    from exit_life [OF h(3) exit(2-5)] show ?thesis using exit(1) h by (simp add: life_inv_def)
  next
    case join
    then have j: "j < length cs" using h(5) by simp
    from stop_join_unit [OF h(3) j join(3)] show ?thesis using join(1) h j by (auto simp: life_inv_def)
  next
    case joined
    then have j: "j = length cs" using h by simp
    from join_all [OF h(3) [unfolded j]] show ?thesis
      using joined(1) h by (simp add: life_inv_def ups_alarm_manager_close_def)
  qed
qed

lemma done_no_step:
  assumes "life_inv tr0 cs up (Main_done, s)"
  shows "\<not> life_step nofile start (Main_done, s) r"
proof
  assume "life_step nofile start (Main_done, s) r"
  then show False
  proof (cases rule: done_step [consumes 1, case_names pass exit])
    case (pass r')
    have "threads_down s" using assms by (simp add: life_inv_def)
    from no_thread_passes [OF this pass(2)] show ?thesis using assms by (auto simp: life_inv_def)
  qed (use assms in \<open>simp add: life_inv_def\<close>)
qed

lemma life_inv_step:
  assumes "life_inv tr0 cs up (pc, s)" and "life_step nofile start (pc, s) r"
  shows "if r = None then pc = Main_stop_bridge \<and> \<not> up \<or> stuck_unit cs s \<or> FD_SETSIZE < nofile else life_inv tr0 cs up (the r)"
proof (cases pc)
  case (Main_waiting p)
  then show ?thesis using waiting_life assms by fastforce
next
  case Main_stop_bridge
  then show ?thesis using bridge_life assms by fastforce
next
  case (Main_clear i)
  then show ?thesis using clear_life assms by fastforce
next
  case (Main_join j)
  then show ?thesis using join_life assms by fastforce
next
  case Main_done
  then show ?thesis using done_no_step assms by blast
qed

lemma life_sockets:
  "life_inv tr0 cs up (pc, s) \<Longrightarrow> fds_change {#} (sockets (length cs) (ru_world s)) tr0 (uw_fds (ru_world s))"
  by (cases pc) (auto simp: life_inv_def stop_inv_def daemon_run_def units_run_def stop_unit_def Let_def sockets_none
      polls_hold_sockets [of tr0 cs "ru_phase s" "ru_world s", symmetric])

lemma life_done:
  assumes "life_inv tr0 cs up (pc, s)"
  shows "pc = Main_done \<longrightarrow> sockets (length cs) (ru_world s) = {#} \<and> ups_unit_count (ru_world s) = 0
        \<and> (\<forall>k<length cs. ru_phase s k = Returned_thread \<and> \<not> u_running (ups_units (ru_world s) ! k)
             \<and> q_lock (cmd_queue (ups_units (ru_world s) ! k)) = Mutex_Destroyed)
        \<and> \<not> g_running (dm_alarms (ru_daemon s)) \<and> \<not> g_db (dm_manager (ru_daemon s))
        \<and> (let b = dm_bridge (ru_daemon s) in g_sub_thread b = Thread_Joined \<and> g_pub_poll_thread b = Thread_Joined
             \<and> opened (io_fds (snd (br_pub b))) = closed (io_fds (snd (br_pub b))))"
  using assms by (auto simp: life_inv_def threads_down_def stop_unit_def Let_def intro!: sockets_none)

lemma life_inv_run:
  "life_run nofile start x n r \<Longrightarrow> life_inv tr0 cs up x \<Longrightarrow> r = Some y \<Longrightarrow> life_inv tr0 cs up y"
proof (induction arbitrary: y rule: life_run.induct)
  case (life_next n z r)
  then show ?case using life_inv_step [of tr0 cs up "fst z" "snd z" nofile start r] by simp
qed simp

section \<open>The joins end\<close>

lemma stuck_undefined:
  assumes "stuck_unit cs s" and "ups_unit_count (ru_world s) = length cs"
  shows "life_step nofile start (pc, s) None"
proof -
  obtain k where k: "k < length cs" "\<not> u_running (ups_units (ru_world s) ! k)" "ru_phase s k = At_outer"
      "cl_lock (u_tcp (ups_units (ru_world s) ! k)) \<noteq> Mutex_Ready"
    using assms(1) by (auto simp: stuck_unit_def)
  have "ups_thread_step nofile k (ru_phase s k, ru_world s) (Undefined_behaviour, ru_world s)"
    unfolding k(3) by (rule stop_undefined [OF k(2) disconnect_not_ready [OF k(4)]])
  from poll_exit [OF _ k(2) this, of start pc] show ?thesis using k(1,3) assms(2) by simp
qed

lemma undefined_step_iff:
  assumes "life_inv tr0 cs up (pc, s)" and "nofile \<le> FD_SETSIZE"
  shows "life_step nofile start (pc, s) None \<longleftrightarrow> pc = Main_stop_bridge \<and> \<not> up \<or> stuck_unit cs s"
proof
  assume "life_step nofile start (pc, s) None"
  from life_inv_step [OF assms(1) this] assms(2) show "pc = Main_stop_bridge \<and> \<not> up \<or> stuck_unit cs s" by simp
next
  assume h: "pc = Main_stop_bridge \<and> \<not> up \<or> stuck_unit cs s"
  show "life_step nofile start (pc, s) None"
  proof (cases "pc = Main_stop_bridge \<and> \<not> up")
    case True
    then have "g_sub_thread (dm_bridge (ru_daemon s)) = Thread_Unset"
      using assms(1) by (auto simp: life_inv_def daemon_run_def Let_def bridge_up_def)
    then show ?thesis using True stop_bridge [of nofile start s] bridge_stop_undefined by simp
  next
    case False
    then have st: "stuck_unit cs s" using h by blast
    have "pc \<noteq> Main_done" using st assms(1) by (auto simp: life_inv_def stuck_unit_def stop_unit_def Let_def)
    then have "ups_unit_count (ru_world s) = length cs"
      using assms(1) by (cases pc) (simp_all add: life_inv_def daemon_run_def units_run_def stop_inv_def)
    from stuck_undefined [OF st this] show ?thesis .
  qed
qed

lemma stuck_cannot_return: "stuck_unit cs s \<Longrightarrow> \<exists>k<length cs. \<not> can_return s k"
  by (auto simp: stuck_unit_def can_return_def)

text \<open>The tests a thread still makes before it returns, and what is left of the joins.\<close>

fun exit_tests :: "ups_phase \<Rightarrow> nat" where
  "exit_tests At_inner = 2"
| "exit_tests At_outer = 1"
| "exit_tests ph = 0"

definition join_work :: "nat \<Rightarrow> main_pc \<times> running \<Rightarrow> nat" where
  "join_work n x = (case fst x of
     Main_join j \<Rightarrow> (\<Sum>k<n. exit_tests (ru_phase (snd x) k)) + (n - j) + 1 | _ \<Rightarrow> 0)"

lemma exit_tests_update:
  "k < (n :: nat) \<Longrightarrow> exit_tests ph' < exit_tests (ph k)
    \<Longrightarrow> (\<Sum>l<n. exit_tests ((ph(k := ph')) l)) < (\<Sum>l<n. exit_tests (ph l))"
  by (rule sum_strict_mono_ex1) (auto intro: bexI [of _ k])

lemma exit_tests_le: "exit_tests ph \<le> 2"
  by (cases ph) simp_all

lemma exit_tests_bound: "(\<Sum>k<n. exit_tests (ph k)) \<le> 2 * (n :: nat)"
  using sum_bounded_above [of "{..<n}" "\<lambda>k. exit_tests (ph k)" 2]
  by (simp add: exit_tests_le)

lemma join_step_work:
  assumes "life_inv tr0 cs up (Main_join j, s)" and "life_step nofile start (Main_join j, s) (Some y)"
  shows "join_work (length cs) y < join_work (length cs) (Main_join j, s)"
    and "fst y = Main_done \<or> (\<exists>j'. fst y = Main_join j')"
    and "k < length cs \<Longrightarrow> can_return (snd y) k = can_return s k"
proof -
  have h: "j \<le> length cs" "stop_inv tr0 cs (length cs) j (ru_phase s) (ru_world s)" "threads_down s"
      "ups_unit_count (ru_world s) = length cs"
    using assms(1) by (simp_all add: life_inv_def stop_inv_def)
  let ?P = "join_work (length cs) y < join_work (length cs) (Main_join j, s) \<and> (fst y = Main_done \<or> (\<exists>j'. fst y = Main_join j'))
    \<and> (\<forall>k<length cs. can_return (snd y) k = can_return s k)"
  have ?P
    using assms(2)
  proof (cases rule: join_step [consumes 1, case_names pass exit join joined])
    case (pass r')
    then show ?thesis using join_no_pass [OF h(2,3)] by blast
  next
    case (exit k ph w)
    have k: "k < length cs" using exit(2) h(4) by simp
    have ne: "ph \<noteq> Undefined_behaviour" using exit(1) by auto
    have y: "y = (Main_join j, upd_daemon (\<lambda>d. d\<lparr>dm_world := w\<rparr>) (s\<lparr>ru_phase := (ru_phase s)(k := ph)\<rparr>))"
      using exit(1) ne by simp
    from stop_poll_exit [OF h(2) k exit(3-5)] ne have st:
      "ru_phase s k = At_inner \<and> ph = At_outer \<and> w = ru_world s
        \<or> ru_phase s k = At_outer \<and> ph = Returned_thread \<and> cl_lock (u_tcp (ups_units (ru_world s) ! k)) = Mutex_Ready"
      by simp
    then have less: "exit_tests ph < exit_tests (ru_phase s k)" by auto
    have "join_work (length cs) y < join_work (length cs) (Main_join j, s)"
      using y exit_tests_update [where ph = "ru_phase s", OF k less] by (simp add: join_work_def)
    moreover have "unit_frame k (ru_world s) w"
    proof -
      have "stop_unit (k < length cs) (k < j) k (cs ! k) (ru_phase s k) (ru_world s)" by (rule stop_inv_unit [OF h(2) k])
      then have "thread_inv k (cs ! k) ups1_profile ups1_mapping_table (ru_phase s k, ru_world s)"
        using st by (auto simp: stop_unit_def Let_def split: if_splits)
      from thread_step_frame [OF exit(4) this] show ?thesis by simp
    qed
    then have "can_return (snd y) l = can_return s l" for l
      using y st by (cases "l = k") (auto simp: can_return_def unit_frame_def)
    ultimately show ?thesis using y by simp
  next
    case join
    then have j: "j < length cs" using h(4) by simp
    from stop_join_unit [OF h(2) j join(3)] obtain us where us: "release_queue j (ups_units (ru_world s)) = Some us"
        "\<forall>k. u_tcp (us ! k) = u_tcp (ups_units (ru_world s) ! k)" by blast
    then have "y = (Main_join (Suc j), upd_daemon (\<lambda>d. d\<lparr>dm_world := (dm_world d)\<lparr>ups_units := us\<rparr>\<rparr>) s)"
      using join(1) by simp
    then show ?thesis using j us(2) by (simp add: join_work_def can_return_def)
  next
    case joined
    then show ?thesis by (simp add: join_work_def can_return_def)
  qed
  then show "join_work (length cs) y < join_work (length cs) (Main_join j, s)"
    "fst y = Main_done \<or> (\<exists>j'. fst y = Main_join j')"
    "k < length cs \<Longrightarrow> can_return (snd y) k = can_return s k"
    by blast+
qed

lemma join_progress:
  assumes "life_inv tr0 cs up (Main_join j, s)"
  shows "\<exists>r. life_step nofile start (Main_join j, s) r"
proof -
  have h: "j \<le> length cs" "stop_inv tr0 cs (length cs) j (ru_phase s) (ru_world s)"
      "ups_unit_count (ru_world s) = length cs"
    using assms by (simp_all add: life_inv_def stop_inv_def)
  show ?thesis
  proof (cases "j < length cs")
    case False
    then show ?thesis using all_joined [of j s nofile start] h(3) by auto
  next
    case True
    have "stop_unit (j < length cs) (j < j) j (cs ! j) (ru_phase s j) (ru_world s)" by (rule stop_inv_unit [OF h(2) True])
    then have u: "\<not> u_running (ups_units (ru_world s) ! j)"
        "ru_phase s j = At_outer \<or> ru_phase s j = At_inner \<or> ru_phase s j = Returned_thread"
        "thread_inv j (cs ! j) ups1_profile ups1_mapping_table (ru_phase s j, ru_world s)"
      using True by (auto simp: stop_unit_def Let_def)
    have test: ?thesis if "ups_thread_step nofile j (ru_phase s j, ru_world s) (ph, w)" "ph \<noteq> ru_phase s j" for ph w
      using poll_exit [OF _ u(1) that, of start "Main_join j"] True h(3) by auto
    from u(2) show ?thesis
    proof (elim disjE)
      assume o: "ru_phase s j = At_outer"
      let ?t = "u_tcp (ups_units (ru_world s) ! j)"
      show ?thesis
      proof (cases "cl_lock ?t = Mutex_Ready")
        case True
        then have "client_ready ?t" using u(3) o by (auto simp: thread_inv_def)
        from thread_stopped [OF u(1) disconnect_ready [OF this], of nofile] show ?thesis using test o by simp
      next
        case False
        from stop_undefined [OF u(1) disconnect_not_ready [OF False], of nofile] show ?thesis using test o by simp
      qed
    next
      assume "ru_phase s j = At_inner"
      then show ?thesis using test inner_stopped [OF u(1), of nofile] by simp
    next
      assume "ru_phase s j = Returned_thread"
      then show ?thesis using join_unit [of j s nofile start] True h(3) by auto
    qed
  qed
qed

lemma join_run:
  assumes "life_run nofile start x m r" and "fst x = Main_join j" and "life_inv tr0 cs up x"
  shows "case r of None \<Rightarrow> m \<le> join_work (length cs) x \<and> (\<exists>k<length cs. \<not> can_return (snd x) k)
     | Some y \<Rightarrow> life_inv tr0 cs up y \<and> m + join_work (length cs) y \<le> join_work (length cs) x
         \<and> (fst y = Main_done \<or> (\<exists>j'. fst y = Main_join j'))
         \<and> (\<forall>k<length cs. can_return (snd y) k = can_return (snd x) k)"
  using assms(1)
proof (induction rule: life_run.induct)
  case life_here
  then show ?case using assms(2,3) by simp
next
  case (life_next m y r)
  obtain pc s where y: "y = (pc, s)" by (cases y)
  have ih: "life_inv tr0 cs up (pc, s)" "m + join_work (length cs) (pc, s) \<le> join_work (length cs) x"
      "pc = Main_done \<or> (\<exists>j'. pc = Main_join j')" "\<forall>k<length cs. can_return s k = can_return (snd x) k"
    using life_next y by simp_all
  have "pc \<noteq> Main_done" using ih(1) life_next(2) done_no_step y by blast
  then obtain j' where j': "pc = Main_join j'" using ih(3) by blast
  have inv: "life_inv tr0 cs up (Main_join j', s)" and step: "life_step nofile start (Main_join j', s) r"
    using ih(1) life_next(2) j' y by simp_all
  show ?case
  proof (cases r)
    case None
    then have "\<exists>k<length cs. \<not> can_return s k" using join_life [OF inv step] stuck_cannot_return by simp
    then have "\<exists>k<length cs. \<not> can_return (snd x) k" using ih(4) by auto
    moreover have "0 < join_work (length cs) (pc, s)" using j' by (simp add: join_work_def)
    ultimately show ?thesis using None ih(2) by simp
  next
    case (Some z)
    note w = join_step_work [OF inv step [unfolded Some]]
    have "life_inv tr0 cs up z" using join_life [OF inv step] Some by simp
    then show ?thesis using Some w ih(2,4) j' by auto
  qed
qed

text \<open>With every unit connected the shutdown can always be run to its end.\<close>

lemma join_completes:
  assumes "life_run nofile start x m (Some (Main_join j, s))" and "life_inv tr0 cs up (Main_join j, s)" and "\<forall>k<length cs. can_return s k"
  shows "\<exists>m' s'. life_run nofile start x m' (Some (Main_done, s'))"
  using assms
proof (induction "join_work (length cs) (Main_join j, s)" arbitrary: j s m rule: less_induct)
  case less
  obtain r where r: "life_step nofile start (Main_join j, s) r" using join_progress [OF less(3)] by blast
  have "\<not> stuck_unit cs s" using stuck_cannot_return less(4) by blast
  then obtain y where y: "r = Some y" "life_inv tr0 cs up y" using join_life [OF less(3) r] by (cases r) auto
  note w = join_step_work [OF less(3) r [unfolded y(1)]]
  have run: "life_run nofile start x (Suc m) (Some y)" using life_next [OF less(2) r] y(1) by simp
  obtain pc s' where ps: "y = (pc, s')" by (cases y)
  from w(2) show ?case
  proof
    assume "fst y = Main_done"
    then show ?thesis using run ps by auto
  next
    assume "\<exists>j'. fst y = Main_join j'"
    then obtain j' where j': "y = (Main_join j', s')" using ps by auto
    show ?thesis using less(1) [of j' s' "Suc m"] w(1,3) run y(2) less(4) unfolding j' by simp
  qed
qed

text \<open>\<open>main\<close> comes to the joins, whatever the units do.\<close>

lemma reach_clear:
  assumes "life_inv tr0 cs up (Main_clear 0, s)" and "life_run nofile start x m (Some (Main_clear 0, s))" and "i \<le> length cs"
  shows "\<exists>s'. life_run nofile start x (m + i) (Some (Main_clear i, s')) \<and> life_inv tr0 cs up (Main_clear i, s')
    \<and> (\<forall>k. can_return s' k = can_return s k)"
  using assms(3)
proof (induction i)
  case (Suc i)
  then obtain s' where s': "life_run nofile start x (m + i) (Some (Main_clear i, s'))" "life_inv tr0 cs up (Main_clear i, s')"
      "\<forall>k. can_return s' k = can_return s k" by auto
  have h: "stop_inv tr0 cs i 0 (ru_phase s') (ru_world s')" "i < length cs" "i < ups_unit_count (ru_world s')"
    using s'(2) Suc(2) by (simp_all add: life_inv_def stop_inv_def)
  from stop_clear_flag [OF h(1,2)] obtain us where us: "clear_running i (ups_units (ru_world s')) = Some us"
      "\<forall>k. u_tcp (us ! k) = u_tcp (ups_units (ru_world s') ! k)" by blast
  let ?s = "upd_daemon (\<lambda>d. d\<lparr>dm_world := (dm_world d)\<lparr>ups_units := us\<rparr>\<rparr>) s'"
  have st: "life_step nofile start (Main_clear i, s') (Some (Main_clear (Suc i), ?s))"
    using clear_flag [OF h(3), of nofile start] us(1) by simp
  have "life_inv tr0 cs up (Main_clear (Suc i), ?s)" using clear_life [OF s'(2) st] by simp
  moreover have "\<forall>k. can_return ?s k = can_return s k" using s'(3) us(2) by (simp add: can_return_def)
  ultimately show ?case using life_next [OF s'(1) st] by auto
qed (use assms in auto)

lemma reach_join:
  assumes "daemon_run tr0 cs s" and "g_bridge_running (dm_bridge (ru_daemon s))"
  shows "\<exists>m s'. life_run nofile start (Main_waiting (At_test, True), s) m (Some (Main_join 0, s')) \<and> (\<forall>k. can_return s' k = can_return s k)"
proof -
  let ?s1 = "upd_daemon (\<lambda>d. d\<lparr>dm_alarms := snd (alarm_bridge_stop (dm_alarms d))\<rparr>) s"
  have i0: "life_inv tr0 cs True (Main_waiting (Shutting_down, False), s)" using assms by (simp add: life_inv_def)
  have i1: "life_inv tr0 cs True (Main_stop_bridge, ?s1)" using waiting_life [OF i0 stop_monitor] by simp
  have "life_step nofile start (Main_waiting (At_test, True), s) (Some (Main_waiting (At_test, False), s))"
    by (rule main_waits, rule signal_handled)
  note r1 = life_next [OF life_next [OF life_next [OF life_here this] main_waits [OF test_stopped]] stop_monitor]
  obtain b where b: "ups_cmos_bridge_stop (dm_bridge (ru_daemon ?s1)) = Some b"
    using bridge_stop_ok [of "dm_bridge (ru_daemon ?s1)"] assms by (auto simp: daemon_run_def Let_def)
  have c: "cancel_subscriber (ru_sub ?s1) = Some Sub_returned"
    using assms(1) by (intro cancel_subscriber_ok) (simp add: daemon_run_def)
  let ?s2 = "upd_daemon (\<lambda>d. d\<lparr>dm_bridge := b\<rparr>) (?s1\<lparr>ru_sub := Sub_returned\<rparr>)"
  have st: "life_step nofile start (Main_stop_bridge, ?s1) (Some (Main_clear 0, ?s2))"
    using stop_bridge [of nofile start ?s1] b c by simp
  have i2: "life_inv tr0 cs True (Main_clear 0, ?s2)" using bridge_life [OF i1 st] by simp
  obtain m s' where s': "life_run nofile start (Main_waiting (At_test, True), s) m (Some (Main_clear (length cs), s'))"
      "life_inv tr0 cs True (Main_clear (length cs), s')" "\<forall>k. can_return s' k = can_return ?s2 k"
    using reach_clear [OF i2 life_next [OF r1 st], of "length cs"] by blast
  have "\<not> length cs < ups_unit_count (ru_world s')" using s'(2) by (simp add: life_inv_def stop_inv_def)
  from life_next [OF s'(1) flags_cleared [OF this]] s'(3) show ?thesis
    by (intro exI conjI) (auto simp: can_return_def)
qed

text \<open>
  \<open>main_shutdown\<close> is what \<open>main\<close>'s steps compute when no thread has a step to take: every poll thread
  has returned, so that each join is done as soon as \<open>main\<close> comes to it.
\<close>

abbreviation upd_units :: "ups_unit list \<Rightarrow> running \<Rightarrow> running" where
  "upd_units us s \<equiv> upd_daemon (\<lambda>d. d\<lparr>dm_world := (dm_world d)\<lparr>ups_units := us\<rparr>\<rparr>) s"

lemma clear_steps:
  assumes "life_run nofile start x m (Some (Main_clear i, s))" and "foldM clear_running [i..<ups_unit_count (ru_world s)] (ups_units (ru_world s)) = Some us"
    and "i \<le> ups_unit_count (ru_world s)"
  shows "\<exists>m'. life_run nofile start x m' (Some (Main_clear (ups_unit_count (ru_world s)), upd_units us s))"
  using assms
proof (induction "ups_unit_count (ru_world s) - i" arbitrary: i s m)
  case 0
  then show ?case by auto
next
  case (Suc d)
  let ?n = "ups_unit_count (ru_world s)"
  have i: "i < ?n" using Suc(2) by simp
  then obtain us1 where us1: "clear_running i (ups_units (ru_world s)) = Some us1" "foldM clear_running [Suc i..<?n] us1 = Some us"
    using Suc(4) by (auto simp: upt_conv_Cons split: bind_splits)
  have "life_run nofile start x (Suc m) (Some (Main_clear (Suc i), upd_units us1 s))"
    using life_next [OF Suc(3) clear_flag [OF i]] us1(1) by simp
  from Suc(1) [OF _ this] show ?case using Suc(2) us1(2) i by simp
qed

lemma join_steps:
  assumes "life_run nofile start x m (Some (Main_join i, s))" and "foldM release_queue [i..<ups_unit_count (ru_world s)] (ups_units (ru_world s)) = Some us"
    and "i \<le> ups_unit_count (ru_world s)" and "\<forall>k<ups_unit_count (ru_world s). ru_phase s k = Returned_thread"
  shows "\<exists>m'. life_run nofile start x m' (Some (Main_join (ups_unit_count (ru_world s)), upd_units us s))"
  using assms
proof (induction "ups_unit_count (ru_world s) - i" arbitrary: i s m)
  case 0
  then show ?case by auto
next
  case (Suc d)
  let ?n = "ups_unit_count (ru_world s)"
  have i: "i < ?n" using Suc(2) by simp
  then obtain us1 where us1: "release_queue i (ups_units (ru_world s)) = Some us1" "foldM release_queue [Suc i..<?n] us1 = Some us"
    using Suc(4) by (auto simp: upt_conv_Cons split: bind_splits)
  have "life_run nofile start x (Suc m) (Some (Main_join (Suc i), upd_units us1 s))"
    using life_next [OF Suc(3) join_unit [OF i]] us1(1) i Suc(6) by simp
  from Suc(1) [OF _ this] show ?case using Suc(2,6) us1(2) i by simp
qed

lemma main_shutdown_steps:
  assumes "main_shutdown (ru_daemon s) = Some (rc, d)" and "cancel_subscriber (ru_sub s) = Some st"
    and "\<forall>k<ups_unit_count (ru_world s). ru_phase s k = Returned_thread"
  shows "\<exists>m. life_run nofile start (Main_waiting (Shutting_down, flag), s) m (Some (Main_done, s\<lparr>ru_sub := st, ru_daemon := d\<rparr>))"
proof -
  let ?d = "ru_daemon s" and ?n = "ups_unit_count (ru_world s)"
  obtain b us1 us where h: "ups_cmos_bridge_stop (dm_bridge ?d) = Some b"
      "foldM clear_running [0..<?n] (ups_units (dm_world ?d)) = Some us1" "foldM release_queue [0..<?n] us1 = Some us"
      "d = ?d\<lparr>dm_alarms := snd (alarm_bridge_stop (dm_alarms ?d)), dm_bridge := b,
         dm_world := (dm_world ?d)\<lparr>ups_units := us, ups_unit_count := 0\<rparr>, dm_manager := ups_alarm_manager_close (dm_manager ?d)\<rparr>"
    using assms(1) by (auto simp: main_shutdown_def stop_ups_modules_def Let_def split: bind_splits prod.splits)
  let ?s1 = "upd_daemon (\<lambda>d. d\<lparr>dm_alarms := snd (alarm_bridge_stop (dm_alarms d))\<rparr>) s"
  let ?s2 = "upd_daemon (\<lambda>d. d\<lparr>dm_bridge := b\<rparr>) (?s1\<lparr>ru_sub := st\<rparr>)"
  have "life_step nofile start (Main_stop_bridge, ?s1) (Some (Main_clear 0, ?s2))"
    using stop_bridge [of nofile start ?s1] h(1) assms(2) by simp
  from life_next [OF life_next [OF life_here stop_monitor] this]
  obtain m1 where "life_run nofile start (Main_waiting (Shutting_down, flag), s) m1 (Some (Main_clear ?n, upd_units us1 ?s2))"
    using clear_steps [where s = ?s2 and i = 0 and us = us1] h(2) by fastforce
  from life_next [OF this flags_cleared]
  have "life_run nofile start (Main_waiting (Shutting_down, flag), s) (Suc m1) (Some (Main_join 0, upd_units us1 ?s2))" by simp
  from join_steps [OF this, of us]
  obtain m2 where "life_run nofile start (Main_waiting (Shutting_down, flag), s) m2 (Some (Main_join ?n, upd_units us (upd_units us1 ?s2)))"
    using h(3) assms(3) by auto
  from life_next [OF this all_joined] show ?thesis using h(4) by auto
qed

section \<open>Shutting down\<close>

text \<open>
  C4: the daemon's whole life is safe but for two cases. Let the process hold at most 1024
  descriptors (\<open>nofile\<close>), so that every socket of a poll thread fits the \<open>fd_set\<close> it is put in. From a
  start of \<open>main\<close>, after any passes of the threads and any steps of \<open>main\<close>'s shutdown between them, the descriptors the poll threads have
  opened and not closed are the sockets of the clients whose mutex is live, and the next step can be
  undefined behaviour exactly if \<open>main\<close> is about to stop a bridge that has not started, or some poll
  thread whose flag is cleared has left its loops without a connection. Once \<open>main\<close> has
  returned, every poll thread has returned, every queue is destroyed, no socket of a unit and no
  descriptor of the publisher is left open, the monitor and the bridge's threads are joined and the database is closed.
\<close>

theorem daemon_life_safe:
  assumes "static_daemon d" and "length (dm_path d) = 256"
    and "parse_arguments opts (''./config/config.json'', LOG_LEVEL_INFO) = Returned (path, level)"
    and "good_file J from_file path" and "main_init J from_file opts env d = Some (Returned d1)"
    and "opened (io_fds io) = closed (io_fds io)"
    and "life_run nofile start (Main_waiting (At_test, True), boot d1 nets io) m (Some (pc, s))" and "nofile \<le> 1024"
  shows "fds_change {#} (sockets (ups_unit_count (dm_world d1)) (ru_world s)) (uw_fds (dm_world d1)) (uw_fds (ru_world s))
    \<and> (life_step nofile start (pc, s) None \<longleftrightarrow> pc = Main_stop_bridge \<and> \<not> g_bridge_running (dm_bridge d1)
        \<or> (\<exists>k<ups_unit_count (dm_world d1). \<not> u_running (ups_units (ru_world s) ! k) \<and> ru_phase s k = At_outer
             \<and> cl_lock (u_tcp (ups_units (ru_world s) ! k)) \<noteq> Mutex_Ready))
    \<and> (pc = Main_done \<longrightarrow> sockets (ups_unit_count (dm_world d1)) (ru_world s) = {#} \<and> ups_unit_count (ru_world s) = 0
        \<and> (\<forall>k<ups_unit_count (dm_world d1). ru_phase s k = Returned_thread \<and> \<not> u_running (ups_units (ru_world s) ! k)
             \<and> q_lock (cmd_queue (ups_units (ru_world s) ! k)) = Mutex_Destroyed)
        \<and> \<not> g_running (dm_alarms (ru_daemon s)) \<and> \<not> g_db (dm_manager (ru_daemon s))
        \<and> (let b = dm_bridge (ru_daemon s) in g_sub_thread b = Thread_Joined \<and> g_pub_poll_thread b = Thread_Joined
             \<and> opened (io_fds (snd (br_pub b))) = closed (io_fds (snd (br_pub b)))))"
proof -
  let ?tr = "uw_fds (dm_world d1)"
  obtain cs where run: "daemon_run ?tr cs (boot d1 nets io)" using daemon_run_boot [OF assms(1-6)] by blast
  then have n: "ups_unit_count (dm_world d1) = length cs" by (simp add: daemon_run_def units_run_def boot_def)
  have "life_inv ?tr cs (g_bridge_running (dm_bridge d1)) (Main_waiting (At_test, True), boot d1 nets io)"
    using run by (simp add: life_inv_def boot_def)
  from life_inv_run [OF assms(7) this refl]
  have inv: "life_inv ?tr cs (g_bridge_running (dm_bridge d1)) (pc, s)" .
  have limit: "nofile \<le> FD_SETSIZE" using assms(8) by (simp add: FD_SETSIZE_def)
  show ?thesis
    using life_sockets [OF inv] undefined_step_iff [OF inv limit, of start] life_done [OF inv] unfolding n stuck_unit_def by blast
qed

theorem daemon_life_safe_witness:
  "\<exists>d1 m s. main_init demo_json (\<lambda>_. Some demo_file) [(CHR ''l'', ''4''), (CHR ''c'', ''x.json'')] demo_start_env demo_boot = Some (Returned d1)
    \<and> life_run 1024 0 (Main_waiting (At_test, True), boot d1 (\<lambda>_. demo_net []) demo_master) m (Some (Main_join 0, s))
    \<and> (life_step 1024 0 (Main_join 0, s) None \<longleftrightarrow> (\<exists>k<ups_unit_count (dm_world d1). \<not> u_running (ups_units (ru_world s) ! k)
         \<and> ru_phase s k = At_outer \<and> cl_lock (u_tcp (ups_units (ru_world s) ! k)) \<noteq> Mutex_Ready))"
proof -
  obtain d1 where d1: "main_init demo_json (\<lambda>_. Some demo_file) [(CHR ''l'', ''4''), (CHR ''c'', ''x.json'')] demo_start_env demo_boot
      = Some (Returned d1)" "g_bridge_running (dm_bridge d1)"
    using demo_boot_inits by blast
  have io: "opened (io_fds demo_master) = closed (io_fds demo_master)" by (simp add: demo_master_def demo_io_def)
  obtain cs where run: "daemon_run (uw_fds (dm_world d1)) cs (boot d1 (\<lambda>_. demo_net []) demo_master)"
    using daemon_run_boot [OF demo_boot_ok demo_arguments demo_daemon_ok(3) d1(1) io] by blast
  have "g_bridge_running (dm_bridge (ru_daemon (boot d1 (\<lambda>_. demo_net []) demo_master)))" using d1(2) by (simp add: boot_def)
  from reach_join [OF run this, of 1024 0] obtain m s where
    s: "life_run 1024 0 (Main_waiting (At_test, True), boot d1 (\<lambda>_. demo_net []) demo_master) m (Some (Main_join 0, s))" by blast
  from daemon_life_safe [OF demo_boot_ok demo_arguments demo_daemon_ok(3) d1(1) io s] d1(1) s
  show ?thesis by (intro exI [of _ d1] exI [of _ m] exI [of _ s]) simp
qed

text \<open>
  C14: the joins end. Once \<open>main\<close> has cleared the flags of the \<open>n\<close> units and starts to join their
  threads, in whatever order threads and \<open>main\<close> take their steps there are at most \<open>3 n + 1\<close> of them,
  undefined behaviour included. A run that nothing can continue has ended with \<open>main\<close> returning if
  every unit was connected or its thread had returned when the joins began, and with undefined
  behaviour otherwise.
\<close>

theorem shutdown_ends:
  assumes "daemon_run tr0 cs s0" and "g_bridge_running (dm_bridge (ru_daemon s0))"
    and "life_run nofile start (Main_waiting p, s0) m0 (Some (Main_join 0, s))" and "life_run nofile start (Main_join 0, s) m r"
  shows "m \<le> 3 * length cs + 1
    \<and> (case r of None \<Rightarrow> \<exists>k<length cs. \<not> can_return s k
       | Some y \<Rightarrow> (\<exists>r'. life_step nofile start y r') \<or> fst y = Main_done \<and> (\<forall>k<length cs. can_return s k))"
proof -
  have inv: "life_inv tr0 cs True (Main_join 0, s)"
    using life_inv_run [OF assms(3) _ refl] assms(1,2) by (simp add: life_inv_def)
  have bound: "join_work (length cs) (Main_join 0, s) \<le> 3 * length cs + 1"
    using exit_tests_bound [of "ru_phase s" "length cs"] by (simp add: join_work_def)
  from join_run [OF assms(4) _ inv] show ?thesis
  proof (cases r)
    case None
    then show ?thesis using join_run [OF assms(4) _ inv] bound by simp
  next
    case (Some y)
    obtain pc s' where y: "y = (pc, s')" by (cases y)
    have k: "life_inv tr0 cs True (pc, s')" "m + join_work (length cs) y \<le> join_work (length cs) (Main_join 0, s)"
        "pc = Main_done \<or> (\<exists>j. pc = Main_join j)" "\<forall>k<length cs. can_return s' k = can_return s k"
      using join_run [OF assms(4) _ inv] Some y by simp_all
    from k(3) show ?thesis
    proof
      assume pc: "pc = Main_done"
      then have "\<forall>k<length cs. can_return s' k"
        using k(1) by (simp add: life_inv_def stop_unit_def can_return_def Let_def)
      then show ?thesis using Some y pc k(2,4) bound by simp
    next
      assume "\<exists>j. pc = Main_join j"
      then show ?thesis using join_progress k(1,2) bound Some y by fastforce
    qed
  qed
qed

theorem shutdown_ends_witness:
  "\<exists>m0 s m s'. life_run 1024 0 (Main_waiting (At_test, True), demo_running) m0 (Some (Main_join 0, s))
    \<and> life_run 1024 0 (Main_join 0, s) m (Some (Main_done, s')) \<and> m \<le> 4"
proof -
  let ?tr = "[Fd_close (cl_sock demo_client)]"
  have up: "g_bridge_running (dm_bridge (ru_daemon demo_running))" by (simp add: demo_running_def demo_up_def)
  obtain m0 s where s: "life_run 1024 0 (Main_waiting (At_test, True), demo_running) m0 (Some (Main_join 0, s))"
      "\<forall>k. can_return s k = can_return demo_running k"
    using reach_join [OF demo_running_ok(1) up, of 1024 0] by blast
  have "\<forall>k<length [0 :: nat]. can_return demo_running k"
    by (simp add: can_return_def demo_running_def demo_connected_def demo_world_def demo_unit_def demo_client_def)
  then have all: "\<forall>k<length [0 :: nat]. can_return s k" using s(2) by simp
  have "life_inv ?tr [0] True (Main_waiting (At_test, True), demo_running)" using demo_running_ok(1) up by (simp add: life_inv_def)
  from life_inv_run [OF s(1) this refl] have inv: "life_inv ?tr [0] True (Main_join 0, s)" .
  from join_completes [OF life_here inv all] obtain m s' where m: "life_run 1024 0 (Main_join 0, s) m (Some (Main_done, s'))" by blast
  from shutdown_ends [OF demo_running_ok(1) up s(1) m] have "m \<le> 4" by simp
  then show ?thesis using s(1) m by blast
qed

end
