(* ===== verification/Outage.thy ===== *)
theory Outage
  imports Daemon_Run Status_Flow
begin

text \<open>
  A device that stops answering: the poll thread (\<open>ups_module.c\<close>) counts the failures, disconnects and
  marks the module, and the publisher (\<open>ups_cmos_bridge.c\<close>) announces it to the other nodes.
\<close>

section \<open>The inner loop of a poll thread\<close>

text \<open>
  At most so many passes of the inner loop of \<open>ups_tcp_thread\<close> with nothing pushed meanwhile; a
  failed pass runs the error callback and leaves the loop.
\<close>

fun poll_loop :: "bytes \<Rightarrow> nat \<Rightarrow> nat \<Rightarrow> nat \<Rightarrow> ups_world \<Rightarrow> (int \<times> ups_world) run" where
  "poll_loop junk k c 0 w = Some (0, w)"
| "poll_loop junk k c (Suc n) w =
     (if \<not> u_running (ups_units w ! k) then Some (0, w)
      else do {
        (rc, w) \<leftarrow> ups_tcp_process_callback junk [] (Some c) w;
        if rc \<noteq> 0 then do {
          (e, w) \<leftarrow> ups_tcp_error_callback (Some c) CONNECTION_DISCONNECTED w;
          Some (rc, w)
        }
        else poll_loop junk k c n w
      })"

text \<open>A connected unit whose device has stopped answering.\<close>

definition silent_unit :: "ups_world \<Rightarrow> nat \<Rightarrow> nat \<Rightarrow> bool" where
  "silent_unit w k c \<longleftrightarrow> unit_wf w k c ups1_profile ups1_mapping_table \<and> u_running (ups_units w ! k)
     \<and> client_ready (u_tcp (ups_units w ! k)) \<and> queue_abs (cmd_queue (ups_units w ! k)) = []
     \<and> net_send_rc (uw_net w) = [] \<and> net_rx (uw_net w) = []"

text \<open>What the passes leave as it was.\<close>

definition same_link :: "nat \<Rightarrow> ups_world \<Rightarrow> ups_world \<Rightarrow> bool" where
  "same_link k w w' \<longleftrightarrow> uw_pool w' = uw_pool w \<and> uw_cfgs w' = uw_cfgs w \<and> uw_fds w' = uw_fds w
     \<and> cl_sock (u_tcp (ups_units w' ! k)) = cl_sock (u_tcp (ups_units w ! k))"

lemma silent_poll:
  assumes "silent_unit w k c" and "length junk = 260"
  shows "\<exists>w'. ups_tcp_process_callback junk [] (Some c) w
      = Some (if comm_fail_count (ups_units w ! k) + 1 \<ge> 5 then - 1 else 0, w')
    \<and> comm_fail_count (ups_units w' ! k) = comm_fail_count (ups_units w ! k) + 1
    \<and> silent_unit w' k c \<and> same_link k w w'"
proof -
  have u: "unit_wf w k c ups1_profile ups1_mapping_table" "client_ready (u_tcp (ups_units w ! k))"
      "queue_abs (cmd_queue (ups_units w ! k)) = []" "net_send_rc (uw_net w) = []" "net_rx (uw_net w) = []"
      "u_running (ups_units w ! k)"
    using assms(1) by (simp_all add: silent_unit_def)
  have none: "\<forall>x\<in>set (concat []). command_ok x" by simp
  from silent_device_counts [OF u(1-3) assms(2) u(4,5)] process_callback_ok [OF u(1,2) assms(2) none]
  show ?thesis using u(6) by (auto simp: silent_unit_def same_link_def)
qed

lemma silent_loop:
  assumes "silent_unit w k c" and "length junk = 260" and "comm_fail_count (ups_units w ! k) = 4 - int d" and "c < length (uw_cfgs w)"
  shows "(\<forall>m\<le>d. \<exists>w1. poll_loop junk k c m w = Some (0, w1))
    \<and> (\<exists>w'. poll_loop junk k c (Suc d) w = Some (- 1, w')
         \<and> uw_pool w' = uw_pool w \<and> connection_state (uw_cfgs w' ! c) = CONNECTION_DISCONNECTED
         \<and> length (uw_cfgs w') = length (uw_cfgs w)
         \<and> uw_fds w' = uw_fds w @ [Fd_shutdown (cl_sock (u_tcp (ups_units w ! k))), Fd_close (cl_sock (u_tcp (ups_units w ! k)))])"
  using assms(1,3,4)
proof (induction d arbitrary: w)
  case 0
  have run: "u_running (ups_units w ! k)" using 0(1) by (simp add: silent_unit_def)
  obtain w1 where 1: "ups_tcp_process_callback junk [] (Some c) w = Some (- 1, w1)" "silent_unit w1 k c" "same_link k w w1"
    using silent_poll [OF 0(1) assms(2)] 0(2) by auto
  have u: "unit_wf w1 k c ups1_profile ups1_mapping_table" "client_ready (u_tcp (ups_units w1 ! k))"
    using 1(2) by (simp_all add: silent_unit_def)
  obtain w2 where 2: "ups_tcp_error_callback (Some c) CONNECTION_DISCONNECTED w1 = Some (0, w2)"
      "connection_state (uw_cfgs w2 ! c) = CONNECTION_DISCONNECTED"
      "uw_fds w2 = uw_fds w1 @ [Fd_shutdown (cl_sock (u_tcp (ups_units w1 ! k))), Fd_close (cl_sock (u_tcp (ups_units w1 ! k)))]"
    using error_callback_ok [OF u] by blast
  have "length (uw_cfgs w2) = length (uw_cfgs w1)" using error_callback_frame [OF u(1) 2(1)] by (simp add: unit_frame_def)
  moreover have "uw_pool w2 = uw_pool w1"
    using 2(1) by (auto simp: ups_tcp_error_callback_def unit_wf_lookup [OF u(1)] Let_def split: bind_splits)
  ultimately show ?case using run 1(1,3) 2 by (auto simp: same_link_def)
next
  case (Suc d)
  have run: "u_running (ups_units w ! k)" using Suc(2) by (simp add: silent_unit_def)
  obtain w1 where 1: "ups_tcp_process_callback junk [] (Some c) w = Some (0, w1)" "silent_unit w1 k c" "same_link k w w1"
      "comm_fail_count (ups_units w1 ! k) = 4 - int d"
    using silent_poll [OF Suc(2) assms(2)] Suc(3) by auto
  have step: "poll_loop junk k c (Suc m) w = poll_loop junk k c m w1" for m using run 1(1) by simp
  have "c < length (uw_cfgs w1)" using Suc(4) 1(3) by (simp add: same_link_def)
  note ih = Suc(1) [OF 1(2,4) this]
  have "\<exists>w1. poll_loop junk k c m w = Some (0, w1)" if "m \<le> Suc d" for m
  proof (cases m)
    case (Suc m')
    then show ?thesis using ih that step by simp
  qed simp
  then show ?case using ih 1(3) unfolding step by (simp add: same_link_def)
qed

text \<open>
  C6: an outage reaches a subscriber. If the device of a connected unit 1 stops answering, the poll
  thread goes on for exactly as many passes as are left to five failures in a row; then it closes its
  socket, marks the module disconnected and leaves the loop, with the pool as it was. The next pass
  of the publisher thread then makes every subscription to a status key of disconnected
  modules, receiving the stream in any chunks, call back once per disconnected module, at least
  for this one, and with the last value the pool holds for the key.
\<close>

theorem outage_reaches_subscriber:
  assumes "silent_unit w k c" and "length junk = 260" and "comm_fail_count (ups_units w ! k) = 4 - int d"
    and "pub_inv p" and "balanced (p, io)" and "length msg_junk = 896" and "n_ups \<le> length (uw_cfgs w)" and "c < n_ups"
    and "cmos_pub_poll ready a (p, io) = Some (p0, io0)" and "io_send_rc io0 = []"
    and "fd \<in> set (subs p0)" and "distinct (subs p0)" and "plain (cstr (pub_topic p))"
    and "sub_good (ctx, sub_io)" and "i < 512" and "pc_active (pub_conns ctx ! i)" and "pc_rx (pub_conns ctx ! i) = []"
    and "pc_sub_slot (pub_conns ctx ! i) = int j" and "j < sub_slot_count ctx" and "r < 6"
    and "status_slot (cstr (pub_topic p)) ''Disconnect'' (status_key r) cb (sub_slots ctx ! j)"
  shows "(\<forall>m\<le>d. \<exists>w1. poll_loop junk k c m w = Some (0, w1))
    \<and> (\<exists>w' s' wire arg. poll_loop junk k c (Suc d) w = Some (- 1, w')
      \<and> uw_fds w' = uw_fds w @ [Fd_shutdown (cl_sock (u_tcp (ups_units w ! k))), Fd_close (cl_sock (u_tcp (ups_units w ! k)))]
      \<and> pub_poll_iter msg_junk ready a (uw_cfgs w') n_ups (uw_pool w') (p, io) = Some s'
      \<and> io_wire (snd s') = io_wire io0 @ wire
      \<and> 0 < in_state ''Disconnect'' (uw_cfgs w') n_ups \<and> strtoul0 arg = unat (uw_pool w (0xBB00 + r))
      \<and> (\<forall>pieces. concat pieces = sent_to fd wire \<and> chunks_fit [] pieces \<longrightarrow>
          foldM handle_event (map (\<lambda>x. (i, Some x)) pieces) (ctx, sub_io)
            = Some (ctx, sub_io\<lparr>io_calls := io_calls sub_io
                @ replicate (in_state ''Disconnect'' (uw_cfgs w') n_ups) (cb, cstr (pub_topic p), arg)\<rparr>)))"
proof -
  let ?t = "cstr (pub_topic p)"
  have c: "c < length (uw_cfgs w)" using assms(7,8) by simp
  from silent_loop [OF assms(1-3) c] obtain w' where
    loop: "\<forall>m\<le>d. \<exists>w1. poll_loop junk k c m w = Some (0, w1)" "poll_loop junk k c (Suc d) w = Some (- 1, w')"
      "uw_pool w' = uw_pool w" "connection_state (uw_cfgs w' ! c) = CONNECTION_DISCONNECTED" "length (uw_cfgs w') = length (uw_cfgs w)"
      "uw_fds w' = uw_fds w @ [Fd_shutdown (cl_sock (u_tcp (ups_units w ! k))), Fd_close (cl_sock (u_tcp (ups_units w ! k)))]"
    by blast
  have n: "n_ups \<le> length (uw_cfgs w')" using assms(7) loop(5) by simp
  have len: "length ?t \<le> 63" by (rule topic_string(2) [OF assms(4)])
  from status_pass_received [OF assms(4-6) n assms(9-20) assms(21), of "uw_pool w'"] obtain s' wire arg where
    s': "pub_poll_iter msg_junk ready a (uw_cfgs w') n_ups (uw_pool w') (p, io) = Some s'" "io_wire (snd s') = io_wire io0 @ wire"
      "\<forall>pieces. concat pieces = sent_to fd wire \<and> chunks_fit [] pieces \<longrightarrow>
        foldM handle_event (map (\<lambda>x. (i, Some x)) pieces) (ctx, sub_io)
          = Some (ctx, sub_io\<lparr>io_calls := io_calls sub_io @ replicate (in_state ''Disconnect'' (uw_cfgs w') n_ups) (cb, ?t, arg)\<rparr>)"
      "strtoul0 arg = unat (uw_pool w' (0xBB00 + r))"
    by blast
  have "0 < in_state ''Disconnect'' (uw_cfgs w') n_ups"
    using loop(4) by (intro in_state_pos [OF assms(8)]) (simp add: state_word_def matches_def)
  then show ?thesis
    using loop s' by (intro conjI exI [of _ w'] exI [of _ s'] exI [of _ wire] exI [of _ arg]) simp_all
qed

theorem outage_reaches_subscriber_witness:
  "\<exists>w' s' wire arg. poll_loop (replicate 260 0) 0 0 5 (demo_connected (demo_net [])) = Some (- 1, w')
    \<and> pub_poll_iter (replicate 896 (CHR 0x00)) 0 0 (uw_cfgs w') 1 (uw_pool w')
        (demo_pub, (demo_io [])\<lparr>io_fds := map Fd_open [4, 5, 6, 7, 8, 9]\<rparr>) = Some s'
    \<and> io_wire (snd s') = wire \<and> 0 < in_state ''Disconnect'' (uw_cfgs w') 1
    \<and> (\<forall>pieces. concat pieces = sent_to 8 wire \<and> chunks_fit [] pieces \<longrightarrow>
        foldM handle_event (map (\<lambda>x. (0, Some x)) pieces) (demo_status_sub ''Disconnect'', demo_sub_fds)
          = Some (demo_status_sub ''Disconnect'', demo_sub_fds\<lparr>io_calls :=
              replicate (in_state ''Disconnect'' (uw_cfgs w') 1) (9, ''ups'', arg)\<rparr>))"
proof -
  let ?w = "demo_connected (demo_net [])" and ?io = "(demo_io [])\<lparr>io_fds := map Fd_open [4, 5, 6, 7, 8, 9]\<rparr>"
  have s: "silent_unit ?w 0 0"
    using demo_connected_wf queue_init_ok(2)
    by (simp add: silent_unit_def demo_net_def demo_client_def client_ready_def)
      (simp add: demo_connected_def demo_world_def demo_unit_def)
  have f: "comm_fail_count (ups_units ?w ! 0) = 4 - int 4" "1 \<le> length (uw_cfgs ?w)"
    by (simp_all add: demo_connected_def demo_world_def demo_unit_def)
  have b: "balanced (demo_pub, ?io)"
    using demo_pub_ok(2) by (simp add: balanced_def pub_fds_def) (simp add: demo_pub_def)
  have poll: "cmos_pub_poll 0 0 (demo_pub, ?io) = Some (demo_pub, ?io)" by (simp add: cmos_pub_poll_def)
  have st: "length ''Disconnect'' < (32 :: nat)" "CHR 0x00 \<notin> set ''Disconnect''" by simp_all
  have topic: "plain (cstr (pub_topic demo_pub))"
      "status_slot (cstr (pub_topic demo_pub)) ''Disconnect'' (status_key 4) 9 (sub_slots (demo_status_sub ''Disconnect'') ! 0)"
    using demo_status_slot_ok [OF st] unfolding demo_pub_ok(3) by (simp_all add: plain_def)
  have five: "Suc 4 = 5" by simp
  from outage_reaches_subscriber [OF s _ f(1) demo_pub_ok(1) b _ f(2) _ poll _ _ _ topic(1) demo_status_good [OF st]
      _ _ _ _ _ _ topic(2), of "replicate 260 0" "replicate 896 (CHR 0x00)" 8 0, unfolded five]
    demo_status_conn [of "''Disconnect''"] demo_pub_ok
  show ?thesis by (fastforce simp: demo_conn_def demo_io_def demo_sub_fds_def simp del: poll_loop.simps)
qed

end
