(* ===== verification/Spec2Isabelle.thy ===== *)
theory Spec2Isabelle
  imports Prelude Modbus_Frame Modbus_Socket Modbus_Client Modbus_Server Register_Map Ups_Map Alarm_Engine
    Alarm_Bridge Config_Loader Ups_Alarm Ups_Queue Ups_Module Cmos_Text Cmos_Pub Cmos_Sub Cmos_Util Ups_Cmos_Bridge
    Log Daemon Cmos_Calls Status_Flow Daemon_Run Daemon_Stop Outage
begin

text \<open>
  Verification of the UPS monitoring daemon \<open>loop_charger\<close>.

  \<^bold>\<open>The program.\<close> A C daemon polls UPS units over Modbus TCP, keeps their registers in a pool,
  watches the pool for alarms, which it logs in an SQLite table, and is connected to the rest of the plant by
  a line protocol over TCP (CMOS): status messages go out, commands of the HMI come in and are queued as
  register writes. One thread polls each unit, one evaluates alarms, one publishes, one subscribes.

  \<^bold>\<open>Conventions.\<close> \<open>'a run\<close> (theory Prelude) is an option: \<open>None\<close> is C's undefined behaviour (an array
  left, a NULL dereference, a mutex that is not initialised, an unset thread joined), so an equation with
  \<open>Some\<close> says that the code is safe. Buffers are lists accessed by \<open>buf_load\<close>, \<open>buf_store\<close> and \<open>buf_blit\<close>,
  strings are lists of characters ended by NUL (\<open>cstr\<close>), fixed-width integers are words. What the operating
  system, the JSON library and SQLite answer are inputs; what the code sends, opens and closes is recorded. Of a Modbus
  connection \<open>net_tx\<close> records the calls of \<open>send\<close> with their buffers, \<open>net_wire\<close> the bytes those calls report as
  accepted (all of them where the list \<open>net_send_rc\<close> of short or failed calls is empty). A critical section is one step. Sleeps and console messages have no effect on the state.

  \<^bold>\<open>Theories and code.\<close>
  \<^item> Prelude: the \<open>run\<close> monad, buffers, \<open>strncpy\<close>, loops \<open>foldM\<close> with an invariant rule.
  \<^item> Modbus_Frame (\<open>lib/modbus/modbus_tcp.c\<close>, \<open>modbus_defines.h\<close>): context types, request builders,
    request parser, response builder.
  \<^item> Modbus_Socket (\<open>modbus_tcp.c\<close>, \<open>modbus_tcp_client.c\<close>): connecting, closing, receiving a frame.
  \<^item> Modbus_Client (\<open>modbus_tcp_client.c\<close>): connect, disconnect, FC03, FC06 and FC16 exchanges.
  \<^item> Modbus_Server (\<open>modbus_tcp.c\<close>): start, stop, the \<open>select\<close> server and the reconnecting client thread.
  \<^item> Register_Map (\<open>lib/device_map\<close>), Ups_Map (\<open>devices/ups\<close>): the pool, lookup by device address, ingest,
    the table of unit 1.
  \<^item> Alarm_Engine, Alarm_Bridge (\<open>lib/alarm\<close>): conditions, sticky state, registration, the monitor thread.
  \<^item> Ups_Alarm (\<open>ups_alarm.c\<close>, \<open>ups_alarm_manager.c\<close>): the alarm table, its callbacks, the event log.
  \<^item> Config_Loader (\<open>config_loader.c\<close>): the configuration file.
  \<^item> Ups_Queue, Ups_Module (\<open>ups_module.c\<close>): the command ring; poll thread, scan segments, start and stop.
  \<^item> Cmos_Text, Cmos_Pub, Cmos_Sub, Cmos_Util (\<open>lib/cmos\<close>): tokens and sockets, the publisher, the subscriber, reading
    the fields of a message (the program's own handlers do not use these helpers).
  \<^item> Ups_Cmos_Bridge (\<open>ups_cmos_bridge.c\<close>): HMI handlers, subscriptions, status messages, life cycle.
  \<^item> Log (\<open>lib/log\<close>), Daemon (\<open>main.c\<close>): the log filter; arguments, order of start-up and shutdown, the wait.
  \<^item> Cmos_Calls, Status_Flow: which callbacks the subscriber can make; the publisher's status lines as another node
    receives them.
  \<^item> Outage (\<open>ups_module.c\<close>): the inner loop of a poll thread when its device falls silent.
  \<^item> Daemon_Run: the threads \<open>main\<close> starts, interleaved as one step relation \<open>system_step\<close> on the daemon's whole
    state; a step is one pass of one thread.
  \<^item> Daemon_Stop (\<open>main.c\<close>, \<open>stop_ups_modules\<close>): the life of the daemon as one step relation \<open>life_step\<close>: the passes of
    the threads, the waiting loop and the signal, and the steps of the shutdown between the passes, with the joins as waits.
  \<^item> this theory: properties that span components.

  A record has the name of the C struct and its fields; a definition has the name of the C function; a loop body
  or loop of a long function is a definition of its own. Static variables of a file are a record
  (\<open>cmos_pub\<close>, \<open>alarm_bridge\<close>, \<open>ups_world\<close>, \<open>bridge\<close>), the whole program is the record \<open>daemon\<close>.

  \<^bold>\<open>Interfaces.\<close> The locales \<open>fifo\<close> (a bounded queue; interpreted on the command ring), \<open>reg_store\<close> (a register
  store; on the pool behind a well-formed profile and on unit 1), \<open>alarm_host\<close> (the callbacks of the engine; on the UPS
  callbacks) and \<open>descriptor_owner\<close> (a component that opens and closes descriptors; on the publisher,
  the subscriber, the Modbus server and the Modbus client thread) state what one component relies on of another.

  \<^bold>\<open>What the lemmas show.\<close>
  \<^item> Modbus: frames have the specified layout, parsing inverts building, no byte outside a buffer is read whatever
    the peer sends, an exchange returns the device's registers under any chunking of the stream; the server and
    client threads leak no descriptor, serve at most the configured number of clients and report links truthfully.
  \<^item> Registers: binary search equals linear search, ingest then read gives the device's values, the access
    check is the first failing address.
  \<^item> Alarms: one event per edge or change over any history, nothing before the start-up delay, the log is bounded.
  \<^item> Units: the queue is a FIFO under any interleaving; a poll sends all commands and then the read requests of a
    partition of the table; the poll thread, as a step relation, is safe until it is stopped while disconnected.
  \<^item> CMOS: a message reaches every subscriber as one line; lines are reassembled from any chunks, filtered by
    topic, type, key and state, and handled in order; parsing a message inverts publishing it; no array is left and no descriptor leaked.
  \<^item> Daemon: start-up order and results, clean shutdown, and what breaks it.
  \<^item> Running daemon: the invariants of all components hold together under any interleaving of the passes of the poll,
    monitor, publisher and subscriber threads, so none is undefined behaviour and \<open>main\<close>'s own calls of the shutdown are defined after any of them.
  \<^item> Shutdown: with the threads still running between its steps, it goes wrong exactly if the bridge never started or a
    unit has no connection when its thread leaves its loops; otherwise the joins end and everything is closed and destroyed.
    \<open>main_shutdown\<close> is what the steps of \<open>main\<close> compute once the poll threads have returned (\<open>main_shutdown_steps\<close>).
  \<^item> Here: HMI commands travel from the publisher through the bridge and the queue to the Modbus wire, also from any state
    the running daemon reaches, by passes of its threads; device readings
    travel from the wire through the pool to the alarm log and to the callbacks of another node's subscriber; an
    outage (Outage) is noticed after five failures in a row and reaches the subscribers of disconnected modules.

  \<^bold>\<open>Bounds and fuel.\<close> No definition uses fuel. Loops that are not structural have measures (bytes
  left of a stream, subscribers left, commands waiting, answers the master still sends); endless threads are step relations or
  lists of rounds, one per pass. Capacities are the code's: pool 65535, queue 16, alarm contexts 16, log 10000 rows, 10 modules,
  10 Modbus clients, 512 subscribers, slots and connections, receive buffers of 2048 bytes.

  \<^bold>\<open>Not modelled.\<close> SQLite and json-c are parameters; \<open>getopt\<close>, \<open>epoll\<close> and \<open>select\<close> are inputs.
  Cancelling the subscriber takes effect between its passes (\<open>epoll_wait\<close>); the other cancellation points, among them those
  of \<open>cmos_sub_create\<close> before the clean-up handler is installed, are not modelled.
  An \<open>fd_set\<close> holds the descriptors below \<open>FD_SETSIZE = 1024\<close>: \<open>FD_SET\<close> of another is undefined behaviour
  (\<open>fd_add\<close>), in the server and in the connect of the clients. The poll threads are modelled under a limit \<open>nofile\<close> of the
  process on its descriptors; that it is at most 1024 is a hypothesis of the properties that need it. \<open>atoi\<close> and \<open>strtoul\<close>
  are those of glibc on a 64-bit platform. In the waiting loop \<open>pause\<close> may return at any time and the handler run at any point.
  Data races between threads that share unguarded words are not: each handler, round or pass is one step. The client list of
  the Modbus server is an array of descriptors, FD 0 counting as a free slot, as in the code. Descriptor numbers are those
  the system returns; that it never hands out one in use is a hypothesis where it matters (\<open>server_link_view\<close>).
\<close>

section \<open>From the HMI to the device\<close>

text \<open>The lines an HMI publishes for a list of commands (number, value).\<close>

definition published_commands :: "string \<Rightarrow> cmos_pub \<Rightarrow> (nat \<times> nat) list \<Rightarrow> string list run" where
  "published_commands junk p ms = those (map (\<lambda>(j, n).
     publish_line junk p None (Some ''command'') (Some (fst (hmi_commands ! j))) (Some (show_nat n))) ms)"

lemma published_commands_ok:
  assumes "pub_inv p" and "cstr (pub_topic p) = BRIDGE_SUB_HMI_TOPIC" and "length junk = 896"
    and "\<forall>(j, n)\<in>set ms. j < 5 \<and> n < ULONG_LIMIT"
  shows "published_commands junk p ms = Some (map hmi_line ms)"
  using assms(4)
proof (induction ms)
  case (Cons m ms)
  then show ?case
    using hmi_published [OF assms(1-3)] by (cases m) (simp add: published_commands_def)
qed (simp add: published_commands_def)

lemma commands_reach_device:
  assumes "pub_inv p" and "cstr (pub_topic p) = BRIDGE_SUB_HMI_TOPIC" and "length junk = 896"
    and "\<forall>(i, n)\<in>set ms. i < 5 \<and> n < ULONG_LIMIT"
    and "published_commands junk p ms = Some sent" and "concat chunks = concat sent"
    and "\<forall>c\<in>set chunks. c \<noteq> []" and "length (concat sent) \<le> 2047"
    and "sub_good (ctx, io)" and "hmi_subscribed ctx" and "i < 512" and "pc_active (pub_conns ctx ! i)"
    and "pc_sub_slot (pub_conns ctx ! i) = int j" and "j < 5" and "pc_rx (pub_conns ctx ! i) = []" and "now - prev < 2"
    and "unit_of_uid w 1 k c" and "client_ready (u_tcp (ups_units w ! k))" and "length buf = 260"
    and "net_send_rc (uw_net w) = []"
  shows "\<exists>io' w1 rc w2 reads.
      bridge_round now (map (\<lambda>c. (i, Some c)) chunks) ((prev, ctx, io), w) = Some ((prev, ctx, io'), w1)
    \<and> ups_tcp_process_callback buf [] (Some c) w1 = Some (rc, w2)
    \<and> net_wire (uw_net w2) = net_wire (uw_net w)
        @ concat (cmd_frames (cl_tid (u_tcp (ups_units w ! k))) (cc_unit_id (cl_cfg (u_tcp (ups_units w ! k))))
            (fold (\<lambda>(j, n). accept_cmd (hmi_cmd j n)) (filter (\<lambda>m. fst m = j) ms) (waiting w k)) @ reads)"
proof -
  have sent: "sent = map hmi_line ms" using published_commands_ok [OF assms(1-4)] assms(5) by simp
  have fit: "chunks_fit [] chunks" using assms(6-8) by (intro chunks_fit_short) simp_all
  have cc: "concat chunks = concat (map hmi_line ms)" using sent assms(6) by simp
  from bridge_round_ok [OF assms(9-15,4) cc fit assms(16,17)] obtain io' w1 where
    b: "bridge_round now (map (\<lambda>c. (i, Some c)) chunks) ((prev, ctx, io), w) = Some ((prev, ctx, io'), w1)"
      "unit_of_uid w1 1 k c"
      "queued_in k (fold (\<lambda>(j, n). accept_cmd (hmi_cmd j n)) (filter (\<lambda>m. fst m = j) ms) (waiting w k)) w w1"
    by blast
  have k: "k < length (ups_units w)" using assms(17) by (simp add: unit_of_uid_def unit_wf_def)
  have same: "u_tcp (ups_units w1 ! k) = u_tcp (ups_units w ! k)" "uw_net w1 = uw_net w"
    using b(3) k by (auto simp: queued_in_def)
  have "unit_wf w1 k c ups1_profile ups1_mapping_table" "client_ready (u_tcp (ups_units w1 ! k))"
    using b(2) same(1) assms(18) by (simp_all add: unit_of_uid_def)
  moreover have "net_send_rc (uw_net w1) = []" using same(2) assms(20) by simp
  ultimately show ?thesis
    using poll_wires_queue [of w1 k c ups1_profile ups1_mapping_table buf] assms(19) b(1,3) same
    by (auto simp: Let_def queued_in_def waiting_def)
qed

text \<open>
  C1: HMI commands reach the device. Take any list of commands an HMI publishes with decimal values,
  and let the lines arrive on the bridge's connection for subscription \<open>j\<close>, cut into any chunks. One
  round of the bridge then queues exactly the commands of number \<open>j\<close>, in order, as single-register
  writes of the 16-bit value to the command's register, dropping those that find sixteen waiting, and the next
  poll of the connected unit, its sends completing, puts the Modbus frames of all waiting commands on the wire,
  in order, before any read request: these are the bytes the socket has accepted.
\<close>

theorem hmi_commands_reach_device:
  assumes "pub_inv p" and "cstr (pub_topic p) = BRIDGE_SUB_HMI_TOPIC" and "length junk = 896"
    and "\<forall>(i, n)\<in>set ms. i < 5 \<and> n < ULONG_LIMIT"
    and "published_commands junk p ms = Some sent" and "concat chunks = concat sent"
    and "\<forall>c\<in>set chunks. c \<noteq> []" and "length (concat sent) \<le> 2047"
    and "sub_good (ctx, io)" and "hmi_subscribed ctx" and "i < 512" and "pc_active (pub_conns ctx ! i)"
    and "pc_sub_slot (pub_conns ctx ! i) = int j" and "j < 5" and "pc_rx (pub_conns ctx ! i) = []" and "now - prev < 2"
    and "unit_of_uid w 1 k c" and "client_ready (u_tcp (ups_units w ! k))" and "length buf = 260"
    and "net_send_rc (uw_net w) = []"
  shows "\<exists>io' w1 rc w2 reads.
      bridge_round now (map (\<lambda>c. (i, Some c)) chunks) ((prev, ctx, io), w) = Some ((prev, ctx, io'), w1)
    \<and> ups_tcp_process_callback buf [] (Some c) w1 = Some (rc, w2)
    \<and> net_wire (uw_net w2) = net_wire (uw_net w)
        @ concat (cmd_frames (cl_tid (u_tcp (ups_units w ! k))) (cc_unit_id (cl_cfg (u_tcp (ups_units w ! k))))
            (fold (\<lambda>(j, n). accept_cmd (hmi_cmd j n)) (filter (\<lambda>m. fst m = j) ms) (waiting w k)) @ reads)"
  using assms by (rule commands_reach_device)

theorem hmi_commands_reach_device_witness:
  "\<exists>sent chunks io' w1 rc w2 reads. published_commands (replicate 896 (CHR 0x00)) demo_hmi_pub [(3, 70), (1, 5), (3, 65537)] = Some sent
    \<and> chunks = [take 7 (concat sent), drop 7 (concat sent)]
    \<and> bridge_round 1 (map (\<lambda>c. (0, Some c)) chunks) ((0, demo_hmi_sub, demo_sub_fds), demo_connected (demo_net []))
        = Some ((0, demo_hmi_sub, io'), w1)
    \<and> ups_tcp_process_callback (replicate 260 0) [] (Some 0) w1 = Some (rc, w2)
    \<and> net_wire (uw_net w2) = concat (cmd_frames 6 1 [(0x15, [70], UPS_WRITE_MODE_AUTO), (0x15, [1], UPS_WRITE_MODE_AUTO)] @ reads)"
proof -
  let ?w = "demo_connected (demo_net [])" and ?ms = "[(3, 70), (1, 5), (3, 65537)] :: (nat \<times> nat) list"
  have ms: "\<forall>(i, n)\<in>set ?ms. i < 5 \<and> n < ULONG_LIMIT" by (simp add: ULONG_LIMIT_def)
  obtain sent where s: "published_commands (replicate 896 (CHR 0x00)) demo_hmi_pub ?ms = Some sent" "sent = map hmi_line ?ms"
    using published_commands_ok [OF demo_hmi_pub_ok _ ms] by simp
  have len: "length (hmi_line (3, 70)) \<le> 90" "length (hmi_line (1, 5)) \<le> 90" "length (hmi_line (3, 65537)) \<le> 90"
    using hmi_line_facts(1) by (simp_all add: ULONG_LIMIT_def)
  have "7 < length (hmi_line (3, 70))" using hmi_topic(2) by (simp add: hmi_line_def wire_line_def)
  then have c: "\<forall>c\<in>set [take 7 (concat sent), drop 7 (concat sent)]. c \<noteq> []" "length (concat sent) \<le> 2047"
    using len s(2) by (auto simp del: append_eq_append_conv)
  have u: "unit_of_uid ?w 1 0 0"
    using demo_connected_wf by (simp add: unit_of_uid_def demo_connected_def demo_world_def demo_unit_def)
  have cr: "client_ready (u_tcp (ups_units ?w ! 0))"
    by (simp add: demo_client_def client_ready_def demo_connected_def demo_world_def)
  have facts: "cl_tid demo_client = 6" "cc_unit_id (cl_cfg demo_client) = 1" "net_wire (demo_net []) = []" "waiting ?w 0 = []"
    using queue_init_ok(2) by (simp_all add: demo_client_def demo_net_def waiting_def)
  have q: "fold (\<lambda>(j, n). accept_cmd (hmi_cmd j n)) (filter (\<lambda>m. fst m = 3) ?ms) [] =
      [(0x15, [70], UPS_WRITE_MODE_AUTO), (0x15, [1], UPS_WRITE_MODE_AUTO)]"
    by (simp add: accept_cmd_def hmi_cmd_def hmi_address_def)
  have "\<exists>io' w1 rc w2 reads.
      bridge_round 1 (map (\<lambda>c. (0, Some c)) [take 7 (concat sent), drop 7 (concat sent)]) ((0, demo_hmi_sub, demo_sub_fds), ?w)
        = Some ((0, demo_hmi_sub, io'), w1)
    \<and> ups_tcp_process_callback (replicate 260 0) [] (Some 0) w1 = Some (rc, w2)
    \<and> net_wire (uw_net w2) = net_wire (uw_net ?w)
        @ concat (cmd_frames (cl_tid (u_tcp (ups_units ?w ! 0))) (cc_unit_id (cl_cfg (u_tcp (ups_units ?w ! 0))))
            (fold (\<lambda>(j, n). accept_cmd (hmi_cmd j n)) (filter (\<lambda>m. fst m = 3) ?ms) (waiting ?w 0)) @ reads)"
    by (rule hmi_commands_reach_device [OF demo_hmi_pub_ok _ ms s(1) _ c demo_hmi_ok _ _ _ _ _ _ u cr])
      (simp_all add: demo_hmi_conn_facts)
  then show ?thesis
    using s(1) unfolding demo_connected_simps facts q by (simp del: cmd_frames.simps concat_append)
qed

section \<open>Commands in the running daemon\<close>

text \<open>
  C2: the running daemon forwards commands. Take any state that the passes of the daemon's threads lead to from one that
  satisfies their invariant, as the state after start-up does (\<open>daemon_run_boot\<close>). If the lines of commands an HMI published arrive,
  in any chunks, at the connection the subscriber thread holds for subscription \<open>j\<close>, then its next pass and the
  next pass of the poll thread of the connected unit with identifier 1 are passes of the daemon, after which the unit's
  connection, its sends completing, has accepted the bytes of the frames of the commands that were waiting and of the commands of number \<open>j\<close>, in order,
  each with its 16-bit value to its register, before any read request; only commands that find sixteen waiting are dropped.
\<close>

theorem running_daemon_forwards_commands:
  assumes "daemon_run tr0 cs s0" and "system_reach nofile start s0 s"
    and "ru_sub s = Sub_spinning (prev, ctx, sub_io)" and "i < 512" and "pc_active (pub_conns ctx ! i)"
    and "pc_sub_slot (pub_conns ctx ! i) = int j" and "j < 5" and "pc_rx (pub_conns ctx ! i) = []" and "now - prev < 2"
    and "pub_inv p" and "cstr (pub_topic p) = BRIDGE_SUB_HMI_TOPIC" and "length msg_junk = 896"
    and "\<forall>(i, n)\<in>set ms. i < 5 \<and> n < ULONG_LIMIT"
    and "published_commands msg_junk p ms = Some sent" and "concat chunks = concat sent"
    and "\<forall>c\<in>set chunks. c \<noteq> []" and "length (concat sent) \<le> 2047"
    and "command_unit (ru_world s) k" and "ru_phase s k = At_inner" and "length junk = 260"
    and "net_send_rc (ru_net s k) = []"
  shows "\<exists>st w1 s1 rc w2 s2 reads.
      bridge_round now (map (\<lambda>c. (i, Some c)) chunks) ((prev, ctx, sub_io), ru_world s) = Some (st, w1)
    \<and> s1 = s\<lparr>ru_sub := Sub_spinning st, ru_daemon := (ru_daemon s)\<lparr>dm_world := w1\<rparr>\<rparr> \<and> system_step nofile start s (Some s1)
    \<and> ups_tcp_process_callback junk [] (u_cfg (ups_units w1 ! k)) (w1\<lparr>uw_net := ru_net s k\<rparr>) = Some (rc, w2)
    \<and> ru_net s2 k = uw_net w2 \<and> system_step nofile start s1 (Some s2)
    \<and> net_wire (ru_net s2 k) = net_wire (ru_net s k)
        @ concat ((let t = u_tcp (ups_units (ru_world s) ! k) in cmd_frames (cl_tid t) (cc_unit_id (cl_cfg t))
            (fold (\<lambda>(j, n). accept_cmd (hmi_cmd j n)) (filter (\<lambda>m. fst m = j) ms) (waiting (ru_world s) k))) @ reads)"
proof -
  let ?w = "ru_world s"
  have run: "daemon_run tr0 cs s" using daemon_run_reach [OF assms(2,1)] by simp
  then have units: "units_run tr0 cs (ru_phase s) ?w" and sub: "sub_good (ctx, sub_io)" "hmi_subscribed ctx"
    using assms(3) by (simp_all add: daemon_run_def sub_run_def)
  have k: "k < length cs" using assms(18) units by (simp add: command_unit_def units_run_def)
  have u: "unit_of_uid ?w 1 k (cs ! k)" using command_unit_uid(1) [OF units assms(18), of "uw_net ?w"] by simp
  have sent: "concat chunks = concat (map hmi_line ms)"
    using published_commands_ok [OF assms(10-13)] assms(14,15) by simp
  have fit: "chunks_fit [] chunks" using assms(15-17) by (intro chunks_fit_short) simp_all
  from bridge_round_ok [OF sub assms(4-8,13) sent fit assms(9) u] obtain io' w1 where
    b: "bridge_round now (map (\<lambda>c. (i, Some c)) chunks) ((prev, ctx, sub_io), ?w) = Some ((prev, ctx, io'), w1)"
      "unit_of_uid w1 1 k (cs ! k)"
      "queued_in k (fold (\<lambda>(j, n). accept_cmd (hmi_cmd j n)) (filter (\<lambda>m. fst m = j) ms) (waiting ?w k)) ?w w1"
    by blast
  let ?s1 = "s\<lparr>ru_sub := Sub_spinning (prev, ctx, io'), ru_daemon := (ru_daemon s)\<lparr>dm_world := w1\<rparr>\<rparr>"
  have st1: "system_step nofile start s (Some ?s1)"
    using subscriber_pass [OF assms(3), of _ start now "map (\<lambda>c. (i, Some c)) chunks"] b(1) by simp
  from daemon_run_step [OF run st1] have units1: "units_run tr0 cs (ru_phase ?s1) (ru_world ?s1)"
    by (simp add: daemon_run_def)
  have kl: "k < length (ups_units ?w)" using u by (simp add: unit_of_uid_def unit_wf_def)
  have same: "u_tcp (ups_units w1 ! k) = u_tcp (ups_units ?w ! k)" "waiting w1 k
      = fold (\<lambda>(j, n). accept_cmd (hmi_cmd j n)) (filter (\<lambda>m. fst m = j) ms) (waiting ?w k)"
    using b(3) kl by (auto simp: queued_in_def)
  let ?w1 = "w1\<lparr>uw_net := ru_net s k\<rparr>"
  have wf: "unit_wf ?w1 k (cs ! k) ups1_profile ups1_mapping_table" "client_ready (u_tcp (ups_units ?w1 ! k))"
    using running_unit [OF units1 k] assms(19) by (simp_all add: unit_wf_def)
  have cfg: "u_cfg (ups_units w1 ! k) = Some (cs ! k)" using wf(1) by (simp add: unit_wf_def)
  have "net_send_rc (uw_net ?w1) = []" using assms(21) by simp
  from poll_wires_queue [OF wf assms(20) this] obtain rc w2 reads where
    p: "ups_tcp_process_callback junk [] (Some (cs ! k)) ?w1 = Some (rc, w2)"
      "net_wire (uw_net w2) = net_wire (ru_net s k) @ concat ((let t = u_tcp (ups_units ?w ! k) in
          cmd_frames (cl_tid t) (cc_unit_id (cl_cfg t)) (waiting w1 k)) @ reads)"
    using same(1) by (auto simp: Let_def waiting_def)
  from process_pass [OF units1 k, of junk rc w2 nofile start] p(1) assms(19,20) cfg obtain s2 where
    s2: "system_step nofile start ?s1 (Some s2)" "ru_net s2 k = uw_net w2"
    by auto
  show ?thesis
    using b(1) st1 p s2 cfg unfolding same(2)
    by (intro exI [of _ "(prev, ctx, io')"] exI [of _ w1] exI [of _ ?s1] exI [of _ rc] exI [of _ w2] exI [of _ s2]
        exI [of _ reads]) simp
qed

theorem running_daemon_forwards_commands_witness:
  "\<exists>sent s1 s2 reads. published_commands (replicate 896 (CHR 0x00)) demo_hmi_pub [(3, 70)] = Some sent
    \<and> system_step 1024 0 demo_running (Some s1) \<and> system_step 1024 0 s1 (Some s2)
    \<and> net_wire (ru_net s2 0) = concat (cmd_frames 6 1 [(0x15, [70], UPS_WRITE_MODE_AUTO)] @ reads)"
proof -
  let ?ms = "[(3, 70)] :: (nat \<times> nat) list"
  have ms: "\<forall>(i, n)\<in>set ?ms. i < 5 \<and> n < ULONG_LIMIT" by (simp add: ULONG_LIMIT_def)
  obtain sent where s: "published_commands (replicate 896 (CHR 0x00)) demo_hmi_pub ?ms = Some sent" "sent = map hmi_line ?ms"
    using published_commands_ok [OF demo_hmi_pub_ok _ ms] by simp
  have len: "length (hmi_line (3, 70)) \<le> 90" using hmi_line_facts(1) by (simp add: ULONG_LIMIT_def)
  have ne: "concat sent \<noteq> []" using s(2) hmi_topic(2) by (auto simp: hmi_line_def wire_line_def)
  have c: "\<forall>c\<in>set [concat sent]. c \<noteq> []" "length (concat sent) \<le> 2047" "concat [concat sent] = concat sent"
    using len ne s(2) by simp_all
  have st: "ru_sub demo_running = Sub_spinning (0, demo_hmi_sub, demo_sub_fds)" "ru_phase demo_running 0 = At_inner"
      "ru_net demo_running 0 = demo_net []" "ru_world demo_running = demo_connected (demo_net [])"
    by (simp_all add: demo_running_def)
  have facts: "cl_tid demo_client = 6" "cc_unit_id (cl_cfg demo_client) = 1" "net_wire (demo_net []) = []"
      "waiting (demo_connected (demo_net [])) 0 = []"
    using queue_init_ok(2) by (simp_all add: demo_client_def demo_net_def waiting_def)
  have q: "fold (\<lambda>(j, n). accept_cmd (hmi_cmd j n)) (filter (\<lambda>m. fst m = 3) ?ms) [] = [(0x15, [70], UPS_WRITE_MODE_AUTO)]"
    by (simp add: accept_cmd_def hmi_cmd_def hmi_address_def)
  from running_daemon_forwards_commands [OF demo_running_ok(1) system_here st(1) _ _ _ _ _ _ demo_hmi_pub_ok _ ms s(1) c(3,1,2)
      demo_running_ok(2) st(2), of 0 3 1 "replicate 260 0" 1024 0] demo_hmi_conn_facts s(1)
  show ?thesis unfolding st(3,4) demo_connected_simps facts q Let_def
    by (simp del: cmd_frames.simps) blast
qed

section \<open>From the device to the alarm log\<close>

text \<open>
  C7: device readings reach the alarm log. If unit 1 is connected with nothing queued and the device
  answers the scan with 22 register values, in any chunking of the stream, then the next pass of the alarm
  engine over the pool this poll leaves judges every row of the alarm table by the value the device
  sent for the row's address, and hands exactly the resulting events, in table order, to the manager.
\<close>

theorem device_readings_reach_log:
  assumes "unit_wf w k c ups1_profile ups1_mapping_table" and "client_ready (u_tcp (ups_units w ! k))"
    and "queue_abs (cmd_queue (ups_units w ! k)) = []" and "length junk = 260"
    and "net_send_rc (uw_net w) = []" and "length vs = 22"
    and "net_rx (uw_net w) = map Data chunks @ tail_rx" and "[] \<notin> set chunks"
    and "concat chunks = adu (bump_tid (cl_tid (u_tcp (ups_units w ! k)))) uid
           (read_response_pdu MODBUS_FUNC_READ_HOLDING_REGISTERS vs) @ later"
    and "length sts = 6"
  shows "\<exists>w' ctx'. ups_tcp_process_callback junk [] (Some c) w = Some (0, w')
    \<and> alarm_engine_run (Some (ups_alarm_ctx \<lparr>reg_uid = 1, reg_states = sts, reg_count = 6\<rparr> ups1_profile j))
        (aw\<lparr>aw_pool := uw_pool w'\<rparr>)
      = Some (ctx', fold (\<lambda>(e, v, kind). ups_alarm_manager_handle_event e v kind (Some j))
          (scan_events ups_alarm_table sts (\<lambda>a. if a < 22 then Some (vs ! unat a) else None))
          (aw\<lparr>aw_pool := uw_pool w'\<rparr>))"
proof -
  from ups1_poll_pool [OF assms(1-9)] obtain w' where
    w': "ups_tcp_process_callback junk [] (Some c) w = Some (0, w')"
      "\<forall>i<22. pool_read_by_device_addr (uw_pool w') (Some ups1_profile) (word_of_nat i) (Some 0) = Some (True, Some (vs ! i))"
    by blast
  have "ups1_reading (uw_pool w') a = (if a < 22 then Some (vs ! unat a) else None)" for a
  proof (cases "a < 22")
    case True
    then have "unat a < 22" by (simp add: word_less_nat_alt)
    from w'(2) [rule_format, OF this] True show ?thesis
      by (simp add: ups1_reading_def pool_read_reg_get [OF ups1_wf] ups1_reg_get)
  qed (simp add: ups1_reading_def)
  then have "ups1_reading (uw_pool w') = (\<lambda>a. if a < 22 then Some (vs ! unat a) else None)" by (rule ext)
  then show ?thesis
    using w'(1) ups1_alarm_scan [OF refl, of "\<lparr>reg_uid = 1, reg_states = sts, reg_count = 6\<rparr>" j "aw\<lparr>aw_pool := uw_pool w'\<rparr>"]
      assms(10) by simp
qed

theorem device_readings_reach_log_witness:
  "\<exists>w' ctx' aw'. ups_tcp_process_callback (replicate 260 0) [] (Some 0)
        (demo_connected (demo_net [Data [0, 7, 0], Data ([0, 0, 47, 1, 3, 44] @ regs_bytes (replicate 22 200))])) = Some (0, w')
    \<and> alarm_engine_run (Some (ups_alarm_ctx \<lparr>reg_uid = 1, reg_states = ups1_alarm_states, reg_count = 6\<rparr> ups1_profile 0))
        ((dm_manager demo_daemon)\<lparr>aw_pool := uw_pool w'\<rparr>) = Some (ctx', aw')"
proof -
  let ?vs = "replicate 22 200 :: u16 list"
  let ?w = "demo_connected (demo_net [Data [0, 7, 0], Data ([0, 0, 47, 1, 3, 44] @ regs_bytes ?vs)])"
  have len: "length ?vs = 22" by simp
  have w: "unit_wf ?w 0 0 ups1_profile ups1_mapping_table" "u_tcp (ups_units ?w ! 0) = demo_client"
      "queue_abs (cmd_queue (ups_units ?w ! 0)) = []" "net_send_rc (uw_net ?w) = []"
      "net_rx (uw_net ?w) = map Data [[0, 7, 0], [0, 0, 47, 1, 3, 44] @ regs_bytes ?vs] @ []"
    using demo_connected_wf queue_init_ok(2) by (simp_all add: demo_net_def)
  have r: "client_ready (u_tcp (ups_units ?w ! 0))" "length ups1_alarm_states = 6" "cl_tid (u_tcp (ups_units ?w ! 0)) = 6"
    by (simp_all add: demo_client_def client_ready_def ups1_alarm_states_def ups_alarm_table_def)
  from device_readings_reach_log [OF w(1) r(1) w(3) _ w(4) len w(5) _ _ r(2), of "replicate 260 0" 1 "[]" 0 "dm_manager demo_daemon"]
    demo_scan_reply [OF len] r(3)
  show ?thesis by fastforce
qed

section \<open>From the device to a subscriber\<close>

lemma ups1_poll_slots:
  assumes "pool_read_by_device_addr p (Some ups1_profile) (word_of_nat i) (Some 0) = Some (True, Some v)" and "i < 22"
  shows "p (0xBB00 + i) = v"
proof -
  have u: "unat (word_of_nat i :: u16) = i" using assms(2) by (simp add: unat_of_nat_small)
  then have "(word_of_nat i :: u16) < 22" using assms(2) by (simp add: word_less_nat_alt)
  then show ?thesis using assms(1) u by (simp add: pool_read_reg_get [OF ups1_wf] ups1_reg_get)
qed

text \<open>
  C5: device readings reach a subscriber. If unit 1 is connected with nothing queued and the device
  answers the scan with 22 register values, in any chunking of the stream, then the next pass of the
  publisher thread, its sends completing, puts on the connection of every subscriber a stream from which a
  subscription to one of the six status keys, receiving it in any chunks, makes for each
  configured module exactly one callback, and its argument, read back as a C number, is the value the
  device sent for that key's register.
\<close>

theorem device_readings_reach_subscriber:
  assumes "unit_wf w k c ups1_profile ups1_mapping_table" and "client_ready (u_tcp (ups_units w ! k))"
    and "queue_abs (cmd_queue (ups_units w ! k)) = []" and "length junk = 260"
    and "net_send_rc (uw_net w) = []" and "length vs = 22"
    and "net_rx (uw_net w) = map Data chunks @ tail_rx" and "[] \<notin> set chunks"
    and "concat chunks = adu (bump_tid (cl_tid (u_tcp (ups_units w ! k)))) uid
           (read_response_pdu MODBUS_FUNC_READ_HOLDING_REGISTERS vs) @ later"
    and "pub_inv p" and "balanced (p, io)" and "length msg_junk = 896" and "n_ups \<le> length (uw_cfgs w)"
    and "cmos_pub_poll ready a (p, io) = Some (p0, io0)" and "io_send_rc io0 = []"
    and "fd \<in> set (subs p0)" and "distinct (subs p0)" and "plain (cstr (pub_topic p))"
    and "sub_good (ctx, sub_io)" and "i < 512" and "pc_active (pub_conns ctx ! i)" and "pc_rx (pub_conns ctx ! i) = []"
    and "pc_sub_slot (pub_conns ctx ! i) = int j" and "j < sub_slot_count ctx" and "r < 6"
    and "status_slot (cstr (pub_topic p)) [] (status_key r) cb (sub_slots ctx ! j)"
  shows "\<exists>w' s' wire arg. ups_tcp_process_callback junk [] (Some c) w = Some (0, w')
    \<and> pub_poll_iter msg_junk ready a (uw_cfgs w') n_ups (uw_pool w') (p, io) = Some s'
    \<and> io_wire (snd s') = io_wire io0 @ wire \<and> strtoul0 arg = unat (vs ! r)
    \<and> (\<forall>pieces. concat pieces = sent_to fd wire \<and> chunks_fit [] pieces \<longrightarrow>
        foldM handle_event (map (\<lambda>x. (i, Some x)) pieces) (ctx, sub_io)
          = Some (ctx, sub_io\<lparr>io_calls := io_calls sub_io @ replicate n_ups (cb, cstr (pub_topic p), arg)\<rparr>))"
proof -
  from ups1_poll_pool [OF assms(1-9)] obtain w' where
    w': "ups_tcp_process_callback junk [] (Some c) w = Some (0, w')"
      "\<forall>i<22. pool_read_by_device_addr (uw_pool w') (Some ups1_profile) (word_of_nat i) (Some 0) = Some (True, Some (vs ! i))"
    by blast
  have n: "n_ups \<le> length (uw_cfgs w')"
    using process_callback_frame [OF assms(1) w'(1)] assms(13) by (simp add: unit_frame_def)
  have v: "uw_pool w' (0xBB00 + r) = vs ! r"
    using ups1_poll_slots [of "uw_pool w'" r "vs ! r"] w'(2) assms(25) by simp
  from status_pass_received [OF assms(10-12) n assms(14-26), of "uw_pool w'", unfolded v in_any_state] w'(1)
  show ?thesis by blast
qed

theorem device_readings_reach_subscriber_witness:
  "\<exists>w' s' wire arg. ups_tcp_process_callback (replicate 260 0) [] (Some 0)
        (demo_connected (demo_net [Data [0, 7, 0], Data ([0, 0, 47, 1, 3, 44] @ regs_bytes (replicate 22 200))])) = Some (0, w')
    \<and> pub_poll_iter (replicate 896 (CHR 0x00)) 0 0 (uw_cfgs w') 1 (uw_pool w')
        (demo_pub, (demo_io [])\<lparr>io_fds := map Fd_open [4, 5, 6, 7, 8, 9]\<rparr>) = Some s'
    \<and> io_wire (snd s') = wire \<and> strtoul0 arg = 200
    \<and> (\<forall>pieces. concat pieces = sent_to 8 wire \<and> chunks_fit [] pieces \<longrightarrow>
        foldM handle_event (map (\<lambda>x. (0, Some x)) pieces) (demo_status_sub [], demo_sub_fds)
          = Some (demo_status_sub [], demo_sub_fds\<lparr>io_calls := [(9, ''ups'', arg)]\<rparr>))"
proof -
  let ?vs = "replicate 22 200 :: u16 list"
  let ?w = "demo_connected (demo_net [Data [0, 7, 0], Data ([0, 0, 47, 1, 3, 44] @ regs_bytes ?vs)])"
  let ?io = "(demo_io [])\<lparr>io_fds := map Fd_open [4, 5, 6, 7, 8, 9]\<rparr>"
  have len: "length ?vs = 22" by simp
  have w: "unit_wf ?w 0 0 ups1_profile ups1_mapping_table" "u_tcp (ups_units ?w ! 0) = demo_client"
      "queue_abs (cmd_queue (ups_units ?w ! 0)) = []" "net_send_rc (uw_net ?w) = []"
      "net_rx (uw_net ?w) = map Data [[0, 7, 0], [0, 0, 47, 1, 3, 44] @ regs_bytes ?vs] @ []" "1 \<le> length (uw_cfgs ?w)"
    using demo_connected_wf queue_init_ok(2) by (simp_all add: demo_net_def) (simp add: demo_connected_def demo_world_def)
  have r: "client_ready (u_tcp (ups_units ?w ! 0))" "cl_tid (u_tcp (ups_units ?w ! 0)) = 6"
    by (simp_all add: demo_client_def client_ready_def)
  have b: "balanced (demo_pub, ?io)"
    using demo_pub_ok(2) by (simp add: balanced_def pub_fds_def) (simp add: demo_pub_def)
  have poll: "cmos_pub_poll 0 0 (demo_pub, ?io) = Some (demo_pub, ?io)" by (simp add: cmos_pub_poll_def)
  have nil: "length [] < (32 :: nat)" "CHR 0x00 \<notin> set []" by simp_all
  have topic: "plain (cstr (pub_topic demo_pub))"
      "status_slot (cstr (pub_topic demo_pub)) [] (status_key 4) 9 (sub_slots (demo_status_sub []) ! 0)"
    using demo_status_slot_ok [OF nil] unfolding demo_pub_ok(3) by (simp_all add: plain_def)
  from device_readings_reach_subscriber [OF w(1) r(1) w(3) _ w(4) len w(5) _ _ demo_pub_ok(1) b _ w(6) poll _ _ _ topic(1)
      demo_status_good [OF nil] _ _ _ _ _ _ topic(2), of "replicate 260 0" 1 "[]" "replicate 896 (CHR 0x00)" 8 0]
    demo_status_conn [of "[]"]
  show ?thesis using demo_scan_reply [OF len] r(2) demo_pub_ok
    by (fastforce simp: demo_conn_def demo_io_def demo_sub_fds_def)
qed

end
